(* ===== verification/Raft_Prelude.thy ===== *)
theory Raft_Prelude
  imports Main "HOL-Library.Word" "HOL-Library.Monad_Syntax" "HOL-Library.AList"
begin

text \<open>
  Shared vocabulary of the development: the machine integers, the Rust result type, hash maps and
  the few facts on words, lists and association lists that every component uses.

  \<^item> A \<open>u64\<close> is a \<open>64 word\<close>. Its \<open>+\<close> and \<open>-\<close> wrap around, as
    they do in the release profile the repository builds and deploys (Dockerfile, README); a
    \<open>usize\<close> that is only ever a length is a \<open>nat\<close>.
  \<^item> \<open>Result<T, E>\<close> is the sum \<open>'e + 'a\<close>, written with \<open>Ok\<close> and \<open>Err\<close>.
  \<^item> An operation that may panic (\<open>expect\<close>, \<open>unwrap\<close>, \<open>panic!\<close>) returns an
    option; \<open>None\<close> is the panic.
  \<^item> A \<open>HashMap\<close> is an association list with distinct keys; every use in the program is
    independent of the iteration order unless an enumeration is passed explicitly.
  \<^item> \<open>Instant\<close> and \<open>Duration\<close> are numbers of milliseconds; the current time is an
    argument of the operations that read the clock.
\<close>

section \<open>Types\<close>

type_synonym u64 = "64 word"
type_synonym u32 = "32 word"
type_synonym byte = "8 word"
type_synonym instant = nat
type_synonym duration = nat

type_synonym ('a, 'e) result = "'e + 'a"

abbreviation Ok :: "'a \<Rightarrow> ('a, 'e) result" where
  "Ok \<equiv> Inr"

abbreviation Err :: "'e \<Rightarrow> ('a, 'e) result" where
  "Err \<equiv> Inl"

type_synonym ('k, 'v) hashmap = "('k \<times> 'v) list"

abbreviation hm_get :: "('k, 'v) hashmap \<Rightarrow> 'k \<Rightarrow> 'v option" where
  "hm_get \<equiv> map_of"

abbreviation hm_insert :: "'k \<Rightarrow> 'v \<Rightarrow> ('k, 'v) hashmap \<Rightarrow> ('k, 'v) hashmap" where
  "hm_insert \<equiv> AList.update"

abbreviation hm_remove :: "'k \<Rightarrow> ('k, 'v) hashmap \<Rightarrow> ('k, 'v) hashmap" where
  "hm_remove \<equiv> AList.delete"

text \<open>\<open>HashMap::get(k).copied().unwrap_or(d)\<close>.\<close>

definition hm_get_or :: "('k, 'v) hashmap \<Rightarrow> 'k \<Rightarrow> 'v \<Rightarrow> 'v" where
  "hm_get_or m k d = (case hm_get m k of Some v \<Rightarrow> v | None \<Rightarrow> d)"

text \<open>\<open>Result::expect\<close>: an error is a panic.\<close>

definition expect :: "('a, 'e) result \<Rightarrow> 'a option" where
  "expect r = (case r of Err _ \<Rightarrow> None | Ok x \<Rightarrow> Some x)"

text \<open>\<open>u64::saturating_sub\<close>.\<close>

definition saturating_sub :: "u64 \<Rightarrow> u64 \<Rightarrow> u64" where
  "saturating_sub a b = (if a < b then 0 else a - b)"

text \<open>The number of \<open>u64\<close> values; kept folded so that arithmetic stays readable.\<close>

definition u64_bound :: nat where
  "u64_bound = 2 ^ 64"

text \<open>The collections of facts the component proofs pass to the simplifier.\<close>

named_theorems raft_frame \<open>fields an operation leaves unchanged\<close>
named_theorems raft_defs \<open>defining equations of the primitive state updates\<close>

section \<open>Results and options\<close>

lemma expect_simps [simp]: "expect (Ok x) = Some x" "expect (Err e) = None"
  by (simp_all add: expect_def)

lemma expect_eq_Some [simp]: "expect r = Some x \<longleftrightarrow> r = Ok x"
  by (cases r) simp_all

lemma expect_eq_None [simp]: "expect r = None \<longleftrightarrow> (\<exists>e. r = Err e)"
  by (cases r) simp_all

section \<open>Words\<close>

lemma unat_lt_u64 [simp]: "unat (x :: u64) < u64_bound"
  using unsigned_less [of x, where ?'a = nat] by (simp add: u64_bound_def)

lemma u64_succ:
  fixes x :: u64
  assumes "unat x + 1 < u64_bound"
  shows "unat (x + 1) = unat x + 1"
proof -
  have "unat (x + 1) = (unat x + unat (1 :: u64)) mod 2 ^ 64"
    by (simp add: unat_word_ariths)
  then show ?thesis using assms by (simp add: u64_bound_def)
qed

lemma u64_succ_less:
  fixes x y :: u64
  assumes "x < y"
  shows "unat (x + 1) = unat x + 1"
proof -
  from assms have "unat x < unat y" by (simp add: word_less_nat_alt)
  with unat_lt_u64 [of y] have "unat x + 1 < u64_bound" by linarith
  then show ?thesis by (rule u64_succ)
qed

lemma u64_succ_neq_max:
  fixes x :: u64
  assumes "x \<noteq> -1"
  shows "unat (x + 1) = unat x + 1"
  by (rule u64_succ_less [of x "-1"]) (use assms in \<open>simp add: word_order.not_eq_extremum\<close>)

lemma u64_sub:
  fixes x y :: u64
  assumes "y \<le> x"
  shows "unat (x - y) = unat x - unat y"
  using assms by (simp add: unat_sub)

lemma u64_pred:
  fixes x :: u64
  assumes "0 < x"
  shows "unat (x - 1) = unat x - 1"
proof -
  from assms have "1 \<le> x" by (simp add: word_le_nat_alt word_less_nat_alt)
  then show ?thesis by (simp add: u64_sub)
qed

text \<open>The position of log index \<open>i\<close> behind a snapshot that ends at index \<open>s\<close>.\<close>

lemma u64_offset:
  fixes i s :: u64
  assumes "s < i"
  shows "unat (i - s - 1) = unat i - unat s - 1"
proof -
  have "unat (i - s) = unat i - unat s"
    using assms by (intro u64_sub) simp
  moreover have "0 < i - s"
    using assms by (simp add: word_neq_0_conv [symmetric])
  ultimately show ?thesis by (simp add: u64_pred)
qed

lemma saturating_sub_le: "saturating_sub a b \<le> a"
proof (cases "a < b")
  case False
  then have "unat (a - b) = unat a - unat b" by (intro u64_sub) simp
  with False show ?thesis by (simp add: saturating_sub_def word_le_nat_alt)
qed (simp add: saturating_sub_def)

section \<open>Hash maps\<close>

lemma hm_get_insert: "hm_get (hm_insert k v m) k' = (if k' = k then Some v else hm_get m k')"
  by (simp add: update_conv')

lemma hm_get_remove: "hm_get (hm_remove k m) k' = (if k' = k then None else hm_get m k')"
  by (simp add: delete_conv')

lemma hm_get_or_insert [simp]:
  "hm_get_or (hm_insert k v m) k' d = (if k' = k then v else hm_get_or m k' d)"
  by (simp add: hm_get_or_def hm_get_insert)

lemma hm_keys_insert: "fst ` set (hm_insert k v m) = insert k (fst ` set m)"
  by (simp add: dom_update)

section \<open>Lists\<close>

lemma nth_take_prefix: "take n xs = take n ys \<Longrightarrow> i < n \<Longrightarrow> xs ! i = ys ! i"
  by (metis nth_take)

lemma take_Suc_snoc: "n < length xs \<Longrightarrow> take (Suc n) xs = take n xs @ [xs ! n]"
  by (rule take_Suc_conv_app_nth)

end
