(* ===== verification/Raft_Types.thy ===== *)
theory Raft_Types
  imports Raft_Prelude
begin

text \<open>
  The data that the components exchange: log entries, the arguments and results of the three Raft
  RPCs, snapshots, and the two traits (\<open>Storage\<close>, \<open>Snapshotable\<close>) behind which the core sees
  its persistent storage and its state machine. A boxed trait object is a pair of a value and its
  method table; the value lives in the core's state and the method table is a record passed to the
  operations (\<open>storage_ops\<close>, \<open>sm_ops\<close>). Field names carry a short prefix where the source
  uses one name in several structs.
\<close>

section \<open>raft\_core.rs: states, entries and RPC payloads\<close>

definition NOOP_COMMAND :: string where
  "NOOP_COMMAND = ''NOOP''"

datatype raft_state = Follower | Candidate | Leader

record log_entry =
  le_term :: u64
  le_index :: u64
  le_command :: string

record request_vote_args =
  rv_term :: u64
  rv_candidate_id :: u64
  rv_last_log_index :: u64
  rv_last_log_term :: u64

record request_vote_result =
  rvr_term :: u64
  vote_granted :: bool

record append_entries_args =
  ae_term :: u64
  ae_leader_id :: u64
  prev_log_index :: u64
  prev_log_term :: u64
  ae_entries :: "log_entry list"
  leader_commit :: u64

record append_entries_result =
  aer_term :: u64
  aer_success :: bool
  conflict_term :: "u64 option"
  conflict_index :: "u64 option"

record handle_append_entries_output =
  hae_result :: append_entries_result
  hae_leader_id :: "u64 option"

record install_snapshot_args =
  is_term :: u64
  is_leader_id :: u64
  is_last_included_index :: u64
  is_last_included_term :: u64
  is_data :: "byte list"

datatype install_snapshot_result =
    IS_Success u64
  | IS_Failed u64 string

section \<open>snapshot.rs\<close>

record snapshot_metadata =
  last_included_index :: u64
  last_included_term :: u64

record snapshot =
  metadata :: snapshot_metadata
  snapshot_data :: "byte list"

section \<open>storage/traits.rs\<close>

datatype storage_error = Io string | Corruption string | NotInitialized

text \<open>\<open>impl Display for StorageError\<close>.\<close>

definition show_storage_error :: "storage_error \<Rightarrow> string" where
  "show_storage_error e =
     (case e of
        Io msg \<Rightarrow> ''I/O error: '' @ msg
      | Corruption msg \<Rightarrow> ''Data corruption: '' @ msg
      | NotInitialized \<Rightarrow> ''Storage not initialized'')"

text \<open>
  \<open>trait Storage\<close>: a method with \<open>&mut self\<close> returns the new value of the storage, also when it
  fails: what a failed write left behind is what the caller that goes on after the error has.
\<close>

type_synonym 's stored = "('s, storage_error \<times> 's) result"

record 's storage_ops =
  load_term :: "'s \<Rightarrow> (u64, storage_error) result"
  save_term :: "'s \<Rightarrow> u64 \<Rightarrow> 's stored"
  load_voted_for :: "'s \<Rightarrow> (u64 option, storage_error) result"
  save_voted_for :: "'s \<Rightarrow> u64 option \<Rightarrow> 's stored"
  load_log :: "'s \<Rightarrow> (log_entry list, storage_error) result"
  append_log_entries :: "'s \<Rightarrow> log_entry list \<Rightarrow> 's stored"
  truncate_log :: "'s \<Rightarrow> u64 \<Rightarrow> 's stored"
  compact_log :: "'s \<Rightarrow> u64 \<Rightarrow> 's stored"
  st_load_snapshot :: "'s \<Rightarrow> (snapshot option, storage_error) result"
  save_snapshot :: "'s \<Rightarrow> snapshot \<Rightarrow> 's stored"

section \<open>state\_machine/traits.rs\<close>

type_synonym apply_result = "(string, string) result"

text \<open>\<open>trait StateMachine\<close> and \<open>trait Snapshotable\<close>, one method table.\<close>

record 'm sm_ops =
  sm_validate :: "'m \<Rightarrow> string \<Rightarrow> (unit, string) result"
  sm_apply :: "'m \<Rightarrow> string \<Rightarrow> 'm \<times> apply_result"
  sm_snapshot :: "'m \<Rightarrow> (byte list, string) result"
  sm_restore :: "'m \<Rightarrow> byte list \<Rightarrow> ('m, string) result"

section \<open>transport/traits.rs\<close>

datatype transport_error = ConnectionFailed | Timeout | NodeNotFound

section \<open>Contiguous logs\<close>

text \<open>
  \<open>log_from s es\<close>: the entries \<open>es\<close> carry the indices \<open>s + 1\<close>, \<open>s + 2\<close>, ... without a gap
  and without overflow. This is what the code assumes of its log behind a snapshot that ends at \<open>s\<close>.
\<close>

definition log_from :: "u64 \<Rightarrow> log_entry list \<Rightarrow> bool" where
  "log_from s es \<longleftrightarrow>
     unat s + length es < u64_bound \<and> (\<forall>i < length es. unat (le_index (es ! i)) = unat s + 1 + i)"

lemma log_from_Nil [simp]: "log_from s []"
  by (simp add: log_from_def unat_lt_u64)

lemma log_from_bound: "log_from s es \<Longrightarrow> unat s + length es < u64_bound"
  by (simp add: log_from_def)

lemma log_from_nth: "log_from s es \<Longrightarrow> i < length es \<Longrightarrow> unat (le_index (es ! i)) = unat s + 1 + i"
  by (simp add: log_from_def)

lemma log_from_take: "log_from s es \<Longrightarrow> log_from s (take n es)"
  by (auto simp: log_from_def)

lemma log_from_last:
  assumes "log_from s es" "es \<noteq> []"
  shows "unat (le_index (last es)) = unat s + length es"
proof -
  have "last es = es ! (length es - 1)" using assms(2) by (rule last_conv_nth)
  moreover have "length es - 1 < length es" using assms(2) by simp
  ultimately show ?thesis using log_from_nth [OF assms(1)] by simp
qed

lemma log_from_append1:
  assumes "log_from s es"
  shows "log_from s (es @ [e]) \<longleftrightarrow>
    unat (le_index e) = unat s + length es + 1 \<and> unat s + length es + 1 < u64_bound"
proof
  assume h: "log_from s (es @ [e])"
  show "unat (le_index e) = unat s + length es + 1 \<and> unat s + length es + 1 < u64_bound"
    using log_from_nth [OF h, of "length es"] log_from_bound [OF h] by simp
next
  assume h: "unat (le_index e) = unat s + length es + 1 \<and> unat s + length es + 1 < u64_bound"
  then show "log_from s (es @ [e])"
    using assms by (simp add: log_from_def nth_append less_Suc_eq)
qed

lemma log_from_append:
  assumes "log_from s xs" "log_from n ys" "unat n = unat s + length xs"
  shows "log_from s (xs @ ys)"
  unfolding log_from_def
proof (intro conjI allI impI)
  show "unat s + length (xs @ ys) < u64_bound"
    using log_from_bound [OF assms(2)] assms(3) by simp
next
  fix i assume i: "i < length (xs @ ys)"
  show "unat (le_index ((xs @ ys) ! i)) = unat s + 1 + i"
  proof (cases "i < length xs")
    case True
    then show ?thesis using log_from_nth [OF assms(1) True] by (simp add: nth_append)
  next
    case False
    with i have "i - length xs < length ys" by auto
    from log_from_nth [OF assms(2) this] False assms(3) show ?thesis by (simp add: nth_append)
  qed
qed

text \<open>Dropping the entries that a newer snapshot covers keeps the log contiguous.\<close>

lemma filter_log_from:
  assumes "log_from s es" "unat s \<le> unat n" "unat n \<le> unat s + length es"
  shows "filter (\<lambda>e. n < le_index e) es = drop (unat n - unat s) es"
proof -
  let ?k = "unat n - unat s"
  have "filter (\<lambda>e. n < le_index e) (take ?k es) = []"
  proof -
    have "\<not> n < le_index e" if "e \<in> set (take ?k es)" for e
    proof -
      from that obtain i where "i < length es" "i < ?k" "e = es ! i"
        by (auto simp: in_set_conv_nth)
      then show ?thesis using log_from_nth [OF assms(1), of i] by (simp add: word_less_nat_alt)
    qed
    then show ?thesis by (simp add: filter_empty_conv)
  qed
  moreover have "filter (\<lambda>e. n < le_index e) (drop ?k es) = drop ?k es"
  proof -
    have "n < le_index e" if "e \<in> set (drop ?k es)" for e
    proof -
      from that obtain i where i: "i < length es - ?k" "e = es ! (?k + i)"
        by (auto simp: in_set_conv_nth)
      then have "unat (le_index e) = unat s + 1 + (?k + i)"
        using log_from_nth [OF assms(1), of "?k + i"] by simp
      then show ?thesis using assms(2) by (simp add: word_less_nat_alt)
    qed
    then show ?thesis by (simp add: filter_id_conv)
  qed
  ultimately have "filter (\<lambda>e. n < le_index e) (take ?k es @ drop ?k es) = drop ?k es"
    unfolding filter_append by simp
  then show ?thesis by (simp only: append_take_drop_id)
qed

lemma log_from_drop:
  assumes "log_from s es" "unat s \<le> unat n" "unat n \<le> unat s + length es"
  shows "log_from n (drop (unat n - unat s) es)"
  using assms log_from_bound [OF assms(1)] log_from_nth [OF assms(1)] by (simp add: log_from_def)

lemma filter_log_from_beyond:
  assumes "log_from s es" "unat s + length es \<le> unat n"
  shows "filter (\<lambda>e. n < le_index e) es = []"
proof -
  have "\<not> n < le_index e" if "e \<in> set es" for e
  proof -
    from that obtain i where "i < length es" "e = es ! i" by (auto simp: in_set_conv_nth)
    then show ?thesis using assms log_from_nth [OF assms(1), of i] by (simp add: word_less_nat_alt)
  qed
  then show ?thesis by (simp add: filter_empty_conv)
qed

lemma log_from_filter:
  assumes "log_from s es" "s \<le> n"
  shows "log_from n (filter (\<lambda>e. n < le_index e) es)"
proof (cases "unat n \<le> unat s + length es")
  case True
  moreover have "unat s \<le> unat n" using assms(2) by (simp add: word_le_nat_alt)
  ultimately show ?thesis
    using filter_log_from [OF assms(1)] log_from_drop [OF assms(1)] by metis
next
  case False
  then show ?thesis using filter_log_from_beyond [OF assms(1), of n] by simp
qed

lemma log_from_unique:
  assumes "log_from s es" "i < length es" "j < length es" "le_index (es ! i) = le_index (es ! j)"
  shows "i = j"
proof -
  have "unat s + 1 + i = unat s + 1 + j"
    using log_from_nth [OF assms(1,2)] log_from_nth [OF assms(1,3)] assms(4) by metis
  then show ?thesis by linarith
qed

end
