(* ===== verification/Rust_Strings.thy ===== *)
theory Rust_Strings
  imports Raft_Prelude
begin

text \<open>
  The parts of \<open>std::string\<close>, \<open>str\<close> and \<open>fmt\<close> that the program uses: decimal display and
  parsing of \<open>u64\<close>, the eight-digit hexadecimal display of a \<open>u32\<close> and its parsing, splitting
  and trimming. A Rust string is a list of bytes (\<open>char\<close>), in UTF-8; all the separators are ASCII.
\<close>

section \<open>Digits\<close>

definition digit_char :: "nat \<Rightarrow> char" where
  "digit_char d = char_of (48 + d)"

definition digit_val :: "char \<Rightarrow> nat option" where
  "digit_val c = (let n = of_char c in if 48 \<le> n \<and> n \<le> (57 :: nat) then Some (n - 48) else None)"

fun show_nat :: "nat \<Rightarrow> string" where
  "show_nat n = (if n < 10 then [digit_char n] else show_nat (n div 10) @ [digit_char (n mod 10)])"

declare show_nat.simps [simp del]

definition show_u64 :: "u64 \<Rightarrow> string" where
  "show_u64 x = show_nat (unat x)"

section \<open>Splitting\<close>

text \<open>\<open>str::splitn(n, sep)\<close>: at most \<open>n\<close> pieces, the last one holds the rest.\<close>

fun splitn :: "nat \<Rightarrow> char \<Rightarrow> string \<Rightarrow> string list" where
  "splitn 0 sep s = []"
| "splitn (Suc 0) sep s = [s]"
| "splitn (Suc (Suc n)) sep s =
     (if sep \<in> set s
      then takeWhile (\<lambda>c. c \<noteq> sep) s # splitn (Suc n) sep (tl (dropWhile (\<lambda>c. c \<noteq> sep) s))
      else [s])"

lemma takeWhile_sep: "sep \<notin> set a \<Longrightarrow> takeWhile (\<lambda>c. c \<noteq> sep) (a @ sep # b) = a"
  by (induction a) auto

lemma dropWhile_sep: "sep \<notin> set a \<Longrightarrow> dropWhile (\<lambda>c. c \<noteq> sep) (a @ sep # b) = sep # b"
  by (induction a) auto

lemma splitn_sep:
  "sep \<notin> set a \<Longrightarrow> splitn (Suc (Suc n)) sep (a @ sep # b) = a # splitn (Suc n) sep b"
  by (simp add: takeWhile_sep dropWhile_sep)

lemma splitn_no_sep: "sep \<notin> set s \<Longrightarrow> splitn (Suc n) sep s = [s]"
  by (cases n) simp_all

text \<open>Every piece but the last is free of the separator, and joining the pieces gives the string.\<close>

fun join_with :: "char \<Rightarrow> string list \<Rightarrow> string" where
  "join_with sep [] = []"
| "join_with sep [x] = x"
| "join_with sep (x # y # zs) = x @ sep # join_with sep (y # zs)"

lemma splitn_nonempty: "splitn (Suc n) sep s \<noteq> []"
  by (cases n) simp_all

lemma join_splitn: "join_with sep (splitn (Suc n) sep s) = s"
proof (induction n arbitrary: s)
  case 0
  show ?case by simp
next
  case (Suc n)
  show ?case
  proof (cases "sep \<in> set s")
    case True
    let ?d = "dropWhile (\<lambda>c. c \<noteq> sep) s"
    from True have ne: "?d \<noteq> []" by (auto simp: dropWhile_eq_Nil_conv)
    then have d: "?d \<noteq> []" "hd ?d = sep" using hd_dropWhile [OF ne] by simp_all
    obtain y ys where y: "splitn (Suc n) sep (tl ?d) = y # ys"
      using splitn_nonempty by (metis list.exhaust)
    have "join_with sep (splitn (Suc (Suc n)) sep s)
        = takeWhile (\<lambda>c. c \<noteq> sep) s @ sep # join_with sep (y # ys)"
      using True y by simp
    also have "join_with sep (y # ys) = tl ?d" using Suc.IH [of "tl ?d"] y by simp
    also have "sep # tl ?d = ?d" using d by (cases ?d) auto
    finally show ?thesis by simp
  next
    case False
    then show ?thesis by simp
  qed
qed

section \<open>Numbers\<close>

lemma digit_val_char: "d < 10 \<Longrightarrow> digit_val (digit_char d) = Some d"
  by (simp add: digit_val_def digit_char_def)

text \<open>
  \<open>str::parse::<u64>\<close>: an optional plus sign, at least one digit, no overflow; the error is the text of
  \<open>ParseIntError\<close>.
\<close>

definition strip_plus :: "string \<Rightarrow> string" where
  "strip_plus s = (case s of [] \<Rightarrow> [] | c # cs \<Rightarrow> if c = CHR ''+'' \<and> cs \<noteq> [] then cs else s)"

fun parse_digits :: "(char \<Rightarrow> nat option) \<Rightarrow> nat \<Rightarrow> nat \<Rightarrow> nat \<Rightarrow> string \<Rightarrow> (nat, string) result" where
  "parse_digits val radix bound acc [] = Ok acc"
| "parse_digits val radix bound acc (c # cs) =
     (case val c of
        None \<Rightarrow> Err ''invalid digit found in string''
      | Some d \<Rightarrow>
          if radix * acc + d < bound then parse_digits val radix bound (radix * acc + d) cs
          else Err ''number too large to fit in target type'')"

definition parse_u64 :: "string \<Rightarrow> (u64, string) result" where
  "parse_u64 s =
     (if s = [] then Err ''cannot parse integer from empty string''
      else case parse_digits digit_val 10 (2 ^ 64) 0 (strip_plus s) of
             Ok n \<Rightarrow> Ok (of_nat n)
           | Err e \<Rightarrow> Err e)"

text \<open>Eight lowercase hexadecimal digits, \<open>{:08x}\<close>, and \<open>u32::from_str_radix(_, 16)\<close>.\<close>

definition hex_char :: "nat \<Rightarrow> char" where
  "hex_char d = (if d < 10 then digit_char d else char_of (87 + d))"

definition hex_val :: "char \<Rightarrow> nat option" where
  "hex_val c =
     (let n = of_char c
      in if 48 \<le> n \<and> n \<le> (57 :: nat) then Some (n - 48)
         else if 97 \<le> n \<and> n \<le> 102 then Some (n - 87)
         else if 65 \<le> n \<and> n \<le> 70 then Some (n - 55) else None)"

fun hex_digits :: "nat \<Rightarrow> nat \<Rightarrow> string" where
  "hex_digits 0 n = []"
| "hex_digits (Suc k) n = hex_digits k (n div 16) @ [hex_char (n mod 16)]"

definition show_hex8 :: "u32 \<Rightarrow> string" where
  "show_hex8 w = hex_digits 8 (unat w)"

definition parse_hex32 :: "string \<Rightarrow> u32 option" where
  "parse_hex32 s =
     (if s = [] then None
      else case parse_digits hex_val 16 (2 ^ 32) 0 (strip_plus s) of Ok n \<Rightarrow> Some (of_nat n) | Err e \<Rightarrow> None)"

lemma parse_digits_append:
  "parse_digits val r b acc (xs @ ys) =
     (case parse_digits val r b acc xs of Ok n \<Rightarrow> parse_digits val r b n ys | Err e \<Rightarrow> Err e)"
  by (induction val r b acc xs rule: parse_digits.induct) (simp_all split: option.split)

lemma show_nat_digits: "set (show_nat n) \<subseteq> digit_char ` {0..9}"
proof (induction n rule: show_nat.induct)
  case (1 n)
  show ?case
  proof (cases "n < 10")
    case True
    then show ?thesis by (auto simp: show_nat.simps [of n])
  next
    case False
    have "n mod 10 \<le> 9" by (simp add: less_Suc_eq_le [symmetric])
    with 1 [OF False] False show ?thesis by (auto simp: show_nat.simps [of n])
  qed
qed

lemma show_nat_nonempty [simp]: "show_nat n \<noteq> []"
  by (simp add: show_nat.simps [of n])

lemma parse_show_nat: "n < b \<Longrightarrow> parse_digits digit_val 10 b 0 (show_nat n) = Ok n"
proof (induction n rule: show_nat.induct)
  case (1 n)
  show ?case
  proof (cases "n < 10")
    case True
    then show ?thesis using 1(2) by (simp add: show_nat.simps [of n] digit_val_char)
  next
    case False
    have "n div 10 < b" using 1(2) by (simp add: less_imp_diff_less order_le_less_trans [OF div_le_dividend])
    then show ?thesis
      using 1(1) [OF False] False 1(2) by (simp add: show_nat.simps [of n] parse_digits_append digit_val_char)
  qed
qed

lemma digit_char_neq:
  assumes "d \<le> 9"
  shows "digit_char d \<noteq> CHR ''+''" "digit_char d \<noteq> CHR '' ''" "digit_char d \<noteq> CHR 0x0A" "digit_char d \<noteq> CHR ''n''"
proof -
  have "digit_val (digit_char d) = Some d" using assms by (intro digit_val_char) simp
  then show "digit_char d \<noteq> CHR ''+''" "digit_char d \<noteq> CHR '' ''" "digit_char d \<noteq> CHR 0x0A" "digit_char d \<noteq> CHR ''n''"
    by (auto simp: digit_val_def)
qed

lemma show_nat_no: "c \<in> set (show_nat n) \<Longrightarrow> c \<noteq> CHR ''+'' \<and> c \<noteq> CHR '' '' \<and> c \<noteq> CHR 0x0A \<and> c \<noteq> CHR ''n''"
proof -
  assume "c \<in> set (show_nat n)"
  then obtain d where "d \<le> 9" "c = digit_char d" using show_nat_digits [of n] by auto
  then show ?thesis using digit_char_neq [of d] by metis
qed

lemma strip_plus_id: "CHR ''+'' \<notin> set s \<Longrightarrow> strip_plus s = s"
  by (cases s) (auto simp: strip_plus_def)

lemma parse_show_u64: "parse_u64 (show_u64 x) = Ok x"
proof -
  have "strip_plus (show_nat (unat x)) = show_nat (unat x)"
    by (rule strip_plus_id) (use show_nat_no in blast)
  moreover have "unat x < 2 ^ 64" using unat_lt_u64 [of x] by (simp add: u64_bound_def)
  ultimately show ?thesis
    using parse_show_nat [of "unat x" "2 ^ 64"] by (simp add: parse_u64_def show_u64_def)
qed

lemma hex_val_char: "d < 16 \<Longrightarrow> hex_val (hex_char d) = Some d"
  by (auto simp: hex_val_def hex_char_def digit_char_def Let_def)

lemma parse_hex_digits:
  "n < 16 ^ k \<Longrightarrow> n < b \<Longrightarrow> parse_digits hex_val 16 b 0 (hex_digits k n) = Ok n"
proof (induction k arbitrary: n)
  case (Suc k)
  have "n div 16 < 16 ^ k" using Suc.prems(1) by (simp add: less_mult_imp_div_less)
  moreover have "n div 16 < b" using Suc.prems(2) by (simp add: order_le_less_trans [OF div_le_dividend])
  ultimately show ?case
    using Suc by (simp add: parse_digits_append hex_val_char)
qed simp

lemma hex_char_neq:
  assumes "d < 16"
  shows "hex_char d \<noteq> CHR ''+''" "hex_char d \<noteq> CHR '' ''" "hex_char d \<noteq> CHR 0x0A"
proof -
  have "hex_val (hex_char d) = Some d" using assms by (rule hex_val_char)
  then show "hex_char d \<noteq> CHR ''+''" "hex_char d \<noteq> CHR '' ''" "hex_char d \<noteq> CHR 0x0A"
    by (auto simp: hex_val_def)
qed

lemma hex_digits_no:
  "c \<in> set (hex_digits k n) \<Longrightarrow> c \<noteq> CHR ''+'' \<and> c \<noteq> CHR '' '' \<and> c \<noteq> CHR 0x0A"
  by (induction k arbitrary: n) (auto simp: hex_char_neq)

lemma hex_digits_length [simp]: "length (hex_digits k n) = k"
  by (induction k arbitrary: n) simp_all

lemma parse_show_hex8: "parse_hex32 (show_hex8 w) = Some w"
proof -
  have "strip_plus (hex_digits 8 (unat w)) = hex_digits 8 (unat w)"
    by (rule strip_plus_id) (use hex_digits_no in blast)
  moreover have "unat w < 2 ^ 32" using unsigned_less [of w, where ?'a = nat] by simp
  moreover from this have "parse_digits hex_val 16 (2 ^ 32) 0 (hex_digits 8 (unat w)) = Ok (unat w)"
    by (intro parse_hex_digits) simp_all
  moreover have "hex_digits 8 (unat w) \<noteq> []" by (metis hex_digits_length list.size(3) zero_neq_numeral)
  ultimately show ?thesis by (simp add: parse_hex32_def show_hex8_def)
qed

section \<open>UTF-8\<close>

text \<open>
  A Rust \<open>String\<close> holds UTF-8; bytes that come from a file are checked when they are read. The state of
  the check is the list of the ranges that the continuation bytes still to come must lie in.
\<close>

definition utf8_lead :: "nat \<Rightarrow> (nat \<times> nat) list option" where
  "utf8_lead n =
     (if n < 0x80 then Some []
      else if 0xC2 \<le> n \<and> n \<le> 0xDF then Some [(0x80, 0xBF)]
      else if n = 0xE0 then Some [(0xA0, 0xBF), (0x80, 0xBF)]
      else if n = 0xED then Some [(0x80, 0x9F), (0x80, 0xBF)]
      else if 0xE1 \<le> n \<and> n \<le> 0xEF then Some [(0x80, 0xBF), (0x80, 0xBF)]
      else if n = 0xF0 then Some [(0x90, 0xBF), (0x80, 0xBF), (0x80, 0xBF)]
      else if n = 0xF4 then Some [(0x80, 0x8F), (0x80, 0xBF), (0x80, 0xBF)]
      else if 0xF1 \<le> n \<and> n \<le> 0xF3 then Some [(0x80, 0xBF), (0x80, 0xBF), (0x80, 0xBF)]
      else None)"

fun utf8_from :: "(nat \<times> nat) list \<Rightarrow> string \<Rightarrow> bool" where
  "utf8_from [] [] \<longleftrightarrow> True"
| "utf8_from (p # ps) [] \<longleftrightarrow> False"
| "utf8_from (p # ps) (c # cs) \<longleftrightarrow> fst p \<le> of_char c \<and> of_char c \<le> snd p \<and> utf8_from ps cs"
| "utf8_from [] (c # cs) \<longleftrightarrow> (case utf8_lead (of_char c) of None \<Rightarrow> False | Some ps \<Rightarrow> utf8_from ps cs)"

definition valid_utf8 :: "string \<Rightarrow> bool" where
  "valid_utf8 s = utf8_from [] s"

definition invalid_utf8_error :: string where
  "invalid_utf8_error = ''stream did not contain valid UTF-8''"

definition is_ascii :: "char \<Rightarrow> bool" where
  "is_ascii c \<longleftrightarrow> of_char c < (0x80 :: nat)"

lemma utf8_from_append: "utf8_from ps a \<Longrightarrow> utf8_from ps (a @ b) \<longleftrightarrow> utf8_from [] b"
  by (induction ps a rule: utf8_from.induct) (auto split: option.splits)

lemma valid_utf8_append: "valid_utf8 a \<Longrightarrow> valid_utf8 (a @ b) \<longleftrightarrow> valid_utf8 b"
  unfolding valid_utf8_def by (rule utf8_from_append)

lemma valid_utf8_Cons: "is_ascii c \<Longrightarrow> valid_utf8 (c # cs) \<longleftrightarrow> valid_utf8 cs"
  by (simp add: valid_utf8_def is_ascii_def utf8_lead_def)

lemma valid_utf8_Nil [simp]: "valid_utf8 []"
  by (simp add: valid_utf8_def)

lemma ascii_valid_utf8: "\<forall>c \<in> set s. is_ascii c \<Longrightarrow> valid_utf8 s"
  by (induction s) (simp_all add: valid_utf8_Cons)

lemma is_ascii_digit: "d < 10 \<Longrightarrow> is_ascii (digit_char d)"
  by (simp add: is_ascii_def digit_char_def)

lemma is_ascii_hex: "d < 16 \<Longrightarrow> is_ascii (hex_char d)"
  by (simp add: is_ascii_def hex_char_def digit_char_def)

lemma hex_digits_ascii: "c \<in> set (hex_digits k n) \<Longrightarrow> is_ascii c"
  by (induction k arbitrary: n) (auto simp: is_ascii_hex)

lemma show_nat_ascii: "c \<in> set (show_nat n) \<Longrightarrow> is_ascii c"
  using show_nat_digits [of n] is_ascii_digit by fastforce

section \<open>Whitespace and lines\<close>

text \<open>
  \<open>str::trim\<close>: the characters with the property \<open>White_Space\<close>, by their bytes. \<open>space_len\<close> is the number of
  bytes of the white-space character a text starts with, \<open>space_len_rev\<close> the same at the end of a
  text that is given backwards.
\<close>

definition is_space :: "char \<Rightarrow> bool" where
  "is_space c \<longleftrightarrow> c \<in> {CHR '' '', CHR 0x09, CHR 0x0A, CHR 0x0B, CHR 0x0C, CHR 0x0D}"

definition wide_space :: "nat list \<Rightarrow> bool" where
  "wide_space bs \<longleftrightarrow>
     bs \<in> {[0xC2, 0x85], [0xC2, 0xA0], [0xE1, 0x9A, 0x80], [0xE2, 0x81, 0x9F], [0xE3, 0x80, 0x80]} \<or>
     (length bs = 3 \<and> hd bs = 0xE2 \<and> bs ! 1 = 0x80 \<and>
        (0x80 \<le> bs ! 2 \<and> bs ! 2 \<le> 0x8A \<or> bs ! 2 \<in> {0xA8, 0xA9, 0xAF}))"

definition space_len :: "string \<Rightarrow> nat" where
  "space_len s =
     (if s = [] then 0 else if is_space (hd s) then 1
      else if wide_space (map of_char (take 2 s)) then 2
      else if wide_space (map of_char (take 3 s)) then 3 else 0)"

definition space_len_rev :: "string \<Rightarrow> nat" where
  "space_len_rev s =
     (if s = [] then 0 else if is_space (hd s) then 1
      else if wide_space (map of_char (rev (take 2 s))) then 2
      else if wide_space (map of_char (rev (take 3 s))) then 3 else 0)"

function drop_spaces :: "(string \<Rightarrow> nat) \<Rightarrow> string \<Rightarrow> string" where
  "drop_spaces len s = (if s = [] \<or> len s = 0 then s else drop_spaces len (drop (len s) s))"
  by pat_completeness auto
termination
  by (relation "measure (\<lambda>(len, s). length s)") auto

declare drop_spaces.simps [simp del]

definition trim :: "string \<Rightarrow> string" where
  "trim s = rev (drop_spaces space_len_rev (rev (drop_spaces space_len s)))"

text \<open>A character that no white space starts or ends with.\<close>

definition plain_char :: "char \<Rightarrow> bool" where
  "plain_char c \<longleftrightarrow> is_ascii c \<and> \<not> is_space c"

lemma wide_space_ends: "wide_space bs \<Longrightarrow> 0x80 \<le> hd bs \<and> 0x80 \<le> last bs"
proof -
  assume w: "wide_space bs"
  have "last bs = bs ! 2" if "length bs = 3" for bs :: "nat list"
    using that by (cases bs rule: rev_cases) (auto simp: nth_append)
  then show ?thesis using w by (auto simp: wide_space_def)
qed

lemma plain_hd_space_len: "s \<noteq> [] \<Longrightarrow> plain_char (hd s) \<Longrightarrow> space_len s = 0"
proof -
  assume a: "s \<noteq> []" "plain_char (hd s)"
  have "\<not> wide_space (map of_char (take n s))" if "0 < n" for n
  proof
    assume "wide_space (map of_char (take n s))"
    from wide_space_ends [OF this] show False
      using a that by (cases s; cases n) (simp_all add: plain_char_def is_ascii_def)
  qed
  with a show ?thesis by (simp add: space_len_def plain_char_def)
qed

lemma plain_hd_space_len_rev: "s \<noteq> [] \<Longrightarrow> plain_char (hd s) \<Longrightarrow> space_len_rev s = 0"
proof -
  assume a: "s \<noteq> []" "plain_char (hd s)"
  have "\<not> wide_space (map of_char (rev (take n s)))" if "0 < n" for n
  proof
    assume "wide_space (map of_char (rev (take n s)))"
    from wide_space_ends [OF this] show False
      using a that by (cases s; cases n) (simp_all add: plain_char_def is_ascii_def)
  qed
  with a show ?thesis by (simp add: space_len_rev_def plain_char_def)
qed

lemma drop_spaces_stop: "len s = 0 \<Longrightarrow> drop_spaces len s = s"
  by (simp add: drop_spaces.simps)

lemma drop_spaces_Nil [simp]: "drop_spaces len [] = []"
  by (simp add: drop_spaces.simps)

lemma drop_spaces_rev_Cons: "is_space c \<Longrightarrow> drop_spaces space_len_rev (c # s) = drop_spaces space_len_rev s"
  by (simp add: drop_spaces.simps [of space_len_rev "c # s"] space_len_rev_def)

lemma trim_Nil [simp]: "trim [] = []"
  by (simp add: trim_def)

lemma trim_space:
  assumes "s \<noteq> []" "plain_char (hd s)" "plain_char (last s)"
  shows "is_space c \<Longrightarrow> trim (s @ [c]) = s" "trim s = s"
proof -
  have l: "drop_spaces space_len (s @ r) = s @ r" for r
    using assms(1,2) by (intro drop_spaces_stop plain_hd_space_len) simp_all
  have r: "drop_spaces space_len_rev (rev s) = rev s"
    using assms(1,3) by (intro drop_spaces_stop plain_hd_space_len_rev) (simp_all add: hd_rev)
  show "is_space c \<Longrightarrow> trim (s @ [c]) = s" using l r by (simp add: trim_def drop_spaces_rev_Cons)
  show "trim s = s" using l [of "[]"] r by (simp add: trim_def)
qed

lemma trim_line:
  assumes "s \<noteq> []" "plain_char (hd s)" "plain_char (last s)"
  shows "trim (s @ [CHR 0x0A]) = s" "trim s = s"
  using trim_space [OF assms] by (simp_all add: is_space_def)

text \<open>\<open>rsplitn(2, ' ')\<close> as a pair of the text before and after the last space; \<open>None\<close>: no space.\<close>

definition split_last :: "char \<Rightarrow> string \<Rightarrow> (string \<times> string) option" where
  "split_last sep s =
     (if sep \<in> set s
      then Some (rev (tl (dropWhile (\<lambda>c. c \<noteq> sep) (rev s))), rev (takeWhile (\<lambda>c. c \<noteq> sep) (rev s)))
      else None)"

lemma split_last_append: "sep \<notin> set b \<Longrightarrow> split_last sep (a @ sep # b) = Some (a, b)"
  by (simp add: split_last_def takeWhile_sep dropWhile_sep)

text \<open>\<open>BufRead::lines\<close>: split at line feeds, without a last empty line; a carriage return before it is cut.\<close>

definition strip_cr :: "string \<Rightarrow> string" where
  "strip_cr s = (if s \<noteq> [] \<and> last s = CHR 0x0D then butlast s else s)"

fun lines_from :: "string \<Rightarrow> string \<Rightarrow> string list" where
  "lines_from cur [] = (if cur = [] then [] else [rev cur])"
| "lines_from cur (c # cs) =
     (if c = CHR 0x0A then strip_cr (rev cur) # lines_from [] cs else lines_from (c # cur) cs)"

definition lines :: "string \<Rightarrow> string list" where
  "lines s = lines_from [] s"

lemma lines_from_line: "CHR 0x0A \<notin> set l \<Longrightarrow>
    lines_from cur (l @ CHR 0x0A # rest) = strip_cr (rev cur @ l) # lines_from [] rest"
  by (induction l arbitrary: cur) auto

lemma lines_cons: "CHR 0x0A \<notin> set l \<Longrightarrow> lines (l @ CHR 0x0A # rest) = strip_cr l # lines rest"
  by (simp add: lines_def lines_from_line)

section \<open>Debug output\<close>

text \<open>\<open>{:?}\<close> of a string and of an optional string.\<close>

definition escape_debug :: "char \<Rightarrow> string" where
  "escape_debug c =
     (if c = CHR 0x22 then [CHR 0x5C, CHR 0x22] else if c = CHR 0x5C then [CHR 0x5C, CHR 0x5C]
      else if c = CHR 0x0A then [CHR 0x5C, CHR ''n''] else if c = CHR 0x0D then [CHR 0x5C, CHR ''r'']
      else if c = CHR 0x09 then [CHR 0x5C, CHR ''t''] else [c])"

definition debug_string :: "string \<Rightarrow> string" where
  "debug_string s = CHR 0x22 # concat (map escape_debug s) @ [CHR 0x22]"

definition debug_option :: "string option \<Rightarrow> string" where
  "debug_option v = (case v of None \<Rightarrow> ''None'' | Some s \<Rightarrow> ''Some('' @ debug_string s @ '')'')"

definition debug_u64_option :: "u64 option \<Rightarrow> string" where
  "debug_u64_option v = (case v of None \<Rightarrow> ''None'' | Some x \<Rightarrow> ''Some('' @ show_u64 x @ '')'')"

section \<open>Splitting at every separator\<close>

text \<open>\<open>str::split(sep)\<close>.\<close>

fun split_from :: "char \<Rightarrow> string \<Rightarrow> string \<Rightarrow> string list" where
  "split_from sep cur [] = [rev cur]"
| "split_from sep cur (c # cs) =
     (if c = sep then rev cur # split_from sep [] cs else split_from sep (c # cur) cs)"

definition split_on :: "char \<Rightarrow> string \<Rightarrow> string list" where
  "split_on sep s = split_from sep [] s"

lemma split_from_sep:
  "sep \<notin> set a \<Longrightarrow> split_from sep cur (a @ sep # b) = (rev cur @ a) # split_from sep [] b"
  by (induction a arbitrary: cur) auto

lemma split_from_none: "sep \<notin> set a \<Longrightarrow> split_from sep cur a = [rev cur @ a]"
  by (induction a arbitrary: cur) auto

lemma split_on_join:
  "xs \<noteq> [] \<Longrightarrow> \<forall>x \<in> set xs. sep \<notin> set x \<Longrightarrow> split_on sep (join_with sep xs) = xs"
  unfolding split_on_def
  by (induction sep xs rule: join_with.induct) (simp_all add: split_from_sep split_from_none)

text \<open>\<open>str::parse::<u16>\<close>.\<close>

definition parse_u16 :: "string \<Rightarrow> (16 word, string) result" where
  "parse_u16 s =
     (if s = [] then Err ''cannot parse integer from empty string''
      else case parse_digits digit_val 10 (2 ^ 16) 0 (strip_plus s) of
             Ok n \<Rightarrow> Ok (of_nat n)
           | Err e \<Rightarrow> Err e)"

definition show_u16 :: "16 word \<Rightarrow> string" where
  "show_u16 x = show_nat (unat x)"

lemma parse_show_u16: "parse_u16 (show_u16 x) = Ok x"
proof -
  have "strip_plus (show_nat (unat x)) = show_nat (unat x)"
    by (rule strip_plus_id) (use show_nat_no in blast)
  moreover have "unat x < 2 ^ 16" using unsigned_less [of x, where ?'a = nat] by simp
  ultimately show ?thesis
    using parse_show_nat [of "unat x" "2 ^ 16"] by (simp add: parse_u16_def show_u16_def)
qed

end
