(* ===== verification/Raft_Core.thy ===== *)
theory Raft_Core
  imports Raft_Types Rust_Strings
begin

text \<open>
  The state machine of one Raft node, \<open>src/core/raft_core.rs\<close>. Every method of \<open>RaftCore\<close> is one
  definition of the same name; a method with \<open>&mut self\<close> returns the new core, in an option when
  it can panic. \<open>S\<close> is the method table of the storage and \<open>M\<close> that of the state machine;
  \<open>now\<close> is the value of \<open>Instant::now()\<close> where the method reads the clock. Log lines
  printed to the console are not modelled.
\<close>

section \<open>State\<close>

record ('s, 'm) raft_core =
  storage :: 's
  state_machine :: 'm
  current_term :: u64
  voted_for :: "u64 option"
  rlog :: "log_entry list"
  snapshot_last_index :: u64
  snapshot_last_term :: u64
  commit_index :: u64
  last_applied :: u64
  next_index :: "(u64, u64) hashmap"
  match_index :: "(u64, u64) hashmap"
  node_id :: u64
  role :: raft_state
  peers :: "u64 list"
  votes_received :: "u64 list"
  current_leader :: "u64 option"
  last_heartbeat :: instant
  snapshot_threshold :: u64

definition raft_core_new ::
  "'s storage_ops \<Rightarrow> 'm sm_ops \<Rightarrow> instant \<Rightarrow> u64 \<Rightarrow> u64 list \<Rightarrow> 's \<Rightarrow> 'm \<Rightarrow>
   ('s, 'm) raft_core option" where
  "raft_core_new S M now i ps s m =
     do {
       t \<leftarrow> expect (load_term S s);
       v \<leftarrow> expect (load_voted_for S s);
       l \<leftarrow> expect (load_log S s);
       (m', si, st) \<leftarrow>
         (case st_load_snapshot S s of
            Ok (Some sn) \<Rightarrow>
              do {
                m' \<leftarrow> expect (sm_restore M m (snapshot_data sn));
                Some (m', last_included_index (metadata sn), last_included_term (metadata sn))
              }
          | Ok None \<Rightarrow> Some (m, 0, 0)
          | Err _ \<Rightarrow> None);
       Some \<lparr>storage = s, state_machine = m', current_term = t, voted_for = v, rlog = l,
             snapshot_last_index = si, snapshot_last_term = st, commit_index = si,
             last_applied = si, next_index = [], match_index = [], node_id = i,
             role = Follower, peers = ps, votes_received = [], current_leader = None,
             last_heartbeat = now, snapshot_threshold = 1000\<rparr>
     }"

definition set_snapshot_threshold :: "u64 \<Rightarrow> ('s, 'm) raft_core \<Rightarrow> ('s, 'm) raft_core" where
  "set_snapshot_threshold n c = c\<lparr>snapshot_threshold := n\<rparr>"

section \<open>Persistence helpers\<close>

definition set_term :: "'s storage_ops \<Rightarrow> u64 \<Rightarrow> ('s, 'm) raft_core \<Rightarrow> ('s, 'm) raft_core option" where
  "set_term S t c =
     do {
       s \<leftarrow> expect (save_term S (storage c) t);
       Some (c\<lparr>current_term := t, storage := s\<rparr>)
     }"

definition set_voted_for ::
  "'s storage_ops \<Rightarrow> u64 option \<Rightarrow> ('s, 'm) raft_core \<Rightarrow> ('s, 'm) raft_core option" where
  "set_voted_for S v c =
     do {
       s \<leftarrow> expect (save_voted_for S (storage c) v);
       Some (c\<lparr>voted_for := v, storage := s\<rparr>)
     }"

definition update_term :: "'s storage_ops \<Rightarrow> u64 \<Rightarrow> ('s, 'm) raft_core \<Rightarrow> ('s, 'm) raft_core option" where
  "update_term S t c = do { c \<leftarrow> set_term S t c; set_voted_for S None c }"

definition persist_log_entry ::
  "'s storage_ops \<Rightarrow> log_entry \<Rightarrow> ('s, 'm) raft_core \<Rightarrow> ('s, 'm) raft_core option" where
  "persist_log_entry S e c =
     do {
       s \<leftarrow> expect (append_log_entries S (storage c) [e]);
       Some (c\<lparr>storage := s, rlog := rlog c @ [e]\<rparr>)
     }"

text \<open>The position is computed from the index alone, as the code does it.\<close>

definition persist_truncate_log ::
  "'s storage_ops \<Rightarrow> u64 \<Rightarrow> ('s, 'm) raft_core \<Rightarrow> ('s, 'm) raft_core option" where
  "persist_truncate_log S from_index c =
     (let truncate_pos = unat (from_index - 1)
      in if truncate_pos < length (rlog c)
         then do {
           s \<leftarrow> expect (truncate_log S (storage c) from_index);
           Some (c\<lparr>storage := s, rlog := take truncate_pos (rlog c)\<rparr>)
         }
         else Some c)"

section \<open>Queries on the log\<close>

definition last_log_index :: "('s, 'm) raft_core \<Rightarrow> u64" where
  "last_log_index c = (if rlog c = [] then snapshot_last_index c else le_index (last (rlog c)))"

definition last_log_term :: "('s, 'm) raft_core \<Rightarrow> u64" where
  "last_log_term c = (if rlog c = [] then snapshot_last_term c else le_term (last (rlog c)))"

definition get_log_entry :: "('s, 'm) raft_core \<Rightarrow> u64 \<Rightarrow> log_entry option" where
  "get_log_entry c i =
     (if i \<le> snapshot_last_index c then None
      else let offset = unat (i - snapshot_last_index c - 1)
           in if offset < length (rlog c) then Some (rlog c ! offset) else None)"

function find_first_index_for_term :: "('s, 'm) raft_core \<Rightarrow> u64 \<Rightarrow> u64 \<Rightarrow> u64" where
  "find_first_index_for_term c t idx =
     (if idx > snapshot_last_index c + 1
      then case get_log_entry c (idx - 1) of
             Some e \<Rightarrow> if le_term e = t then find_first_index_for_term c t (idx - 1) else idx
           | None \<Rightarrow> idx
      else idx)"
  by pat_completeness auto
termination
proof (relation "measure (\<lambda>(c, t, idx). unat idx)", simp, clarify)
  fix c :: "('s, 'm) raft_core" and idx :: u64
  assume "idx > snapshot_last_index c + 1"
  then have "0 < idx" by (metis word_coorder.extremum_strict word_neq_0_conv)
  then show "((c, t, idx - 1), c, t, idx) \<in> measure (\<lambda>(c, t, idx). unat idx)" for t
    by (simp add: u64_pred word_less_nat_alt)
qed

declare find_first_index_for_term.simps [simp del]

fun scan_back_for_term :: "log_entry list \<Rightarrow> u64 \<Rightarrow> u64 option" where
  "scan_back_for_term [] t = None"
| "scan_back_for_term (e # es) t =
     (if le_term e = t then Some (le_index e)
      else if le_term e < t then None
      else scan_back_for_term es t)"

definition find_last_index_for_term :: "('s, 'm) raft_core \<Rightarrow> u64 \<Rightarrow> u64 option" where
  "find_last_index_for_term c t =
     (case scan_back_for_term (rev (rlog c)) t of
        Some i \<Rightarrow> Some i
      | None \<Rightarrow>
          if snapshot_last_term c = t \<and> snapshot_last_index c > 0
          then Some (snapshot_last_index c)
          else None)"

definition is_log_up_to_date :: "('s, 'm) raft_core \<Rightarrow> u64 \<Rightarrow> u64 \<Rightarrow> bool" where
  "is_log_up_to_date c cand_term cand_index =
     (let my_last_term = last_log_term c; my_last_index = last_log_index c
      in cand_term > my_last_term \<or> (cand_term = my_last_term \<and> cand_index \<ge> my_last_index))"

section \<open>RequestVote\<close>

definition handle_request_vote ::
  "'s storage_ops \<Rightarrow> request_vote_args \<Rightarrow> ('s, 'm) raft_core \<Rightarrow>
   (request_vote_result \<times> ('s, 'm) raft_core) option" where
  "handle_request_vote S req c =
     (if rv_term req < current_term c
      then Some (\<lparr>rvr_term = current_term c, vote_granted = False\<rparr>, c)
      else do {
        c \<leftarrow> (if rv_term req > current_term c
              then do { c \<leftarrow> update_term S (rv_term req) c; Some (c\<lparr>role := Follower\<rparr>) }
              else Some c);
        if voted_for c \<noteq> None \<and> voted_for c \<noteq> Some (rv_candidate_id req)
        then Some (\<lparr>rvr_term = current_term c, vote_granted = False\<rparr>, c)
        else if \<not> is_log_up_to_date c (rv_last_log_term req) (rv_last_log_index req)
        then Some (\<lparr>rvr_term = current_term c, vote_granted = False\<rparr>, c)
        else do {
          c \<leftarrow> set_voted_for S (Some (rv_candidate_id req)) c;
          Some (\<lparr>rvr_term = current_term c, vote_granted = True\<rparr>, c)
        }
      })"

section \<open>Snapshots and application of committed entries\<close>

text \<open>
  \<open>take_snapshot\<close> returns its \<open>Result\<close> with the core as the early returns of the
  source leave it: a failed save leaves the storage it got to, a failed compaction comes after the
  snapshot metadata was updated.
\<close>

definition take_snapshot ::
  "'s storage_ops \<Rightarrow> 'm sm_ops \<Rightarrow> ('s, 'm) raft_core \<Rightarrow> (unit, string) result \<times> ('s, 'm) raft_core" where
  "take_snapshot S M c =
     (if last_applied c = 0
      then (Err ''No entries applied yet, cannot snapshot'', c)
      else if last_applied c \<le> snapshot_last_index c
      then (Err (''Already have snapshot up to index '' @ show_u64 (snapshot_last_index c)
                 @ '', last_applied is '' @ show_u64 (last_applied c)), c)
      else case get_log_entry c (last_applied c) of
        None \<Rightarrow> (Err ''Cannot find last_applied entry'', c)
      | Some e \<Rightarrow>
        (case sm_snapshot M (state_machine c) of
           Err msg \<Rightarrow> (Err msg, c)
         | Ok d \<Rightarrow>
           (let sn = \<lparr>metadata = \<lparr>last_included_index = last_applied c,
                                  last_included_term = le_term e\<rparr>,
                      snapshot_data = d\<rparr>
            in case save_snapshot S (storage c) sn of
                 Err (x, s) \<Rightarrow>
                   (Err (''Failed to save snapshot: '' @ show_storage_error x), c\<lparr>storage := s\<rparr>)
               | Ok s \<Rightarrow>
                 (let c = c\<lparr>storage := s, snapshot_last_index := last_included_index (metadata sn),
                            snapshot_last_term := last_included_term (metadata sn)\<rparr>;
                      keep_from = snapshot_last_index c + 1
                  in case compact_log S (storage c) keep_from of
                       Err (x, s) \<Rightarrow>
                         (Err (''Failed to compact log: '' @ show_storage_error x), c\<lparr>storage := s\<rparr>)
                     | Ok s \<Rightarrow>
                       (Ok (), c\<lparr>storage := s,
                                 rlog := filter (\<lambda>e. le_index e \<ge> keep_from) (rlog c)\<rparr>)))))"

text \<open>The \<open>while\<close> loop of \<open>apply_committed_entries\<close>, one application per round.\<close>

function apply_loop ::
  "'m sm_ops \<Rightarrow> ('s, 'm) raft_core \<Rightarrow> (u64 \<times> apply_result) list \<Rightarrow>
   ((u64 \<times> apply_result) list \<times> ('s, 'm) raft_core) option" where
  "apply_loop M c results =
     (if last_applied c < commit_index c
      then let c = c\<lparr>last_applied := last_applied c + 1\<rparr>
           in case get_log_entry c (last_applied c) of
                Some e \<Rightarrow>
                  (let (m, r) = sm_apply M (state_machine c) (le_command e)
                   in apply_loop M (c\<lparr>state_machine := m\<rparr>) (results @ [(last_applied c, r)]))
              | None \<Rightarrow> None
      else Some (results, c))"
  by pat_completeness auto
termination
proof (relation "measure (\<lambda>(M, c, rs). unat (commit_index c) - unat (last_applied c))", simp, clarify)
  fix M :: "'m sm_ops" and c :: "('s, 'm) raft_core" and rs :: "(u64 \<times> apply_result) list" and m r
  assume lt: "last_applied c < commit_index c"
  have "unat (last_applied c + 1) = unat (last_applied c) + 1"
    using lt by (rule u64_succ_less)
  moreover have "unat (last_applied c) < unat (commit_index c)"
    using lt by (simp add: word_less_nat_alt)
  ultimately show "((M, c\<lparr>last_applied := last_applied c + 1\<rparr>\<lparr>state_machine := m\<rparr>,
       rs @ [(last_applied (c\<lparr>last_applied := last_applied c + 1\<rparr>), r)]), M, c, rs)
       \<in> measure (\<lambda>(M, c, rs). unat (commit_index c) - unat (last_applied c))"
    by simp
qed

declare apply_loop.simps [simp del]

definition apply_committed_entries ::
  "'s storage_ops \<Rightarrow> 'm sm_ops \<Rightarrow> ('s, 'm) raft_core \<Rightarrow>
   ((u64 \<times> apply_result) list \<times> ('s, 'm) raft_core) option" where
  "apply_committed_entries S M c =
     do {
       (results, c) \<leftarrow> apply_loop M c [];
       Some (results,
         if snapshot_threshold c > 0 \<and> last_applied c - snapshot_last_index c \<ge> snapshot_threshold c
         then snd (take_snapshot S M c)
         else c)
     }"

section \<open>AppendEntries\<close>

text \<open>The body of the loop over the received entries.\<close>

definition apply_entry ::
  "'s storage_ops \<Rightarrow> log_entry \<Rightarrow> ('s, 'm) raft_core \<Rightarrow> ('s, 'm) raft_core option" where
  "apply_entry S e c =
     (if le_index e \<le> snapshot_last_index c then Some c
      else let entry_idx = unat (le_index e - snapshot_last_index c - 1)
           in if entry_idx < length (rlog c)
              then (if le_term (rlog c ! entry_idx) \<noteq> le_term e
                    then do {
                      c \<leftarrow> persist_truncate_log S (le_index e) c;
                      persist_log_entry S e c
                    }
                    else Some c)
              else persist_log_entry S e c)"

fun apply_entries ::
  "'s storage_ops \<Rightarrow> log_entry list \<Rightarrow> ('s, 'm) raft_core \<Rightarrow> ('s, 'm) raft_core option" where
  "apply_entries S [] c = Some c"
| "apply_entries S (e # es) c = do { c \<leftarrow> apply_entry S e c; apply_entries S es c }"

text \<open>
  The block that the three accepting branches of the handler repeat: store the entries, then advance
  the commit index to \<open>min(leader_commit, last_log_index())\<close> and apply.
\<close>

definition accept_entries ::
  "'s storage_ops \<Rightarrow> 'm sm_ops \<Rightarrow> append_entries_args \<Rightarrow> ('s, 'm) raft_core \<Rightarrow> ('s, 'm) raft_core option" where
  "accept_entries S M req c =
     do {
       c \<leftarrow> apply_entries S (ae_entries req) c;
       if leader_commit req > commit_index c
       then do {
         (_, c) \<leftarrow> apply_committed_entries S M
                     (c\<lparr>commit_index := min (leader_commit req) (last_log_index c)\<rparr>);
         Some c
       }
       else Some c
     }"

definition reject_hint ::
  "u64 option \<Rightarrow> u64 option \<Rightarrow> ('s, 'm) raft_core \<Rightarrow>
   (bool \<times> u64 option \<times> u64 option \<times> ('s, 'm) raft_core) option" where
  "reject_hint ct ci c = Some (False, ct, ci, c)"

text \<open>The consistency check on the previous entry, with its conflict hints.\<close>

definition check_and_append ::
  "'s storage_ops \<Rightarrow> 'm sm_ops \<Rightarrow> append_entries_args \<Rightarrow> ('s, 'm) raft_core \<Rightarrow>
   (bool \<times> u64 option \<times> u64 option \<times> ('s, 'm) raft_core) option" where
  "check_and_append S M req c =
     (if prev_log_index req > 0
      then if prev_log_index req > last_log_index c
           then reject_hint None (Some (last_log_index c + 1)) c
           else if prev_log_index req = snapshot_last_index c
           then if prev_log_term req \<noteq> snapshot_last_term c
                then reject_hint (Some (snapshot_last_term c)) (Some (snapshot_last_index c)) c
                else do { c \<leftarrow> accept_entries S M req c; Some (True, None, None, c) }
           else case get_log_entry c (prev_log_index req) of
                  Some e \<Rightarrow>
                    if le_term e \<noteq> prev_log_term req
                    then reject_hint (Some (le_term e))
                           (Some (find_first_index_for_term c (le_term e) (prev_log_index req))) c
                    else do { c \<leftarrow> accept_entries S M req c; Some (True, None, None, c) }
                | None \<Rightarrow> reject_hint None (Some (snapshot_last_index c + 1)) c
      else do { c \<leftarrow> accept_entries S M req c; Some (True, None, None, c) })"

definition handle_append_entries ::
  "'s storage_ops \<Rightarrow> 'm sm_ops \<Rightarrow> instant \<Rightarrow> append_entries_args \<Rightarrow> ('s, 'm) raft_core \<Rightarrow>
   (handle_append_entries_output \<times> ('s, 'm) raft_core) option" where
  "handle_append_entries S M now req c =
     do {
       c \<leftarrow> (if ae_term req > current_term c
             then do { c \<leftarrow> update_term S (ae_term req) c; Some (c\<lparr>role := Follower\<rparr>) }
             else Some c);
       (leader, success, ct, ci, c) \<leftarrow>
         (if ae_term req < current_term c
          then Some (None, False, None, None, c)
          else do {
            (success, ct, ci, c) \<leftarrow>
              check_and_append S M req
                (c\<lparr>role := Follower, current_leader := Some (ae_leader_id req), last_heartbeat := now\<rparr>);
            Some (Some (ae_leader_id req), success, ct, ci, c)
          });
       Some (\<lparr>hae_result = \<lparr>aer_term = current_term c, aer_success = success,
                            conflict_term = ct, conflict_index = ci\<rparr>,
              hae_leader_id = leader\<rparr>, c)
     }"

section \<open>InstallSnapshot\<close>

text \<open>
  The three steps on an acceptable snapshot: save it, restore the state machine (a failure panics),
  then update the metadata, the log and the indices. After a failed save the node goes on with the
  storage the save got to; the result of the compaction is ignored.
\<close>

definition advance_to_snapshot :: "u64 \<Rightarrow> ('s, 'm) raft_core \<Rightarrow> ('s, 'm) raft_core" where
  "advance_to_snapshot li c =
     (let c = (if li > commit_index c then c\<lparr>commit_index := li\<rparr> else c)
      in if li > last_applied c then c\<lparr>last_applied := li\<rparr> else c)"

definition install_snapshot_steps ::
  "'s storage_ops \<Rightarrow> 'm sm_ops \<Rightarrow> install_snapshot_args \<Rightarrow> ('s, 'm) raft_core \<Rightarrow>
   (install_snapshot_result \<times> ('s, 'm) raft_core) option" where
  "install_snapshot_steps S M args c =
     (case save_snapshot S (storage c)
             \<lparr>metadata = \<lparr>last_included_index = is_last_included_index args,
                          last_included_term = is_last_included_term args\<rparr>,
              snapshot_data = is_data args\<rparr> of
        Err (e, s) \<Rightarrow>
          Some (IS_Failed (current_term c) (''failed to save snapshot: '' @ show_storage_error e),
                c\<lparr>storage := s\<rparr>)
      | Ok s \<Rightarrow>
          do {
            m \<leftarrow> expect (sm_restore M (state_machine c) (is_data args));
            let s = (case compact_log S s (is_last_included_index args + 1) of Ok s' \<Rightarrow> s' | Err (_, s') \<Rightarrow> s');
            let c = c\<lparr>storage := s, state_machine := m,
                      snapshot_last_index := is_last_included_index args,
                      snapshot_last_term := is_last_included_term args,
                      rlog := filter (\<lambda>e. le_index e > is_last_included_index args) (rlog c)\<rparr>;
            Some (IS_Success (current_term c), advance_to_snapshot (is_last_included_index args) c)
          })"

definition handle_install_snapshot ::
  "'s storage_ops \<Rightarrow> 'm sm_ops \<Rightarrow> instant \<Rightarrow> install_snapshot_args \<Rightarrow> ('s, 'm) raft_core \<Rightarrow>
   (install_snapshot_result \<times> ('s, 'm) raft_core) option" where
  "handle_install_snapshot S M now args c =
     (if is_term args < current_term c
      then Some (IS_Failed (current_term c) ''stale term'', c)
      else do {
        c \<leftarrow> (if is_term args > current_term c
              then do { c \<leftarrow> update_term S (is_term args) c; Some (c\<lparr>role := Follower\<rparr>) }
              else Some c);
        let c = c\<lparr>last_heartbeat := now, current_leader := Some (is_leader_id args)\<rparr>;
        if is_last_included_index args \<le> snapshot_last_index c
        then Some (IS_Failed (current_term c)
                     (''snapshot too old: '' @ show_u64 (is_last_included_index args) @ '' <= ''
                      @ show_u64 (snapshot_last_index c)), c)
        else install_snapshot_steps S M args c
      })"

section \<open>Elections and client commands\<close>

definition start_election ::
  "'s storage_ops \<Rightarrow> instant \<Rightarrow> ('s, 'm) raft_core \<Rightarrow> ('s, 'm) raft_core option" where
  "start_election S now c =
     do {
       c \<leftarrow> set_term S (current_term c + 1) c;
       c \<leftarrow> set_voted_for S (Some (node_id c)) (c\<lparr>role := Candidate, current_leader := None\<rparr>);
       Some (c\<lparr>votes_received := [node_id c], last_heartbeat := now\<rparr>)
     }"

definition reset_peer_indices :: "u64 \<Rightarrow> u64 list \<Rightarrow> ('s, 'm) raft_core \<Rightarrow> ('s, 'm) raft_core" where
  "reset_peer_indices li ps c =
     c\<lparr>next_index := fold (\<lambda>p. hm_insert p (li + 1)) ps (next_index c),
       match_index := fold (\<lambda>p. hm_insert p 0) ps (match_index c)\<rparr>"

definition become_leader ::
  "'s storage_ops \<Rightarrow> instant \<Rightarrow> ('s, 'm) raft_core \<Rightarrow> ('s, 'm) raft_core option" where
  "become_leader S now c =
     (let c = c\<lparr>role := Leader, current_leader := Some (node_id c), last_heartbeat := now\<rparr>;
          c = reset_peer_indices (last_log_index c) (peers c) c
      in persist_log_entry S
           \<lparr>le_term = current_term c, le_index = last_log_index c + 1, le_command = NOOP_COMMAND\<rparr> c)"

definition validate_command :: "'m sm_ops \<Rightarrow> string \<Rightarrow> ('s, 'm) raft_core \<Rightarrow> (unit, string) result" where
  "validate_command M cmd c = sm_validate M (state_machine c) cmd"

definition append_log_entry ::
  "'s storage_ops \<Rightarrow> string \<Rightarrow> ('s, 'm) raft_core \<Rightarrow> (log_entry option \<times> ('s, 'm) raft_core) option" where
  "append_log_entry S cmd c =
     (if role c \<noteq> Leader then Some (None, c)
      else let e = \<lparr>le_term = current_term c, le_index = last_log_index c + 1, le_command = cmd\<rparr>
           in do { c \<leftarrow> persist_log_entry S e c; Some (Some e, c) })"

definition load_snapshot :: "'s storage_ops \<Rightarrow> ('s, 'm) raft_core \<Rightarrow> (snapshot option, storage_error) result" where
  "load_snapshot S c = st_load_snapshot S (storage c)"

section \<open>RPC results\<close>

definition process_request_vote_response ::
  "'s storage_ops \<Rightarrow> request_vote_result \<Rightarrow> ('s, 'm) raft_core \<Rightarrow> ('s, 'm) raft_core option" where
  "process_request_vote_response S r c =
     (if rvr_term r > current_term c
      then do { c \<leftarrow> update_term S (rvr_term r) c; Some (c\<lparr>role := Follower\<rparr>) }
      else Some c)"

definition process_append_entries_response ::
  "'s storage_ops \<Rightarrow> append_entries_result \<Rightarrow> ('s, 'm) raft_core \<Rightarrow> ('s, 'm) raft_core option" where
  "process_append_entries_response S r c =
     (if aer_term r > current_term c
      then do { c \<leftarrow> update_term S (aer_term r) c; Some (c\<lparr>role := Follower\<rparr>) }
      else Some c)"

text \<open>\<open>1 + peers.len()\<close> nodes; a majority is more than half of them.\<close>

definition total_nodes :: "('s, 'm) raft_core \<Rightarrow> nat" where
  "total_nodes c = 1 + length (peers c)"

definition majority :: "('s, 'm) raft_core \<Rightarrow> nat" where
  "majority c = total_nodes c div 2 + 1"

definition handle_request_vote_result ::
  "'s storage_ops \<Rightarrow> instant \<Rightarrow> u64 \<Rightarrow> request_vote_result \<Rightarrow> ('s, 'm) raft_core \<Rightarrow>
   (bool \<times> ('s, 'm) raft_core) option" where
  "handle_request_vote_result S now peer_id r c =
     do {
       c \<leftarrow> process_request_vote_response S r c;
       if role c \<noteq> Candidate then Some (False, c)
       else
         (let c = (if vote_granted r \<and> peer_id \<notin> set (votes_received c)
                   then c\<lparr>votes_received := votes_received c @ [peer_id]\<rparr> else c)
          in if length (votes_received c) \<ge> majority c
             then do { c \<leftarrow> become_leader S now c; Some (True, c) }
             else Some (False, c))
     }"

text \<open>The two updates of the leader's view of a peer, on success and on rejection.\<close>

definition note_success :: "u64 \<Rightarrow> u64 \<Rightarrow> ('s, 'm) raft_core \<Rightarrow> ('s, 'm) raft_core" where
  "note_success peer_id entry_index c =
     (if entry_index > 0
      then let c = (if entry_index > hm_get_or (match_index c) peer_id 0
                    then c\<lparr>match_index := hm_insert peer_id entry_index (match_index c)\<rparr> else c)
           in c\<lparr>next_index := hm_insert peer_id (entry_index + 1) (next_index c)\<rparr>
      else c)"

definition hinted_next_index ::
  "u64 \<Rightarrow> append_entries_result \<Rightarrow> ('s, 'm) raft_core \<Rightarrow> u64" where
  "hinted_next_index peer_id r c =
     (case conflict_term r of
        Some ct \<Rightarrow>
          (case find_last_index_for_term c ct of
             Some idx \<Rightarrow> idx + 1
           | None \<Rightarrow> (case conflict_index r of Some ci \<Rightarrow> ci | None \<Rightarrow> 1))
      | None \<Rightarrow>
          (case conflict_index r of
             Some ci \<Rightarrow> ci
           | None \<Rightarrow> max (saturating_sub (hm_get_or (next_index c) peer_id 1) 1) 1))"

definition note_rejection ::
  "u64 \<Rightarrow> append_entries_result \<Rightarrow> ('s, 'm) raft_core \<Rightarrow> ('s, 'm) raft_core" where
  "note_rejection peer_id r c =
     (let new_next = hinted_next_index peer_id r c;
          current_next = hm_get_or (next_index c) peer_id 1;
          safe_next = min (max new_next 1) (max (saturating_sub current_next 1) 1)
      in c\<lparr>next_index := hm_insert peer_id safe_next (next_index c)\<rparr>)"

definition replicated_count :: "u64 \<Rightarrow> ('s, 'm) raft_core \<Rightarrow> nat" where
  "replicated_count entry_index c =
     1 + length (filter (\<lambda>(_, match_idx). match_idx \<ge> entry_index) (match_index c))"

definition handle_append_entries_result ::
  "'s storage_ops \<Rightarrow> 'm sm_ops \<Rightarrow> u64 \<Rightarrow> u64 \<Rightarrow> append_entries_result \<Rightarrow> ('s, 'm) raft_core \<Rightarrow>
   ((u64 option \<times> (u64 \<times> apply_result) list) \<times> ('s, 'm) raft_core) option" where
  "handle_append_entries_result S M peer_id entry_index r c =
     do {
       c \<leftarrow> process_append_entries_response S r c;
       if role c \<noteq> Leader then Some ((None, []), c)
       else
         (let c = (if aer_success r then note_success peer_id entry_index c
                   else note_rejection peer_id r c)
          in if entry_index = 0 then Some ((None, []), c)
             else if map_option le_term (get_log_entry c entry_index) \<noteq> Some (current_term c)
             then Some ((None, []), c)
             else if replicated_count entry_index c \<ge> majority c \<and> entry_index > commit_index c
             then do {
               (results, c) \<leftarrow> apply_committed_entries S M (c\<lparr>commit_index := entry_index\<rparr>);
               Some ((Some entry_index, results), c)
             }
             else Some ((None, []), c))
     }"

end
