(* ===== verification/Storage_Contract.thy ===== *)
theory Storage_Contract
  imports Raft_Types
begin

text \<open>
  The contract of \<open>trait Storage\<close> (src/storage/traits.rs) as two locales. \<open>vote_storage\<close> is what
  Raft needs of the durable term and vote: a saved value is the one loaded next, and no other write
  touches it. \<open>log_storage\<close> adds the laws of the log and the snapshot, with the effect of
  \<open>truncate_log\<close> and \<open>compact_log\<close> stated by index as the trait documents it, for a stored log
  that starts at index 1. A failed \<open>save_snapshot\<close> or \<open>compact_log\<close> does not stop the node, so the
  contract also says what those leave: the term, the vote and the log as they were, and after a failed
  compaction the snapshot too. \<open>ok\<close> is the provider's own invariant on what is stored: appending relies
  on it, every operation keeps it, and rewriting the log establishes it.
\<close>

locale vote_storage =
  fixes S :: "'s storage_ops"
  assumes save_term_term: "save_term S s t = Ok s' \<Longrightarrow> load_term S s' = Ok t"
    and save_term_vote: "save_term S s t = Ok s' \<Longrightarrow> load_voted_for S s' = load_voted_for S s"
    and save_vote_vote: "save_voted_for S s v = Ok s' \<Longrightarrow> load_voted_for S s' = Ok v"
    and save_vote_term: "save_voted_for S s v = Ok s' \<Longrightarrow> load_term S s' = load_term S s"
    and append_vote: "append_log_entries S s es = Ok s' \<Longrightarrow>
          load_term S s' = load_term S s \<and> load_voted_for S s' = load_voted_for S s"
    and truncate_vote: "truncate_log S s i = Ok s' \<Longrightarrow>
          load_term S s' = load_term S s \<and> load_voted_for S s' = load_voted_for S s"
    and compact_vote: "compact_log S s i = Ok s' \<Longrightarrow>
          load_term S s' = load_term S s \<and> load_voted_for S s' = load_voted_for S s"
    and snapshot_vote: "save_snapshot S s sn = Ok s' \<Longrightarrow>
          load_term S s' = load_term S s \<and> load_voted_for S s' = load_voted_for S s"
    and failed_vote:
          "compact_log S s i = Err (e, s') \<Longrightarrow>
             load_term S s' = load_term S s \<and> load_voted_for S s' = load_voted_for S s"
          "save_snapshot S s sn = Err (e, s') \<Longrightarrow>
             load_term S s' = load_term S s \<and> load_voted_for S s' = load_voted_for S s"

locale log_storage = vote_storage S for S :: "'s storage_ops" +
  fixes ok :: "'s \<Rightarrow> bool"
  assumes keeps_ok:
          "save_term S s t = Ok s' \<Longrightarrow> ok s \<Longrightarrow> ok s'"
          "save_voted_for S s v = Ok s' \<Longrightarrow> ok s \<Longrightarrow> ok s'"
          "append_log_entries S s es = Ok s' \<Longrightarrow> ok s \<Longrightarrow> ok s'"
          "truncate_log S s i = Ok s' \<Longrightarrow> ok s'"
          "compact_log S s i = Ok s' \<Longrightarrow> ok s'"
          "save_snapshot S s sn = Ok s' \<Longrightarrow> ok s \<Longrightarrow> ok s'"
    and save_term_log: "save_term S s t = Ok s' \<Longrightarrow> load_log S s' = load_log S s"
    and save_vote_log: "save_voted_for S s v = Ok s' \<Longrightarrow> load_log S s' = load_log S s"
    and append_log: "ok s \<Longrightarrow> load_log S s = Ok l \<Longrightarrow> append_log_entries S s es = Ok s' \<Longrightarrow>
          load_log S s' = Ok (l @ es)"
    and truncate_log: "load_log S s = Ok l \<Longrightarrow> log_from 0 l \<Longrightarrow> 0 < i \<Longrightarrow> truncate_log S s i = Ok s' \<Longrightarrow>
          load_log S s' = Ok (filter (\<lambda>e. le_index e < i) l)"
    and compact_log: "load_log S s = Ok l \<Longrightarrow> log_from 0 l \<Longrightarrow> 0 < i \<Longrightarrow> compact_log S s i = Ok s' \<Longrightarrow>
          load_log S s' = Ok (filter (\<lambda>e. i \<le> le_index e) l)"
    and save_snapshot_log: "save_snapshot S s sn = Ok s' \<Longrightarrow> load_log S s' = load_log S s"
    and save_snapshot: "save_snapshot S s sn = Ok s' \<Longrightarrow> st_load_snapshot S s' = Ok (Some sn)"
    and frame_snapshot:
          "save_term S s t = Ok s' \<Longrightarrow> st_load_snapshot S s' = st_load_snapshot S s"
          "save_voted_for S s v = Ok s' \<Longrightarrow> st_load_snapshot S s' = st_load_snapshot S s"
          "append_log_entries S s es = Ok s' \<Longrightarrow> st_load_snapshot S s' = st_load_snapshot S s"
          "truncate_log S s i = Ok s' \<Longrightarrow> st_load_snapshot S s' = st_load_snapshot S s"
          "compact_log S s i = Ok s' \<Longrightarrow> st_load_snapshot S s' = st_load_snapshot S s"
    and failed_ok:
          "compact_log S s i = Err (e, s') \<Longrightarrow> ok s \<Longrightarrow> ok s'"
          "save_snapshot S s sn = Err (e, s') \<Longrightarrow> ok s \<Longrightarrow> ok s'"
    and failed_log:
          "compact_log S s i = Err (e, s') \<Longrightarrow> load_log S s' = load_log S s"
          "save_snapshot S s sn = Err (e, s') \<Longrightarrow> load_log S s' = load_log S s"
    and failed_compact_snapshot: "compact_log S s i = Err (e, s') \<Longrightarrow> st_load_snapshot S s' = st_load_snapshot S s"

text \<open>The two filters of the contract on a log that starts at index 1, by position.\<close>

lemma filter_log_above:
  assumes "log_from 0 l" "0 < i"
  shows "filter (\<lambda>e. i \<le> le_index e) l = drop (unat i - 1) l"
proof -
  have i1: "unat (i - 1) = unat i - 1" using assms(2) by (rule u64_pred)
  have "0 < unat i" using assms(2) by (simp add: word_less_nat_alt)
  then have "(i \<le> le_index e) = (i - 1 < le_index e)" for e :: log_entry
    using i1 by (auto simp: word_le_nat_alt word_less_nat_alt)
  then have eq: "filter (\<lambda>e. i \<le> le_index e) l = filter (\<lambda>e. i - 1 < le_index e) l" by simp
  show ?thesis
  proof (cases "unat (i - 1) \<le> length l")
    case True
    then show ?thesis using filter_log_from [OF assms(1), of "i - 1"] eq i1 by simp
  next
    case False
    then show ?thesis using filter_log_from_beyond [OF assms(1), of "i - 1"] eq i1 by simp
  qed
qed

lemma filter_log_below:
  assumes "log_from 0 l" "0 < i"
  shows "filter (\<lambda>e. le_index e < i) l = take (unat i - 1) l"
proof -
  let ?k = "unat i - 1"
  have pos: "0 < unat i" using assms(2) by (simp add: word_less_nat_alt)
  have "filter (\<lambda>e. le_index e < i) (take ?k l) = take ?k l"
  proof -
    have "le_index e < i" if "e \<in> set (take ?k l)" for e
    proof -
      from that obtain j where "j < length l" "j < ?k" "e = l ! j" by (auto simp: in_set_conv_nth)
      then show ?thesis using log_from_nth [OF assms(1), of j] by (simp add: word_less_nat_alt)
    qed
    then show ?thesis by (simp add: filter_id_conv)
  qed
  moreover have "filter (\<lambda>e. le_index e < i) (drop ?k l) = []"
  proof -
    have "\<not> le_index e < i" if "e \<in> set (drop ?k l)" for e
    proof -
      from that obtain j where "j < length l - ?k" "e = l ! (?k + j)" by (auto simp: in_set_conv_nth)
      then show ?thesis
        using pos log_from_nth [OF assms(1), of "?k + j"] by (simp add: word_less_nat_alt)
    qed
    then show ?thesis by (simp add: filter_empty_conv)
  qed
  ultimately have "filter (\<lambda>e. le_index e < i) (take ?k l @ drop ?k l) = take ?k l"
    unfolding filter_append by simp
  then show ?thesis by (simp only: append_take_drop_id)
qed

end
