(* ===== verification/Memory_Storage.thy ===== *)
theory Memory_Storage
  imports Storage_Contract
begin

text \<open>
  The in-memory storage, \<open>src/storage/memory.rs\<close>. \<open>truncate_log\<close> and \<open>compact_log\<close> address
  the log by position (entry \<open>n\<close> at position \<open>n - 1\<close>), so they meet the contract of the trait
  for a log that starts at index 1.
\<close>

record memory_storage =
  ms_term :: u64
  ms_voted_for :: "u64 option"
  ms_log :: "log_entry list"
  ms_snapshot :: "snapshot option"

definition mem_new :: memory_storage where
  "mem_new = \<lparr>ms_term = 0, ms_voted_for = None, ms_log = [], ms_snapshot = None\<rparr>"

definition mem_load_term :: "memory_storage \<Rightarrow> (u64, storage_error) result" where
  "mem_load_term s = Ok (ms_term s)"

definition mem_save_term :: "memory_storage \<Rightarrow> u64 \<Rightarrow> memory_storage stored" where
  "mem_save_term s t = Ok (s\<lparr>ms_term := t\<rparr>)"

definition mem_load_voted_for :: "memory_storage \<Rightarrow> (u64 option, storage_error) result" where
  "mem_load_voted_for s = Ok (ms_voted_for s)"

definition mem_save_voted_for ::
  "memory_storage \<Rightarrow> u64 option \<Rightarrow> memory_storage stored" where
  "mem_save_voted_for s v = Ok (s\<lparr>ms_voted_for := v\<rparr>)"

definition mem_load_log :: "memory_storage \<Rightarrow> (log_entry list, storage_error) result" where
  "mem_load_log s = Ok (ms_log s)"

definition mem_append_log_entries ::
  "memory_storage \<Rightarrow> log_entry list \<Rightarrow> memory_storage stored" where
  "mem_append_log_entries s es = Ok (s\<lparr>ms_log := ms_log s @ es\<rparr>)"

definition mem_truncate_log :: "memory_storage \<Rightarrow> u64 \<Rightarrow> memory_storage stored" where
  "mem_truncate_log s from_index =
     Ok (if from_index > 0
         then let truncate_pos = unat (from_index - 1)
              in if truncate_pos < length (ms_log s)
                 then s\<lparr>ms_log := take truncate_pos (ms_log s)\<rparr>
                 else s
         else s\<lparr>ms_log := []\<rparr>)"

definition mem_compact_log :: "memory_storage \<Rightarrow> u64 \<Rightarrow> memory_storage stored" where
  "mem_compact_log s before_index =
     Ok (if before_index > 1
         then let remove_count = unat (before_index - 1)
              in if remove_count < length (ms_log s)
                 then s\<lparr>ms_log := drop remove_count (ms_log s)\<rparr>
                 else s\<lparr>ms_log := []\<rparr>
         else if before_index = 1 then s
         else s\<lparr>ms_log := []\<rparr>)"

definition mem_load_snapshot :: "memory_storage \<Rightarrow> (snapshot option, storage_error) result" where
  "mem_load_snapshot s = Ok (ms_snapshot s)"

definition mem_save_snapshot :: "memory_storage \<Rightarrow> snapshot \<Rightarrow> memory_storage stored" where
  "mem_save_snapshot s sn = Ok (s\<lparr>ms_snapshot := Some sn\<rparr>)"

definition mem_ops :: "memory_storage storage_ops" where
  "mem_ops = \<lparr>load_term = mem_load_term, save_term = mem_save_term,
              load_voted_for = mem_load_voted_for, save_voted_for = mem_save_voted_for,
              load_log = mem_load_log, append_log_entries = mem_append_log_entries,
              truncate_log = mem_truncate_log, compact_log = mem_compact_log,
              st_load_snapshot = mem_load_snapshot, save_snapshot = mem_save_snapshot\<rparr>"

lemmas mem_defs = mem_load_term_def mem_save_term_def mem_load_voted_for_def mem_save_voted_for_def
  mem_load_log_def mem_append_log_entries_def mem_truncate_log_def mem_compact_log_def
  mem_load_snapshot_def mem_save_snapshot_def

lemma mem_ops_sel [simp]:
  "load_term mem_ops = mem_load_term" "save_term mem_ops = mem_save_term"
  "load_voted_for mem_ops = mem_load_voted_for" "save_voted_for mem_ops = mem_save_voted_for"
  "load_log mem_ops = mem_load_log" "append_log_entries mem_ops = mem_append_log_entries"
  "truncate_log mem_ops = mem_truncate_log" "compact_log mem_ops = mem_compact_log"
  "st_load_snapshot mem_ops = mem_load_snapshot" "save_snapshot mem_ops = mem_save_snapshot"
  by (simp_all add: mem_ops_def)

section \<open>The contract\<close>

interpretation mem_vote: vote_storage mem_ops
  by unfold_locales (auto simp: mem_defs Let_def)

interpretation mem_log: log_storage mem_ops "\<lambda>_. True"
proof
  fix s s' :: memory_storage and l i
  assume a: "load_log mem_ops s = Ok l" "log_from 0 l" "0 < i" "truncate_log mem_ops s i = Ok s'"
  have l: "ms_log s = l" using a(1) by (simp add: mem_defs)
  have pos: "unat (i - 1) = unat i - 1" using a(3) by (rule u64_pred)
  have "load_log mem_ops s' = Ok (take (unat i - 1) l)"
    using a(3,4) l pos by (auto simp: mem_defs Let_def split: if_splits)
  then show "load_log mem_ops s' = Ok (filter (\<lambda>e. le_index e < i) l)"
    using filter_log_below [OF a(2), of i] a(3) by simp
next
  fix s s' :: memory_storage and l i
  assume a: "load_log mem_ops s = Ok l" "log_from 0 l" "0 < i" "compact_log mem_ops s i = Ok s'"
  have l: "ms_log s = l" using a(1) by (simp add: mem_defs)
  have pos: "unat (i - 1) = unat i - 1" using a(3) by (rule u64_pred)
  have "load_log mem_ops s' = Ok (drop (unat i - 1) l)"
  proof (cases "i = 1")
    case True
    then show ?thesis using a(4) l by (simp add: mem_defs)
  next
    case False
    with a(3) have "1 < i" by unat_arith
    then show ?thesis using a(4) l pos by (auto simp: mem_defs Let_def)
  qed
  then show "load_log mem_ops s' = Ok (filter (\<lambda>e. i \<le> le_index e) l)"
    using filter_log_above [OF a(2), of i] a(3) by simp
qed (auto simp: mem_defs Let_def)

end
