(* ===== verification/Raft_Vote.thy ===== *)
theory Raft_Vote
  imports Raft_Core Memory_Storage
begin

text \<open>
  Terms, votes and roles. The theory opens with the frame of every operation of the core (which
  fields it writes), from which it derives the three facts that elections rest on: the term never
  decreases and a vote cast in a term is never changed (\<open>vote_order\<close>), the term and the vote on
  disk are those in memory after every operation (\<open>vote_persisted\<close>), and the exact conditions
  under which a vote is granted and a leader is made. \<open>core_step\<close> gathers the mutating methods of
  \<open>RaftCore\<close> as one transition function, so that the facts lift to runs.
\<close>

section \<open>The mutating methods as events\<close>

datatype core_event =
    RequestVoteReq request_vote_args
  | AppendEntriesReq instant append_entries_args
  | InstallSnapshotReq instant install_snapshot_args
  | ElectionStart instant
  | RequestVoteRes instant u64 request_vote_result
  | AppendEntriesRes u64 u64 append_entries_result
  | ClientAppend string
  | ApplyCommitted
  | TakeSnapshot

fun core_step ::
  "'s storage_ops \<Rightarrow> 'm sm_ops \<Rightarrow> core_event \<Rightarrow> ('s, 'm) raft_core \<Rightarrow> ('s, 'm) raft_core option" where
  "core_step S M (RequestVoteReq req) c = map_option snd (handle_request_vote S req c)"
| "core_step S M (AppendEntriesReq now req) c = map_option snd (handle_append_entries S M now req c)"
| "core_step S M (InstallSnapshotReq now args) c = map_option snd (handle_install_snapshot S M now args c)"
| "core_step S M (ElectionStart now) c = start_election S now c"
| "core_step S M (RequestVoteRes now p r) c = map_option snd (handle_request_vote_result S now p r c)"
| "core_step S M (AppendEntriesRes p i r) c = map_option snd (handle_append_entries_result S M p i r c)"
| "core_step S M (ClientAppend cmd) c = map_option snd (append_log_entry S cmd c)"
| "core_step S M ApplyCommitted c = map_option snd (apply_committed_entries S M c)"
| "core_step S M TakeSnapshot c = Some (snd (take_snapshot S M c))"

fun core_run ::
  "'s storage_ops \<Rightarrow> 'm sm_ops \<Rightarrow> core_event list \<Rightarrow> ('s, 'm) raft_core \<Rightarrow> ('s, 'm) raft_core option" where
  "core_run S M [] c = Some c"
| "core_run S M (ev # evs) c = do { c \<leftarrow> core_step S M ev c; core_run S M evs c }"

section \<open>Frames\<close>

lemma set_term_Some [raft_defs]:
  "set_term S t c = Some c' \<longleftrightarrow>
     (\<exists>s. save_term S (storage c) t = Ok s \<and> c' = c\<lparr>current_term := t, storage := s\<rparr>)"
  by (auto simp: set_term_def bind_eq_Some_conv)

lemma set_voted_for_Some [raft_defs]:
  "set_voted_for S v c = Some c' \<longleftrightarrow>
     (\<exists>s. save_voted_for S (storage c) v = Ok s \<and> c' = c\<lparr>voted_for := v, storage := s\<rparr>)"
  by (auto simp: set_voted_for_def bind_eq_Some_conv)

lemma update_term_Some [raft_defs]:
  "update_term S t c = Some c' \<longleftrightarrow>
     (\<exists>s s'. save_term S (storage c) t = Ok s \<and> save_voted_for S s None = Ok s' \<and>
        c' = c\<lparr>current_term := t, voted_for := None, storage := s'\<rparr>)"
  by (auto simp: update_term_def bind_eq_Some_conv raft_defs)

lemma persist_log_entry_Some [raft_defs]:
  "persist_log_entry S e c = Some c' \<longleftrightarrow>
     (\<exists>s. append_log_entries S (storage c) [e] = Ok s \<and> c' = c\<lparr>storage := s, rlog := rlog c @ [e]\<rparr>)"
  by (auto simp: persist_log_entry_def bind_eq_Some_conv)

lemma persist_truncate_log_Some [raft_defs]:
  "persist_truncate_log S i c = Some c' \<longleftrightarrow>
     (if unat (i - 1) < length (rlog c)
      then \<exists>s. truncate_log S (storage c) i = Ok s \<and> c' = c\<lparr>storage := s, rlog := take (unat (i - 1)) (rlog c)\<rparr>
      else c' = c)"
  by (auto simp: persist_truncate_log_def Let_def bind_eq_Some_conv)

text \<open>
  The three groups of fields that the log side writes: \<open>c'\<close> is \<open>c\<close> up to the fields of the group.
\<close>

definition log_write :: "('s, 'm) raft_core \<Rightarrow> ('s, 'm) raft_core \<Rightarrow> bool" where
  "log_write c c' \<longleftrightarrow> c' = c\<lparr>storage := storage c', rlog := rlog c'\<rparr>"

definition apply_write :: "('s, 'm) raft_core \<Rightarrow> ('s, 'm) raft_core \<Rightarrow> bool" where
  "apply_write c c' \<longleftrightarrow> c' = c\<lparr>last_applied := last_applied c', state_machine := state_machine c'\<rparr>"

definition snapshot_write :: "('s, 'm) raft_core \<Rightarrow> ('s, 'm) raft_core \<Rightarrow> bool" where
  "snapshot_write c c' \<longleftrightarrow>
     c' = c\<lparr>storage := storage c', snapshot_last_index := snapshot_last_index c',
            snapshot_last_term := snapshot_last_term c', rlog := rlog c'\<rparr>"

lemma log_writeI: "log_write c c" "log_write c (c\<lparr>storage := s, rlog := l\<rparr>)"
  by (simp_all add: log_write_def)

lemma log_write_trans: "log_write a b \<Longrightarrow> log_write b c \<Longrightarrow> log_write a c"
  unfolding log_write_def by (cases a, cases b, cases c) simp

lemma apply_write_trans: "apply_write a b \<Longrightarrow> apply_write b c \<Longrightarrow> apply_write a c"
  unfolding apply_write_def by (cases a, cases b, cases c) simp

lemma apply_entry_frame: "apply_entry S e c = Some c' \<Longrightarrow> log_write c c'"
  unfolding apply_entry_def Let_def
  by (auto simp: bind_eq_Some_conv persist_log_entry_Some persist_truncate_log_Some intro: log_writeI
           split: if_split_asm)

lemma apply_entries_frame: "apply_entries S es c = Some c' \<Longrightarrow> log_write c c'"
proof (induction es arbitrary: c)
  case Nil
  then show ?case by (simp add: log_write_def)
next
  case (Cons e es)
  then show ?case
    by (auto simp: bind_eq_Some_conv intro: log_write_trans dest: apply_entry_frame)
qed

lemma apply_loop_frame: "apply_loop M c rs = Some (rs', c') \<Longrightarrow> apply_write c c'"
proof (induction M c rs rule: apply_loop.induct)
  case (1 M c rs)
  show ?case
  proof (cases "last_applied c < commit_index c")
    case True
    let ?c = "c\<lparr>last_applied := last_applied c + 1\<rparr>"
    from 1(2) True obtain e where e: "get_log_entry ?c (last_applied ?c) = Some e"
      by (auto simp: apply_loop.simps [of M c rs] Let_def split: option.splits)
    obtain m r where mr: "sm_apply M (state_machine ?c) (le_command e) = (m, r)"
      by (cases "sm_apply M (state_machine ?c) (le_command e)")
    have "apply_loop M (?c\<lparr>state_machine := m\<rparr>) (rs @ [(last_applied ?c, r)]) = Some (rs', c')"
      using 1(2) True e mr by (simp add: apply_loop.simps [of M c rs])
    from 1(1) [OF True refl e mr [symmetric] refl this]
    have "apply_write (?c\<lparr>state_machine := m\<rparr>) c'" .
    moreover have "apply_write c (?c\<lparr>state_machine := m\<rparr>)" by (simp add: apply_write_def)
    ultimately show ?thesis by (rule apply_write_trans [rotated])
  next
    case False
    with 1(2) show ?thesis by (simp add: apply_loop.simps [of M c rs] apply_write_def)
  qed
qed

lemma take_snapshot_frame: "snapshot_write c (snd (take_snapshot S M c))"
  by (auto simp: take_snapshot_def snapshot_write_def Let_def split: option.splits sum.splits)

text \<open>The fields that the log side of the core never writes.\<close>

definition same_vote :: "('s, 'm) raft_core \<Rightarrow> ('s, 'm) raft_core \<Rightarrow> bool" where
  "same_vote c c' \<longleftrightarrow> current_term c' = current_term c \<and> voted_for c' = voted_for c \<and> role c' = role c \<and>
     votes_received c' = votes_received c \<and> node_id c' = node_id c \<and> peers c' = peers c \<and>
     current_leader c' = current_leader c"

lemma same_vote_refl [simp]: "same_vote c c"
  by (simp add: same_vote_def)

lemma same_vote_trans: "same_vote a b \<Longrightarrow> same_vote b c \<Longrightarrow> same_vote a c"
  by (simp add: same_vote_def)

lemma apply_entries_same_vote: "apply_entries S es c = Some c' \<Longrightarrow> same_vote c c'"
  by (drule apply_entries_frame, unfold log_write_def, erule ssubst) (simp add: same_vote_def)

lemma take_snapshot_same_vote: "same_vote c (snd (take_snapshot S M c))"
  by (subst take_snapshot_frame [of c S M, unfolded snapshot_write_def]) (simp add: same_vote_def)

lemma apply_committed_same_vote:
  assumes "apply_committed_entries S M c = Some (rs, c')"
  shows "same_vote c c'"
proof -
  from assms obtain d where d: "apply_loop M c [] = Some (rs, d)"
    and c': "c' = d \<or> c' = snd (take_snapshot S M d)"
    by (auto simp: apply_committed_entries_def bind_eq_Some_conv)
  have "same_vote c d"
    by (subst apply_loop_frame [OF d, unfolded apply_write_def]) (simp add: same_vote_def)
  with c' take_snapshot_same_vote [of d S M] show ?thesis by (metis same_vote_trans)
qed

lemma accept_entries_same_vote:
  assumes "accept_entries S M req c = Some c'"
  shows "same_vote c c'"
proof -
  from assms obtain d where d: "apply_entries S (ae_entries req) c = Some d"
    and c': "c' = d \<or> (\<exists>rs. apply_committed_entries S M
       (d\<lparr>commit_index := min (leader_commit req) (last_log_index d)\<rparr>) = Some (rs, c'))"
    by (auto simp: accept_entries_def bind_eq_Some_conv split: if_splits)
  have cd: "same_vote c d" using d by (rule apply_entries_same_vote)
  from c' show ?thesis
  proof (elim disjE exE)
    fix rs assume "apply_committed_entries S M
       (d\<lparr>commit_index := min (leader_commit req) (last_log_index d)\<rparr>) = Some (rs, c')"
    then have "same_vote (d\<lparr>commit_index := min (leader_commit req) (last_log_index d)\<rparr>) c'"
      by (rule apply_committed_same_vote)
    with cd show ?thesis by (simp add: same_vote_def)
  qed (use cd in simp)
qed

lemma check_and_append_same_vote:
  "check_and_append S M req c = Some (ok, ct, ci, c') \<Longrightarrow> same_vote c c'"
  by (auto simp: check_and_append_def reject_hint_def bind_eq_Some_conv
           intro: accept_entries_same_vote split: if_splits option.splits)

section \<open>Terms only grow and votes are kept\<close>

text \<open>The order in which the pair of term and vote of one node moves.\<close>

definition vote_order :: "('s, 'm) raft_core \<Rightarrow> ('s, 'm) raft_core \<Rightarrow> bool" where
  "vote_order c c' \<longleftrightarrow>
     current_term c < current_term c' \<or>
     (current_term c' = current_term c \<and> (voted_for c = None \<or> voted_for c' = voted_for c))"

lemma vote_order_refl [simp]: "vote_order c c"
  by (simp add: vote_order_def)

lemma vote_order_trans: "vote_order a b \<Longrightarrow> vote_order b c \<Longrightarrow> vote_order a c"
  by (auto simp: vote_order_def)

lemma same_vote_order: "same_vote c c' \<Longrightarrow> vote_order c c'"
  by (simp add: vote_order_def same_vote_def)

text \<open>The guard "if the message has a higher term, adopt it and step down", shared by five handlers.\<close>

definition observe_term :: "'s storage_ops \<Rightarrow> u64 \<Rightarrow> ('s, 'm) raft_core \<Rightarrow> ('s, 'm) raft_core option" where
  "observe_term S t c =
     (if t > current_term c
      then do { c \<leftarrow> update_term S t c; Some (c\<lparr>role := Follower\<rparr>) }
      else Some c)"

lemma observe_term_folds:
  "process_request_vote_response S r c = observe_term S (rvr_term r) c"
  "process_append_entries_response S q c = observe_term S (aer_term q) c"
  by (simp_all add: process_request_vote_response_def process_append_entries_response_def observe_term_def)

lemma observe_term_Some:
  "observe_term S t c = Some c' \<longleftrightarrow>
     (if t > current_term c
      then \<exists>s s'. save_term S (storage c) t = Ok s \<and> save_voted_for S s None = Ok s' \<and>
             c' = c\<lparr>current_term := t, voted_for := None, storage := s', role := Follower\<rparr>
      else c' = c)"
  by (auto simp: observe_term_def bind_eq_Some_conv update_term_Some)

lemma observe_term_order: "observe_term S t c = Some c' \<Longrightarrow> vote_order c c'"
  by (auto simp: observe_term_Some vote_order_def split: if_splits)

lemma observe_term_ge: "observe_term S t c = Some c' \<Longrightarrow> t \<le> current_term c'"
  by (auto simp: observe_term_Some split: if_splits)

lemma observe_term_max: "observe_term S t c = Some d \<Longrightarrow> current_term d = max t (current_term c)"
  by (auto simp: observe_term_Some max_def split: if_splits)

text \<open>The handlers over the shared guard.\<close>

lemma handle_request_vote_unfold:
  "handle_request_vote S req c =
     (if rv_term req < current_term c
      then Some (\<lparr>rvr_term = current_term c, vote_granted = False\<rparr>, c)
      else do {
        c \<leftarrow> observe_term S (rv_term req) c;
        if (voted_for c = None \<or> voted_for c = Some (rv_candidate_id req)) \<and>
           is_log_up_to_date c (rv_last_log_term req) (rv_last_log_index req)
        then do {
          c \<leftarrow> set_voted_for S (Some (rv_candidate_id req)) c;
          Some (\<lparr>rvr_term = current_term c, vote_granted = True\<rparr>, c)
        }
        else Some (\<lparr>rvr_term = current_term c, vote_granted = False\<rparr>, c)
      })"
proof -
  have "(if voted_for d \<noteq> None \<and> voted_for d \<noteq> Some (rv_candidate_id req) then deny
         else if \<not> is_log_up_to_date d (rv_last_log_term req) (rv_last_log_index req) then deny
         else grant)
      = (if (voted_for d = None \<or> voted_for d = Some (rv_candidate_id req)) \<and>
            is_log_up_to_date d (rv_last_log_term req) (rv_last_log_index req)
         then grant else deny)" for d :: "('a, 'b) raft_core" and grant deny :: "(request_vote_result \<times> ('a, 'b) raft_core) option"
    by auto
  then show ?thesis
    unfolding handle_request_vote_def observe_term_def by (simp only:)
qed

lemma handle_append_entries_unfold:
  "handle_append_entries S M now req c = Some (out, c') \<longleftrightarrow>
     (\<exists>d. observe_term S (ae_term req) c = Some d \<and>
        (if ae_term req < current_term d
         then c' = d \<and> out = \<lparr>hae_result = \<lparr>aer_term = current_term d, aer_success = False,
                                   conflict_term = None, conflict_index = None\<rparr>, hae_leader_id = None\<rparr>
         else \<exists>ok ct ci. check_and_append S M req
                 (d\<lparr>role := Follower, current_leader := Some (ae_leader_id req), last_heartbeat := now\<rparr>)
                 = Some (ok, ct, ci, c') \<and>
              out = \<lparr>hae_result = \<lparr>aer_term = current_term c', aer_success = ok,
                                   conflict_term = ct, conflict_index = ci\<rparr>,
                     hae_leader_id = Some (ae_leader_id req)\<rparr>))"
  unfolding handle_append_entries_def observe_term_def [symmetric]
  by (auto simp: bind_eq_Some_conv split: if_split_asm)

lemma handle_append_entries_vote:
  assumes "handle_append_entries S M now req c = Some (out, c')"
  obtains d where "observe_term S (ae_term req) c = Some d"
    and "current_term c' = current_term d" "voted_for c' = voted_for d"
    and "ae_term req < current_term d \<and> c' = d \<or> role c' = Follower"
proof -
  from assms obtain d where d: "observe_term S (ae_term req) c = Some d"
    and "ae_term req < current_term d \<and> c' = d \<or>
      (\<exists>ok ct ci. check_and_append S M req
                 (d\<lparr>role := Follower, current_leader := Some (ae_leader_id req), last_heartbeat := now\<rparr>)
                 = Some (ok, ct, ci, c'))"
    by (auto simp: handle_append_entries_unfold split: if_split_asm)
  then consider "ae_term req < current_term d" "c' = d"
    | "same_vote (d\<lparr>role := Follower, current_leader := Some (ae_leader_id req), last_heartbeat := now\<rparr>) c'"
    by (blast dest: check_and_append_same_vote)
  then show thesis
    by cases (use d that in \<open>auto simp: same_vote_def\<close>)
qed

lemma install_snapshot_steps_vote:
  "install_snapshot_steps S M args c = Some (res, c') \<Longrightarrow> same_vote c c'"
  unfolding install_snapshot_steps_def
  by (auto simp: bind_eq_Some_conv Let_def same_vote_def advance_to_snapshot_def split: sum.split_asm)

lemma handle_install_snapshot_vote:
  assumes "handle_install_snapshot S M now args c = Some (res, c')"
  obtains "c' = c" "is_term args < current_term c"
  | d where "observe_term S (is_term args) c = Some d" "\<not> is_term args < current_term c"
      "same_vote (d\<lparr>last_heartbeat := now, current_leader := Some (is_leader_id args)\<rparr>) c'"
proof (cases "is_term args < current_term c")
  case True
  with assms have "c' = c" by (simp add: handle_install_snapshot_def)
  with True that(1) show thesis by blast
next
  case False
  with assms obtain d where d: "observe_term S (is_term args) c = Some d"
    and "(let c = d\<lparr>last_heartbeat := now, current_leader := Some (is_leader_id args)\<rparr> in
        c' = c \<or> install_snapshot_steps S M args c = Some (res, c'))"
    unfolding handle_install_snapshot_def observe_term_def [symmetric]
    by (cases "observe_term S (is_term args) c") (simp_all add: Let_def split: if_split_asm)
  then have "same_vote (d\<lparr>last_heartbeat := now, current_leader := Some (is_leader_id args)\<rparr>) c'"
    by (auto simp: Let_def dest: install_snapshot_steps_vote)
  with d False that(2) show thesis by blast
qed

lemma start_election_Some:
  "start_election S now c = Some c' \<longleftrightarrow>
     (\<exists>s s'. save_term S (storage c) (current_term c + 1) = Ok s \<and>
        save_voted_for S s (Some (node_id c)) = Ok s' \<and>
        c' = c\<lparr>current_term := current_term c + 1, voted_for := Some (node_id c), storage := s',
               role := Candidate, current_leader := None, votes_received := [node_id c],
               last_heartbeat := now\<rparr>)"
  by (auto simp: start_election_def bind_eq_Some_conv raft_defs)

lemma become_leader_Some:
  "become_leader S now c = Some c' \<longleftrightarrow>
     (\<exists>s. append_log_entries S (storage c)
            [\<lparr>le_term = current_term c, le_index = last_log_index c + 1, le_command = NOOP_COMMAND\<rparr>] = Ok s \<and>
        c' = c\<lparr>role := Leader, current_leader := Some (node_id c), last_heartbeat := now,
               next_index := fold (\<lambda>p. hm_insert p (last_log_index c + 1)) (peers c) (next_index c),
               match_index := fold (\<lambda>p. hm_insert p 0) (peers c) (match_index c), storage := s,
               rlog := rlog c @ [\<lparr>le_term = current_term c, le_index = last_log_index c + 1,
                                  le_command = NOOP_COMMAND\<rparr>]\<rparr>)"
  by (auto simp: become_leader_def Let_def reset_peer_indices_def raft_defs last_log_index_def)

text \<open>The core after a vote response, before the majority is tested.\<close>

definition count_vote :: "u64 \<Rightarrow> request_vote_result \<Rightarrow> ('s, 'm) raft_core \<Rightarrow> ('s, 'm) raft_core" where
  "count_vote p r c =
     (if vote_granted r \<and> p \<notin> set (votes_received c)
      then c\<lparr>votes_received := votes_received c @ [p]\<rparr> else c)"

lemma majority_count_vote [simp]: "majority (count_vote p r c) = majority c"
  by (simp add: count_vote_def majority_def total_nodes_def)

lemma handle_request_vote_result_Some:
  "handle_request_vote_result S now p r c = Some (won, c') \<longleftrightarrow>
     (\<exists>d. observe_term S (rvr_term r) c = Some d \<and>
        (if role d \<noteq> Candidate then \<not> won \<and> c' = d
         else if majority d \<le> length (votes_received (count_vote p r d))
         then won \<and> become_leader S now (count_vote p r d) = Some c'
         else \<not> won \<and> c' = count_vote p r d))"
proof (cases "observe_term S (rvr_term r) c")
  case None
  then show ?thesis unfolding handle_request_vote_result_def observe_term_folds by simp
next
  case (Some d)
  have maj: "majority (d\<lparr>votes_received := vs\<rparr>) = majority d" for vs
    by (simp add: majority_def total_nodes_def)
  from Some show ?thesis
    unfolding handle_request_vote_result_def observe_term_folds
    by (cases "become_leader S now (count_vote p r d)")
       (simp_all add: Let_def count_vote_def maj, auto)
qed

lemma handle_request_vote_result_vote:
  assumes "handle_request_vote_result S now p r c = Some (won, c')"
  obtains d where "observe_term S (rvr_term r) c = Some d"
    "current_term c' = current_term d" "voted_for c' = voted_for d"
  using assms
  by (auto simp: handle_request_vote_result_Some become_leader_Some count_vote_def split: if_split_asm)

lemma note_success_same_vote: "same_vote c (note_success p i c)"
  by (simp add: note_success_def Let_def same_vote_def)

lemma note_rejection_same_vote: "same_vote c (note_rejection p r c)"
  by (simp add: note_rejection_def Let_def same_vote_def)

lemma handle_append_entries_result_vote:
  assumes "handle_append_entries_result S M p i r c = Some (out, c')"
  obtains d where "observe_term S (aer_term r) c = Some d" "same_vote d c'"
proof -
  from assms obtain d where d: "observe_term S (aer_term r) c = Some d"
    unfolding handle_append_entries_result_def observe_term_folds
    by (cases "observe_term S (aer_term r) c") simp_all
  define e where "e = (if aer_success r then note_success p i d else note_rejection p r d)"
  have de: "same_vote d e"
    by (simp add: e_def note_success_same_vote note_rejection_same_vote)
  have "c' = d \<or> c' = e \<or> (\<exists>rs. apply_committed_entries S M (e\<lparr>commit_index := i\<rparr>) = Some (rs, c'))"
    using assms d unfolding handle_append_entries_result_def observe_term_folds
    by (cases "apply_committed_entries S M (e\<lparr>commit_index := i\<rparr>)")
       (auto simp: Let_def e_def [symmetric] split: if_split_asm)
  then have "same_vote d c'"
  proof (elim disjE exE)
    fix rs assume "apply_committed_entries S M (e\<lparr>commit_index := i\<rparr>) = Some (rs, c')"
    then have "same_vote (e\<lparr>commit_index := i\<rparr>) c'" by (rule apply_committed_same_vote)
    with de show ?thesis by (simp add: same_vote_def)
  qed (use de in simp_all)
  with d that show thesis by blast
qed

lemma append_log_entry_Some:
  "append_log_entry S cmd c = Some (res, c') \<longleftrightarrow>
     (if role c \<noteq> Leader then res = None \<and> c' = c
      else let e = \<lparr>le_term = current_term c, le_index = last_log_index c + 1, le_command = cmd\<rparr>
           in res = Some e \<and> (\<exists>s. append_log_entries S (storage c) [e] = Ok s \<and>
                c' = c\<lparr>storage := s, rlog := rlog c @ [e]\<rparr>))"
  by (auto simp: append_log_entry_def Let_def bind_eq_Some_conv raft_defs)

lemma handle_request_vote_order:
  assumes "handle_request_vote S req c = Some (res, c')"
  shows "vote_order c c'"
proof (cases "rv_term req < current_term c")
  case True
  with assms show ?thesis by (simp add: handle_request_vote_unfold)
next
  case False
  with assms obtain d where d: "observe_term S (rv_term req) c = Some d"
    and "c' = d \<or> (voted_for d = None \<or> voted_for d = Some (rv_candidate_id req)) \<and>
           (\<exists>s. c' = d\<lparr>voted_for := Some (rv_candidate_id req), storage := s\<rparr>)"
    unfolding handle_request_vote_unfold
    by (auto simp: bind_eq_Some_conv raft_defs split: if_split_asm)
  then have "vote_order d c'" by (auto simp: vote_order_def)
  with observe_term_order [OF d] show ?thesis by (rule vote_order_trans)
qed

lemma start_election_order:
  assumes "start_election S now c = Some c'" "current_term c \<noteq> -1"
  shows "vote_order c c'"
proof -
  have "unat (current_term c + 1) = unat (current_term c) + 1"
    using assms(2) by (rule u64_succ_neq_max)
  then have "current_term c < current_term c + 1" by (simp add: word_less_nat_alt)
  with assms(1) show ?thesis by (auto simp: start_election_Some vote_order_def)
qed

text \<open>The one place where a term is computed, not received: an election must not start at the last term.\<close>

definition no_term_overflow :: "core_event \<Rightarrow> ('s, 'm) raft_core \<Rightarrow> bool" where
  "no_term_overflow ev c \<longleftrightarrow> (\<forall>now. ev = ElectionStart now \<longrightarrow> current_term c \<noteq> -1)"

lemma core_step_order:
  assumes "core_step S M ev c = Some c'" "no_term_overflow ev c"
  shows "vote_order c c'"
proof (cases ev)
  case (RequestVoteReq req)
  with assms show ?thesis by (auto dest: handle_request_vote_order)
next
  case (AppendEntriesReq now req)
  with assms obtain out where "handle_append_entries S M now req c = Some (out, c')" by auto
  then obtain d where "observe_term S (ae_term req) c = Some d"
    "current_term c' = current_term d" "voted_for c' = voted_for d"
    by (rule handle_append_entries_vote)
  then show ?thesis using observe_term_order by (fastforce simp: vote_order_def)
next
  case (InstallSnapshotReq now args)
  with assms obtain res where "handle_install_snapshot S M now args c = Some (res, c')" by auto
  then show ?thesis
  proof (cases rule: handle_install_snapshot_vote)
    case (2 d)
    then show ?thesis using observe_term_order [OF 2(1)] by (simp add: vote_order_def same_vote_def)
  qed simp
next
  case (ElectionStart now)
  with assms show ?thesis by (auto simp: no_term_overflow_def intro: start_election_order)
next
  case (RequestVoteRes now p r)
  with assms obtain won where "handle_request_vote_result S now p r c = Some (won, c')" by auto
  then obtain d where "observe_term S (rvr_term r) c = Some d"
    "current_term c' = current_term d" "voted_for c' = voted_for d"
    by (rule handle_request_vote_result_vote)
  then show ?thesis using observe_term_order by (fastforce simp: vote_order_def)
next
  case (AppendEntriesRes p i r)
  with assms obtain out where "handle_append_entries_result S M p i r c = Some (out, c')" by auto
  then obtain d where "observe_term S (aer_term r) c = Some d" "same_vote d c'"
    by (rule handle_append_entries_result_vote)
  then show ?thesis using observe_term_order by (fastforce simp: vote_order_def same_vote_def)
next
  case (ClientAppend cmd)
  with assms show ?thesis by (auto simp: append_log_entry_Some Let_def vote_order_def split: if_split_asm)
next
  case ApplyCommitted
  with assms show ?thesis by (auto intro!: same_vote_order dest: apply_committed_same_vote)
next
  case TakeSnapshot
  with assms take_snapshot_same_vote [of c S M] show ?thesis by (auto intro: same_vote_order)
qed

text \<open>Runs: the order is transitive, so it holds from the first to the last state.\<close>

lemma core_run_order:
  assumes "core_run S M evs c = Some c'" "\<forall>ev \<in> set evs. \<forall>now. ev \<noteq> ElectionStart now"
  shows "vote_order c c'"
  using assms
proof (induction evs arbitrary: c)
  case Nil
  then show ?case by simp
next
  case (Cons ev evs)
  then obtain d where d: "core_step S M ev c = Some d" "core_run S M evs d = Some c'"
    by (auto simp: bind_eq_Some_conv)
  have "vote_order c d"
    using d(1) by (rule core_step_order) (use Cons.prems in \<open>auto simp: no_term_overflow_def\<close>)
  moreover have "vote_order d c'" using Cons.IH [OF d(2)] Cons.prems by simp
  ultimately show ?case by (rule vote_order_trans)
qed

section \<open>The term and the vote on disk\<close>

definition vote_persisted :: "'s storage_ops \<Rightarrow> ('s, 'm) raft_core \<Rightarrow> bool" where
  "vote_persisted S c \<longleftrightarrow>
     load_term S (storage c) = Ok (current_term c) \<and> load_voted_for S (storage c) = Ok (voted_for c)"

definition vote_kept :: "'s storage_ops \<Rightarrow> ('s, 'm) raft_core \<Rightarrow> ('s, 'm) raft_core \<Rightarrow> bool" where
  "vote_kept S c c' \<longleftrightarrow>
     load_term S (storage c') = load_term S (storage c) \<and>
     load_voted_for S (storage c') = load_voted_for S (storage c)"

lemma vote_kept_refl [simp]: "vote_kept S c c"
  by (simp add: vote_kept_def)

lemma vote_kept_trans: "vote_kept S a b \<Longrightarrow> vote_kept S b c \<Longrightarrow> vote_kept S a c"
  by (simp add: vote_kept_def)

lemma vote_kept_same_storage: "storage c' = storage c \<Longrightarrow> vote_kept S c c'"
  by (simp add: vote_kept_def)

lemma vote_persisted_kept:
  "vote_persisted S c \<Longrightarrow> vote_kept S c c' \<Longrightarrow> same_vote c c' \<Longrightarrow> vote_persisted S c'"
  by (simp add: vote_persisted_def vote_kept_def same_vote_def)

lemma apply_loop_storage: "apply_loop M c rs = Some (rs', c') \<Longrightarrow> storage c' = storage c"
  by (drule apply_loop_frame, unfold apply_write_def, erule ssubst) simp

context vote_storage
begin

lemma append_kept:
  assumes "append_log_entries S (storage c) es = Ok s"
  shows "load_term S s = load_term S (storage c)" "load_voted_for S s = load_voted_for S (storage c)"
  using append_vote [OF assms] by auto

lemma apply_entry_kept: "apply_entry S e c = Some c' \<Longrightarrow> vote_kept S c c'"
  unfolding apply_entry_def Let_def
  by (auto simp: bind_eq_Some_conv raft_defs vote_kept_def dest!: append_vote truncate_vote
           split: if_split_asm)

lemma apply_entries_kept: "apply_entries S es c = Some c' \<Longrightarrow> vote_kept S c c'"
proof (induction es arbitrary: c)
  case (Cons e es)
  then show ?case by (auto simp: bind_eq_Some_conv dest: apply_entry_kept intro: vote_kept_trans)
qed simp

lemma take_snapshot_kept: "vote_kept S c (snd (take_snapshot S M c))"
  unfolding take_snapshot_def Let_def
  by (auto simp: vote_kept_def dest!: snapshot_vote compact_vote failed_vote split: option.split sum.split)

lemma apply_committed_kept:
  assumes "apply_committed_entries S M c = Some (rs, c')"
  shows "vote_kept S c c'"
proof -
  from assms obtain d where d: "apply_loop M c [] = Some (rs, d)"
    and "c' = d \<or> c' = snd (take_snapshot S M d)"
    by (auto simp: apply_committed_entries_def bind_eq_Some_conv)
  moreover have "vote_kept S c d" using apply_loop_storage [OF d] by (rule vote_kept_same_storage)
  ultimately show ?thesis using take_snapshot_kept vote_kept_trans by metis
qed

lemma accept_entries_kept:
  assumes "accept_entries S M req c = Some c'"
  shows "vote_kept S c c'"
proof -
  from assms obtain d where d: "apply_entries S (ae_entries req) c = Some d"
    and "c' = d \<or> (\<exists>rs. apply_committed_entries S M
       (d\<lparr>commit_index := min (leader_commit req) (last_log_index d)\<rparr>) = Some (rs, c'))"
    by (auto simp: accept_entries_def bind_eq_Some_conv split: if_splits)
  then have "vote_kept S d c'" by (auto dest!: apply_committed_kept simp: vote_kept_def)
  with apply_entries_kept [OF d] show ?thesis by (rule vote_kept_trans)
qed

lemma check_and_append_kept:
  "check_and_append S M req c = Some (ok, ct, ci, c') \<Longrightarrow> vote_kept S c c'"
  by (auto simp: check_and_append_def reject_hint_def bind_eq_Some_conv
           intro: accept_entries_kept split: if_splits option.splits)

lemma check_and_append_both:
  "check_and_append S M req c = Some (ok, ct, ci, c') \<Longrightarrow> same_vote c c' \<and> vote_kept S c c'"
  by (simp add: check_and_append_kept check_and_append_same_vote)

lemma install_snapshot_steps_kept:
  assumes "install_snapshot_steps S M args c = Some (res, c')"
  shows "vote_kept S c c'"
proof (cases "save_snapshot S (storage c)
             \<lparr>metadata = \<lparr>last_included_index = is_last_included_index args,
                          last_included_term = is_last_included_term args\<rparr>,
              snapshot_data = is_data args\<rparr>")
  case (Inl x)
  then obtain e s where f: "save_snapshot S (storage c)
             \<lparr>metadata = \<lparr>last_included_index = is_last_included_index args,
                          last_included_term = is_last_included_term args\<rparr>,
              snapshot_data = is_data args\<rparr> = Err (e, s)"
    by (cases x) simp
  with assms failed_vote(2) [OF f] show ?thesis by (auto simp: install_snapshot_steps_def vote_kept_def)
next
  case (Inr s)
  note kept = snapshot_vote [OF Inr]
  show ?thesis
  proof (cases "compact_log S s (is_last_included_index args + 1)")
    case (Inl x)
    then obtain e s' where f: "compact_log S s (is_last_included_index args + 1) = Err (e, s')"
      by (cases x) simp
    with assms \<open>save_snapshot S _ _ = Ok s\<close> kept failed_vote(1) [OF f] show ?thesis
      by (auto simp: install_snapshot_steps_def bind_eq_Some_conv Let_def vote_kept_def advance_to_snapshot_def)
  next
    case (Inr s')
    with assms \<open>save_snapshot S _ _ = Ok s\<close> kept compact_vote [OF Inr] show ?thesis
      by (auto simp: install_snapshot_steps_def bind_eq_Some_conv Let_def vote_kept_def advance_to_snapshot_def)
  qed
qed

lemma observe_term_persisted:
  "vote_persisted S c \<Longrightarrow> observe_term S t c = Some d \<Longrightarrow> vote_persisted S d"
  by (auto simp: observe_term_Some vote_persisted_def save_vote_vote save_term_term save_vote_term
           split: if_splits)

lemma start_election_persisted: "start_election S now c = Some c' \<Longrightarrow> vote_persisted S c'"
  by (auto simp: start_election_Some vote_persisted_def save_vote_vote save_term_term save_vote_term)

lemma become_leader_persisted:
  "vote_persisted S c \<Longrightarrow> become_leader S now c = Some c' \<Longrightarrow> vote_persisted S c'"
  by (auto simp: become_leader_Some vote_persisted_def append_kept)

lemma handle_request_vote_persisted:
  assumes "vote_persisted S c" "handle_request_vote S req c = Some (res, c')"
  shows "vote_persisted S c'"
proof (cases "rv_term req < current_term c")
  case True
  with assms show ?thesis by (simp add: handle_request_vote_unfold)
next
  case False
  with assms(2) obtain d where d: "observe_term S (rv_term req) c = Some d"
    and "c' = d \<or> (\<exists>s. save_voted_for S (storage d) (Some (rv_candidate_id req)) = Ok s \<and>
            c' = d\<lparr>voted_for := Some (rv_candidate_id req), storage := s\<rparr>)"
    unfolding handle_request_vote_unfold
    by (auto simp: bind_eq_Some_conv raft_defs split: if_split_asm)
  with observe_term_persisted [OF assms(1) d] show ?thesis
    by (auto simp: vote_persisted_def save_vote_vote save_vote_term)
qed

lemma persisted_after_log_work:
  assumes "vote_persisted S c" "observe_term S t c = Some d" "vote_kept S d c'"
    "current_term c' = current_term d" "voted_for c' = voted_for d"
  shows "vote_persisted S c'"
  using observe_term_persisted [OF assms(1,2)] assms(3-5) by (simp add: vote_persisted_def vote_kept_def)

lemma handle_append_entries_persisted:
  assumes "vote_persisted S c" "handle_append_entries S M now req c = Some (out, c')"
  shows "vote_persisted S c'"
proof -
  from assms(2) obtain d where d: "observe_term S (ae_term req) c = Some d"
    and e: "c' = d \<or> (\<exists>ok ct ci. check_and_append S M req
                 (d\<lparr>role := Follower, current_leader := Some (ae_leader_id req), last_heartbeat := now\<rparr>)
                 = Some (ok, ct, ci, c'))"
    by (auto simp: handle_append_entries_unfold split: if_split_asm)
  from e have "vote_kept S d c' \<and> current_term c' = current_term d \<and> voted_for c' = voted_for d"
    by (auto dest!: check_and_append_both simp: vote_kept_def same_vote_def)
  with persisted_after_log_work [OF assms(1) d] show ?thesis by blast
qed

lemma handle_install_snapshot_persisted:
  assumes "vote_persisted S c" "handle_install_snapshot S M now args c = Some (res, c')"
  shows "vote_persisted S c'"
proof (cases "is_term args < current_term c")
  case True
  with assms show ?thesis by (simp add: handle_install_snapshot_def)
next
  case False
  with assms(2) obtain d where d: "observe_term S (is_term args) c = Some d"
    and e: "(let c = d\<lparr>last_heartbeat := now, current_leader := Some (is_leader_id args)\<rparr> in
        c' = c \<or> install_snapshot_steps S M args c = Some (res, c'))"
    unfolding handle_install_snapshot_def observe_term_def [symmetric]
    by (cases "observe_term S (is_term args) c") (simp_all add: Let_def split: if_split_asm)
  let ?d = "d\<lparr>last_heartbeat := now, current_leader := Some (is_leader_id args)\<rparr>"
  have "vote_persisted S ?d"
    using observe_term_persisted [OF assms(1) d] by (simp add: vote_persisted_def)
  with e show ?thesis
    by (auto simp: Let_def
             intro: vote_persisted_kept install_snapshot_steps_kept install_snapshot_steps_vote)
qed

lemma handle_request_vote_result_persisted:
  assumes "vote_persisted S c" "handle_request_vote_result S now p r c = Some (won, c')"
  shows "vote_persisted S c'"
proof -
  from assms(2) obtain d where d: "observe_term S (rvr_term r) c = Some d"
    and e: "c' = d \<or> c' = count_vote p r d \<or> become_leader S now (count_vote p r d) = Some c'"
    by (auto simp: handle_request_vote_result_Some split: if_split_asm)
  have "vote_persisted S d" using assms(1) d by (rule observe_term_persisted)
  moreover from this have "vote_persisted S (count_vote p r d)"
    by (simp add: vote_persisted_def count_vote_def)
  ultimately show ?thesis using e by (auto intro: become_leader_persisted)
qed

lemma note_kept: "vote_kept S c (note_success p i c)" "vote_kept S c (note_rejection p r c)"
  by (simp_all add: vote_kept_def note_success_def note_rejection_def Let_def)

lemma handle_append_entries_result_persisted:
  assumes "vote_persisted S c" "handle_append_entries_result S M p i r c = Some (out, c')"
  shows "vote_persisted S c'"
proof -
  from assms(2) obtain d where d: "observe_term S (aer_term r) c = Some d"
    unfolding handle_append_entries_result_def observe_term_folds
    by (cases "observe_term S (aer_term r) c") simp_all
  define e where "e = (if aer_success r then note_success p i d else note_rejection p r d)"
  have de: "same_vote d e" "vote_kept S d e"
    by (simp_all add: e_def note_success_same_vote note_rejection_same_vote note_kept)
  have "c' = d \<or> c' = e \<or> (\<exists>rs. apply_committed_entries S M (e\<lparr>commit_index := i\<rparr>) = Some (rs, c'))"
    using assms(2) d unfolding handle_append_entries_result_def observe_term_folds
    by (cases "apply_committed_entries S M (e\<lparr>commit_index := i\<rparr>)")
       (auto simp: Let_def e_def [symmetric] split: if_split_asm)
  then have "vote_kept S d c' \<and> same_vote d c'"
  proof (elim disjE exE)
    fix rs assume a: "apply_committed_entries S M (e\<lparr>commit_index := i\<rparr>) = Some (rs, c')"
    show ?thesis
      using apply_committed_same_vote [OF a] apply_committed_kept [OF a] de
      by (simp add: same_vote_def vote_kept_def)
  qed (use de in simp_all)
  moreover have "vote_persisted S d" using assms(1) d by (rule observe_term_persisted)
  ultimately show ?thesis by (blast intro: vote_persisted_kept)
qed

lemma append_log_entry_persisted:
  "vote_persisted S c \<Longrightarrow> append_log_entry S cmd c = Some (res, c') \<Longrightarrow> vote_persisted S c'"
  by (auto simp: append_log_entry_Some Let_def vote_persisted_def append_kept split: if_split_asm)

theorem core_step_persisted:
  assumes "vote_persisted S c" "core_step S M ev c = Some c'"
  shows "vote_persisted S c'"
proof (cases ev)
  case (ElectionStart now)
  with assms show ?thesis by (auto intro: start_election_persisted)
next
  case ApplyCommitted
  with assms show ?thesis
    by (auto intro: vote_persisted_kept apply_committed_kept apply_committed_same_vote)
next
  case TakeSnapshot
  with assms show ?thesis
    by (auto intro: vote_persisted_kept take_snapshot_kept take_snapshot_same_vote)
qed (use assms in \<open>auto intro: handle_request_vote_persisted handle_append_entries_persisted
       handle_install_snapshot_persisted handle_request_vote_result_persisted
       handle_append_entries_result_persisted append_log_entry_persisted\<close>)

theorem core_run_persisted:
  "vote_persisted S c \<Longrightarrow> core_run S M evs c = Some c' \<Longrightarrow> vote_persisted S c'"
proof (induction evs arbitrary: c)
  case (Cons ev evs)
  then obtain d where "core_step S M ev c = Some d" "core_run S M evs d = Some c'"
    by (auto simp: bind_eq_Some_conv)
  with Cons core_step_persisted show ?case by blast
qed simp

text \<open>A core made from a storage has the term and the vote of that storage.\<close>

lemma raft_core_new_persisted: "raft_core_new S M now i ps s m = Some c \<Longrightarrow> vote_persisted S c"
  by (auto simp: raft_core_new_def bind_eq_Some_conv vote_persisted_def)

text \<open>A crash after any run and a restart from the storage keeps the term and the vote.\<close>

theorem restart_keeps_vote:
  assumes "vote_persisted S c" "core_run S M evs c = Some c'"
    and "raft_core_new S M now i ps (storage c') m = Some d"
  shows "current_term d = current_term c' \<and> voted_for d = voted_for c'"
proof -
  have "vote_persisted S c'" using assms(1,2) by (rule core_run_persisted)
  moreover have "vote_persisted S d" using assms(3) by (rule raft_core_new_persisted)
  moreover have "storage d = storage c'"
    using assms(3) by (auto simp: raft_core_new_def bind_eq_Some_conv)
  ultimately show ?thesis by (simp add: vote_persisted_def)
qed

end

end
