(* ===== verification/Raft_Log.thy ===== *)
theory Raft_Log
  imports Raft_Vote
begin

text \<open>
  The replicated log of one node. \<open>merge_log\<close> is the specification of AppendEntries in the Raft
  paper (delete an existing entry that conflicts and all that follow, append what is new) over a log
  behind a snapshot; \<open>apply_entries\<close> is shown to compute it as long as no conflict is met behind a
  snapshot. \<open>core_wf\<close> is the well-formedness of a node: a gapless log with
  \<open>snapshot_last_index \<le> last_applied \<le> commit_index \<le> last_log_index\<close>. It implies that no operation
  reaches the \<open>panic!\<close> of \<open>apply_committed_entries\<close>.
\<close>

section \<open>Reading a gapless log\<close>

definition log_ok :: "('s, 'm) raft_core \<Rightarrow> bool" where
  "log_ok c \<longleftrightarrow> log_from (snapshot_last_index c) (rlog c)"

lemma unat_last_log_index:
  "log_ok c \<Longrightarrow> unat (last_log_index c) = unat (snapshot_last_index c) + length (rlog c)"
  by (simp add: log_ok_def last_log_index_def log_from_last)

lemma get_log_entry_Some:
  assumes "log_ok c" "unat (snapshot_last_index c) < unat i" "unat i \<le> unat (last_log_index c)"
  shows "get_log_entry c i = Some (rlog c ! (unat i - unat (snapshot_last_index c) - 1))"
proof -
  have lt: "snapshot_last_index c < i" using assms(2) by (simp add: word_less_nat_alt)
  then have "unat (i - snapshot_last_index c - 1) = unat i - unat (snapshot_last_index c) - 1"
    by (rule u64_offset)
  moreover have "unat i - unat (snapshot_last_index c) - 1 < length (rlog c)"
    using assms unat_last_log_index by fastforce
  ultimately show ?thesis using lt by (simp add: get_log_entry_def Let_def)
qed

lemma get_log_entry_None:
  assumes "log_ok c" "unat i \<le> unat (snapshot_last_index c) \<or> unat (last_log_index c) < unat i"
  shows "get_log_entry c i = None"
proof (cases "i \<le> snapshot_last_index c")
  case False
  then have lt: "snapshot_last_index c < i" by simp
  then have "unat (i - snapshot_last_index c - 1) = unat i - unat (snapshot_last_index c) - 1"
    by (rule u64_offset)
  moreover have "length (rlog c) \<le> unat i - unat (snapshot_last_index c) - 1"
    using assms False unat_last_log_index [OF assms(1)] by (auto simp: word_le_nat_alt)
  ultimately show ?thesis by (simp add: get_log_entry_def Let_def)
qed (simp add: get_log_entry_def)

lemma get_log_entry_iff:
  assumes "log_ok c"
  shows "(\<exists>e. get_log_entry c i = Some e) \<longleftrightarrow> snapshot_last_index c < i \<and> i \<le> last_log_index c"
  using get_log_entry_Some [OF assms, of i] get_log_entry_None [OF assms, of i]
  by (fastforce simp: word_less_nat_alt word_le_nat_alt)

lemma get_log_entry_index:
  assumes "log_ok c" "get_log_entry c i = Some e"
  shows "le_index e = i \<and> e \<in> set (rlog c)"
proof -
  have r: "unat (snapshot_last_index c) < unat i" "unat i \<le> unat (last_log_index c)"
    using get_log_entry_iff [OF assms(1), of i] assms(2) by (auto simp: word_less_nat_alt word_le_nat_alt)
  let ?k = "unat i - unat (snapshot_last_index c) - 1"
  have k: "?k < length (rlog c)" using r unat_last_log_index [OF assms(1)] by linarith
  have e: "e = rlog c ! ?k" using get_log_entry_Some [OF assms(1) r] assms(2) by simp
  have "unat (le_index e) = unat i"
    using log_from_nth [OF assms(1) [unfolded log_ok_def] k] r(1) e by simp
  then show ?thesis using e k by (simp add: word_unat_eq_iff)
qed

section \<open>The merge of the Raft paper\<close>

definition merge_entry :: "u64 \<Rightarrow> log_entry list \<Rightarrow> log_entry \<Rightarrow> log_entry list" where
  "merge_entry s l e =
     (if le_index e \<le> s then l
      else let k = unat (le_index e) - unat s - 1
           in if k < length l \<and> le_term (l ! k) = le_term e then l else take k l @ [e])"

definition merge_log :: "u64 \<Rightarrow> log_entry list \<Rightarrow> log_entry list \<Rightarrow> log_entry list" where
  "merge_log s = foldl (merge_entry s)"

lemma merge_log_simps [simp]:
  "merge_log s l [] = l" "merge_log s l (e # es) = merge_log s (merge_entry s l e) es"
  by (simp_all add: merge_log_def)

text \<open>An entry of the log with the index of \<open>e\<close> and another term.\<close>

definition conflicts :: "u64 \<Rightarrow> log_entry list \<Rightarrow> log_entry \<Rightarrow> bool" where
  "conflicts s l e \<longleftrightarrow>
     s < le_index e \<and>
     (let k = unat (le_index e) - unat s - 1 in k < length l \<and> le_term (l ! k) \<noteq> le_term e)"

fun conflict_free :: "u64 \<Rightarrow> log_entry list \<Rightarrow> log_entry list \<Rightarrow> bool" where
  "conflict_free s l [] = True"
| "conflict_free s l (e # es) = (\<not> conflicts s l e \<and> conflict_free s (merge_entry s l e) es)"

text \<open>No entry with an index up to \<open>ci\<close> is overwritten.\<close>

fun keeps_below :: "u64 \<Rightarrow> u64 \<Rightarrow> log_entry list \<Rightarrow> log_entry list \<Rightarrow> bool" where
  "keeps_below ci s l [] = True"
| "keeps_below ci s l (e # es) =
     ((conflicts s l e \<longrightarrow> ci < le_index e) \<and> keeps_below ci s (merge_entry s l e) es)"

lemma conflict_free_keeps_below: "conflict_free s l es \<Longrightarrow> keeps_below ci s l es"
  by (induction es arbitrary: l) auto

lemma merge_entry_log_from:
  assumes l: "log_from s l" and p: "unat (le_index e) \<le> unat s + length l + 1"
  shows "log_from s (merge_entry s l e)"
proof (cases "le_index e \<le> s")
  case True
  with l show ?thesis by (simp add: merge_entry_def)
next
  case False
  then have gt: "unat s < unat (le_index e)" by (simp add: word_le_nat_alt)
  let ?k = "unat (le_index e) - unat s - 1"
  have "log_from s (take ?k l @ [e])"
  proof -
    have "length (take ?k l) = ?k" using p by simp
    then show ?thesis
      using log_from_append1 [OF log_from_take [OF l, of ?k], of e] gt
        unat_lt_u64 [of "le_index e"] by simp
  qed
  with l False show ?thesis by (simp add: merge_entry_def Let_def)
qed

lemma merge_entry_length:
  assumes "s < le_index e" "unat (le_index e) \<le> unat s + length l + 1"
  shows "unat (le_index e) \<le> unat s + length (merge_entry s l e)"
  using assms by (auto simp: merge_entry_def Let_def word_less_nat_alt word_le_nat_alt)

lemma merge_log_from:
  assumes "log_from s l" "log_from p es" "unat p \<le> unat s + length l"
  shows "log_from s (merge_log s l es)"
  using assms
proof (induction es arbitrary: l p)
  case Nil
  then show ?case by simp
next
  case (Cons e es)
  have e: "unat (le_index e) = unat p + 1" using log_from_nth [OF Cons.prems(2), of 0] by simp
  have tl: "log_from (le_index e) es"
    using Cons.prems(2) e unfolding log_from_def by fastforce
  have "log_from s (merge_entry s l e)"
    by (rule merge_entry_log_from [OF Cons.prems(1)]) (use e Cons.prems(3) in simp_all)
  moreover have "unat (le_index e) \<le> unat s + length (merge_entry s l e)"
  proof (cases "le_index e \<le> s")
    case True
    then show ?thesis by (simp add: word_le_nat_alt)
  next
    case False
    then show ?thesis using e Cons.prems(3) by (intro merge_entry_length) simp_all
  qed
  ultimately show ?case using Cons.IH [OF _ tl] by simp
qed

lemma log_from_ConsD:
  assumes "log_from p (e # es)"
  shows "unat (le_index e) = unat p + 1" "log_from (le_index e) es"
proof -
  show e: "unat (le_index e) = unat p + 1" using log_from_nth [OF assms, of 0] by simp
  show "log_from (le_index e) es" using assms e unfolding log_from_def by fastforce
qed

lemma merge_entry_take:
  assumes "k \<le> length l" "k < unat (le_index e) - unat s \<or> \<not> conflicts s l e"
  shows "take k (merge_entry s l e) = take k l"
proof (cases "le_index e \<le> s")
  case True
  then show ?thesis by (simp add: merge_entry_def)
next
  case False
  then have gt: "s < le_index e" by simp
  let ?k = "unat (le_index e) - unat s - 1"
  show ?thesis
  proof (cases "?k < length l \<and> le_term (l ! ?k) = le_term e")
    case True
    then show ?thesis by (simp add: merge_entry_def Let_def)
  next
    case no: False
    have "take k (take ?k l @ [e]) = take k l"
    proof (cases "k \<le> ?k")
      case True
      then show ?thesis using assms(1) by (simp add: min_absorb1)
    next
      case k: False
      with assms have "\<not> conflicts s l e" "k \<le> length l" by auto
      with no gt have "length l \<le> ?k" by (auto simp: conflicts_def Let_def)
      with k \<open>k \<le> length l\<close> show ?thesis by simp
    qed
    with no False show ?thesis by (simp add: merge_entry_def Let_def)
  qed
qed

text \<open>The entries up to the previous index, and those that no received entry contradicts, stay.\<close>

lemma merge_log_take:
  assumes "log_from p es" "k \<le> unat p - unat s" "k \<le> length l"
  shows "take k (merge_log s l es) = take k l"
  using assms
proof (induction es arbitrary: l p)
  case (Cons e es)
  note d = log_from_ConsD [OF Cons.prems(1)]
  have t: "take k (merge_entry s l e) = take k l"
  proof (cases "le_index e \<le> s")
    case True
    then show ?thesis by (simp add: merge_entry_def)
  next
    case False
    then have "unat s < unat (le_index e)" by (simp add: word_le_nat_alt)
    with Cons.prems(2) d(1) have "k < unat (le_index e) - unat s" by linarith
    with Cons.prems(3) show ?thesis by (intro merge_entry_take) simp_all
  qed
  then have "k \<le> length (merge_entry s l e)"
    using Cons.prems(3) by (metis length_take min.absorb2 min.cobounded1)
  then have "take k (merge_log s (merge_entry s l e) es) = take k (merge_entry s l e)"
    by (intro Cons.IH [OF d(2)]) (use Cons.prems(2) d(1) in simp_all)
  with t show ?case by simp
qed simp

lemma merge_entry_at:
  assumes "s < le_index e" "unat (le_index e) \<le> unat s + length l + 1"
  shows "le_term (merge_entry s l e ! (unat (le_index e) - unat s - 1)) = le_term e"
proof -
  let ?k = "unat (le_index e) - unat s - 1"
  have k: "length (take ?k l) = ?k" using assms(2) by simp
  have ns: "\<not> le_index e \<le> s" using assms(1) by simp
  show ?thesis
  proof (cases "?k < length l \<and> le_term (l ! ?k) = le_term e")
    case True
    with ns show ?thesis by (simp add: merge_entry_def Let_def)
  next
    case False
    with ns have "merge_entry s l e = take ?k l @ [e]" by (auto simp: merge_entry_def Let_def)
    then show ?thesis using nth_append_length [of "take ?k l" e "[]"] k by metis
  qed
qed

lemma merge_log_contains:
  assumes "log_from s l" "log_from p es" "unat p \<le> unat s + length l" "e \<in> set es" "s < le_index e"
  shows "unat (le_index e) - unat s - 1 < length (merge_log s l es) \<and>
         le_term (merge_log s l es ! (unat (le_index e) - unat s - 1)) = le_term e"
  using assms
proof (induction es arbitrary: l p)
  case (Cons x es)
  note d = log_from_ConsD [OF Cons.prems(2)]
  have xle: "unat (le_index x) \<le> unat s + length l + 1" using d(1) Cons.prems(3) by simp
  let ?l = "merge_entry s l x"
  have l': "log_from s ?l" using Cons.prems(1) xle by (rule merge_entry_log_from)
  have len: "unat (le_index x) \<le> unat s + length ?l"
    using merge_entry_length [OF _ xle] by (cases "s < le_index x") (auto simp: word_less_nat_alt)
  show ?case
  proof (cases "e = x")
    case False
    then show ?thesis using Cons.IH [OF l' d(2) len] Cons.prems(4,5) by simp
  next
    case True
    let ?k = "unat (le_index x) - unat s - 1"
    have gt: "unat s < unat (le_index x)" using Cons.prems(5) True by (simp add: word_less_nat_alt)
    have take: "take (Suc ?k) (merge_log s ?l es) = take (Suc ?k) ?l"
      by (rule merge_log_take [OF d(2)]) (use gt len in simp_all)
    have "?k < length ?l" using len gt by linarith
    then have "length (take (Suc ?k) (merge_log s ?l es)) = Suc ?k" using take by simp
    then have k: "?k < length (merge_log s ?l es)" by (simp add: min_def split: if_splits)
    have "merge_log s ?l es ! ?k = ?l ! ?k" using nth_take_prefix [OF take] by simp
    with k merge_entry_at [OF _ xle] Cons.prems(5) True show ?thesis by simp
  qed
qed simp

lemma merge_log_conflict_free:
  assumes "conflict_free s l es"
  shows "take (length l) (merge_log s l es) = l"
  using assms
proof (induction es arbitrary: l)
  case (Cons e es)
  let ?l = "merge_entry s l e"
  have a: "take (length l) ?l = l"
    using merge_entry_take [of "length l" l e s] Cons.prems by simp
  then have len: "length l \<le> length ?l" by (metis length_take min.absorb_iff2 min.commute nat_le_linear)
  have "take (length ?l) (merge_log s ?l es) = ?l" using Cons by simp
  then have "take (length l) (merge_log s ?l es) = take (length l) ?l"
    using len by (metis min.absorb1 take_take)
  with a show ?case by simp
qed simp

text \<open>Entries up to \<open>ci\<close> survive a merge that does not contradict them.\<close>

lemma merge_log_keeps:
  assumes "keeps_below ci s l es" "unat ci - unat s \<le> length l"
  shows "take (unat ci - unat s) (merge_log s l es) = take (unat ci - unat s) l \<and>
         unat ci - unat s \<le> length (merge_log s l es)"
  using assms
proof (induction es arbitrary: l)
  case (Cons e es)
  let ?l = "merge_entry s l e" and ?k = "unat ci - unat s"
  have t: "take ?k ?l = take ?k l"
  proof (rule merge_entry_take)
    show "?k < unat (le_index e) - unat s \<or> \<not> conflicts s l e"
      using Cons.prems by (auto simp: word_less_nat_alt conflicts_def)
  qed (use Cons.prems in simp)
  then have len: "?k \<le> length ?l" using Cons.prems(2) by (metis length_take min.absorb2 min.cobounded1)
  from Cons.IH [OF _ len] Cons.prems(1) t show ?case by simp
qed simp

section \<open>apply\_entries computes the merge\<close>

lemma apply_entry_merge:
  assumes "apply_entry S e c = Some c'"
    and "snapshot_last_index c = 0 \<or> \<not> conflicts (snapshot_last_index c) (rlog c) e"
  shows "rlog c' = merge_entry (snapshot_last_index c) (rlog c) e"
proof (cases "le_index e \<le> snapshot_last_index c")
  case True
  with assms(1) show ?thesis by (simp add: apply_entry_def merge_entry_def)
next
  case False
  then have gt: "snapshot_last_index c < le_index e" by simp
  note off = u64_offset [OF gt]
  let ?k = "unat (le_index e) - unat (snapshot_last_index c) - 1"
  consider (same) "?k < length (rlog c)" "le_term (rlog c ! ?k) = le_term e"
    | (conflict) "?k < length (rlog c)" "le_term (rlog c ! ?k) \<noteq> le_term e"
    | (new) "length (rlog c) \<le> ?k" by linarith
  then show ?thesis
  proof cases
    case same
    with assms(1) False show ?thesis by (simp add: apply_entry_def merge_entry_def off Let_def)
  next
    case new
    with assms(1) False show ?thesis
      by (auto simp: apply_entry_def merge_entry_def off Let_def raft_defs)
  next
    case conflict
    then have s0: "snapshot_last_index c = 0" using assms(2) gt by (auto simp: conflicts_def Let_def)
    then have "unat (le_index e - 1) = ?k" using gt u64_pred by simp
    with conflict assms(1) False s0 show ?thesis
      by (auto simp: apply_entry_def merge_entry_def off Let_def raft_defs bind_eq_Some_conv)
  qed
qed

lemma apply_entries_merge:
  assumes "apply_entries S es c = Some c'"
    and "snapshot_last_index c = 0 \<or> conflict_free (snapshot_last_index c) (rlog c) es"
  shows "rlog c' = merge_log (snapshot_last_index c) (rlog c) es"
  using assms
proof (induction es arbitrary: c)
  case (Cons e es)
  then obtain d where d: "apply_entry S e c = Some d" "apply_entries S es d = Some c'"
    by (auto simp: bind_eq_Some_conv)
  have s: "snapshot_last_index d = snapshot_last_index c"
    by (subst apply_entry_frame [OF d(1), unfolded log_write_def]) simp
  have l: "rlog d = merge_entry (snapshot_last_index c) (rlog c) e"
    using d(1) by (rule apply_entry_merge) (use Cons.prems(2) in auto)
  show ?case using Cons.IH [OF d(2)] Cons.prems(2) s l by auto
qed simp

section \<open>Applying committed entries\<close>

text \<open>The specification: feed the commands of the entries to the state machine in log order.\<close>

fun apply_all ::
  "'m sm_ops \<Rightarrow> log_entry list \<Rightarrow> 'm \<Rightarrow> 'm \<times> (u64 \<times> apply_result) list" where
  "apply_all M [] m = (m, [])"
| "apply_all M (e # es) m =
     (let (m1, r) = sm_apply M m (le_command e); (m2, rs) = apply_all M es m1
      in (m2, (le_index e, r) # rs))"

text \<open>The entries that are committed and not yet applied.\<close>

definition pending :: "('s, 'm) raft_core \<Rightarrow> log_entry list" where
  "pending c = take (unat (commit_index c) - unat (last_applied c))
     (drop (unat (last_applied c) - unat (snapshot_last_index c)) (rlog c))"

lemma log_ok_update [simp]:
  "log_ok (c\<lparr>last_applied := la\<rparr>) = log_ok c"
  "log_ok (c\<lparr>state_machine := m\<rparr>) = log_ok c"
  "log_ok (c\<lparr>commit_index := ci\<rparr>) = log_ok c"
  "log_ok (c\<lparr>storage := s\<rparr>) = log_ok c"
  "last_log_index (c\<lparr>last_applied := la\<rparr>) = last_log_index c"
  "last_log_index (c\<lparr>state_machine := m\<rparr>) = last_log_index c"
  "last_log_index (c\<lparr>commit_index := ci\<rparr>) = last_log_index c"
  "last_log_index (c\<lparr>storage := s\<rparr>) = last_log_index c"
  by (simp_all add: log_ok_def last_log_index_def)

lemma get_log_entry_update [simp]:
  "get_log_entry (c\<lparr>last_applied := la\<rparr>) i = get_log_entry c i"
  "get_log_entry (c\<lparr>state_machine := m\<rparr>) i = get_log_entry c i"
  "get_log_entry (c\<lparr>commit_index := ci\<rparr>) i = get_log_entry c i"
  by (simp_all add: get_log_entry_def Let_def)

lemma apply_loop_correct:
  assumes "log_ok c" "snapshot_last_index c \<le> last_applied c" "commit_index c \<le> last_log_index c"
  shows "apply_loop M c rs =
    Some (rs @ snd (apply_all M (pending c) (state_machine c)),
          c\<lparr>last_applied := max (last_applied c) (commit_index c),
            state_machine := fst (apply_all M (pending c) (state_machine c))\<rparr>)"
  using assms
proof (induction M c rs rule: apply_loop.induct)
  case (1 M c rs)
  show ?case
  proof (cases "last_applied c < commit_index c")
    case False
    then have "unat (commit_index c) \<le> unat (last_applied c)" by (simp add: word_less_nat_alt)
    with False show ?thesis by (simp add: apply_loop.simps [of M c rs] pending_def max_def)
  next
    case True
    let ?c = "c\<lparr>last_applied := last_applied c + 1\<rparr>"
    let ?k = "unat (last_applied c) - unat (snapshot_last_index c)"
    have la: "unat (last_applied c + 1) = unat (last_applied c) + 1"
      using True by (rule u64_succ_less)
    have le: "unat (snapshot_last_index c) \<le> unat (last_applied c)"
      "unat (last_applied c) < unat (commit_index c)" "unat (commit_index c) \<le> unat (last_log_index c)"
      using 1(3,4) True by (simp_all add: word_le_nat_alt word_less_nat_alt)
    have k: "?k < length (rlog c)" using le unat_last_log_index [OF 1(2)] by linarith
    define e where "e = rlog c ! ?k"
    have get: "get_log_entry ?c (last_applied ?c) = Some e"
      using get_log_entry_Some [OF 1(2), of "last_applied c + 1"] la le by (simp add: e_def)
    have idx: "le_index e = last_applied c + 1"
      using get_log_entry_index [OF 1(2)] get by simp
    obtain m r where mr: "sm_apply M (state_machine c) (le_command e) = (m, r)"
      by (cases "sm_apply M (state_machine c) (le_command e)")
    have drop: "drop ?k (rlog c) = e # drop (Suc ?k) (rlog c)"
      using k by (simp add: e_def Cons_nth_drop_Suc)
    have pend: "pending c = e # pending (?c\<lparr>state_machine := m\<rparr>)"
    proof -
      have n: "unat (commit_index c) - unat (last_applied c)
          = Suc (unat (commit_index c) - unat (last_applied c + 1))" using la le by linarith
      have k': "unat (last_applied c + 1) - unat (snapshot_last_index c) = Suc ?k" using la le by linarith
      show ?thesis by (simp only: pending_def n drop take_Suc_Cons) (simp add: k')
    qed
    have "apply_loop M c rs = apply_loop M (?c\<lparr>state_machine := m\<rparr>) (rs @ [(last_applied c + 1, r)])"
      using True get mr by (simp add: apply_loop.simps [of M c rs])
    also have "\<dots> = Some ((rs @ [(last_applied c + 1, r)]) @
          snd (apply_all M (pending (?c\<lparr>state_machine := m\<rparr>)) m),
        ?c\<lparr>state_machine := m\<rparr>\<lparr>last_applied := max (last_applied c + 1) (commit_index c),
          state_machine := fst (apply_all M (pending (?c\<lparr>state_machine := m\<rparr>)) m)\<rparr>)"
    proof -
      have mr': "sm_apply M (state_machine ?c) (le_command e) = (m, r)" using mr by simp
      have "log_ok (?c\<lparr>state_machine := m\<rparr>)"
        "snapshot_last_index (?c\<lparr>state_machine := m\<rparr>) \<le> last_applied (?c\<lparr>state_machine := m\<rparr>)"
        "commit_index (?c\<lparr>state_machine := m\<rparr>) \<le> last_log_index (?c\<lparr>state_machine := m\<rparr>)"
        using 1(2,4) la le by (simp_all add: word_le_nat_alt)
      from 1(1) [OF True refl get mr' [symmetric] refl this] show ?thesis by simp
    qed
    also have "max (last_applied c + 1) (commit_index c) = commit_index c"
      using la le by (simp add: max_def word_le_nat_alt word_unat_eq_iff)
    finally show ?thesis
      using pend mr idx True
      by (simp add: max_def split_def Let_def)
  qed
qed

section \<open>Well-formed nodes\<close>

definition core_wf :: "('s, 'm) raft_core \<Rightarrow> bool" where
  "core_wf c \<longleftrightarrow>
     log_ok c \<and> unat (last_log_index c) + 1 < u64_bound \<and>
     snapshot_last_index c \<le> last_applied c \<and> last_applied c \<le> commit_index c \<and>
     commit_index c \<le> last_log_index c"

lemma core_wfD:
  assumes "core_wf c"
  shows "log_ok c" "unat (last_log_index c) + 1 < u64_bound" "snapshot_last_index c \<le> last_applied c"
    "last_applied c \<le> commit_index c" "commit_index c \<le> last_log_index c"
  using assms by (simp_all add: core_wf_def)

text \<open>The storage calls of a snapshot and of the log succeed (no I/O error).\<close>

definition storage_total :: "'s storage_ops \<Rightarrow> bool" where
  "storage_total S \<longleftrightarrow>
     (\<forall>s t. \<exists>s'. save_term S s t = Ok s') \<and> (\<forall>s v. \<exists>s'. save_voted_for S s v = Ok s') \<and>
     (\<forall>s es. \<exists>s'. append_log_entries S s es = Ok s') \<and> (\<forall>s i. \<exists>s'. truncate_log S s i = Ok s') \<and>
     (\<forall>s i. \<exists>s'. compact_log S s i = Ok s') \<and> (\<forall>s sn. \<exists>s'. save_snapshot S s sn = Ok s')"

lemma storage_totalD:
  assumes "storage_total S"
  shows "\<exists>s'. save_term S s t = Ok s'" "\<exists>s'. save_voted_for S s v = Ok s'"
    "\<exists>s'. append_log_entries S s es = Ok s'" "\<exists>s'. truncate_log S s i = Ok s'"
    "\<exists>s'. compact_log S s i = Ok s'" "\<exists>s'. save_snapshot S s sn = Ok s'"
  using assms by (simp_all add: storage_total_def)

text \<open>A snapshot leaves the log view alone: what a reader sees after the snapshot index is unchanged.\<close>

definition same_log_view :: "('s, 'm) raft_core \<Rightarrow> ('s, 'm) raft_core \<Rightarrow> bool" where
  "same_log_view c c' \<longleftrightarrow>
     last_log_index c' = last_log_index c \<and> last_log_term c' = last_log_term c \<and>
     (\<forall>i > snapshot_last_index c'. get_log_entry c' i = get_log_entry c i)"

lemma same_log_view_refl [simp]: "same_log_view c c"
  by (simp add: same_log_view_def)

text \<open>What a successful snapshot writes.\<close>

lemma take_snapshot_cases:
  assumes "core_wf c" "storage_total S"
  obtains "snd (take_snapshot S M c) = c"
  | s where "snapshot_last_index c < last_applied c" "fst (take_snapshot S M c) = Ok ()"
      "snd (take_snapshot S M c) =
        c\<lparr>storage := s, snapshot_last_index := last_applied c,
          snapshot_last_term := le_term (rlog c ! (unat (last_applied c) - unat (snapshot_last_index c) - 1)),
          rlog := drop (unat (last_applied c) - unat (snapshot_last_index c)) (rlog c)\<rparr>"
proof (cases "snapshot_last_index c < last_applied c")
  case False
  then have "snd (take_snapshot S M c) = c" by (auto simp: take_snapshot_def)
  with that(1) show thesis .
next
  case lt: True
  note wf = core_wfD [OF assms(1)]
  let ?e = "rlog c ! (unat (last_applied c) - unat (snapshot_last_index c) - 1)"
  have ne: "last_applied c \<noteq> 0" "\<not> last_applied c \<le> snapshot_last_index c"
    using lt by auto
  have le: "unat (snapshot_last_index c) < unat (last_applied c)"
    "unat (last_applied c) \<le> unat (last_log_index c)"
    using lt wf(4,5) by (simp_all add: word_less_nat_alt word_le_nat_alt)
  have get: "get_log_entry c (last_applied c) = Some ?e"
    by (rule get_log_entry_Some [OF wf(1) le])
  show thesis
  proof (cases "sm_snapshot M (state_machine c)")
    case (Inl msg)
    with ne get have "snd (take_snapshot S M c) = c" by (simp add: take_snapshot_def)
    with that(1) show thesis .
  next
    case (Inr d)
    obtain s where s: "save_snapshot S (storage c)
        \<lparr>metadata = \<lparr>last_included_index = last_applied c, last_included_term = le_term ?e\<rparr>,
         snapshot_data = d\<rparr> = Ok s"
      using storage_totalD(6) [OF assms(2)] by blast
    obtain s' where s': "compact_log S s (last_applied c + 1) = Ok s'"
      using storage_totalD(5) [OF assms(2)] by blast
    have succ: "unat (last_applied c + 1) = unat (last_applied c) + 1"
      by (rule u64_succ) (use le wf(2) in linarith)
    have "(last_applied c + 1 \<le> i) = (last_applied c < i)" for i
      using succ by (auto simp: word_le_nat_alt word_less_nat_alt)
    then have "filter (\<lambda>e. last_applied c + 1 \<le> le_index e) (rlog c)
        = filter (\<lambda>e. last_applied c < le_index e) (rlog c)" by simp
    also have "\<dots> = drop (unat (last_applied c) - unat (snapshot_last_index c)) (rlog c)"
      by (rule filter_log_from) (use wf(1) le unat_last_log_index [OF wf(1)] in \<open>simp_all add: log_ok_def\<close>)
    finally show thesis
      using that(2) [OF lt, of s'] ne get Inr s s' by (simp add: take_snapshot_def Let_def)
  qed
qed

lemma drop_log_view:
  assumes "core_wf c" "snapshot_last_index c < n" "n \<le> last_applied c"
    and "c' = c\<lparr>storage := s, snapshot_last_index := n,
          snapshot_last_term := le_term (rlog c ! (unat n - unat (snapshot_last_index c) - 1)),
          rlog := drop (unat n - unat (snapshot_last_index c)) (rlog c)\<rparr>"
  shows "core_wf c' \<and> same_log_view c c'"
proof -
  note wf = core_wfD [OF assms(1)]
  let ?k = "unat n - unat (snapshot_last_index c)"
  have le: "unat (snapshot_last_index c) < unat n" "unat n \<le> unat (last_applied c)"
    "unat n \<le> unat (last_log_index c)"
    using assms(2,3) wf(4,5) by (simp_all add: word_less_nat_alt word_le_nat_alt)
  note last = unat_last_log_index [OF wf(1)]
  have ok: "log_ok c'"
    using log_from_drop [of "snapshot_last_index c" "rlog c" n] wf(1) le last assms(4)
    by (simp add: log_ok_def)
  have "unat (last_log_index c') = unat (last_log_index c)"
    using unat_last_log_index [OF ok] last le assms(4) by simp
  then have li: "last_log_index c' = last_log_index c" by (simp add: word_unat_eq_iff)
  have lt: "last_log_term c' = last_log_term c"
  proof (cases "?k < length (rlog c)")
    case True
    then show ?thesis using assms(4) by (simp add: last_log_term_def) (metis drop_eq_Nil last_drop linorder_not_le list.size(3) not_less_zero)
  next
    case False
    then have k: "length (rlog c) = ?k" using le last by linarith
    moreover have "0 < ?k" using le by simp
    ultimately have "rlog c \<noteq> []" by auto
    then show ?thesis using assms(4) k by (simp add: last_log_term_def last_conv_nth)
  qed
  have "get_log_entry c' i = get_log_entry c i" if "n < i" for i
  proof (cases "unat i \<le> unat (last_log_index c)")
    case True
    have i: "unat n < unat i" using that by (simp add: word_less_nat_alt)
    have "get_log_entry c' i = Some (rlog c' ! (unat i - unat n - 1))"
      using get_log_entry_Some [OF ok, of i] i True li assms(4) by simp
    also have "rlog c' ! (unat i - unat n - 1) = rlog c ! (?k + (unat i - unat n - 1))"
      using assms(4) le last by simp
    also have "?k + (unat i - unat n - 1) = unat i - unat (snapshot_last_index c) - 1"
      using le i by linarith
    finally show ?thesis using get_log_entry_Some [OF wf(1), of i] i le True by simp
  next
    case False
    then show ?thesis using get_log_entry_None [OF ok, of i] get_log_entry_None [OF wf(1), of i] li by simp
  qed
  with li lt have "same_log_view c c'" using assms(4) by (simp add: same_log_view_def)
  moreover have "core_wf c'"
    using ok li wf assms(3,4) by (simp add: core_wf_def)
  ultimately show ?thesis by blast
qed

lemma take_snapshot_wf:
  assumes "core_wf c" "storage_total S"
  shows "core_wf (snd (take_snapshot S M c)) \<and> same_log_view c (snd (take_snapshot S M c))"
  using assms
proof (cases rule: take_snapshot_cases [where M = M])
  case (2 s)
  show ?thesis by (rule drop_log_view [OF assms(1) 2(1) order_refl 2(3)])
qed (use assms in simp)

lemma same_log_view_update [simp]:
  "same_log_view (c\<lparr>last_applied := la\<rparr>) c' = same_log_view c c'"
  "same_log_view (c\<lparr>state_machine := m\<rparr>) c' = same_log_view c c'"
  "same_log_view (c\<lparr>commit_index := ci\<rparr>) c' = same_log_view c c'"
  by (simp_all add: same_log_view_def last_log_term_def)

lemma take_snapshot_keeps:
  "commit_index (snd (take_snapshot S M c)) = commit_index c"
  "last_applied (snd (take_snapshot S M c)) = last_applied c"
  "state_machine (snd (take_snapshot S M c)) = state_machine c"
  "current_term (snd (take_snapshot S M c)) = current_term c"
  by (subst take_snapshot_frame [of c S M, unfolded snapshot_write_def], simp)+

lemma apply_committed_wf:
  assumes "core_wf c" "storage_total S"
  obtains c' where
    "apply_committed_entries S M c = Some (snd (apply_all M (pending c) (state_machine c)), c')"
    "core_wf c'" "same_log_view c c'" "commit_index c' = commit_index c"
    "last_applied c' = commit_index c"
    "state_machine c' = fst (apply_all M (pending c) (state_machine c))"
proof -
  note wf = core_wfD [OF assms(1)]
  define d where "d = c\<lparr>last_applied := commit_index c,
     state_machine := fst (apply_all M (pending c) (state_machine c))\<rparr>"
  have "max (last_applied c) (commit_index c) = commit_index c" using wf(4) by (simp add: max_def)
  then have loop: "apply_loop M c [] = Some (snd (apply_all M (pending c) (state_machine c)), d)"
    using apply_loop_correct [OF wf(1,3,5), of M "[]"] by (simp add: d_def)
  have "snapshot_last_index c \<le> commit_index c" using wf(3,4) by (rule order_trans)
  then have dwf: "core_wf d" using assms(1) by (simp add: core_wf_def d_def)
  have view: "same_log_view c d" unfolding d_def by (simp add: same_log_view_def last_log_term_def)
  define c' where "c' = (if snapshot_threshold d > 0 \<and>
      last_applied d - snapshot_last_index d \<ge> snapshot_threshold d
      then snd (take_snapshot S M d) else d)"
  have eq: "apply_committed_entries S M c = Some (snd (apply_all M (pending c) (state_machine c)), c')"
    using loop by (simp add: apply_committed_entries_def c'_def)
  have "core_wf c' \<and> same_log_view d c'"
    using take_snapshot_wf [OF dwf assms(2), of M] dwf by (simp add: c'_def)
  then have "core_wf c'" "same_log_view c c'"
    using view by (simp_all add: d_def)
  moreover have "commit_index c' = commit_index c" "last_applied c' = commit_index c"
    "state_machine c' = fst (apply_all M (pending c) (state_machine c))"
    by (simp_all add: c'_def take_snapshot_keeps) (simp_all add: d_def)
  ultimately show thesis using that eq by blast
qed

section \<open>AppendEntries on a well-formed node\<close>

lemma apply_entry_total: "storage_total S \<Longrightarrow> \<exists>d. apply_entry S e c = Some d"
proof -
  assume t: "storage_total S"
  have app: "\<exists>d. persist_log_entry S e c = Some d" for c :: "('a, 'b) raft_core"
    using storage_totalD(3) [OF t, of "storage c" "[e]"] by (auto simp: persist_log_entry_def)
  have trunc: "\<exists>d. persist_truncate_log S (le_index e) c = Some d" for c :: "('a, 'b) raft_core"
    using storage_totalD(4) [OF t, of "storage c" "le_index e"]
    by (auto simp: persist_truncate_log_def Let_def)
  obtain d1 where d1: "persist_truncate_log S (le_index e) c = Some d1" using trunc by blast
  show ?thesis using app [of c] app [of d1] d1 by (auto simp: apply_entry_def Let_def)
qed

lemma apply_entries_total: "storage_total S \<Longrightarrow> \<exists>d. apply_entries S es c = Some d"
proof (induction es arbitrary: c)
  case (Cons e es)
  obtain d where "apply_entry S e c = Some d" using apply_entry_total [OF Cons.prems] by blast
  with Cons.IH [OF Cons.prems, of d] show ?case by simp
qed simp

lemma merge_entry_length_le:
  "unat s + length (merge_entry s l e) \<le> max (unat s + length l) (unat (le_index e))"
proof (cases "le_index e \<le> s")
  case False
  then have "unat s < unat (le_index e)" by (simp add: word_le_nat_alt)
  then show ?thesis by (auto simp: merge_entry_def Let_def max_def min_def)
qed (simp add: merge_entry_def)

lemma merge_log_length_le:
  assumes "log_from p es"
  shows "unat s + length (merge_log s l es) \<le> max (unat s + length l) (unat p + length es)"
  using assms
proof (induction es arbitrary: l p)
  case (Cons e es)
  note d = log_from_ConsD [OF Cons.prems]
  have "unat s + length (merge_log s (merge_entry s l e) es)
      \<le> max (unat s + length (merge_entry s l e)) (unat (le_index e) + length es)"
    by (rule Cons.IH [OF d(2)])
  also have "\<dots> \<le> max (unat s + length l) (unat p + length (e # es))"
    using merge_entry_length_le [of s l e] d(1) by simp
  finally show ?case by simp
qed simp

text \<open>
  What the leader's message must satisfy: consecutive entries after the previous index, room for one
  more index, no contradiction of a committed entry (Raft's leader completeness), and no conflict at
  all behind a snapshot (where \<open>persist_truncate_log\<close> computes a wrong position).
\<close>

definition append_ok :: "append_entries_args \<Rightarrow> ('s, 'm) raft_core \<Rightarrow> bool" where
  "append_ok req c \<longleftrightarrow>
     log_from (prev_log_index req) (ae_entries req) \<and>
     unat (prev_log_index req) + length (ae_entries req) + 1 < u64_bound \<and>
     keeps_below (commit_index c) (snapshot_last_index c) (rlog c) (ae_entries req) \<and>
     (snapshot_last_index c = 0 \<or> conflict_free (snapshot_last_index c) (rlog c) (ae_entries req))"

lemma apply_entries_wf:
  assumes wf: "core_wf c" and ok: "append_ok req c" and p: "prev_log_index req \<le> last_log_index c"
    and d: "apply_entries S (ae_entries req) c = Some d"
  shows "core_wf d" "rlog d = merge_log (snapshot_last_index c) (rlog c) (ae_entries req)"
    "d = c\<lparr>storage := storage d, rlog := rlog d\<rparr>"
proof -
  note w = core_wfD [OF wf]
  let ?s = "snapshot_last_index c" and ?es = "ae_entries req"
  show frame: "d = c\<lparr>storage := storage d, rlog := rlog d\<rparr>"
    using apply_entries_frame [OF d] by (simp add: log_write_def)
  show merge: "rlog d = merge_log ?s (rlog c) ?es"
    using d by (rule apply_entries_merge) (use ok in \<open>simp add: append_ok_def\<close>)
  have sd: "snapshot_last_index d = ?s" "last_applied d = last_applied c" "commit_index d = commit_index c"
    by (subst frame, simp)+
  have p': "unat (prev_log_index req) \<le> unat ?s + length (rlog c)"
    using p unat_last_log_index [OF w(1)] by (simp add: word_le_nat_alt)
  have "log_from ?s (merge_log ?s (rlog c) ?es)"
    by (rule merge_log_from [OF _ _ p']) (use w(1) ok in \<open>simp_all add: log_ok_def append_ok_def\<close>)
  then have lok: "log_ok d" using sd merge by (simp add: log_ok_def)
  have last: "unat (last_log_index d) = unat ?s + length (merge_log ?s (rlog c) ?es)"
    using unat_last_log_index [OF lok] sd merge by simp
  have "unat ?s + length (merge_log ?s (rlog c) ?es)
      \<le> max (unat ?s + length (rlog c)) (unat (prev_log_index req) + length ?es)"
    by (rule merge_log_length_le) (use ok in \<open>simp add: append_ok_def\<close>)
  moreover have "unat (prev_log_index req) + length ?es + 1 < u64_bound"
    using ok by (simp add: append_ok_def)
  ultimately have room: "unat (last_log_index d) + 1 < u64_bound"
    using last w(2) unat_last_log_index [OF w(1)] by linarith
  have "unat (commit_index c) - unat ?s \<le> length (merge_log ?s (rlog c) ?es)"
    using merge_log_keeps [of "commit_index c" ?s "rlog c" ?es] ok w(5) unat_last_log_index [OF w(1)]
    by (simp add: append_ok_def word_le_nat_alt)
  then have "commit_index d \<le> last_log_index d"
    using last sd by (simp add: word_le_nat_alt)
  with lok room w(3,4) sd show "core_wf d" by (simp add: core_wf_def)
qed

lemma accept_entries_wf:
  assumes wf: "core_wf c" and st: "storage_total S" and ok: "append_ok req c"
    and p: "prev_log_index req \<le> last_log_index c"
  obtains c' d where "accept_entries S M req c = Some c'" "core_wf c'"
    "apply_entries S (ae_entries req) c = Some d" "core_wf d" "same_log_view d c'"
    "rlog d = merge_log (snapshot_last_index c) (rlog c) (ae_entries req)"
    "snapshot_last_index d = snapshot_last_index c"
    "commit_index c' = max (commit_index c) (min (leader_commit req) (last_log_index d))"
    "last_applied c \<le> last_applied c'"
proof -
  obtain d where d: "apply_entries S (ae_entries req) c = Some d"
    using apply_entries_total [OF st] by blast
  note dw = apply_entries_wf [OF wf ok p d]
  have f: "commit_index d = commit_index c" "last_applied d = last_applied c"
    "snapshot_last_index d = snapshot_last_index c"
    by (subst dw(3), simp)+
  note w = core_wfD [OF dw(1)]
  show thesis
  proof (cases "leader_commit req > commit_index d")
    case False
    then have "accept_entries S M req c = Some d" using d by (simp add: accept_entries_def)
    moreover have "commit_index d = max (commit_index c) (min (leader_commit req) (last_log_index d))"
      using False f by (auto simp: max_def min_def)
    ultimately show thesis using that [of d d] d dw f by simp
  next
    case True
    let ?n = "min (leader_commit req) (last_log_index d)"
    let ?d = "d\<lparr>commit_index := ?n\<rparr>"
    have ci: "commit_index d \<le> ?n" using True w(5) by simp
    then have la: "last_applied d \<le> ?n" using w(4) by (rule order_trans [rotated])
    have wf': "core_wf ?d"
      using w la by (simp add: core_wf_def)
    obtain c' where c': "apply_committed_entries S M ?d = Some (snd (apply_all M (pending ?d) (state_machine ?d)), c')"
      "core_wf c'" "same_log_view ?d c'" "commit_index c' = ?n" "last_applied c' = ?n"
      by (rule apply_committed_wf [OF wf' st, of M]) simp
    have "accept_entries S M req c = Some c'"
      using d True c'(1) by (simp add: accept_entries_def)
    moreover have "?n = max (commit_index c) ?n" using ci f by (simp add: max_def)
    ultimately show thesis using that [of c' d] d dw c' f la by simp
  qed
qed

text \<open>Well-formedness reads only the log side of the state.\<close>

definition same_log :: "('s, 'm) raft_core \<Rightarrow> ('s, 'm) raft_core \<Rightarrow> bool" where
  "same_log c c' \<longleftrightarrow>
     rlog c' = rlog c \<and> snapshot_last_index c' = snapshot_last_index c \<and>
     snapshot_last_term c' = snapshot_last_term c \<and> commit_index c' = commit_index c \<and>
     last_applied c' = last_applied c \<and> state_machine c' = state_machine c"

lemma same_log_facts:
  assumes "same_log c c'"
  shows "core_wf c' = core_wf c" "last_log_index c' = last_log_index c"
    "last_log_term c' = last_log_term c" "get_log_entry c' i = get_log_entry c i"
    "append_ok req c' = append_ok req c"
  using assms
  by (simp_all add: same_log_def core_wf_def log_ok_def last_log_index_def last_log_term_def
        get_log_entry_def append_ok_def Let_def)

lemma observe_term_same_log: "observe_term S t c = Some d \<Longrightarrow> same_log c d"
  by (auto simp: observe_term_Some same_log_def split: if_splits)

lemma observe_term_total: "storage_total S \<Longrightarrow> \<exists>d. observe_term S t c = Some d"
proof -
  assume st: "storage_total S"
  obtain s where s: "save_term S (storage c) t = Ok s" using storage_totalD(1) [OF st] by blast
  obtain s' where "save_voted_for S s None = Ok s'" using storage_totalD(2) [OF st] by blast
  with s show ?thesis by (auto simp: observe_term_Some)
qed

text \<open>The consistency check, as the Raft paper states it: the previous entry is in the log or is the snapshot's.\<close>

definition prev_matches :: "append_entries_args \<Rightarrow> ('s, 'm) raft_core \<Rightarrow> bool" where
  "prev_matches req c \<longleftrightarrow>
     prev_log_index req = 0 \<or>
     prev_log_index req \<le> last_log_index c \<and>
     (if prev_log_index req = snapshot_last_index c
      then prev_log_term req = snapshot_last_term c
      else \<exists>e. get_log_entry c (prev_log_index req) = Some e \<and> le_term e = prev_log_term req)"

lemma prev_matches_code [code]:
  "prev_matches req c \<longleftrightarrow>
     prev_log_index req = 0 \<or>
     prev_log_index req \<le> last_log_index c \<and>
     (if prev_log_index req = snapshot_last_index c
      then prev_log_term req = snapshot_last_term c
      else map_option le_term (get_log_entry c (prev_log_index req)) = Some (prev_log_term req))"
  by (auto simp: prev_matches_def)

lemma check_and_append_Some:
  "check_and_append S M req c = Some (ok, ct, ci, c') \<Longrightarrow>
     (if prev_matches req c then ok \<and> accept_entries S M req c = Some c' else \<not> ok \<and> c' = c)"
  unfolding check_and_append_def prev_matches_def reject_hint_def
  by (auto simp: bind_eq_Some_conv word_neq_0_conv split: if_split_asm option.split_asm)

lemma check_and_append_reject:
  "\<not> prev_matches req c \<Longrightarrow> \<exists>ct ci. check_and_append S M req c = Some (False, ct, ci, c)"
  unfolding check_and_append_def prev_matches_def reject_hint_def
  by (cases "get_log_entry c (prev_log_index req)") (auto simp: word_neq_0_conv)

lemma check_and_append_accept:
  "prev_matches req c \<Longrightarrow> accept_entries S M req c = Some c' \<Longrightarrow>
   check_and_append S M req c = Some (True, None, None, c')"
  unfolding check_and_append_def prev_matches_def reject_hint_def
  by (cases "get_log_entry c (prev_log_index req)") (auto simp: word_neq_0_conv)

lemma prev_matches_le: "prev_matches req c \<Longrightarrow> prev_log_index req \<le> last_log_index c"
  by (auto simp: prev_matches_def)

text \<open>What a reader of the log finds at the index of a received entry.\<close>

definition holds_entry :: "('s, 'm) raft_core \<Rightarrow> log_entry \<Rightarrow> bool" where
  "holds_entry c e \<longleftrightarrow>
     le_index e \<le> snapshot_last_index c \<or>
     (\<exists>e'. get_log_entry c (le_index e) = Some e' \<and> le_term e' = le_term e)"

lemma holds_entry_code [code]:
  "holds_entry c e \<longleftrightarrow>
     le_index e \<le> snapshot_last_index c \<or> map_option le_term (get_log_entry c (le_index e)) = Some (le_term e)"
  by (auto simp: holds_entry_def)

lemma merge_holds_entry:
  assumes "core_wf d" "rlog d = merge_log (snapshot_last_index c) (rlog c) es"
    "snapshot_last_index d = snapshot_last_index c" "log_ok c" "log_from p es"
    "unat p \<le> unat (last_log_index c)" "e \<in> set es"
  shows "holds_entry d e"
proof (cases "le_index e \<le> snapshot_last_index d")
  case False
  let ?s = "snapshot_last_index c"
  have gt: "?s < le_index e" using False assms(3) by simp
  have l: "log_from ?s (rlog c)" using assms(4) by (simp add: log_ok_def)
  have "unat p \<le> unat ?s + length (rlog c)" using assms(6) unat_last_log_index [OF assms(4)] by simp
  note m = merge_log_contains [OF l assms(5) this assms(7) gt]
  have "unat (le_index e) \<le> unat (last_log_index d)"
  proof -
    have "unat ?s < unat (le_index e)" using gt by (simp add: word_less_nat_alt)
    then show ?thesis
      using m [THEN conjunct1] assms(2,3) unat_last_log_index [OF core_wfD(1) [OF assms(1)]]
      by simp
  qed
  then have "get_log_entry d (le_index e) = Some (rlog d ! (unat (le_index e) - unat ?s - 1))"
    using get_log_entry_Some [OF core_wfD(1) [OF assms(1)], of "le_index e"] gt assms(3)
    by (simp add: word_less_nat_alt)
  with m assms(2) show ?thesis by (simp add: holds_entry_def)
qed (simp add: holds_entry_def)

lemma holds_entry_view: "same_log_view c c' \<Longrightarrow> holds_entry c e \<Longrightarrow>
    snapshot_last_index c \<le> snapshot_last_index c' \<Longrightarrow> holds_entry c' e"
  by (cases "le_index e \<le> snapshot_last_index c'") (auto simp: holds_entry_def same_log_view_def)

lemma accept_snapshot_mono:
  assumes "accept_entries S M req c = Some c'" "apply_entries S (ae_entries req) c = Some d"
    "core_wf d" "core_wf c'"
  shows "snapshot_last_index d \<le> snapshot_last_index c'"
proof -
  have "c' = d \<or> (\<exists>rs n. apply_committed_entries S M (d\<lparr>commit_index := n\<rparr>) = Some (rs, c'))"
    using assms(1,2) by (auto simp: accept_entries_def bind_eq_Some_conv split: if_split_asm)
  then show ?thesis
  proof (elim disjE exE)
    fix rs n assume "apply_committed_entries S M (d\<lparr>commit_index := n\<rparr>) = Some (rs, c')"
    then obtain e where e: "apply_loop M (d\<lparr>commit_index := n\<rparr>) [] = Some (rs, e)"
      and c': "c' = e \<or> c' = snd (take_snapshot S M e)"
      by (auto simp: apply_committed_entries_def bind_eq_Some_conv)
    have "snapshot_last_index e = snapshot_last_index d"
      by (subst apply_loop_frame [OF e, unfolded apply_write_def]) simp
    moreover have "snapshot_last_index e \<le> snapshot_last_index (snd (take_snapshot S M e))"
      by (auto simp: take_snapshot_def Let_def split: option.split sum.split)
    ultimately show ?thesis using c' by auto
  qed simp
qed

lemma handle_append_entries_stale:
  "observe_term S (ae_term req) c = Some d \<Longrightarrow> ae_term req < current_term d \<Longrightarrow>
   handle_append_entries S M now req c = Some (\<lparr>hae_result = \<lparr>aer_term = current_term d,
     aer_success = False, conflict_term = None, conflict_index = None\<rparr>, hae_leader_id = None\<rparr>, d)"
  by (simp add: handle_append_entries_def observe_term_def [symmetric])

lemma handle_append_entries_live:
  "observe_term S (ae_term req) c = Some d \<Longrightarrow> \<not> ae_term req < current_term d \<Longrightarrow>
   check_and_append S M req
     (d\<lparr>role := Follower, current_leader := Some (ae_leader_id req), last_heartbeat := now\<rparr>)
     = Some (ok, ct, ci, c') \<Longrightarrow>
   handle_append_entries S M now req c = Some (\<lparr>hae_result = \<lparr>aer_term = current_term c',
     aer_success = ok, conflict_term = ct, conflict_index = ci\<rparr>,
     hae_leader_id = Some (ae_leader_id req)\<rparr>, c')"
  by (simp add: handle_append_entries_def observe_term_def [symmetric])

lemma handle_append_entries_correct:
  assumes wf: "core_wf c" and st: "storage_total S" and ok: "append_ok req c"
  obtains out c' where "handle_append_entries S M now req c = Some (out, c')" "core_wf c'"
    "aer_success (hae_result out) \<longleftrightarrow> current_term c \<le> ae_term req \<and> prev_matches req c"
    "commit_index c \<le> commit_index c'" "last_applied c \<le> last_applied c'"
    "aer_success (hae_result out) \<longrightarrow> (\<forall>e \<in> set (ae_entries req). holds_entry c' e)"
proof -
  obtain d where d: "observe_term S (ae_term req) c = Some d" using observe_term_total [OF st] by blast
  have tm: "current_term d = max (ae_term req) (current_term c)"
    using d by (auto simp: observe_term_Some max_def split: if_splits)
  let ?d = "d\<lparr>role := Follower, current_leader := Some (ae_leader_id req), last_heartbeat := now\<rparr>"
  have sl: "same_log c d" using d by (rule observe_term_same_log)
  then have sl': "same_log c ?d" by (simp add: same_log_def)
  note facts = same_log_facts [OF sl] and facts' = same_log_facts [OF sl']
  have pm: "prev_matches req ?d = prev_matches req c"
    using sl' facts'(2,4) by (simp add: prev_matches_def same_log_def)
  show thesis
  proof (cases "ae_term req < current_term d")
    case True
    then have "\<not> current_term c \<le> ae_term req" using tm by (simp add: max_def split: if_splits)
    then show thesis
      by (intro that [OF handle_append_entries_stale [OF d True]])
         (use facts(1) wf sl in \<open>simp_all add: same_log_def\<close>)
  next
    case False
    then have le: "current_term c \<le> ae_term req" using tm by (simp add: max_def split: if_splits)
    have wf': "core_wf ?d" and ok': "append_ok req ?d" using wf ok facts' by simp_all
    show thesis
    proof (cases "prev_matches req ?d")
      case no: False
      obtain ct ci where c: "check_and_append S M req ?d = Some (False, ct, ci, ?d)"
        using check_and_append_reject [OF no] by blast
      show thesis
        by (rule that [OF handle_append_entries_live [OF d False c]])
           (use no pm wf' sl' in \<open>simp_all add: same_log_def\<close>)
    next
      case yes: True
      have p: "prev_log_index req \<le> last_log_index ?d" using yes by (rule prev_matches_le)
      obtain c' e where acc: "accept_entries S M req ?d = Some c'" and w': "core_wf c'"
        and e: "apply_entries S (ae_entries req) ?d = Some e" "core_wf e" "same_log_view e c'"
          "rlog e = merge_log (snapshot_last_index ?d) (rlog ?d) (ae_entries req)"
          "snapshot_last_index e = snapshot_last_index ?d"
        and ci: "commit_index c' = max (commit_index ?d) (min (leader_commit req) (last_log_index e))"
        and la: "last_applied ?d \<le> last_applied c'"
        by (rule accept_entries_wf [OF wf' st ok' p, of M])
      note ch = check_and_append_accept [OF yes acc]
      note h = handle_append_entries_live [OF d False ch]
      have "holds_entry c' x" if "x \<in> set (ae_entries req)" for x
      proof -
        have "holds_entry e x"
          by (rule merge_holds_entry [OF e(2,4,5) core_wfD(1) [OF wf'] _ _ that])
             (use ok p in \<open>simp_all add: append_ok_def word_le_nat_alt\<close>)
        then show ?thesis
          using e(3) accept_snapshot_mono [OF acc e(1,2) w'] by (metis holds_entry_view)
      qed
      then show thesis
        by (intro that [OF h w']) (use yes pm le ci la sl' in \<open>simp_all add: same_log_def\<close>)
    qed
  qed
qed

end
