(* ===== verification/Raft_Invariant.thy ===== *)
theory Raft_Invariant
  imports Raft_Log
begin

text \<open>
  Every mutating method of the core keeps \<open>core_wf\<close> and does not panic, under the condition that its
  message meets (\<open>event_ok\<close>); the commit index and the applied index never move back. The
  invariant is then carried along whole runs of events.
\<close>

section \<open>Snapshots from the leader\<close>

lemma advance_to_snapshot_fields:
  "commit_index (advance_to_snapshot n c) = max (commit_index c) n"
  "last_applied (advance_to_snapshot n c) = max (last_applied c) n"
  "rlog (advance_to_snapshot n c) = rlog c"
  "snapshot_last_index (advance_to_snapshot n c) = snapshot_last_index c"
  "snapshot_last_term (advance_to_snapshot n c) = snapshot_last_term c"
  "state_machine (advance_to_snapshot n c) = state_machine c"
  "storage (advance_to_snapshot n c) = storage c"
  "current_term (advance_to_snapshot n c) = current_term c"
  "voted_for (advance_to_snapshot n c) = voted_for c"
  "role (advance_to_snapshot n c) = role c"
  "current_leader (advance_to_snapshot n c) = current_leader c"
  "last_heartbeat (advance_to_snapshot n c) = last_heartbeat c"
  by (auto simp: advance_to_snapshot_def Let_def max_def)

definition received_snapshot :: "install_snapshot_args \<Rightarrow> snapshot" where
  "received_snapshot args =
     \<lparr>metadata = \<lparr>last_included_index = is_last_included_index args,
                  last_included_term = is_last_included_term args\<rparr>,
      snapshot_data = is_data args\<rparr>"

lemma install_snapshot_steps_saved:
  assumes wf: "core_wf c" and s: "save_snapshot S (storage c) (received_snapshot args) = Ok s"
    and n: "snapshot_last_index c < is_last_included_index args"
    and room: "unat (is_last_included_index args) + 1 < u64_bound"
    and restore: "sm_restore M (state_machine c) (is_data args) = Ok m"
  obtains c' where "install_snapshot_steps S M args c = Some (IS_Success (current_term c), c')"
    "core_wf c'" "state_machine c' = m" "snapshot_last_index c' = is_last_included_index args"
    "snapshot_last_term c' = is_last_included_term args"
    "rlog c' = filter (\<lambda>e. le_index e > is_last_included_index args) (rlog c)"
    "commit_index c' = max (commit_index c) (is_last_included_index args)"
    "last_applied c' = max (last_applied c) (is_last_included_index args)"
    "current_term c' = current_term c" "voted_for c' = voted_for c" "role c' = role c"
    "current_leader c' = current_leader c" "last_heartbeat c' = last_heartbeat c"
    "storage c' = (case compact_log S s (is_last_included_index args + 1) of Ok s' \<Rightarrow> s' | Err (_, s') \<Rightarrow> s')"
proof -
  let ?n = "is_last_included_index args"
  note w = core_wfD [OF wf]
  define s' where "s' = (case compact_log S s (?n + 1) of Ok s' \<Rightarrow> s' | Err (_, s') \<Rightarrow> s')"
  define d where "d = c\<lparr>storage := s', state_machine := m, snapshot_last_index := ?n,
                      snapshot_last_term := is_last_included_term args,
                      rlog := filter (\<lambda>e. le_index e > ?n) (rlog c)\<rparr>"
  let ?c = "advance_to_snapshot ?n d"
  have eq: "install_snapshot_steps S M args c = Some (IS_Success (current_term c), ?c)"
    using s restore by (simp add: install_snapshot_steps_def received_snapshot_def s'_def [symmetric] d_def)
  have ok: "log_ok d"
    using log_from_filter [of "snapshot_last_index c" "rlog c" ?n] w(1) n by (simp add: log_ok_def d_def)
  have last: "last_log_index d = max (last_log_index c) ?n"
  proof (cases "unat ?n \<le> unat (snapshot_last_index c) + length (rlog c)")
    case True
    have "rlog d = drop (unat ?n - unat (snapshot_last_index c)) (rlog c)"
      using filter_log_from [of "snapshot_last_index c" "rlog c" ?n] w(1) n True
      by (simp add: log_ok_def d_def word_less_nat_alt)
    then have "unat (last_log_index d) = unat (last_log_index c)"
      using unat_last_log_index [OF ok] unat_last_log_index [OF w(1)] True n
      by (simp add: d_def word_less_nat_alt)
    moreover have "?n \<le> last_log_index c"
      using True unat_last_log_index [OF w(1)] by (simp add: word_le_nat_alt)
    ultimately show ?thesis by (simp add: word_unat_eq_iff max_def)
  next
    case False
    then have "rlog d = []"
      using filter_log_from_beyond [of "snapshot_last_index c" "rlog c" ?n] w(1)
      by (simp add: log_ok_def d_def)
    then have "last_log_index d = ?n" by (simp add: last_log_index_def d_def)
    moreover have "last_log_index c \<le> ?n"
      using False unat_last_log_index [OF w(1)] by (simp add: word_le_nat_alt)
    ultimately show ?thesis by (simp add: max_def)
  qed
  have "last_log_index ?c = last_log_index d" "log_ok ?c = log_ok d"
    by (simp_all add: last_log_index_def log_ok_def advance_to_snapshot_fields)
  moreover have "unat (last_log_index d) + 1 < u64_bound"
    using last w(2) room by (simp add: max_def)
  moreover have "last_applied c \<le> commit_index c" "commit_index c \<le> last_log_index c"
    using w by simp_all
  ultimately have "core_wf ?c"
    using ok last by (simp add: core_wf_def advance_to_snapshot_fields d_def max.coboundedI1)
  then show thesis
    by (rule that [OF eq]) (simp_all add: advance_to_snapshot_fields d_def s'_def)
qed

lemma install_snapshot_steps_correct:
  assumes wf: "core_wf c" and st: "storage_total S"
    and n: "snapshot_last_index c < is_last_included_index args"
    and room: "unat (is_last_included_index args) + 1 < u64_bound"
    and restore: "sm_restore M (state_machine c) (is_data args) = Ok m"
  obtains c' where "install_snapshot_steps S M args c = Some (IS_Success (current_term c), c')"
    "core_wf c'" "state_machine c' = m" "snapshot_last_index c' = is_last_included_index args"
    "snapshot_last_term c' = is_last_included_term args"
    "rlog c' = filter (\<lambda>e. le_index e > is_last_included_index args) (rlog c)"
    "commit_index c' = max (commit_index c) (is_last_included_index args)"
    "last_applied c' = max (last_applied c) (is_last_included_index args)"
proof -
  obtain s where "save_snapshot S (storage c) (received_snapshot args) = Ok s"
    using storage_totalD(6) [OF st] by blast
  from install_snapshot_steps_saved [OF wf this n room restore] that show thesis by metis
qed

lemma handle_install_snapshot_wf:
  assumes wf: "core_wf c" and st: "storage_total S"
    and room: "unat (is_last_included_index args) + 1 < u64_bound"
    and restore: "\<exists>m. sm_restore M (state_machine c) (is_data args) = Ok m"
  obtains res c' where "handle_install_snapshot S M now args c = Some (res, c')" "core_wf c'"
    "commit_index c \<le> commit_index c'" "last_applied c \<le> last_applied c'"
proof (cases "is_term args < current_term c")
  case True
  then show thesis using that [of _ c] wf by (simp add: handle_install_snapshot_def)
next
  case False
  obtain d where d: "observe_term S (is_term args) c = Some d" using observe_term_total [OF st] by blast
  let ?d = "d\<lparr>last_heartbeat := now, current_leader := Some (is_leader_id args)\<rparr>"
  have sl: "same_log c ?d" using observe_term_same_log [OF d] by (simp add: same_log_def)
  have wf': "core_wf ?d" using same_log_facts(1) [OF sl] wf by simp
  have step: "handle_install_snapshot S M now args c =
     (if is_last_included_index args \<le> snapshot_last_index ?d
      then Some (IS_Failed (current_term ?d)
                     (''snapshot too old: '' @ show_u64 (is_last_included_index args) @ '' <= ''
                      @ show_u64 (snapshot_last_index ?d)), ?d)
      else install_snapshot_steps S M args ?d)"
    using False d by (simp add: handle_install_snapshot_def observe_term_def [symmetric] Let_def)
  show thesis
  proof (cases "is_last_included_index args \<le> snapshot_last_index ?d")
    case True
    then show thesis using step that [of _ ?d] wf' sl by (simp add: same_log_def)
  next
    case lt: False
    obtain m where m: "sm_restore M (state_machine ?d) (is_data args) = Ok m"
      using restore sl by (auto simp: same_log_def)
    obtain c' where "install_snapshot_steps S M args ?d = Some (IS_Success (current_term ?d), c')"
      "core_wf c'" "commit_index c' = max (commit_index ?d) (is_last_included_index args)"
      "last_applied c' = max (last_applied ?d) (is_last_included_index args)"
      by (rule install_snapshot_steps_correct [OF wf' st _ room m]) (use lt in auto)
    then show thesis using step lt that [of _ c'] sl by (simp add: same_log_def)
  qed
qed

section \<open>Appending at the end of the log\<close>

lemma append_entry_wf:
  assumes wf: "core_wf c" and room: "unat (last_log_index c) + 2 < u64_bound"
    and e: "le_index e = last_log_index c + 1"
    and c': "rlog c' = rlog c @ [e]" "snapshot_last_index c' = snapshot_last_index c"
      "commit_index c' = commit_index c" "last_applied c' = last_applied c"
  shows "core_wf c' \<and> last_log_index c' = last_log_index c + 1 \<and>
         get_log_entry c' (last_log_index c + 1) = Some e"
proof -
  note w = core_wfD [OF wf]
  have succ: "unat (last_log_index c + 1) = unat (last_log_index c) + 1"
    by (rule u64_succ) (use room in simp)
  have ok: "log_ok c'"
    using log_from_append1 [of "snapshot_last_index c" "rlog c" e] w(1) c' e succ room
      unat_last_log_index [OF w(1)] by (simp add: log_ok_def)
  have last: "last_log_index c' = last_log_index c + 1"
    using c' e by (simp add: last_log_index_def [of c'])
  have le: "last_log_index c \<le> last_log_index c + 1" using succ by (simp add: word_le_nat_alt)
  have "core_wf c'"
    using ok last succ room w(3-5) c' le by (auto simp: core_wf_def intro: order_trans)
  moreover have "get_log_entry c' (last_log_index c + 1) = Some e"
    using get_log_entry_Some [OF ok, of "last_log_index c + 1"] last succ c'
      unat_last_log_index [OF w(1)] by (simp add: nth_append)
  ultimately show ?thesis using last by blast
qed

lemma append_log_entry_wf:
  assumes "core_wf c" "unat (last_log_index c) + 2 < u64_bound" "append_log_entry S cmd c = Some (res, c')"
  shows "core_wf c'" "commit_index c' = commit_index c" "last_applied c' = last_applied c"
proof -
  show "commit_index c' = commit_index c" "last_applied c' = last_applied c"
    using assms(3) by (auto simp: append_log_entry_Some Let_def split: if_split_asm)
  show "core_wf c'"
  proof (cases "role c = Leader")
    case True
    let ?e = "\<lparr>le_term = current_term c, le_index = last_log_index c + 1, le_command = cmd\<rparr>"
    from True assms(3) have "rlog c' = rlog c @ [?e]" "snapshot_last_index c' = snapshot_last_index c"
      "commit_index c' = commit_index c" "last_applied c' = last_applied c"
      by (auto simp: append_log_entry_Some Let_def)
    from append_entry_wf [OF assms(1,2) _ this] show ?thesis by simp
  next
    case False
    with assms show ?thesis by (simp add: append_log_entry_Some)
  qed
qed

lemma become_leader_wf:
  assumes "core_wf c" "unat (last_log_index c) + 2 < u64_bound" "become_leader S now c = Some c'"
  shows "core_wf c'" "commit_index c' = commit_index c" "last_applied c' = last_applied c"
    "get_log_entry c' (last_log_index c + 1) =
       Some \<lparr>le_term = current_term c, le_index = last_log_index c + 1, le_command = NOOP_COMMAND\<rparr>"
    "last_log_index c' = last_log_index c + 1"
proof -
  let ?e = "\<lparr>le_term = current_term c, le_index = last_log_index c + 1, le_command = NOOP_COMMAND\<rparr>"
  show f: "commit_index c' = commit_index c" "last_applied c' = last_applied c"
    using assms(3) by (auto simp: become_leader_Some)
  have "rlog c' = rlog c @ [?e]" "snapshot_last_index c' = snapshot_last_index c"
    using assms(3) by (auto simp: become_leader_Some)
  from append_entry_wf [OF assms(1,2) _ this f]
  show "core_wf c'" "get_log_entry c' (last_log_index c + 1) = Some ?e"
    "last_log_index c' = last_log_index c + 1" by simp_all
qed

section \<open>Results from the peers\<close>

lemma note_same_log: "same_log c (note_success p i c)" "same_log c (note_rejection p r c)"
  by (simp_all add: same_log_def note_success_def note_rejection_def Let_def)

text \<open>The commit rule of the leader, after it noted the result \<open>u\<close>.\<close>

definition commit_check ::
  "'s storage_ops \<Rightarrow> 'm sm_ops \<Rightarrow> u64 \<Rightarrow> ('s, 'm) raft_core \<Rightarrow>
   ((u64 option \<times> (u64 \<times> apply_result) list) \<times> ('s, 'm) raft_core) option" where
  "commit_check S M i u =
     (if 0 < i \<and> map_option le_term (get_log_entry u i) = Some (current_term u) \<and>
         majority u \<le> replicated_count i u \<and> commit_index u < i
      then do { (rs, c) \<leftarrow> apply_committed_entries S M (u\<lparr>commit_index := i\<rparr>); Some ((Some i, rs), c) }
      else Some ((None, []), u))"

lemma handle_append_entries_result_unfold:
  fixes c d :: "('s, 'm) raft_core"
  assumes "observe_term S (aer_term r) c = Some d"
  shows "handle_append_entries_result S M p i r c =
     (if role d \<noteq> Leader then Some ((None, []), d)
      else commit_check S M i (if aer_success r then note_success p i d else note_rejection p r d))"
proof -
  have "(if i = 0 then x else if map_option le_term (get_log_entry u i) \<noteq> Some (current_term u) then x
         else if majority u \<le> replicated_count i u \<and> commit_index u < i then y else x)
      = (if 0 < i \<and> map_option le_term (get_log_entry u i) = Some (current_term u) \<and>
            majority u \<le> replicated_count i u \<and> commit_index u < i then y else x)"
    for u :: "('s, 'm) raft_core" and x y :: "((u64 option \<times> (u64 \<times> apply_result) list) \<times> ('s, 'm) raft_core) option"
    by (auto simp: word_neq_0_conv)
  with assms show ?thesis
    unfolding handle_append_entries_result_def observe_term_folds commit_check_def Let_def
    by (simp only: Option.bind.bind_lunit)
qed

lemma handle_append_entries_result_cases:
  assumes "handle_append_entries_result S M p i r c = Some (out, c')"
  obtains d e where "observe_term S (aer_term r) c = Some d"
    "e = (if role d \<noteq> Leader then d else if aer_success r then note_success p i d else note_rejection p r d)"
    "c' = e \<and> out = (None, []) \<or>
      (\<exists>rs x. role d = Leader \<and> 0 < i \<and> get_log_entry e i = Some x \<and> le_term x = current_term e \<and>
         majority e \<le> replicated_count i e \<and> commit_index e < i \<and> out = (Some i, rs) \<and>
         apply_committed_entries S M (e\<lparr>commit_index := i\<rparr>) = Some (rs, c'))"
proof -
  from assms obtain d where d: "observe_term S (aer_term r) c = Some d"
    unfolding handle_append_entries_result_def observe_term_folds
    by (cases "observe_term S (aer_term r) c") simp_all
  obtain u where u: "u = (if aer_success r then note_success p i d else note_rejection p r d)" by blast
  have step: "(if role d \<noteq> Leader then Some ((None, []), d) else commit_check S M i u) = Some (out, c')"
    using assms unfolding handle_append_entries_result_unfold [OF d] u .
  obtain e where e: "e = (if role d \<noteq> Leader then d else u)" by blast
  have "c' = e \<and> out = (None, []) \<or>
      (\<exists>rs x. role d = Leader \<and> 0 < i \<and> get_log_entry e i = Some x \<and> le_term x = current_term e \<and>
         majority e \<le> replicated_count i e \<and> commit_index e < i \<and> out = (Some i, rs) \<and>
         apply_committed_entries S M (e\<lparr>commit_index := i\<rparr>) = Some (rs, c'))"
    using step e
    by (auto simp: commit_check_def bind_eq_Some_conv split: if_split_asm)
  then show thesis by (rule that [OF d, rotated]) (simp add: e u)
qed

lemma same_log_trans: "same_log a b \<Longrightarrow> same_log b c \<Longrightarrow> same_log a c"
  by (simp add: same_log_def)

lemma commit_to_wf:
  assumes "core_wf e" "commit_index e < i" "get_log_entry e i = Some x"
  shows "core_wf (e\<lparr>commit_index := i\<rparr>)"
proof -
  note w = core_wfD [OF assms(1)]
  have "i \<le> last_log_index e" using get_log_entry_iff [OF w(1), of i] assms(3) by blast
  moreover have "last_applied e \<le> i" using w(4) assms(2) by simp
  ultimately show ?thesis using w by (simp add: core_wf_def)
qed

lemma handle_append_entries_result_wf:
  assumes wf: "core_wf c" and st: "storage_total S"
    and h: "handle_append_entries_result S M p i r c = Some (out, c')"
  shows "core_wf c' \<and> commit_index c \<le> commit_index c' \<and> last_applied c \<le> last_applied c'"
  using h
proof (cases rule: handle_append_entries_result_cases)
  case (1 d e)
  have sl: "same_log c e"
    using observe_term_same_log [OF 1(1)] same_log_trans note_same_log 1(2)
    by (cases "role d = Leader"; cases "aer_success r") (simp_all, blast+)
  have we: "core_wf e" using same_log_facts(1) [OF sl] wf by simp
  from 1(3) show ?thesis
  proof (elim disjE exE conjE)
    assume "c' = e"
    with we sl show ?thesis by (simp add: same_log_def)
  next
    fix rs x assume a: "get_log_entry e i = Some x" "commit_index e < i"
      "apply_committed_entries S M (e\<lparr>commit_index := i\<rparr>) = Some (rs, c')"
    have w: "core_wf (e\<lparr>commit_index := i\<rparr>)" using we a(2,1) by (rule commit_to_wf)
    obtain c'' where "apply_committed_entries S M (e\<lparr>commit_index := i\<rparr>)
        = Some (snd (apply_all M (pending (e\<lparr>commit_index := i\<rparr>)) (state_machine (e\<lparr>commit_index := i\<rparr>))), c'')"
      "core_wf c''" "commit_index c'' = i" "last_applied c'' = i"
      by (rule apply_committed_wf [OF w st, of M]) simp
    moreover have "commit_index c \<le> i" "last_applied c \<le> i"
      using a(2) core_wfD(4) [OF we] sl by (auto simp: same_log_def)
    ultimately show ?thesis using a(3) by simp
  qed
qed

lemma handle_append_entries_result_total:
  assumes wf: "core_wf c" and st: "storage_total S"
  shows "\<exists>out c'. handle_append_entries_result S M p i r c = Some (out, c')"
proof -
  obtain d where d: "observe_term S (aer_term r) c = Some d" using observe_term_total [OF st] by blast
  obtain e where e: "e = (if aer_success r then note_success p i d else note_rejection p r d)" by blast
  have sl: "same_log c e"
    using observe_term_same_log [OF d] same_log_trans note_same_log
    by (cases "aer_success r") (simp_all add: e, blast+)
  have we: "core_wf e" using same_log_facts(1) [OF sl] wf by simp
  have "\<exists>rs c'. apply_committed_entries S M (e\<lparr>commit_index := i\<rparr>) = Some (rs, c')"
    if a: "get_log_entry e i = Some x" "commit_index e < i" for x
    by (rule apply_committed_wf [OF commit_to_wf [OF we a(2,1)] st, of M]) blast
  then have "\<exists>out c'. commit_check S M i e = Some (out, c')" by (fastforce simp: commit_check_def)
  then show ?thesis unfolding handle_append_entries_result_unfold [OF d] e [symmetric] by simp
qed

section \<open>Votes\<close>

lemma handle_request_vote_same_log:
  assumes "storage_total S"
  obtains res c' where "handle_request_vote S req c = Some (res, c')" "same_log c c'"
proof (cases "rv_term req < current_term c")
  case True
  then show thesis using that by (simp add: handle_request_vote_unfold same_log_def)
next
  case False
  obtain d where d: "observe_term S (rv_term req) c = Some d" using observe_term_total [OF assms] by blast
  note sl = observe_term_same_log [OF d]
  obtain s where s: "save_voted_for S (storage d) (Some (rv_candidate_id req)) = Ok s"
    using storage_totalD(2) [OF assms] by blast
  have "same_log c (d\<lparr>voted_for := Some (rv_candidate_id req), storage := s\<rparr>)"
    using sl by (simp add: same_log_def)
  then show thesis using False d s sl that
    by (cases "(voted_for d = None \<or> voted_for d = Some (rv_candidate_id req)) \<and>
           is_log_up_to_date d (rv_last_log_term req) (rv_last_log_index req)")
       (simp_all add: handle_request_vote_unfold set_voted_for_def)
qed

lemma start_election_same_log:
  assumes "storage_total S"
  obtains c' where "start_election S now c = Some c'" "same_log c c'"
proof -
  obtain s where s: "save_term S (storage c) (current_term c + 1) = Ok s"
    using storage_totalD(1) [OF assms] by blast
  obtain s' where "save_voted_for S s (Some (node_id c)) = Ok s'"
    using storage_totalD(2) [OF assms] by blast
  with s have "start_election S now c = Some (c\<lparr>current_term := current_term c + 1,
      voted_for := Some (node_id c), storage := s', role := Candidate, current_leader := None,
      votes_received := [node_id c], last_heartbeat := now\<rparr>)"
    by (simp add: start_election_Some)
  then show thesis by (rule that) (simp add: same_log_def)
qed

lemma count_vote_same_log: "same_log c (count_vote p r c)"
  by (simp add: same_log_def count_vote_def)

lemma handle_request_vote_result_wf:
  assumes wf: "core_wf c" and st: "storage_total S" and room: "unat (last_log_index c) + 2 < u64_bound"
  obtains won c' where "handle_request_vote_result S now p r c = Some (won, c')" "core_wf c'"
    "commit_index c' = commit_index c" "last_applied c' = last_applied c"
proof -
  obtain d where d: "observe_term S (rvr_term r) c = Some d" using observe_term_total [OF st] by blast
  have sl: "same_log c (count_vote p r d)"
    using observe_term_same_log [OF d] count_vote_same_log by (rule same_log_trans)
  obtain s where "append_log_entries S (storage (count_vote p r d))
      [\<lparr>le_term = current_term (count_vote p r d), le_index = last_log_index (count_vote p r d) + 1,
        le_command = NOOP_COMMAND\<rparr>] = Ok s"
    using storage_totalD(3) [OF st] by blast
  then obtain e where e: "become_leader S now (count_vote p r d) = Some e"
    by (simp add: become_leader_Some)
  note facts = same_log_facts(1,2) [OF sl] same_log_facts(1) [OF observe_term_same_log [OF d]]
  have "core_wf e \<and> commit_index e = commit_index c \<and> last_applied e = last_applied c"
    using become_leader_wf [OF _ _ e] facts wf room sl by (simp add: same_log_def)
  moreover have "core_wf d \<and> commit_index d = commit_index c \<and> last_applied d = last_applied c"
    using facts wf observe_term_same_log [OF d] by (simp add: same_log_def)
  moreover have "core_wf (count_vote p r d) \<and> commit_index (count_vote p r d) = commit_index c \<and>
      last_applied (count_vote p r d) = last_applied c"
    using facts wf sl by (simp add: same_log_def)
  moreover have "handle_request_vote_result S now p r c =
     (if role d \<noteq> Candidate then Some (False, d)
      else if majority d \<le> length (votes_received (count_vote p r d)) then Some (True, e)
      else Some (False, count_vote p r d))"
    using d e by (simp add: handle_request_vote_result_Some)
  ultimately show thesis using that by metis
qed

section \<open>Runs\<close>

text \<open>
  What an event must satisfy in a state. An AppendEntries request is contiguous and contradicts no
  committed entry (\<open>append_ok\<close>); a snapshot deserialises; the log is not at the end of the index
  range when it grows.
\<close>

fun event_ok :: "'m sm_ops \<Rightarrow> core_event \<Rightarrow> ('s, 'm) raft_core \<Rightarrow> bool" where
  "event_ok M (AppendEntriesReq now req) c = append_ok req c"
| "event_ok M (InstallSnapshotReq now args) c =
     (unat (is_last_included_index args) + 1 < u64_bound \<and>
      \<not> isl (sm_restore M (state_machine c) (is_data args)))"
| "event_ok M (RequestVoteRes now p r) c = (unat (last_log_index c) + 2 < u64_bound)"
| "event_ok M (ClientAppend cmd) c = (unat (last_log_index c) + 2 < u64_bound)"
| "event_ok M _ c = True"

fun run_ok :: "'s storage_ops \<Rightarrow> 'm sm_ops \<Rightarrow> core_event list \<Rightarrow> ('s, 'm) raft_core \<Rightarrow> bool" where
  "run_ok S M [] c = True"
| "run_ok S M (ev # evs) c =
     (event_ok M ev c \<and> (case core_step S M ev c of Some d \<Rightarrow> run_ok S M evs d | None \<Rightarrow> True))"

text \<open>The core moved forward: well-formed, and no index went back.\<close>

definition advances :: "('s, 'm) raft_core \<Rightarrow> ('s, 'm) raft_core \<Rightarrow> bool" where
  "advances c c' \<longleftrightarrow>
     core_wf c' \<and> commit_index c \<le> commit_index c' \<and> last_applied c \<le> last_applied c'"

lemma same_log_advances: "core_wf c \<Longrightarrow> same_log c c' \<Longrightarrow> advances c c'"
  using same_log_facts(1) [of c c'] by (simp add: advances_def same_log_def)

lemma core_step_advances:
  assumes wf: "core_wf c" and st: "storage_total S" and ok: "event_ok M ev c"
  shows "\<exists>c'. core_step S M ev c = Some c' \<and> advances c c'"
proof (cases ev)
  case (RequestVoteReq req)
  obtain res c' where "handle_request_vote S req c = Some (res, c')" "same_log c c'"
    by (rule handle_request_vote_same_log [OF st])
  with RequestVoteReq wf show ?thesis by (simp add: same_log_advances)
next
  case (AppendEntriesReq now req)
  with ok have "append_ok req c" by simp
  then obtain out c' where "handle_append_entries S M now req c = Some (out, c')" "advances c c'"
    by (rule handle_append_entries_correct [OF wf st, of _ M now]) (simp add: advances_def)
  with AppendEntriesReq show ?thesis by simp
next
  case (InstallSnapshotReq now args)
  with ok have r: "unat (is_last_included_index args) + 1 < u64_bound"
    "\<exists>m. sm_restore M (state_machine c) (is_data args) = Ok m"
    by (auto simp: isl_def) (metis sum.exhaust)
  obtain res c' where "handle_install_snapshot S M now args c = Some (res, c')" "advances c c'"
    by (rule handle_install_snapshot_wf [OF wf st r, of now]) (simp add: advances_def)
  with InstallSnapshotReq show ?thesis by simp
next
  case (ElectionStart now)
  obtain c' where "start_election S now c = Some c'" "same_log c c'"
    by (rule start_election_same_log [OF st])
  with ElectionStart wf show ?thesis by (simp add: same_log_advances)
next
  case (RequestVoteRes now p r)
  with ok have room: "unat (last_log_index c) + 2 < u64_bound" by simp
  obtain won c' where "handle_request_vote_result S now p r c = Some (won, c')" "advances c c'"
    by (rule handle_request_vote_result_wf [OF wf st room, of now p r]) (simp add: advances_def)
  with RequestVoteRes show ?thesis by simp
next
  case (AppendEntriesRes p i r)
  obtain out c' where h: "handle_append_entries_result S M p i r c = Some (out, c')"
    using handle_append_entries_result_total [OF wf st] by blast
  with handle_append_entries_result_wf [OF wf st h] AppendEntriesRes show ?thesis
    by (simp add: advances_def)
next
  case (ClientAppend cmd)
  with ok have room: "unat (last_log_index c) + 2 < u64_bound" by simp
  obtain s where "append_log_entries S (storage c)
      [\<lparr>le_term = current_term c, le_index = last_log_index c + 1, le_command = cmd\<rparr>] = Ok s"
    using storage_totalD(3) [OF st] by blast
  then obtain res c' where h: "append_log_entry S cmd c = Some (res, c')"
    by (cases "role c = Leader") (auto simp: append_log_entry_def persist_log_entry_def Let_def)
  with append_log_entry_wf [OF wf room h] ClientAppend show ?thesis by (simp add: advances_def)
next
  case ApplyCommitted
  have "\<exists>rs c'. apply_committed_entries S M c = Some (rs, c') \<and> advances c c'"
    by (rule apply_committed_wf [OF wf st, of M])
       (use core_wfD(4) [OF wf] in \<open>auto simp: advances_def\<close>)
  with ApplyCommitted show ?thesis by force
next
  case TakeSnapshot
  with take_snapshot_wf [OF wf st, of M] show ?thesis by (simp add: advances_def take_snapshot_keeps)
qed

lemma core_run_advances:
  assumes "core_wf c" "storage_total S" "run_ok S M evs c"
  shows "\<exists>c'. core_run S M evs c = Some c' \<and> advances c c'"
  using assms
proof (induction evs arbitrary: c)
  case Nil
  then show ?case by (simp add: advances_def)
next
  case (Cons ev evs)
  then obtain d where d: "core_step S M ev c = Some d" "advances c d"
    using core_step_advances by fastforce
  then obtain c' where "core_run S M evs d = Some c'" "advances d c'"
    using Cons.IH [of d] Cons.prems by (auto simp: advances_def)
  with d show ?case by (auto simp: advances_def)
qed

text \<open>The state of a freshly made node is well-formed when its storage holds a well-formed log.\<close>

lemma raft_core_new_wf:
  assumes "raft_core_new S M now i ps s m = Some c"
    and "log_ok c" "unat (last_log_index c) + 1 < u64_bound"
  shows "core_wf c"
proof -
  have "last_applied c = snapshot_last_index c" "commit_index c = snapshot_last_index c"
    using assms(1) by (auto simp: raft_core_new_def bind_eq_Some_conv)
  moreover have "snapshot_last_index c \<le> last_log_index c"
    using unat_last_log_index [OF assms(2)] by (simp add: word_le_nat_alt)
  ultimately show ?thesis using assms(2,3) by (simp add: core_wf_def)
qed

end
