(* ===== verification/Raft_Leader.thy ===== *)
theory Raft_Leader
  imports Raft_Invariant
begin

text \<open>
  The leader's side: the conflict hints of a follower and what the leader makes of them, the
  bookkeeping of \<open>next_index\<close> and \<open>match_index\<close>, the election of a leader by a majority of
  distinct votes, and the commit rule (an entry of the current term on a majority of the nodes).
\<close>

section \<open>Conflict hints\<close>

text \<open>\<open>find_first_index_for_term\<close> walks back to the first entry of the run of one term.\<close>

lemma find_first_index_for_term_correct:
  assumes ok: "log_ok c" and s: "snapshot_last_index c < idx" and l: "idx \<le> last_log_index c"
    and e: "get_log_entry c idx = Some e" "le_term e = t"
  defines "j \<equiv> find_first_index_for_term c t idx"
  shows "snapshot_last_index c < j \<and> j \<le> idx \<and>
    (\<forall>k. j \<le> k \<and> k \<le> idx \<longrightarrow> (\<exists>x. get_log_entry c k = Some x \<and> le_term x = t)) \<and>
    (\<forall>x. get_log_entry c (j - 1) = Some x \<longrightarrow> le_term x \<noteq> t)"
  unfolding j_def using ok s l e
proof (induction c t idx arbitrary: e rule: find_first_index_for_term.induct)
  case (1 c t idx)
  let ?s = "snapshot_last_index c"
  have s1: "unat (?s + 1) = unat ?s + 1" using 1(3) by (rule u64_succ_less)
  have p1: "unat (idx - 1) = unat idx - 1" using 1(3) by (intro u64_pred) (auto simp: word_less_nat_alt)
  have single: "\<forall>k. idx \<le> k \<and> k \<le> idx \<longrightarrow> (\<exists>x. get_log_entry c k = Some x \<and> le_term x = t)"
    using 1(5,6) by (metis order_antisym)
  show ?case
  proof (cases "idx > ?s + 1")
    case False
    then have "idx - 1 = ?s"
      using 1(3) s1 p1 by (simp add: word_unat_eq_iff word_less_nat_alt)
    then have "get_log_entry c (idx - 1) = None" by (simp add: get_log_entry_def)
    with False 1(3) single show ?thesis by (simp add: find_first_index_for_term.simps [of c t idx])
  next
    case True
    have lt: "?s < idx - 1" using True s1 p1 by (simp add: word_less_nat_alt)
    have le: "idx - 1 \<le> last_log_index c" using 1(4) p1 by (simp add: word_le_nat_alt)
    from lt le obtain x where x: "get_log_entry c (idx - 1) = Some x"
      using get_log_entry_iff [OF 1(2), of "idx - 1"] by blast
    show ?thesis
    proof (cases "le_term x = t")
      case False
      with True x 1(3) single show ?thesis by (simp add: find_first_index_for_term.simps [of c t idx])
    next
      case same: True
      note ih = 1(1) [OF True x same 1(2) lt le x same]
      have r: "find_first_index_for_term c t idx = find_first_index_for_term c t (idx - 1)"
        using True x same by (simp add: find_first_index_for_term.simps [of c t idx])
      have le1: "k \<le> idx - 1 \<or> k = idx" if "k \<le> idx" for k
        using that p1 by (auto simp: word_le_nat_alt word_unat_eq_iff)
      have "find_first_index_for_term c t (idx - 1) \<le> idx"
        using ih p1 by (auto simp: word_le_nat_alt)
      then show ?thesis unfolding r using ih le1 1(5,6) by metis
    qed
  qed
qed

text \<open>On a log with ascending terms the backward scan finds the last entry of a term.\<close>

definition terms_ascend :: "log_entry list \<Rightarrow> bool" where
  "terms_ascend es \<longleftrightarrow> sorted (map le_term es)"

lemma scan_back_correct:
  assumes "sorted (map le_term (rev es))"
  shows "scan_back_for_term es t =
    (case filter (\<lambda>e. le_term e = t) es of [] \<Rightarrow> None | e # _ \<Rightarrow> Some (le_index e))"
  using assms
proof (induction es)
  case Nil
  then show ?case by simp
next
  case (Cons e es)
  then have le: "\<forall>x \<in> set es. le_term x \<le> le_term e" by (simp add: sorted_append)
  show ?case
  proof (cases "le_term e < t")
    case True
    then have "filter (\<lambda>e. le_term e = t) es = []" using le by (auto simp: filter_empty_conv)
    with True show ?thesis by simp
  next
    case False
    then show ?thesis using Cons by (auto simp: sorted_append)
  qed
qed

lemma find_last_index_for_term_correct:
  assumes asc: "terms_ascend (rlog c)" and ok: "log_ok c"
    and f: "find_last_index_for_term c t = Some i" and e: "e \<in> set (rlog c)" "le_term e = t"
  shows "le_index e \<le> i \<and> (\<exists>x \<in> set (rlog c). le_index x = i \<and> le_term x = t)"
proof -
  let ?f = "filter (\<lambda>e. le_term e = t) (rev (rlog c))"
  have e': "e \<in> set ?f" using e by simp
  then obtain y ys where y: "?f = y # ys" by (cases ?f) auto
  then have "scan_back_for_term (rev (rlog c)) t = Some (le_index y)"
    using scan_back_correct [of "rev (rlog c)" t] asc by (simp add: terms_ascend_def)
  then have i: "i = le_index y" using f by (simp add: find_last_index_for_term_def)
  have y_in: "y \<in> set ?f" using y by simp
  have "le_index e \<le> le_index y"
  proof (cases "e = y")
    case False
    obtain us vs where "rev (rlog c) = vs @ y # us" "\<forall>x \<in> set vs. le_term x \<noteq> t"
      using y by (auto simp: filter_eq_Cons_iff)
    then have uv: "rlog c = rev us @ y # rev vs" "\<forall>x \<in> set (rev vs). le_term x \<noteq> t"
      by (auto simp: rev_swap)
    with e False have "e \<in> set (rev us)" by auto
    then obtain k where k: "k < length (rev us)" "e = rev us ! k" by (metis in_set_conv_nth)
    have l: "log_from (snapshot_last_index c) (rlog c)" using ok by (simp add: log_ok_def)
    have "unat (le_index e) = unat (snapshot_last_index c) + 1 + k"
      using log_from_nth [OF l, of k] uv(1) k by (simp add: nth_append)
    moreover have "unat (le_index y) = unat (snapshot_last_index c) + 1 + length us"
      using log_from_nth [OF l, of "length us"] uv(1) by (simp add: nth_append)
    ultimately show ?thesis using k by (simp add: word_le_nat_alt)
  qed simp
  with i y_in show ?thesis by auto
qed

section \<open>next\_index and match\_index\<close>

lemma note_success_indices:
  assumes "0 < i"
  shows "hm_get_or (match_index (note_success p i c)) q 0 =
           (if q = p then max (hm_get_or (match_index c) p 0) i else hm_get_or (match_index c) q 0)"
    and "hm_get_or (next_index (note_success p i c)) q d =
           (if q = p then i + 1 else hm_get_or (next_index c) q d)"
  using assms by (auto simp: note_success_def Let_def max_def)

lemma note_rejection_indices:
  "match_index (note_rejection p r c) = match_index c"
  "hm_get_or (next_index (note_rejection p r c)) q d =
     (if q = p then min (max (hinted_next_index p r c) 1) (max (saturating_sub (hm_get_or (next_index c) p 1) 1) 1)
      else hm_get_or (next_index c) q d)"
  by (simp_all add: note_rejection_def Let_def)

lemma max_pred_less:
  fixes n :: u64
  assumes "1 < n"
  shows "max (saturating_sub n 1) 1 < n"
proof -
  have "0 < n" using assms by (auto simp: word_less_nat_alt)
  then have "unat (n - 1) = unat n - 1" by (rule u64_pred)
  with assms show ?thesis by (auto simp: saturating_sub_def max_def word_less_nat_alt)
qed

text \<open>A rejection makes the leader go back by at least one entry, and never below index 1.\<close>

lemma note_rejection_decreases:
  "1 \<le> hm_get_or (next_index (note_rejection p r c)) p 1"
  "1 < hm_get_or (next_index c) p 1 \<Longrightarrow>
   hm_get_or (next_index (note_rejection p r c)) p 1 < hm_get_or (next_index c) p 1"
proof -
  let ?n = "hm_get_or (next_index c) p 1"
  show "1 \<le> hm_get_or (next_index (note_rejection p r c)) p 1"
    by (simp add: note_rejection_indices)
  assume "1 < ?n"
  from max_pred_less [OF this] show "hm_get_or (next_index (note_rejection p r c)) p 1 < ?n"
    by (simp add: note_rejection_indices min_less_iff_disj)
qed

section \<open>The peers that the leader tracks\<close>

text \<open>Each peer has one entry in \<open>match_index\<close>, and nobody else has.\<close>

definition peers_tracked :: "('s, 'm) raft_core \<Rightarrow> bool" where
  "peers_tracked c \<longleftrightarrow>
     distinct (map fst (match_index c)) \<and> fst ` set (match_index c) \<subseteq> set (peers c) \<and>
     distinct (peers c) \<and> node_id c \<notin> set (peers c)"

lemma distinct_fold_insert:
  "distinct (map fst m) \<Longrightarrow> distinct (map fst (fold (\<lambda>p. hm_insert p v) ps m))"
  by (induction ps arbitrary: m) (simp_all add: distinct_update)

lemma keys_fold_insert: "fst ` set (fold (\<lambda>p. hm_insert p v) ps m) = set ps \<union> fst ` set m"
  by (induction ps arbitrary: m) (auto simp: hm_keys_insert)

lemma get_fold_insert:
  "hm_get (fold (\<lambda>p. hm_insert p v) ps m) q = (if q \<in> set ps then Some v else hm_get m q)"
  by (induction ps arbitrary: m) (auto simp: hm_get_insert)

lemma become_leader_tracked:
  "peers_tracked c \<Longrightarrow> become_leader S now c = Some c' \<Longrightarrow> peers_tracked c'"
  unfolding peers_tracked_def become_leader_Some
  by (elim exE conjE) (simp add: distinct_fold_insert keys_fold_insert)

lemma note_success_tracked: "peers_tracked c \<Longrightarrow> p \<in> set (peers c) \<Longrightarrow> peers_tracked (note_success p i c)"
  by (auto simp: note_success_def Let_def peers_tracked_def distinct_update hm_keys_insert)

lemma note_rejection_tracked: "peers_tracked c \<Longrightarrow> peers_tracked (note_rejection p r c)"
  by (simp add: note_rejection_def Let_def peers_tracked_def)

text \<open>The nodes on which the leader knows entry \<open>i\<close> to be stored, itself included.\<close>

definition replicas :: "u64 \<Rightarrow> ('s, 'm) raft_core \<Rightarrow> u64 set" where
  "replicas i c = insert (node_id c) {p. \<exists>m. hm_get (match_index c) p = Some m \<and> i \<le> m}"

lemma replicated_count_replicas:
  assumes "peers_tracked c"
  shows "finite (replicas i c)" "card (replicas i c) = replicated_count i c"
    "replicas i c \<subseteq> insert (node_id c) (set (peers c))"
proof -
  let ?m = "match_index c"
  let ?f = "filter (\<lambda>(_, m). i \<le> m) ?m"
  have dist: "distinct (map fst ?m)" using assms by (simp add: peers_tracked_def)
  have eq: "{p. \<exists>m. hm_get ?m p = Some m \<and> i \<le> m} = fst ` set ?f"
    using dist by (force simp: map_of_eq_Some_iff image_iff)
  have "distinct (map fst ?f)" using dist by (rule distinct_map_filter)
  then have card: "card (fst ` set ?f) = length ?f" by (metis distinct_card length_map set_map)
  have sub: "fst ` set ?f \<subseteq> set (peers c)" using assms by (auto simp: peers_tracked_def)
  have "node_id c \<notin> fst ` set ?f" using sub assms by (auto simp: peers_tracked_def)
  with card eq show "card (replicas i c) = replicated_count i c"
    by (simp add: replicas_def replicated_count_def)
  show "finite (replicas i c)" by (simp add: replicas_def eq)
  show "replicas i c \<subseteq> insert (node_id c) (set (peers c))" using eq sub by (auto simp: replicas_def)
qed

text \<open>Two sets of nodes that reach \<open>majority\<close> share a node.\<close>

lemma majority_meets:
  assumes "distinct (peers c)" "node_id c \<notin> set (peers c)"
    and "A \<subseteq> insert (node_id c) (set (peers c))" "B \<subseteq> insert (node_id c) (set (peers c))"
    and "majority c \<le> card A" "majority c \<le> card B"
  shows "A \<inter> B \<noteq> {}"
proof
  assume empty: "A \<inter> B = {}"
  let ?U = "insert (node_id c) (set (peers c))"
  have "card ?U = total_nodes c"
    using assms(1,2) by (simp add: total_nodes_def distinct_card)
  moreover have "card (A \<union> B) = card A + card B"
    using empty assms(3,4) by (meson List.finite_set card_Un_disjoint finite_insert finite_subset)
  moreover have "card (A \<union> B) \<le> card ?U"
    by (rule card_mono) (use assms(3,4) in auto)
  ultimately show False using assms(5,6) by (simp add: majority_def)
qed

text \<open>The tracking is kept by every event, when replies come from peers.\<close>

fun from_peer :: "core_event \<Rightarrow> ('s, 'm) raft_core \<Rightarrow> bool" where
  "from_peer (AppendEntriesRes p i r) c = (p \<in> set (peers c))"
| "from_peer _ c = True"

lemma peers_tracked_same:
  "peers c' = peers c \<Longrightarrow> node_id c' = node_id c \<Longrightarrow> match_index c' = match_index c \<Longrightarrow>
   peers_tracked c' = peers_tracked c"
  by (simp add: peers_tracked_def)

end
