(* ===== verification/Raft_Node.thy ===== *)
theory Raft_Node
  imports Raft_Leader
begin

text \<open>
  The node, \<open>src/core/raft_node.rs\<close>: it reads its core under the lock, builds one request per
  peer, sends them all, and folds the replies into the core one at a time, taking the lock anew for
  each. The peers and the scheduler are a parameter (\<open>network\<close>): the reply of every peer to a
  request, the order in which replies arrive, and what the other tasks of the process do to the core
  while the lock is free: before the operation takes it first (\<open>entry_env\<close>), before each reply, and
  before the last look at the role (\<open>exit_env\<close>). Arrivals that leave out a peer mean, for
  \<open>confirm_leadership\<close>, that it may still be waiting, which its result says; for the other operations,
  that the reply of that peer never came and the operation ended without it.
\<close>

section \<open>The environment of one operation\<close>

type_synonym ('s, 'm) others = "('s, 'm) raft_core \<Rightarrow> ('s, 'm) raft_core"

record ('s, 'm) network =
  vote_reply :: "u64 \<Rightarrow> request_vote_args \<Rightarrow> (request_vote_result, transport_error) result"
  append_reply :: "u64 \<Rightarrow> append_entries_args \<Rightarrow> (append_entries_result, transport_error) result"
  snapshot_reply :: "u64 \<Rightarrow> install_snapshot_args \<Rightarrow> (install_snapshot_result, transport_error) result"
  entry_env :: "('s, 'm) others"
  arrivals :: "(u64 \<times> ('s, 'm) others) list"
  exit_env :: "('s, 'm) others"
  clock :: instant

section \<open>Elections\<close>

definition node_start_election ::
  "'s storage_ops \<Rightarrow> ('s, 'm) network \<Rightarrow> ('s, 'm) raft_core \<Rightarrow> ('s, 'm) raft_core option" where
  "node_start_election S N c = start_election S (clock N) c"

definition vote_request :: "('s, 'm) raft_core \<Rightarrow> request_vote_args" where
  "vote_request c = \<lparr>rv_term = current_term c, rv_candidate_id = node_id c,
                     rv_last_log_index = last_log_index c, rv_last_log_term = last_log_term c\<rparr>"

fun collect_votes ::
  "'s storage_ops \<Rightarrow> instant \<Rightarrow>
   (u64 \<times> ('s, 'm) others \<times> (request_vote_result, transport_error) result) list \<Rightarrow>
   ('s, 'm) raft_core \<Rightarrow> (bool \<times> ('s, 'm) raft_core) option" where
  "collect_votes S now [] c = Some (False, c)"
| "collect_votes S now ((peer_id, env, result) # rest) c =
     (case result of
        Err _ \<Rightarrow> collect_votes S now rest c
      | Ok r \<Rightarrow>
          do {
            (won, c) \<leftarrow> handle_request_vote_result S now peer_id r (env c);
            if won then Some (True, c) else collect_votes S now rest c
          })"

definition request_votes ::
  "'s storage_ops \<Rightarrow> ('s, 'm) network \<Rightarrow> ('s, 'm) raft_core \<Rightarrow> (bool \<times> ('s, 'm) raft_core) option" where
  "request_votes S N c =
     (let c = entry_env N c; args = vote_request c
      in collect_votes S (clock N) (map (\<lambda>(p, env). (p, env, vote_reply N p args)) (arrivals N)) c)"

section \<open>Requests to the peers\<close>

definition peer_next_index :: "('s, 'm) raft_core \<Rightarrow> u64 \<Rightarrow> u64" where
  "peer_next_index c peer_id = hm_get_or (next_index c) peer_id 1"

text \<open>The term at \<open>prev_log_index\<close>, computed in the same way by the three senders.\<close>

definition term_at :: "('s, 'm) raft_core \<Rightarrow> u64 \<Rightarrow> u64" where
  "term_at c i =
     (if i = snapshot_last_index c then snapshot_last_term c
      else if i = 0 then 0
      else if i > snapshot_last_index c
      then let pos = unat (i - snapshot_last_index c - 1)
           in if pos < length (rlog c) then le_term (rlog c ! pos) else 0
      else 0)"

definition append_request :: "('s, 'm) raft_core \<Rightarrow> u64 \<Rightarrow> log_entry list \<Rightarrow> append_entries_args" where
  "append_request c next_idx entries =
     \<lparr>ae_term = current_term c, ae_leader_id = node_id c, prev_log_index = next_idx - 1,
      prev_log_term = term_at c (next_idx - 1), ae_entries = entries, leader_commit = commit_index c\<rparr>"

definition replicate_request :: "u64 \<Rightarrow> ('s, 'm) raft_core \<Rightarrow> u64 \<Rightarrow> append_entries_args" where
  "replicate_request entry_index c peer_id =
     (let next_idx = peer_next_index c peer_id
      in append_request c next_idx
           (filter (\<lambda>e. le_index e \<ge> next_idx \<and> le_index e \<le> entry_index) (rlog c)))"

datatype node_request =
    AppendEntriesRequest append_entries_args u64
  | InstallSnapshotRequest install_snapshot_args

text \<open>\<open>None\<close>: the peer is skipped because the snapshot cannot be loaded.\<close>

definition heartbeat_request ::
  "'s storage_ops \<Rightarrow> ('s, 'm) raft_core \<Rightarrow> u64 \<Rightarrow> node_request option" where
  "heartbeat_request S c peer_id =
     (let next_idx = peer_next_index c peer_id
      in if next_idx \<le> snapshot_last_index c
         then (case load_snapshot S c of
                 Ok (Some sn) \<Rightarrow>
                   Some (InstallSnapshotRequest
                     \<lparr>is_term = current_term c, is_leader_id = node_id c,
                      is_last_included_index = last_included_index (metadata sn),
                      is_last_included_term = last_included_term (metadata sn),
                      is_data = snapshot_data sn\<rparr>)
               | _ \<Rightarrow> None)
         else let entries = filter (\<lambda>e. le_index e \<ge> next_idx) (rlog c);
                  last_entry_index = (if entries = [] then 0 else le_index (last entries))
              in Some (AppendEntriesRequest (append_request c next_idx entries) last_entry_index))"

definition confirm_request :: "('s, 'm) raft_core \<Rightarrow> u64 \<Rightarrow> append_entries_args" where
  "confirm_request c peer_id = append_request c (peer_next_index c peer_id) []"

section \<open>Replication of one entry\<close>

text \<open>The results list is scanned to its end; the last match stays.\<close>

fun result_of_entry :: "u64 \<Rightarrow> (u64 \<times> apply_result) list \<Rightarrow> apply_result option \<Rightarrow> apply_result option" where
  "result_of_entry i [] found = found"
| "result_of_entry i ((idx, res) # rs) found = result_of_entry i rs (if idx = i then Some res else found)"

fun collect_replication ::
  "'s storage_ops \<Rightarrow> 'm sm_ops \<Rightarrow> u64 \<Rightarrow>
   (u64 \<times> ('s, 'm) others \<times> (append_entries_result, transport_error) result) list \<Rightarrow>
   ('s, 'm) raft_core \<Rightarrow> (apply_result option \<times> ('s, 'm) raft_core) option" where
  "collect_replication S M entry_index [] c = Some (None, c)"
| "collect_replication S M entry_index ((peer_id, env, result) # rest) c =
     (case result of
        Err _ \<Rightarrow> collect_replication S M entry_index rest c
      | Ok r \<Rightarrow>
          do {
            ((_, apply_results), c) \<leftarrow> handle_append_entries_result S M peer_id entry_index r (env c);
            (case result_of_entry entry_index apply_results None of
               Some res \<Rightarrow> Some (Some res, c)
             | None \<Rightarrow> collect_replication S M entry_index rest c)
          })"

definition replicate_to_peers ::
  "'s storage_ops \<Rightarrow> 'm sm_ops \<Rightarrow> ('s, 'm) network \<Rightarrow> u64 \<Rightarrow> ('s, 'm) raft_core \<Rightarrow>
   (apply_result option \<times> ('s, 'm) raft_core) option" where
  "replicate_to_peers S M N entry_index c =
     (let c = entry_env N c
      in collect_replication S M entry_index
           (map (\<lambda>(p, env). (p, env, append_reply N p (replicate_request entry_index c p))) (arrivals N)) c)"

section \<open>Heartbeats\<close>

datatype node_reply =
    AppendEntriesReply "(append_entries_result, transport_error) result" u64
  | InstallSnapshotReply "(install_snapshot_result, transport_error) result" u64

definition send_request :: "('s, 'm) network \<Rightarrow> u64 \<Rightarrow> node_request \<Rightarrow> node_reply" where
  "send_request N peer_id request =
     (case request of
        AppendEntriesRequest args last_entry_index \<Rightarrow>
          AppendEntriesReply (append_reply N peer_id args) last_entry_index
      | InstallSnapshotRequest args \<Rightarrow>
          InstallSnapshotReply (snapshot_reply N peer_id args) (is_last_included_index args))"

text \<open>
  The reply to a snapshot. A higher term is taken over in memory only, without the storage writes
  that \<open>update_term\<close> makes.
\<close>

definition adopt_term_in_memory :: "u64 \<Rightarrow> ('s, 'm) raft_core \<Rightarrow> ('s, 'm) raft_core" where
  "adopt_term_in_memory t c = c\<lparr>current_term := t, role := Follower, voted_for := None\<rparr>"

definition handle_snapshot_reply ::
  "u64 \<Rightarrow> u64 \<Rightarrow> install_snapshot_result \<Rightarrow> ('s, 'm) raft_core \<Rightarrow> nat \<times> ('s, 'm) raft_core" where
  "handle_snapshot_reply peer_id li r c =
     (case r of
        IS_Success _ \<Rightarrow>
          (1, c\<lparr>next_index := hm_insert peer_id (li + 1) (next_index c),
                match_index := hm_insert peer_id li (match_index c)\<rparr>)
      | IS_Failed t _ \<Rightarrow>
          (0, if t > current_term c then adopt_term_in_memory t c else c))"

fun collect_heartbeat ::
  "'s storage_ops \<Rightarrow> 'm sm_ops \<Rightarrow> (u64 \<times> ('s, 'm) others \<times> node_reply) list \<Rightarrow> nat \<Rightarrow>
   ('s, 'm) raft_core \<Rightarrow> (nat \<times> ('s, 'm) raft_core) option" where
  "collect_heartbeat S M [] n c = Some (n, c)"
| "collect_heartbeat S M ((peer_id, env, reply) # rest) n c =
     (case reply of
        AppendEntriesReply (Ok r) last_entry_index \<Rightarrow>
          do {
            (_, c) \<leftarrow> handle_append_entries_result S M peer_id last_entry_index r (env c);
            collect_heartbeat S M rest (n + 1) c
          }
      | InstallSnapshotReply (Ok r) li \<Rightarrow>
          (let (k, c) = handle_snapshot_reply peer_id li r (env c)
           in collect_heartbeat S M rest (n + k) c)
      | _ \<Rightarrow> collect_heartbeat S M rest n c)"

definition heartbeat_replies ::
  "'s storage_ops \<Rightarrow> ('s, 'm) network \<Rightarrow> ('s, 'm) raft_core \<Rightarrow>
   (u64 \<times> ('s, 'm) others \<times> node_reply) list" where
  "heartbeat_replies S N c =
     List.map_filter
       (\<lambda>(p, env). map_option (\<lambda>req. (p, env, send_request N p req)) (heartbeat_request S c p))
       (arrivals N)"

definition send_heartbeat ::
  "'s storage_ops \<Rightarrow> 'm sm_ops \<Rightarrow> ('s, 'm) network \<Rightarrow> ('s, 'm) raft_core \<Rightarrow>
   ((bool \<times> nat) \<times> ('s, 'm) raft_core) option" where
  "send_heartbeat S M N c =
     (let c = entry_env N c
      in if role c \<noteq> Leader then Some ((False, 0), c)
      else do {
        (n, c) \<leftarrow> collect_heartbeat S M (heartbeat_replies S N c) 0 c;
        let c = exit_env N c;
        Some ((role c = Leader, n), c)
      })"

section \<open>Confirmation of leadership\<close>

text \<open>The first component tells that a higher term was met.\<close>

fun collect_confirm ::
  "nat \<Rightarrow> (('s, 'm) others \<times> (append_entries_result, transport_error) result) list \<Rightarrow> nat \<Rightarrow>
   ('s, 'm) raft_core \<Rightarrow> bool \<times> nat \<times> ('s, 'm) raft_core" where
  "collect_confirm majority_needed [] n c = (False, n, c)"
| "collect_confirm majority_needed ((env, result) # rest) n c =
     (case result of
        Err _ \<Rightarrow> if n \<ge> majority_needed then (False, n, c) else collect_confirm majority_needed rest n c
      | Ok r \<Rightarrow>
          (let c = env c
           in if aer_term r > current_term c
              then (True, n, adopt_term_in_memory (aer_term r) c)
              else let n = (if aer_success r then n + 1 else n)
                   in if n \<ge> majority_needed then (False, n, c)
                      else collect_confirm majority_needed rest n c))"

text \<open>
  The loop takes as long as the replies do: it ends with a higher term, with enough successes, or when
  every request has been answered or has failed. \<open>None\<close>: none of these has happened with the arrivals
  given, the operation is still waiting.
\<close>

definition confirm_leadership ::
  "('s, 'm) network \<Rightarrow> ('s, 'm) raft_core \<Rightarrow> (bool \<times> nat) option \<times> ('s, 'm) raft_core" where
  "confirm_leadership N c =
     (let c = entry_env N c
      in if role c \<noteq> Leader then (Some (False, 0), c)
      else let requests = map (\<lambda>p. (p, confirm_request c p)) (peers c);
               majority_needed = (length requests + 1) div 2;
               replies = map (\<lambda>(p, env). (env, append_reply N p (confirm_request c p))) (arrivals N);
               (lost, n, c) = collect_confirm majority_needed replies 0 c
           in if lost then (Some (False, n), c)
              else if n < majority_needed \<and> \<not> set (map fst requests) \<subseteq> set (map fst (arrivals N))
              then (None, c)
              else let c = exit_env N c in (Some (role c = Leader, n), c))"

section \<open>The requests describe the sender's log\<close>

lemma filter_log_upto:
  assumes "log_from s l"
  shows "filter (\<lambda>e. le_index e \<le> m) l = take (unat m - unat s) l"
proof -
  let ?k = "unat m - unat s"
  have "filter (\<lambda>e. le_index e \<le> m) (take ?k l) = take ?k l"
    using log_from_nth [OF assms] by (fastforce simp: filter_id_conv in_set_conv_nth word_le_nat_alt)
  moreover have "filter (\<lambda>e. le_index e \<le> m) (drop ?k l) = []"
    using log_from_nth [OF assms] by (fastforce simp: filter_empty_conv in_set_conv_nth word_le_nat_alt)
  ultimately have "filter (\<lambda>e. le_index e \<le> m) (take ?k l @ drop ?k l) = take ?k l"
    unfolding filter_append by simp
  then show ?thesis by (simp only: append_take_drop_id)
qed

text \<open>Where a request for next index \<open>n\<close> is a plain AppendEntries: behind no snapshot, at most one past the end.\<close>

definition next_in_log :: "('s, 'm) raft_core \<Rightarrow> u64 \<Rightarrow> bool" where
  "next_in_log c n \<longleftrightarrow> snapshot_last_index c < n \<and> n \<le> last_log_index c + 1"

lemma next_in_logD:
  assumes "core_wf c" "next_in_log c n"
  shows "unat (n - 1) = unat n - 1" "snapshot_last_index c \<le> n - 1" "n - 1 \<le> last_log_index c" "0 < unat n"
    "(n \<le> i) = (n - 1 < i)"
proof -
  have s: "unat (last_log_index c + 1) = unat (last_log_index c) + 1"
    using core_wfD(2) [OF assms(1)] by (rule u64_succ)
  have n: "unat (snapshot_last_index c) < unat n" "unat n \<le> unat (last_log_index c) + 1"
    using assms(2) s by (simp_all add: next_in_log_def word_less_nat_alt word_le_nat_alt)
  then show p: "0 < unat n" by linarith
  then show q: "unat (n - 1) = unat n - 1" by (intro u64_pred) (simp add: word_less_nat_alt)
  show "snapshot_last_index c \<le> n - 1" "n - 1 \<le> last_log_index c" "(n \<le> i) = (n - 1 < i)"
    using n p q by (auto simp: word_le_nat_alt word_less_nat_alt)
qed

lemma append_request_prev:
  assumes "core_wf c" "next_in_log c n"
  shows "prev_matches (append_request c n es) c"
proof -
  note w = core_wfD [OF assms(1)] and d = next_in_logD [OF assms]
  show ?thesis
  proof (cases "n - 1 = snapshot_last_index c")
    case True
    then show ?thesis using d(3) by (simp add: prev_matches_def append_request_def term_at_def)
  next
    case False
    then have gt: "snapshot_last_index c < n - 1" using d(2) by simp
    then have nz: "n - 1 \<noteq> 0" by (auto simp: word_less_nat_alt)
    obtain e where e: "get_log_entry c (n - 1) = Some e"
      using get_log_entry_iff [OF w(1), of "n - 1"] gt d(3) by blast
    then have "term_at c (n - 1) = le_term e"
      using gt nz False by (auto simp: term_at_def get_log_entry_def Let_def split: if_splits)
    then show ?thesis using e d(3) False by (simp add: prev_matches_def append_request_def)
  qed
qed

lemma request_entries:
  assumes "core_wf c" "next_in_log c n"
  shows "filter (\<lambda>e. n \<le> le_index e) (rlog c) = drop (unat n - 1 - unat (snapshot_last_index c)) (rlog c)"
    "log_from (n - 1) (filter (\<lambda>e. n \<le> le_index e) (rlog c))"
    "log_from (n - 1) (filter (\<lambda>e. n \<le> le_index e \<and> le_index e \<le> m) (rlog c))"
proof -
  note w = core_wfD [OF assms(1)] and d = next_in_logD [OF assms]
  let ?s = "snapshot_last_index c"
  have l: "log_from ?s (rlog c)" using w(1) by (simp add: log_ok_def)
  have r: "unat ?s \<le> unat (n - 1)" "unat (n - 1) \<le> unat ?s + length (rlog c)"
    using d(2,3) unat_last_log_index [OF w(1)] by (simp_all add: word_le_nat_alt)
  have f: "filter (\<lambda>e. n \<le> le_index e) (rlog c) = filter (\<lambda>e. n - 1 < le_index e) (rlog c)"
    by (simp add: d(5))
  show g: "filter (\<lambda>e. n \<le> le_index e) (rlog c) = drop (unat n - 1 - unat ?s) (rlog c)"
    using filter_log_from [OF l r] f d(1) by simp
  show h: "log_from (n - 1) (filter (\<lambda>e. n \<le> le_index e) (rlog c))"
    using log_from_drop [OF l r] g d(1) by simp
  have "filter (\<lambda>e. n \<le> le_index e \<and> le_index e \<le> m) (rlog c)
      = filter (\<lambda>e. le_index e \<le> m) (filter (\<lambda>e. n \<le> le_index e) (rlog c))"
    by (simp add: conj_commute)
  then show "log_from (n - 1) (filter (\<lambda>e. n \<le> le_index e \<and> le_index e \<le> m) (rlog c))"
    using filter_log_upto [OF h, of m] log_from_take [OF h] by simp
qed

section \<open>Interference by incoming requests\<close>

text \<open>
  The tasks that run beside the server loop only handle incoming RPCs. None of them touches what the
  node keeps of its own election and replication, and none makes it a candidate or a leader.
\<close>

fun is_rpc :: "core_event \<Rightarrow> bool" where
  "is_rpc (RequestVoteReq req) = True"
| "is_rpc (AppendEntriesReq now req) = True"
| "is_rpc (InstallSnapshotReq now args) = True"
| "is_rpc _ = False"

definition rpc_env :: "'s storage_ops \<Rightarrow> 'm sm_ops \<Rightarrow> ('s, 'm) others \<Rightarrow> bool" where
  "rpc_env S M env \<longleftrightarrow>
     (\<forall>c. \<exists>evs. (\<forall>ev \<in> set evs. is_rpc ev) \<and> core_run S M evs c = Some (env c))"

definition rpc_frame :: "('s, 'm) raft_core \<Rightarrow> ('s, 'm) raft_core \<Rightarrow> bool" where
  "rpc_frame c c' \<longleftrightarrow>
     node_id c' = node_id c \<and> peers c' = peers c \<and> votes_received c' = votes_received c \<and>
     next_index c' = next_index c \<and> match_index c' = match_index c \<and>
     (role c' = role c \<and> current_term c' = current_term c \<or> role c' = Follower)"

lemma rpc_frame_refl [simp]: "rpc_frame c c"
  by (simp add: rpc_frame_def)

lemma rpc_frame_trans: "rpc_frame a b \<Longrightarrow> rpc_frame b c \<Longrightarrow> rpc_frame a c"
  by (auto simp: rpc_frame_def)

lemma observe_term_frame: "observe_term S t c = Some d \<Longrightarrow> rpc_frame c d"
  by (auto simp: observe_term_Some rpc_frame_def split: if_splits)

lemma log_side_frame:
  "apply_entries S es c = Some c' \<Longrightarrow> rpc_frame c c'"
  "rpc_frame c (snd (take_snapshot S M c))"
  "apply_loop M c rs = Some (rs', c') \<Longrightarrow> rpc_frame c c'"
proof -
  show "rpc_frame c c'" if "apply_entries S es c = Some c'"
    by (subst apply_entries_frame [OF that, unfolded log_write_def]) (simp add: rpc_frame_def)
  show "rpc_frame c (snd (take_snapshot S M c))"
    by (subst take_snapshot_frame [of c S M, unfolded snapshot_write_def]) (simp add: rpc_frame_def)
  show "rpc_frame c c'" if "apply_loop M c rs = Some (rs', c')"
    by (subst apply_loop_frame [OF that, unfolded apply_write_def]) (simp add: rpc_frame_def)
qed

lemma apply_committed_frame: "apply_committed_entries S M c = Some (rs, c') \<Longrightarrow> rpc_frame c c'"
  by (auto simp: apply_committed_entries_def bind_eq_Some_conv
           intro: log_side_frame rpc_frame_trans split: if_splits)

lemma rpc_frame_update [simp]:
  "rpc_frame (c\<lparr>commit_index := i\<rparr>) c' = rpc_frame c c'"
  "rpc_frame (c\<lparr>current_leader := l, last_heartbeat := now\<rparr>) c' = rpc_frame c c'"
  by (simp_all add: rpc_frame_def)

lemma accept_entries_frame: "accept_entries S M req c = Some c' \<Longrightarrow> rpc_frame c c'"
  by (auto simp: accept_entries_def bind_eq_Some_conv split: if_split_asm
           dest!: apply_committed_frame log_side_frame(1) intro: rpc_frame_trans)

lemma check_and_append_frame: "check_and_append S M req c = Some (ok, ct, ci, c') \<Longrightarrow> rpc_frame c c'"
  by (drule check_and_append_Some) (auto intro: accept_entries_frame split: if_split_asm)

lemma handle_append_entries_frame:
  assumes "handle_append_entries S M now req c = Some (out, c')"
  shows "rpc_frame c c'"
proof -
  from assms obtain d where d: "observe_term S (ae_term req) c = Some d"
    and e: "c' = d \<or> (\<exists>ok ct ci. check_and_append S M req
       (d\<lparr>role := Follower, current_leader := Some (ae_leader_id req), last_heartbeat := now\<rparr>)
         = Some (ok, ct, ci, c'))"
    by (auto simp: handle_append_entries_unfold split: if_split_asm)
  have "rpc_frame d (d\<lparr>role := Follower, current_leader := Some (ae_leader_id req), last_heartbeat := now\<rparr>)"
    by (simp add: rpc_frame_def)
  with observe_term_frame [OF d] have f: "rpc_frame c (d\<lparr>role := Follower, current_leader := Some (ae_leader_id req), last_heartbeat := now\<rparr>)"
    by (rule rpc_frame_trans)
  from e show ?thesis
  proof (elim disjE exE)
    fix ok ct ci assume "check_and_append S M req
       (d\<lparr>role := Follower, current_leader := Some (ae_leader_id req), last_heartbeat := now\<rparr>)
         = Some (ok, ct, ci, c')"
    from f check_and_append_frame [OF this] show ?thesis by (rule rpc_frame_trans)
  qed (use observe_term_frame [OF d] in simp)
qed

lemma handle_request_vote_frame:
  "handle_request_vote S req c = Some (res, c') \<Longrightarrow> rpc_frame c c'"
  unfolding handle_request_vote_unfold
  by (auto simp: bind_eq_Some_conv raft_defs rpc_frame_def dest!: observe_term_frame split: if_split_asm)

lemma install_snapshot_steps_frame:
  assumes "install_snapshot_steps S M args c = Some (res, c')"
  shows "rpc_frame c c'"
proof -
  from assms have "(\<exists>s. c' = c\<lparr>storage := s\<rparr>) \<or> (\<exists>s m l. c' = advance_to_snapshot (is_last_included_index args)
      (c\<lparr>storage := s, state_machine := m, snapshot_last_index := is_last_included_index args,
        snapshot_last_term := is_last_included_term args, rlog := l\<rparr>))"
    by (fastforce simp: install_snapshot_steps_def Let_def bind_eq_Some_conv split: sum.split_asm)
  then show ?thesis by (auto simp: rpc_frame_def advance_to_snapshot_def Let_def)
qed

lemma handle_install_snapshot_frame:
  assumes "handle_install_snapshot S M now args c = Some (res, c')"
  shows "rpc_frame c c'"
proof (cases "is_term args < current_term c")
  case True
  with assms show ?thesis by (simp add: handle_install_snapshot_def)
next
  case False
  with assms obtain d where d: "observe_term S (is_term args) c = Some d"
    and e: "(let c = d\<lparr>last_heartbeat := now, current_leader := Some (is_leader_id args)\<rparr> in
        c' = c \<or> install_snapshot_steps S M args c = Some (res, c'))"
    unfolding handle_install_snapshot_def observe_term_def [symmetric]
    by (cases "observe_term S (is_term args) c") (simp_all add: Let_def split: if_split_asm)
  let ?d = "d\<lparr>last_heartbeat := now, current_leader := Some (is_leader_id args)\<rparr>"
  have "rpc_frame d ?d" by (simp add: rpc_frame_def)
  with observe_term_frame [OF d] have f: "rpc_frame c ?d" by (rule rpc_frame_trans)
  from e have "c' = ?d \<or> install_snapshot_steps S M args ?d = Some (res, c')" by (simp add: Let_def)
  then show ?thesis
  proof
    assume "install_snapshot_steps S M args ?d = Some (res, c')"
    from f install_snapshot_steps_frame [OF this] show ?thesis by (rule rpc_frame_trans)
  qed (use f in simp)
qed

lemma rpc_step_frame: "is_rpc ev \<Longrightarrow> core_step S M ev c = Some c' \<Longrightarrow> rpc_frame c c'"
  by (cases ev) (auto dest: handle_request_vote_frame handle_append_entries_frame handle_install_snapshot_frame)

lemma rpc_run_frame: "\<forall>ev \<in> set evs. is_rpc ev \<Longrightarrow> core_run S M evs c = Some c' \<Longrightarrow> rpc_frame c c'"
proof (induction evs arbitrary: c)
  case (Cons ev evs)
  then show ?case by (auto simp: bind_eq_Some_conv intro: rpc_frame_trans dest: rpc_step_frame)
qed simp

lemma rpc_env_frame: "rpc_env S M env \<Longrightarrow> rpc_frame c (env c)"
  unfolding rpc_env_def using rpc_run_frame by blast

lemma rpc_env_order: "rpc_env S M env \<Longrightarrow> vote_order c (env c)"
  unfolding rpc_env_def by (metis core_run_order is_rpc.simps(4))

lemma rpc_env_id: "rpc_env S M (\<lambda>c. c)"
  unfolding rpc_env_def by (rule allI, rule exI [of _ "[]"]) simp

text \<open>Every task of the network interferes by requests only.\<close>

definition rpc_network :: "'s storage_ops \<Rightarrow> 'm sm_ops \<Rightarrow> ('s, 'm) network \<Rightarrow> bool" where
  "rpc_network S M N \<longleftrightarrow>
     rpc_env S M (entry_env N) \<and> rpc_env S M (exit_env N) \<and> (\<forall>(p, env) \<in> set (arrivals N). rpc_env S M env)"

section \<open>The tracking of the peers is an invariant\<close>

lemma rpc_frame_tracked: "rpc_frame c c' \<Longrightarrow> peers_tracked c' = peers_tracked c"
  by (rule peers_tracked_same) (simp_all add: rpc_frame_def)

lemma handle_append_entries_result_tracked:
  assumes "peers_tracked c" "p \<in> set (peers c)" "handle_append_entries_result S M p i r c = Some (out, c')"
  shows "peers_tracked c'"
  using assms(3)
proof (cases rule: handle_append_entries_result_cases)
  case (1 d e)
  have d: "peers_tracked d" "peers d = peers c"
    using observe_term_frame [OF 1(1)] assms(1) rpc_frame_tracked by (auto simp: rpc_frame_def)
  then have e: "peers_tracked e"
    using 1(2) assms(2) note_success_tracked [of d p i] note_rejection_tracked [of d p r] by auto
  from 1(3) show ?thesis
  proof (elim disjE exE conjE)
    fix rs x assume "apply_committed_entries S M (e\<lparr>commit_index := i\<rparr>) = Some (rs, c')"
    then have "rpc_frame (e\<lparr>commit_index := i\<rparr>) c'" by (rule apply_committed_frame)
    with e rpc_frame_tracked show ?thesis by (metis rpc_frame_update(1))
  qed (use e in simp)
qed

lemma core_step_tracked:
  assumes "peers_tracked c" "from_peer ev c" "core_step S M ev c = Some c'"
  shows "peers_tracked c'"
proof (cases ev)
  case (ElectionStart now)
  with assms(3) have "peers c' = peers c" "node_id c' = node_id c" "match_index c' = match_index c"
    by (auto simp: start_election_Some)
  with assms(1) peers_tracked_same show ?thesis by blast
next
  case (RequestVoteRes now p r)
  with assms(3) obtain won d where d: "observe_term S (rvr_term r) c = Some d"
    and e: "c' = d \<or> c' = count_vote p r d \<or> become_leader S now (count_vote p r d) = Some c'"
    by (auto simp: handle_request_vote_result_Some split: if_split_asm)
  have "peers_tracked d" using rpc_frame_tracked [OF observe_term_frame [OF d]] assms(1) by simp
  then have "peers_tracked d \<and> peers_tracked (count_vote p r d)" by (simp add: count_vote_def peers_tracked_def)
  with e show ?thesis using become_leader_tracked by blast
next
  case (AppendEntriesRes p i r)
  with assms show ?thesis by (auto intro: handle_append_entries_result_tracked)
next
  case (ClientAppend cmd)
  with assms(3) have "peers c' = peers c" "node_id c' = node_id c" "match_index c' = match_index c"
    by (auto simp: append_log_entry_Some Let_def split: if_split_asm)
  with assms(1) peers_tracked_same show ?thesis by blast
next
  case ApplyCommitted
  with assms rpc_frame_tracked show ?thesis by (auto dest: apply_committed_frame)
next
  case TakeSnapshot
  with assms rpc_frame_tracked [OF log_side_frame(2)] show ?thesis by auto
qed (use rpc_frame_tracked [OF rpc_step_frame [OF _ assms(3)]] assms(1) in simp_all)

section \<open>Counting the votes of one election\<close>

lemma handle_request_vote_result_parts:
  assumes "handle_request_vote_result S now q r c = Some (won, c')"
  obtains d where "observe_term S (rvr_term r) c = Some d"
    "node_id c' = node_id d" "peers c' = peers d" "current_term c' = current_term d" "voted_for c' = voted_for d"
    "if role d \<noteq> Candidate then \<not> won \<and> c' = d
     else votes_received c' = votes_received (count_vote q r d) \<and>
       (if won then role c' = Leader \<and> majority d \<le> length (votes_received c') else c' = count_vote q r d)"
proof -
  obtain d where d: "observe_term S (rvr_term r) c = Some d"
    and e: "if role d \<noteq> Candidate then \<not> won \<and> c' = d
        else if majority d \<le> length (votes_received (count_vote q r d))
         then won \<and> become_leader S now (count_vote q r d) = Some c'
         else \<not> won \<and> c' = count_vote q r d"
    using assms by (auto simp: handle_request_vote_result_Some)
  have cv: "node_id (count_vote q r d) = node_id d" "peers (count_vote q r d) = peers d"
    "current_term (count_vote q r d) = current_term d" "voted_for (count_vote q r d) = voted_for d"
    by (simp_all add: count_vote_def)
  show thesis
    by (rule that [OF d]) (use e cv in \<open>auto simp: become_leader_Some split: if_splits\<close>)
qed

definition grants :: "(request_vote_result, transport_error) result \<Rightarrow> bool" where
  "grants r = (case r of Ok x \<Rightarrow> vote_granted x | Err _ \<Rightarrow> False)"

lemma count_vote_length:
  "length (votes_received (count_vote p r c)) \<le> length (votes_received c) + (if vote_granted r then 1 else 0)"
  by (simp add: count_vote_def)

lemma collect_votes_won:
  assumes "collect_votes S now replies c = Some (True, c')" "\<forall>(p, env, _) \<in> set replies. rpc_env S M env"
  shows "role c' = Leader \<and> current_term c' = current_term c \<and> role c = Candidate \<and>
    majority c \<le> length (votes_received c) + length (filter (\<lambda>(p, env, r). grants r) replies)"
  using assms
proof (induction S now replies c rule: collect_votes.induct)
  case (2 S now p env result rest c)
  have frame: "rpc_frame c (env c)" using 2(4) rpc_env_frame by fastforce
  then have maj: "majority (env c) = majority c" "votes_received (env c) = votes_received c"
    by (simp_all add: rpc_frame_def majority_def total_nodes_def)
  show ?case
  proof (cases result)
    case (Inl e)
    then show ?thesis using 2(1) [OF Inl] 2(3,4) by (simp add: grants_def)
  next
    case (Inr r)
    from 2(3) Inr obtain won d where d: "handle_request_vote_result S now p r (env c) = Some (won, d)"
      and rest: "(if won then Some (True, d) else collect_votes S now rest d) = Some (True, c')"
      by (auto simp: bind_eq_Some_conv)
    obtain e where e: "observe_term S (rvr_term r) (env c) = Some e"
      and f: "current_term d = current_term e" "peers d = peers e"
        "if role e \<noteq> Candidate then \<not> won \<and> d = e
         else votes_received d = votes_received (count_vote p r e) \<and>
           (if won then role d = Leader \<and> majority e \<le> length (votes_received d) else d = count_vote p r e)"
      using d by (rule handle_request_vote_result_parts)
    have fe: "rpc_frame c e" using frame observe_term_frame [OF e] by (rule rpc_frame_trans)
    then have fv: "majority e = majority c" "votes_received e = votes_received c"
      by (simp_all add: rpc_frame_def majority_def total_nodes_def)
    have g: "grants result = vote_granted r" using Inr by (simp add: grants_def)
    have md: "majority d = majority c" using f(2) fv by (simp add: majority_def total_nodes_def)
    note ih = 2(2) [OF Inr d refl]
    show ?thesis
    proof (cases won)
      case True
      with f(3) have "role e = Candidate" by (cases "role e = Candidate") simp_all
      then have "role d = Leader" "majority e \<le> length (votes_received d)"
        "votes_received d = votes_received (count_vote p r e)" using f(3) True by auto
      moreover have "current_term e = current_term c" "role c = Candidate"
        using fe \<open>role e = Candidate\<close> by (auto simp: rpc_frame_def)
      ultimately show ?thesis
        using True rest f(1) fv g count_vote_length [of p r e] by (auto split: if_splits)
    next
      case False
      with rest have "collect_votes S now rest d = Some (True, c')" by simp
      from ih [OF False this] 2(4)
      have r: "role c' = Leader" "current_term c' = current_term d" "role d = Candidate"
        "majority d \<le> length (votes_received d) + length (filter (\<lambda>(p, env, r). grants r) rest)"
        by simp_all
      with f(3) False have "role e = Candidate" "d = count_vote p r e"
        by (cases "role e = Candidate"; simp)+
      moreover have "current_term e = current_term c" "role c = Candidate"
        using fe \<open>role e = Candidate\<close> by (auto simp: rpc_frame_def)
      ultimately show ?thesis
        using r f(1) fv g md count_vote_length [of p r e] by (auto split: if_splits)
    qed
  qed
qed simp

end
