(* ===== verification/Raft_Server.thy ===== *)
theory Raft_Server
  imports Raft_Node
begin

text \<open>
  The server, \<open>src/core/raft_server.rs\<close>, with its configuration, \<open>src/core/config.rs\<close>. The
  branches of the \<open>select!\<close> loop are the events of \<open>server_step\<close>; the channels between handle
  and server only carry a command in and its result out. A heartbeat that runs into its timeout is
  a network in which the remaining replies do not arrive.
\<close>

section \<open>config.rs\<close>

record raft_config =
  heartbeat_interval :: duration
  election_timeout_min :: duration
  election_timeout_max :: duration
  cfg_snapshot_threshold :: u64

definition default_config :: raft_config where
  "default_config = \<lparr>heartbeat_interval = 150, election_timeout_min = 300,
                     election_timeout_max = 500, cfg_snapshot_threshold = 1000\<rparr>"

definition with_heartbeat_interval :: "duration \<Rightarrow> raft_config \<Rightarrow> raft_config" where
  "with_heartbeat_interval d cfg = cfg\<lparr>heartbeat_interval := d\<rparr>"

definition with_election_timeout :: "duration \<Rightarrow> duration \<Rightarrow> raft_config \<Rightarrow> raft_config" where
  "with_election_timeout mn mx cfg = cfg\<lparr>election_timeout_min := mn, election_timeout_max := mx\<rparr>"

definition with_snapshot_threshold :: "u64 \<Rightarrow> raft_config \<Rightarrow> raft_config" where
  "with_snapshot_threshold n cfg = cfg\<lparr>cfg_snapshot_threshold := n\<rparr>"

text \<open>
  \<open>random_range(min..=max)\<close> of the crate rand, on the number \<open>rnd\<close> it draws; an empty range
  panics.
\<close>

definition random_election_timeout :: "nat \<Rightarrow> raft_config \<Rightarrow> duration option" where
  "random_election_timeout rnd cfg =
     (let mn = election_timeout_min cfg mod u64_bound; mx = election_timeout_max cfg mod u64_bound
      in if mn \<le> mx then Some (mn + rnd mod (mx - mn + 1)) else None)"

section \<open>Errors\<close>

datatype raft_error =
    NotLeader "u64 option"
  | NotCommitted
  | InvalidCommand string
  | StateMachineError string
  | TransportError transport_error
  | ReadTimeout

section \<open>Client commands\<close>

text \<open>
  \<open>submit_entry\<close> is the block under the first lock; the replication takes the lock anew.
\<close>

definition submit_entry ::
  "'s storage_ops \<Rightarrow> 'm sm_ops \<Rightarrow> string \<Rightarrow> ('s, 'm) raft_core \<Rightarrow>
   ((u64, raft_error) result \<times> ('s, 'm) raft_core) option" where
  "submit_entry S M command c =
     (if role c \<noteq> Leader then Some (Err (NotLeader (current_leader c)), c)
      else case validate_command M command c of
             Err msg \<Rightarrow> Some (Err (InvalidCommand msg), c)
           | Ok _ \<Rightarrow>
               do {
                 (entry, c) \<leftarrow> append_log_entry S command c;
                 (case entry of
                    None \<Rightarrow> Some (Err (NotLeader None), c)
                  | Some e \<Rightarrow> Some (Ok (le_index e), c))
               })"

definition handle_submit ::
  "'s storage_ops \<Rightarrow> 'm sm_ops \<Rightarrow> ('s, 'm) network \<Rightarrow> string \<Rightarrow> ('s, 'm) raft_core \<Rightarrow>
   ((string, raft_error) result \<times> ('s, 'm) raft_core) option" where
  "handle_submit S M N command c =
     do {
       (index, c) \<leftarrow> submit_entry S M command c;
       (case index of
          Err e \<Rightarrow> Some (Err e, c)
        | Ok entry_index \<Rightarrow>
            do {
              (res, c) \<leftarrow> replicate_to_peers S M N entry_index c;
              Some (case res of
                      Some (Ok v) \<Rightarrow> Ok v
                    | Some (Err msg) \<Rightarrow> Err (StateMachineError msg)
                    | None \<Rightarrow> Err NotCommitted, c)
            })
     }"

section \<open>Linearizable reads\<close>

text \<open>
  The wait loop: each round takes the lock after the interference \<open>env\<close>, and reads the time elapsed
  since the loop began, which is after the confirmation of the leadership returned. \<open>None\<close> as a
  result: the rounds given are over and the loop is still waiting, or the confirmation is.
\<close>

definition read_timeout :: duration where
  "read_timeout = 5000"

fun wait_applied ::
  "u64 \<Rightarrow> (('s, 'm) others \<times> duration) list \<Rightarrow> ('s, 'm) raft_core \<Rightarrow>
   (u64, raft_error) result option \<times> ('s, 'm) raft_core" where
  "wait_applied read_index [] c = (None, c)"
| "wait_applied read_index ((env, elapsed) # rounds) c =
     (let c = env c
      in if role c \<noteq> Leader then (Some (Err (NotLeader (current_leader c))), c)
         else if last_applied c \<ge> read_index then (Some (Ok (last_applied c)), c)
         else if elapsed \<ge> read_timeout then (Some (Err ReadTimeout), c)
         else wait_applied read_index rounds c)"

definition handle_read_index ::
  "('s, 'm) network \<Rightarrow> ('s, 'm) others \<Rightarrow> (('s, 'm) others \<times> duration) list \<Rightarrow>
   ('s, 'm) raft_core \<Rightarrow> (u64, raft_error) result option \<times> ('s, 'm) raft_core" where
  "handle_read_index N env rounds c =
     (if role c \<noteq> Leader then (Some (Err (NotLeader (current_leader c))), c)
      else let read_index = commit_index c; num_peers = length (peers c);
               (confirmed, c) = confirm_leadership N c
           in case confirmed of
                None \<Rightarrow> (None, c)
              | Some (still_leader, success_count) \<Rightarrow>
                  if \<not> still_leader
                  then let c = env c in (Some (Err (NotLeader (current_leader c))), c)
                  else let total_nodes = num_peers + 1;
                           majority = total_nodes div 2 + 1;
                           votes = success_count + 1
                       in if votes < majority then (Some (Err ReadTimeout), c)
                          else wait_applied read_index rounds c)"

section \<open>The server loop\<close>

definition has_election_timed_out :: "instant \<Rightarrow> duration \<Rightarrow> ('s, 'm) raft_core \<Rightarrow> bool" where
  "has_election_timed_out now timeout c \<longleftrightarrow> now \<ge> last_heartbeat c + timeout"

definition get_election_deadline :: "duration \<Rightarrow> ('s, 'm) raft_core \<Rightarrow> instant" where
  "get_election_deadline timeout c = last_heartbeat c + timeout"

text \<open>
  The heartbeat branch; \<open>N\<close> holds the replies that arrive before the timeout, \<open>env\<close> is the
  interference between the look at the role and the write of the timer.
\<close>

definition heartbeat_tick ::
  "'s storage_ops \<Rightarrow> 'm sm_ops \<Rightarrow> ('s, 'm) others \<Rightarrow> ('s, 'm) network \<Rightarrow> ('s, 'm) raft_core \<Rightarrow>
   ('s, 'm) raft_core option" where
  "heartbeat_tick S M env N c =
     (if role c = Leader
      then map_option snd (send_heartbeat S M N ((env c)\<lparr>last_heartbeat := clock N\<rparr>))
      else Some c)"

text \<open>
  The election branch: the look at the role, the look at the timer and the start of the election
  take the lock one after the other, with \<open>env1\<close> and \<open>env2\<close> between them; \<open>N1\<close> is the network of
  the vote requests, \<open>N2\<close> that of the first heartbeat.
\<close>

definition election_tick ::
  "'s storage_ops \<Rightarrow> 'm sm_ops \<Rightarrow> duration \<Rightarrow> ('s, 'm) others \<Rightarrow> ('s, 'm) others \<Rightarrow> ('s, 'm) network \<Rightarrow>
   ('s, 'm) network \<Rightarrow> ('s, 'm) raft_core \<Rightarrow> ('s, 'm) raft_core option" where
  "election_tick S M timeout env1 env2 N1 N2 c =
     (if role c \<noteq> Leader
      then let c = env1 c
           in if has_election_timed_out (clock N1) timeout c
              then do {
                c \<leftarrow> node_start_election S N1 (env2 c);
                (won, c) \<leftarrow> request_votes S N1 c;
                if won then map_option snd (send_heartbeat S M N2 c) else Some c
              }
              else Some c
      else Some c)"

datatype ('s, 'm) server_event =
    Shutdown
  | SubmitCommand string "('s, 'm) network"
  | ReadIndexCommand "('s, 'm) network" "('s, 'm) others" "(('s, 'm) others \<times> duration) list"
  | HeartbeatTick "('s, 'm) others" "('s, 'm) network"
  | ElectionTimeout duration "('s, 'm) others" "('s, 'm) others" "('s, 'm) network" "('s, 'm) network"

datatype server_reply =
    NoReply
  | SubmitReply "(string, raft_error) result"
  | ReadReply "(u64, raft_error) result option"

text \<open>
  One round of the loop: the reply to the client, if any, and whether the loop goes on. The loop waits
  for a read as long as the read does.
\<close>

fun server_step ::
  "'s storage_ops \<Rightarrow> 'm sm_ops \<Rightarrow> ('s, 'm) server_event \<Rightarrow> ('s, 'm) raft_core \<Rightarrow>
   (bool \<times> server_reply \<times> ('s, 'm) raft_core) option" where
  "server_step S M Shutdown c = Some (False, NoReply, c)"
| "server_step S M (SubmitCommand command N) c =
     map_option (\<lambda>(r, c). (True, SubmitReply r, c)) (handle_submit S M N command c)"
| "server_step S M (ReadIndexCommand N env rounds) c =
     (let (r, c) = handle_read_index N env rounds c in Some (r \<noteq> None, ReadReply r, c))"
| "server_step S M (HeartbeatTick env N) c = map_option (\<lambda>c. (True, NoReply, c)) (heartbeat_tick S M env N c)"
| "server_step S M (ElectionTimeout timeout env1 env2 N1 N2) c =
     map_option (\<lambda>c. (True, NoReply, c)) (election_tick S M timeout env1 env2 N1 N2 c)"

fun server_run ::
  "'s storage_ops \<Rightarrow> 'm sm_ops \<Rightarrow> ('s, 'm) server_event list \<Rightarrow> ('s, 'm) raft_core \<Rightarrow>
   (server_reply list \<times> ('s, 'm) raft_core) option" where
  "server_run S M [] c = Some ([], c)"
| "server_run S M (ev # evs) c =
     do {
       (continue, reply, c) \<leftarrow> server_step S M ev c;
       if continue
       then do { (replies, c) \<leftarrow> server_run S M evs c; Some (reply # replies, c) }
       else Some ([reply], c)
     }"

section \<open>Reads\<close>

definition acked :: "(append_entries_result, transport_error) result \<Rightarrow> bool" where
  "acked r = (case r of Ok x \<Rightarrow> aer_success x | Err _ \<Rightarrow> False)"

lemma acked_simps [simp]: "acked (Ok x) = aer_success x" "\<not> acked (Err e)"
  by (simp_all add: acked_def)

text \<open>The peers among the arrivals that confirm the leader.\<close>

definition confirm_acks :: "('s, 'm) network \<Rightarrow> ('s, 'm) raft_core \<Rightarrow> u64 list" where
  "confirm_acks N c = filter (\<lambda>p. acked (append_reply N p (confirm_request c p))) (map fst (arrivals N))"

lemma collect_confirm_count:
  assumes "collect_confirm need replies n c = (lost, n', c')"
  shows "n' \<le> n + length (filter (\<lambda>x. acked (snd x)) replies)"
  using assms
proof (induction need replies n c rule: collect_confirm.induct)
  case (2 need env result rest n c)
  show ?case
  proof (cases result)
    case (Inl e)
    with 2 show ?thesis by (fastforce split: if_splits)
  next
    case (Inr r)
    show ?thesis
    proof (cases "aer_term r > current_term (env c)")
      case True
      with 2(3) Inr show ?thesis by simp
    next
      case False
      show ?thesis
      proof (cases "(if aer_success r then n + 1 else n) \<ge> need")
        case True
        with 2(3) Inr False show ?thesis by (auto split: if_splits)
      next
        case more: False
        have "n' \<le> (if aer_success r then n + 1 else n) + length (filter (\<lambda>x. acked (snd x)) rest)"
          by (rule 2(2) [OF Inr refl False refl more]) (use 2(3) Inr False more in \<open>simp add: Let_def\<close>)
        with Inr show ?thesis by (auto split: if_splits)
      qed
    qed
  qed
qed simp

text \<open>While no higher term is met, only the other tasks change the core.\<close>

lemma collect_confirm_frame:
  assumes "collect_confirm need replies n c = (False, n', c')" "\<forall>(env, _) \<in> set replies. \<forall>c. rpc_frame c (env c)"
  shows "rpc_frame c c'"
  using assms
proof (induction need replies n c rule: collect_confirm.induct)
  case (2 need env result rest n c)
  have env: "rpc_frame c (env c)" using 2(4) by simp
  show ?case
  proof (cases result)
    case (Inl e)
    show ?thesis
    proof (cases "n \<ge> need")
      case False
      show ?thesis by (rule 2(1) [OF Inl False]) (use 2(3,4) Inl False in simp_all)
    qed (use 2(3) Inl in simp)
  next
    case (Inr r)
    have no: "\<not> aer_term r > current_term (env c)" using 2(3) Inr by (auto simp: Let_def)
    show ?thesis
    proof (cases "(if aer_success r then n + 1 else n) \<ge> need")
      case True
      with 2(3) Inr no env show ?thesis by (simp add: Let_def)
    next
      case more: False
      have "rpc_frame (env c) c'"
        by (rule 2(2) [OF Inr refl no refl more])
           (use 2(3,4) Inr no more in \<open>simp_all add: Let_def\<close>)
      with env show ?thesis by (rule rpc_frame_trans)
    qed
  qed
qed simp

lemma confirm_leadership_correct:
  assumes net: "rpc_network S M N" and c: "confirm_leadership N c = (Some (True, k), c')"
  shows "role c = Leader \<and> role c' = Leader \<and> current_term c' = current_term c \<and>
    k \<le> length (confirm_acks N (entry_env N c))"
proof -
  let ?d = "entry_env N c"
  let ?replies = "map (\<lambda>(p, env). (env, append_reply N p (confirm_request ?d p))) (arrivals N)"
  let ?need = "(length (peers ?d) + 1) div 2"
  have d: "rpc_frame c ?d" using net rpc_env_frame by (auto simp: rpc_network_def)
  have ld: "role ?d = Leader" using c by (auto simp: confirm_leadership_def Let_def split: if_splits)
  obtain lost n e where e: "collect_confirm ?need ?replies 0 ?d = (lost, n, e)" by (rule prod_cases3)
  have nl: "\<not> lost" and c': "c' = exit_env N e" "n = k" "role c' = Leader"
    using c ld e by (auto simp: confirm_leadership_def Let_def split: if_splits)
  have envs: "\<forall>(env, _) \<in> set ?replies. \<forall>c. rpc_frame c (env c)"
    using net rpc_env_frame unfolding rpc_network_def by fastforce
  have "collect_confirm ?need ?replies 0 ?d = (False, n, e)" using e nl by simp
  then have "rpc_frame ?d e" using envs by (rule collect_confirm_frame)
  moreover have "rpc_frame e c'" using net rpc_env_frame c'(1) by (auto simp: rpc_network_def)
  ultimately have "rpc_frame c c'" using d rpc_frame_trans by blast
  moreover have "n \<le> 0 + length (filter (\<lambda>x. acked (snd x)) ?replies)"
    using e by (rule collect_confirm_count)
  ultimately show ?thesis
    using c' by (auto simp: rpc_frame_def filter_map comp_def case_prod_beta confirm_acks_def)
qed

lemma wait_applied_Ok:
  assumes "wait_applied i rounds c = (Some (Ok j), c')"
  shows "i \<le> j \<and> j = last_applied c' \<and> role c' = Leader"
  using assms by (induction i rounds c rule: wait_applied.induct) (auto simp: Let_def split: if_splits)

text \<open>The loop ends: at the latest in the first round that sees the timeout.\<close>

lemma wait_applied_terminates:
  assumes "\<exists>(env, elapsed) \<in> set rounds. read_timeout \<le> elapsed"
  shows "\<exists>r. fst (wait_applied i rounds c) = Some r"
  using assms by (induction i rounds c rule: wait_applied.induct) (auto simp: Let_def)

lemma confirm_leadership_answers:
  assumes "rpc_network S M N" "set (peers c) \<subseteq> set (map fst (arrivals N))"
  shows "\<exists>x d. confirm_leadership N c = (Some x, d)"
proof -
  have "peers (entry_env N c) = peers c"
    using assms(1) rpc_env_frame by (auto simp: rpc_network_def rpc_frame_def)
  then show ?thesis using assms(2) by (auto simp: confirm_leadership_def Let_def comp_def split: prod.splits)
qed

text \<open>The read is answered once the peers have answered and a round of the loop sees the timeout.\<close>

lemma handle_read_index_terminates:
  assumes "rpc_network S M N" "set (peers c) \<subseteq> set (map fst (arrivals N))"
    and "\<exists>(env, elapsed) \<in> set rounds. read_timeout \<le> elapsed"
  shows "\<exists>r. fst (handle_read_index N env' rounds c) = Some r"
proof -
  obtain still k d where "confirm_leadership N c = (Some (still, k), d)"
    using confirm_leadership_answers [OF assms(1,2)] by auto
  then show ?thesis
    using wait_applied_terminates [OF assms(3)] by (simp add: handle_read_index_def Let_def)
qed

lemma handle_read_index_Ok:
  assumes net: "rpc_network S M N" and h: "handle_read_index N env rounds c = (Some (Ok j), c')"
  shows "role c = Leader \<and> role c' = Leader \<and> commit_index c \<le> j \<and> j = last_applied c' \<and>
    majority c \<le> Suc (length (confirm_acks N (entry_env N c)))"
proof -
  have ld: "role c = Leader" using h by (auto simp: handle_read_index_def split: if_splits)
  obtain conf d where "confirm_leadership N c = (conf, d)" by (rule prod.exhaust)
  with h ld obtain still k where d: "confirm_leadership N c = (Some (still, k), d)"
    by (cases conf) (auto simp: handle_read_index_def Let_def)
  have s: "still" "majority c \<le> Suc k" "wait_applied (commit_index c) rounds d = (Some (Ok j), c')"
    using h ld d by (auto simp: handle_read_index_def Let_def majority_def total_nodes_def split: if_splits)
  from confirm_leadership_correct [OF net, of c k d] d s(1)
  have "k \<le> length (confirm_acks N (entry_env N c))" by simp
  with wait_applied_Ok [OF s(3)] ld s(2) show ?thesis by auto
qed

section \<open>Client commands\<close>

lemma apply_all_snoc:
  "apply_all M (es @ [e]) m =
     (let (m1, rs) = apply_all M es m; (m2, r) = sm_apply M m1 (le_command e)
      in (m2, rs @ [(le_index e, r)]))"
  by (induction es arbitrary: m) (auto simp: Let_def split: prod.splits)

lemma result_of_entry_snoc: "result_of_entry i (rs @ [(i, r)]) found = Some r"
  by (induction i rs found rule: result_of_entry.induct) simp_all

text \<open>The entry at the commit index is the last one to be applied.\<close>

lemma pending_last:
  assumes "core_wf c" "last_applied c < commit_index c" "get_log_entry c (commit_index c) = Some e"
  obtains es where "pending c = es @ [e]"
proof -
  note w = core_wfD [OF assms(1)]
  let ?s = "unat (snapshot_last_index c)" and ?a = "unat (last_applied c)" and ?i = "unat (commit_index c)"
  have le: "?s \<le> ?a" "?a < ?i" "?i \<le> ?s + length (rlog c)"
    using w(3,5) assms(2) unat_last_log_index [OF w(1)] by (simp_all add: word_le_nat_alt word_less_nat_alt)
  have "get_log_entry c (commit_index c) = Some (rlog c ! (?i - ?s - 1))"
    by (rule get_log_entry_Some [OF w(1)]) (use le w(5) in \<open>simp_all add: word_le_nat_alt\<close>)
  then have e: "e = rlog c ! (?i - ?s - 1)" using assms(3) by simp
  have "?i - ?a = Suc (?i - ?a - 1)" using le by simp
  moreover have "?i - ?a - 1 < length (drop (?a - ?s) (rlog c))" using le by simp
  ultimately have "pending c = take (?i - ?a - 1) (drop (?a - ?s) (rlog c))
      @ [drop (?a - ?s) (rlog c) ! (?i - ?a - 1)]"
    unfolding pending_def by (metis take_Suc_snoc)
  moreover have "drop (?a - ?s) (rlog c) ! (?i - ?a - 1) = e" using le e by simp
  ultimately show thesis using that by metis
qed

text \<open>
  The leader waits for entry \<open>i\<close>: as long as it leads, the entry \<open>x\<close> of the client is at \<open>i\<close> and
  not committed.
\<close>

definition awaits :: "u64 \<Rightarrow> log_entry \<Rightarrow> ('s, 'm) raft_core \<Rightarrow> bool" where
  "awaits i x c \<longleftrightarrow>
     (role c = Leader \<longrightarrow> core_wf c \<and> get_log_entry c i = Some x \<and> commit_index c < i)"

text \<open>What the client gets with an answer: the command was the last one applied, on a committed log.\<close>

definition answered :: "'m sm_ops \<Rightarrow> u64 \<Rightarrow> log_entry \<Rightarrow> apply_result \<Rightarrow> ('s, 'm) raft_core \<Rightarrow> bool" where
  "answered M i x r c \<longleftrightarrow>
     role c = Leader \<and> commit_index c = i \<and> last_applied c = i \<and> le_term x = current_term c \<and>
     (\<exists>m. sm_apply M m (le_command x) = (state_machine c, r))"

lemma awaits_cong:
  assumes "awaits i x c" "role c' = Leader \<Longrightarrow> role c = Leader \<and> same_log c c'"
  shows "awaits i x c'"
  using assms same_log_facts(1,4) [of c c'] by (auto simp: awaits_def same_log_def)

lemma awaited_result:
  assumes aw: "awaits i x c" and st: "storage_total S"
    and h: "handle_append_entries_result S M p i r c = Some ((won, rs), c')"
  shows "rs = [] \<and> awaits i x c' \<or> (\<exists>res. result_of_entry i rs None = Some res \<and> answered M i x res c')"
  using h
proof (cases rule: handle_append_entries_result_cases)
  case (1 d e)
  have role_d: "role d = Leader \<Longrightarrow> role c = Leader \<and> same_log c d"
    using 1(1) by (auto simp: observe_term_Some same_log_def split: if_splits)
  have same: "same_vote d e" "same_log d e"
    using 1(2) note_success_same_vote [of d p i] note_rejection_same_vote [of d p r] note_same_log [of d p]
    by (auto simp: same_log_def split: if_splits)
  have aw_e: "awaits i x e"
    by (rule awaits_cong [OF awaits_cong [OF aw role_d]]) (use same in \<open>auto simp: same_vote_def\<close>)
  from 1(3) show ?thesis
  proof (elim disjE exE conjE)
    assume "c' = e" "(won, rs) = (None, [])"
    then show ?thesis using aw_e by simp
  next
    fix rs' y assume a: "role d = Leader" "get_log_entry e i = Some y" "le_term y = current_term e"
      "commit_index e < i" "(won, rs) = (Some i, rs')"
      "apply_committed_entries S M (e\<lparr>commit_index := i\<rparr>) = Some (rs', c')"
    have "role e = Leader" using a(1) same(1) by (simp add: same_vote_def)
    then have x: "core_wf e" "y = x" using aw_e a(2) by (auto simp: awaits_def)
    let ?e = "e\<lparr>commit_index := i\<rparr>"
    have w: "core_wf ?e" using x(1) a(4,2) by (rule commit_to_wf)
    have lt: "last_applied ?e < commit_index ?e" "get_log_entry ?e (commit_index ?e) = Some x"
      using core_wfD(4) [OF x(1)] a(2,4) x(2) by simp_all
    obtain es where es: "pending ?e = es @ [x]" by (rule pending_last [OF w lt])
    obtain m1 rs1 where m1: "apply_all M es (state_machine ?e) = (m1, rs1)" by (metis prod.collapse)
    obtain m2 res where m2: "sm_apply M m1 (le_command x) = (m2, res)" by (metis prod.collapse)
    have ix: "le_index x = i" using get_log_entry_index [OF core_wfD(1) [OF x(1)] a(2)] x(2) by simp
    have all: "apply_all M (pending ?e) (state_machine ?e) = (m2, rs1 @ [(i, res)])"
      using es m1 m2 ix by (simp add: apply_all_snoc)
    obtain c'' where c'': "apply_committed_entries S M ?e
          = Some (snd (apply_all M (pending ?e) (state_machine ?e)), c'')"
      "commit_index c'' = i" "last_applied c'' = i"
      "state_machine c'' = fst (apply_all M (pending ?e) (state_machine ?e))"
      by (rule apply_committed_wf [OF w st, of M]) simp
    have sv: "same_vote ?e c'" using a(6) by (rule apply_committed_same_vote)
    have "rs = rs1 @ [(i, res)]" "c'' = c'" using a(5,6) c''(1) all by simp_all
    then have "result_of_entry i rs None = Some res" "answered M i x res c'"
      using c''(2-4) all m2 sv \<open>role e = Leader\<close> a(3) x(2) result_of_entry_snoc
      by (auto simp: answered_def same_vote_def)
    then show ?thesis by blast
  qed
qed

text \<open>Interference that leaves the log of a leader alone.\<close>

definition leader_env :: "('s, 'm) others \<Rightarrow> bool" where
  "leader_env env \<longleftrightarrow> (\<forall>c. role (env c) = Leader \<longrightarrow> role c = Leader \<and> same_log c (env c))"

text \<open>It is what the handlers of votes and of AppendEntries do.\<close>

lemma request_vote_leader_env:
  assumes "handle_request_vote S req c = Some (res, c')" "role c' = Leader"
  shows "role c = Leader \<and> same_log c c'"
  using assms unfolding handle_request_vote_unfold
  by (auto simp: bind_eq_Some_conv raft_defs same_log_def observe_term_Some split: if_split_asm)

lemma append_entries_leader_env:
  assumes "handle_append_entries S M now req c = Some (out, c')" "role c' = Leader"
  shows "role c = Leader \<and> same_log c c'"
proof -
  obtain d where d: "observe_term S (ae_term req) c = Some d"
    and r: "ae_term req < current_term d \<and> c' = d \<or> role c' = Follower"
    using assms(1) by (rule handle_append_entries_vote)
  with assms(2) have "c' = d" by simp
  then show ?thesis using d assms(2) by (auto simp: observe_term_Some same_log_def split: if_split_asm)
qed

lemma collect_replication_answered:
  assumes "awaits i x c" "storage_total S" "\<forall>(p, env, _) \<in> set replies. leader_env env"
    and "collect_replication S M i replies c = Some (Some res, c')"
  shows "answered M i x res c'"
  using assms
proof (induction S M i replies c rule: collect_replication.induct)
  case (2 S M i p env result rest c)
  show ?case
  proof (cases result)
    case (Inl e)
    then show ?thesis using 2(1) [OF Inl 2(3,4)] 2(5,6) by simp
  next
    case (Inr r)
    from 2(6) Inr obtain won rs d where d: "handle_append_entries_result S M p i r (env c) = Some ((won, rs), d)"
      and rest: "(case result_of_entry i rs None of Some res \<Rightarrow> Some (Some res, d)
                   | None \<Rightarrow> collect_replication S M i rest d) = Some (Some res, c')"
      by (auto simp: bind_eq_Some_conv)
    have "leader_env env" using 2(5) by simp
    then have "awaits i x (env c)"
      using awaits_cong [OF 2(3), of "env c"] by (simp add: leader_env_def)
    from awaited_result [OF this 2(4) d] show ?thesis
    proof (elim disjE conjE exE)
      assume "rs = []" "awaits i x d"
      then show ?thesis using 2(2) [OF Inr d refl refl _ \<open>awaits i x d\<close> 2(4)] rest 2(5) by simp
    next
      fix y assume "result_of_entry i rs None = Some y" "answered M i x y d"
      then show ?thesis using rest by simp
    qed
  qed
qed simp

lemma submit_entry_Ok:
  assumes "submit_entry S M command c = Some (Ok i, d)"
  shows "role c = Leader \<and> sm_validate M (state_machine c) command = Ok () \<and> i = last_log_index c + 1 \<and>
    append_log_entry S command c =
      Some (Some \<lparr>le_term = current_term c, le_index = last_log_index c + 1, le_command = command\<rparr>, d)"
proof (cases "sm_validate M (state_machine c) command")
  case (Inl e)
  with assms show ?thesis by (auto simp: submit_entry_def validate_command_def split: if_split_asm)
next
  case (Inr u)
  then show ?thesis using assms
    by (auto simp: submit_entry_def validate_command_def bind_eq_Some_conv append_log_entry_Some Let_def
             split: if_split_asm option.split_asm)
qed

text \<open>The way from the result of the replication to the answer.\<close>

lemma handle_submit_result:
  assumes "handle_submit S M N command c = Some (out, c')"
    and "out = Ok v \<and> r = Ok v \<or> out = Err (StateMachineError msg) \<and> r = Err msg"
  obtains i d where "submit_entry S M command c = Some (Ok i, d)" "replicate_to_peers S M N i d = Some (Some r, c')"
proof -
  obtain idx d where s: "submit_entry S M command c = Some (idx, d)"
    using assms(1) by (auto simp: handle_submit_def bind_eq_Some_conv)
  have "\<nexists>e. idx = Err (StateMachineError e)"
    using s by (auto simp: submit_entry_def bind_eq_Some_conv split: if_split_asm sum.split_asm option.split_asm)
  then obtain i where i: "idx = Ok i"
    using assms s by (cases idx) (auto simp: handle_submit_def)
  then obtain res where res: "replicate_to_peers S M N i d = Some (res, c')"
    using assms(1) s by (auto simp: handle_submit_def bind_eq_Some_conv)
  have "res = Some r"
    using assms s i res by (auto simp: handle_submit_def split: option.splits sum.splits)
  then show thesis using that s i res by simp
qed

theorem handle_submit_answered:
  assumes wf: "core_wf c" and st: "storage_total S" and room: "unat (last_log_index c) + 2 < u64_bound"
    and env: "leader_env (entry_env N)" "\<forall>(p, env) \<in> set (arrivals N). leader_env env"
    and h: "handle_submit S M N command c = Some (out, c')"
    and out: "out = Ok v \<and> r = Ok v \<or> out = Err (StateMachineError msg) \<and> r = Err msg"
  shows "role c = Leader \<and> sm_validate M (state_machine c) command = Ok () \<and>
    answered M (last_log_index c + 1)
      \<lparr>le_term = current_term c, le_index = last_log_index c + 1, le_command = command\<rparr> r c'"
proof -
  let ?i = "last_log_index c + 1"
  let ?e = "\<lparr>le_term = current_term c, le_index = ?i, le_command = command\<rparr>"
  obtain i d where se: "submit_entry S M command c = Some (Ok i, d)"
    and rep: "replicate_to_peers S M N i d = Some (Some r, c')"
    using h out by (rule handle_submit_result)
  note sub = submit_entry_Ok [OF se]
  then have ld: "role c = Leader" and v: "sm_validate M (state_machine c) command = Ok ()"
    and d: "append_log_entry S command c = Some (Some ?e, d)" and i: "i = ?i" by simp_all
  have da: "rlog d = rlog c @ [?e]" "snapshot_last_index d = snapshot_last_index c"
    "commit_index d = commit_index c" "last_applied d = last_applied c"
    using d ld by (auto simp: append_log_entry_Some Let_def)
  note dw = append_entry_wf [OF wf room _ da]
  have succ: "unat ?i = unat (last_log_index c) + 1"
    by (rule u64_succ) (use room in simp)
  have "commit_index d < ?i"
    using core_wfD(5) [OF wf] da(3) succ by (simp add: word_le_nat_alt word_less_nat_alt)
  then have "awaits ?i ?e d" using dw by (simp add: awaits_def)
  then have "awaits ?i ?e (entry_env N d)"
    using env(1) awaits_cong [of ?i ?e d "entry_env N d"] by (simp add: leader_env_def)
  then have "answered M ?i ?e r c'"
    by (rule collect_replication_answered [OF _ st])
       (use env(2) rep i in \<open>auto simp: replicate_to_peers_def Let_def\<close>)
  with ld v show ?thesis by blast
qed

end
