(* ===== verification/Cluster.thy ===== *)
theory Cluster
  imports Raft_Server
begin

text \<open>
  Several nodes and the vote messages between them, as one transition function over the handlers
  of the core. The theory shows election safety: no two nodes ever lead in the same term. The nodes
  may take any other step of the core in between, with any message, take over a term in memory
  (as \<open>confirm_leadership\<close> and \<open>send_heartbeat\<close> do), crash and restart from their storage; the
  one condition on a crash is that the storage holds the term and the vote of the node.
\<close>

section \<open>The transition function\<close>

text \<open>
  \<open>asked p\<close> is the term of the vote requests whose replies the loop of \<open>request_votes\<close> on node
  \<open>p\<close> is still waiting for, \<open>vote_replies p\<close> those that are on their way. \<open>granted\<close> (term, voter,
  candidate) and \<open>led\<close> (term, leader) record the past.
\<close>

record ('s, 'm) cluster =
  nodes :: "u64 \<Rightarrow> ('s, 'm) raft_core"
  vote_requests :: "request_vote_args list"
  asked :: "u64 \<Rightarrow> u64 option"
  vote_replies :: "u64 \<Rightarrow> (u64 \<times> request_vote_result) list"
  granted :: "(u64 \<times> u64 \<times> u64) list"
  led :: "(u64 \<times> u64) list"

datatype 'm cluster_event =
    Elect u64 instant
  | Ask u64
  | Answer u64 request_vote_args
  | Count u64 instant u64 request_vote_result
  | Local u64 core_event
  | AdoptTerm u64 u64
  | Restart u64 instant 'm

text \<open>The events of the core that take no part in an election.\<close>

fun is_local :: "core_event \<Rightarrow> bool" where
  "is_local (RequestVoteReq req) = False"
| "is_local (ElectionStart now) = False"
| "is_local (RequestVoteRes now p r) = False"
| "is_local _ = True"

definition put_node :: "u64 \<Rightarrow> ('s, 'm) raft_core \<Rightarrow> ('s, 'm) cluster \<Rightarrow> ('s, 'm) cluster" where
  "put_node p c cl = cl\<lparr>nodes := (nodes cl)(p := c)\<rparr>"

fun cluster_step ::
  "'s storage_ops \<Rightarrow> 'm sm_ops \<Rightarrow> 'm cluster_event \<Rightarrow> ('s, 'm) cluster \<Rightarrow> ('s, 'm) cluster option" where
  "cluster_step S M (Elect p now) cl =
     (if current_term (nodes cl p) = -1 then None
      else do {
        c \<leftarrow> start_election S now (nodes cl p);
        Some ((put_node p c cl)\<lparr>asked := (asked cl)(p := None), vote_replies := (vote_replies cl)(p := []),
                granted := (current_term c, p, p) # granted cl\<rparr>)
      })"
| "cluster_step S M (Ask p) cl =
     Some (cl\<lparr>vote_requests := vote_request (nodes cl p) # vote_requests cl,
              asked := (asked cl)(p := Some (current_term (nodes cl p))),
              vote_replies := (vote_replies cl)(p := [])\<rparr>)"
| "cluster_step S M (Answer q req) cl =
     (if req \<in> set (vote_requests cl)
      then do {
        (res, c) \<leftarrow> handle_request_vote S req (nodes cl q);
        let cand = rv_candidate_id req;
        Some ((put_node q c cl)
          \<lparr>granted := (if vote_granted res then (rv_term req, q, cand) # granted cl else granted cl),
           vote_replies := (if asked cl cand = Some (rv_term req)
                            then (vote_replies cl)(cand := (q, res) # vote_replies cl cand)
                            else vote_replies cl)\<rparr>)
      }
      else None)"
| "cluster_step S M (Count p now q r) cl =
     (if (q, r) \<in> set (vote_replies cl p)
      then do {
        (won, c) \<leftarrow> handle_request_vote_result S now q r (nodes cl p);
        Some ((put_node p c cl)\<lparr>led := (if won then (current_term c, p) # led cl else led cl)\<rparr>)
      }
      else None)"
| "cluster_step S M (Local p ev) cl =
     (if is_local ev then do { c \<leftarrow> core_step S M ev (nodes cl p); Some (put_node p c cl) } else None)"
| "cluster_step S M (AdoptTerm p t) cl =
     (if current_term (nodes cl p) < t then Some (put_node p (adopt_term_in_memory t (nodes cl p)) cl) else None)"
| "cluster_step S M (Restart p now m) cl =
     (let c = nodes cl p
      in if load_term S (storage c) = Ok (current_term c) \<and> load_voted_for S (storage c) = Ok (voted_for c)
         then do {
           d \<leftarrow> raft_core_new S M now (node_id c) (peers c) (storage c) m;
           Some ((put_node p d cl)\<lparr>asked := (asked cl)(p := None), vote_replies := (vote_replies cl)(p := [])\<rparr>)
         }
         else None)"

fun cluster_run ::
  "'s storage_ops \<Rightarrow> 'm sm_ops \<Rightarrow> 'm cluster_event list \<Rightarrow> ('s, 'm) cluster \<Rightarrow> ('s, 'm) cluster option" where
  "cluster_run S M [] cl = Some cl"
| "cluster_run S M (ev # evs) cl = do { cl \<leftarrow> cluster_step S M ev cl; cluster_run S M evs cl }"

definition initial_cluster :: "(u64 \<Rightarrow> ('s, 'm) raft_core) \<Rightarrow> ('s, 'm) cluster" where
  "initial_cluster f = \<lparr>nodes = f, vote_requests = [], asked = (\<lambda>_. None), vote_replies = (\<lambda>_. []),
                        granted = [], led = []\<rparr>"

section \<open>The invariant\<close>

text \<open>\<open>U\<close> is the set of the nodes; every node has all the others as its peers.\<close>

definition configured :: "u64 set \<Rightarrow> u64 \<Rightarrow> ('s, 'm) raft_core \<Rightarrow> bool" where
  "configured U p c \<longleftrightarrow> node_id c = p \<and> distinct (peers c) \<and> set (peers c) = U - {p}"

definition votes_recorded :: "(u64 \<times> u64 \<times> u64) list \<Rightarrow> u64 \<Rightarrow> ('s, 'm) raft_core \<Rightarrow> bool" where
  "votes_recorded g q c \<longleftrightarrow>
     (\<forall>t cand. (t, q, cand) \<in> set g \<longrightarrow>
        t < current_term c \<or> t = current_term c \<and> voted_for c = Some cand)"

definition one_vote :: "(u64 \<times> u64 \<times> u64) list \<Rightarrow> bool" where
  "one_vote g \<longleftrightarrow> (\<forall>t q a b. (t, q, a) \<in> set g \<longrightarrow> (t, q, b) \<in> set g \<longrightarrow> a = b)"

definition candidate_ok :: "u64 set \<Rightarrow> ('s, 'm) cluster \<Rightarrow> u64 \<Rightarrow> bool" where
  "candidate_ok U cl p \<longleftrightarrow>
     (let c = nodes cl p
      in role c = Candidate \<longrightarrow>
           distinct (votes_received c) \<and>
           (\<forall>q \<in> set (votes_received c). q \<in> U \<and> (current_term c, q, p) \<in> set (granted cl)) \<and>
           (\<forall>t. asked cl p = Some t \<longrightarrow> t = current_term c))"

definition replies_ok :: "u64 set \<Rightarrow> ('s, 'm) cluster \<Rightarrow> u64 \<Rightarrow> bool" where
  "replies_ok U cl p \<longleftrightarrow>
     (\<forall>(q, r) \<in> set (vote_replies cl p).
        \<exists>t. asked cl p = Some t \<and> q \<in> U \<and> (vote_granted r \<longrightarrow> (t, q, p) \<in> set (granted cl)))"

definition quorum_for :: "u64 set \<Rightarrow> (u64 \<times> u64 \<times> u64) list \<Rightarrow> u64 \<Rightarrow> u64 \<Rightarrow> bool" where
  "quorum_for U g t p \<longleftrightarrow>
     (\<exists>Q \<subseteq> U. card U div 2 + 1 \<le> card Q \<and> (\<forall>q \<in> Q. (t, q, p) \<in> set g))"

definition cluster_inv :: "u64 set \<Rightarrow> ('s, 'm) cluster \<Rightarrow> bool" where
  "cluster_inv U cl \<longleftrightarrow>
     (\<forall>p \<in> U. configured U p (nodes cl p) \<and> votes_recorded (granted cl) p (nodes cl p) \<and>
        candidate_ok U cl p \<and> replies_ok U cl p \<and>
        (role (nodes cl p) = Leader \<longrightarrow> (current_term (nodes cl p), p) \<in> set (led cl))) \<and>
     one_vote (granted cl) \<and> (\<forall>(t, p) \<in> set (led cl). quorum_for U (granted cl) t p)"

text \<open>The events concern nodes of the cluster only.\<close>

fun event_in :: "u64 set \<Rightarrow> 'm cluster_event \<Rightarrow> bool" where
  "event_in U (Elect p now) = (p \<in> U)"
| "event_in U (Ask p) = (p \<in> U)"
| "event_in U (Answer q req) = (q \<in> U)"
| "event_in U (Count p now q r) = (p \<in> U)"
| "event_in U (Local p ev) = (p \<in> U)"
| "event_in U (AdoptTerm p t) = (p \<in> U)"
| "event_in U (Restart p now m) = (p \<in> U)"

section \<open>Two quorums share a voter\<close>

lemma quorums_meet:
  assumes "finite U" "A \<subseteq> U" "B \<subseteq> U" "card U div 2 + 1 \<le> card A" "card U div 2 + 1 \<le> card B"
  shows "A \<inter> B \<noteq> {}"
proof
  assume "A \<inter> B = {}"
  then have "card A + card B = card (A \<union> B)"
    using assms(1-3) by (metis card_Un_disjoint finite_subset)
  also have "\<dots> \<le> card U" using assms(1-3) by (intro card_mono) simp_all
  finally show False using assms(4,5) by simp
qed

lemma leader_unique:
  assumes "finite U" "one_vote g" "quorum_for U g t p" "quorum_for U g t p'"
  shows "p = p'"
proof -
  obtain A where A: "A \<subseteq> U" "card U div 2 + 1 \<le> card A" "\<forall>q \<in> A. (t, q, p) \<in> set g"
    using assms(3) by (auto simp: quorum_for_def)
  obtain B where B: "B \<subseteq> U" "card U div 2 + 1 \<le> card B" "\<forall>q \<in> B. (t, q, p') \<in> set g"
    using assms(4) by (auto simp: quorum_for_def)
  obtain q where "q \<in> A" "q \<in> B" using quorums_meet [OF assms(1) A(1) B(1) A(2) B(2)] by blast
  with A(3) B(3) assms(2) show ?thesis unfolding one_vote_def by blast
qed

section \<open>One node changes\<close>

lemma votes_recorded_order:
  assumes "votes_recorded g q c" "vote_order c c'"
  shows "votes_recorded g q c'"
  using assms unfolding votes_recorded_def vote_order_def by (fastforce intro: order_less_trans)

text \<open>A node that moves forward and records the vote it holds votes at most once in a term.\<close>

lemma one_vote_extend:
  assumes one: "one_vote g" and rec: "votes_recorded g p c" and ord: "vote_order c c'"
    and new: "\<And>t q a. (t, q, a) \<in> set g' \<Longrightarrow> (t, q, a) \<in> set g \<or> t = current_term c' \<and> q = p \<and> voted_for c' = Some a"
  shows "one_vote g'"
  unfolding one_vote_def
proof (intro allI impI)
  fix t q a b assume ab: "(t, q, a) \<in> set g'" "(t, q, b) \<in> set g'"
  have rec': "votes_recorded g p c'" using rec ord by (rule votes_recorded_order)
  have old: "x = y" if "(t, q, x) \<in> set g" "(t, q, y) \<in> set g" for x y
    using one that unfolding one_vote_def by blast
  have mixed: "x = y" if "(t, q, x) \<in> set g" "t = current_term c'" "q = p" "voted_for c' = Some y" for x y
    using rec' that unfolding votes_recorded_def by fastforce
  from new [OF ab(1)] new [OF ab(2)] show "a = b" using old mixed by fastforce
qed

lemma quorum_for_mono: "quorum_for U g t p \<Longrightarrow> set g \<subseteq> set g' \<Longrightarrow> quorum_for U g' t p"
  unfolding quorum_for_def by blast

lemma inv_step:
  assumes inv: "cluster_inv U cl" and p: "p \<in> U"
    and nodes: "nodes cl' = (nodes cl)(p := c')"
    and mono: "set (granted cl) \<subseteq> set (granted cl')"
    and new: "\<And>t q a. (t, q, a) \<in> set (granted cl') \<Longrightarrow>
       (t, q, a) \<in> set (granted cl) \<or> t = current_term c' \<and> q = p \<and> voted_for c' = Some a"
    and conf: "configured U p c'" and ord: "vote_order (nodes cl p) c'"
    and cand: "candidate_ok U cl' p" and replies: "\<forall>q \<in> U. replies_ok U cl' q"
    and asked: "\<forall>q. q \<noteq> p \<longrightarrow> asked cl' q = asked cl q"
    and leader: "role c' = Leader \<longrightarrow> (current_term c', p) \<in> set (led cl')"
    and led: "set (led cl) \<subseteq> set (led cl')"
      "\<And>t q. (t, q) \<in> set (led cl') \<Longrightarrow> (t, q) \<in> set (led cl) \<or> quorum_for U (granted cl') t q"
  shows "cluster_inv U cl'"
proof -
  note i = inv [unfolded cluster_inv_def]
  have rec: "votes_recorded (granted cl) p (nodes cl p)" using i p by blast
  have node: "nodes cl' q = nodes cl q" if "q \<noteq> p" for q using nodes that by simp
  have "configured U q (nodes cl' q) \<and> votes_recorded (granted cl') q (nodes cl' q) \<and>
        candidate_ok U cl' q \<and> (role (nodes cl' q) = Leader \<longrightarrow> (current_term (nodes cl' q), q) \<in> set (led cl'))"
    if q: "q \<in> U" for q
  proof (cases "q = p")
    case True
    have "votes_recorded (granted cl') p c'"
      using votes_recorded_order [OF rec ord] new unfolding votes_recorded_def by blast
    with True conf cand leader nodes show ?thesis by simp
  next
    case False
    have "configured U q (nodes cl q) \<and> votes_recorded (granted cl) q (nodes cl q) \<and> candidate_ok U cl q \<and>
        (role (nodes cl q) = Leader \<longrightarrow> (current_term (nodes cl q), q) \<in> set (led cl))"
      using i q by blast
    moreover from this have "votes_recorded (granted cl') q (nodes cl q)"
      using new False unfolding votes_recorded_def by blast
    moreover have "candidate_ok U cl' q"
      using calculation(1) mono node [OF False] asked False unfolding candidate_ok_def Let_def by auto
    ultimately show ?thesis using node [OF False] led(1) by auto
  qed
  moreover have "one_vote (granted cl')"
    by (rule one_vote_extend [OF _ rec ord new]) (use i in blast)
  moreover have "quorum_for U (granted cl') t q" if "(t, q) \<in> set (led cl')" for t q
    using led(2) [OF that] i quorum_for_mono [OF _ mono] by blast
  ultimately show ?thesis using replies unfolding cluster_inv_def by blast
qed

text \<open>A step that changes nothing but the core of one node, and leads to no new role.\<close>

definition quiet :: "('s, 'm) raft_core \<Rightarrow> ('s, 'm) raft_core \<Rightarrow> bool" where
  "quiet c c' \<longleftrightarrow>
     node_id c' = node_id c \<and> peers c' = peers c \<and> votes_received c' = votes_received c \<and>
     (role c' = role c \<and> current_term c' = current_term c \<or> role c' = Follower)"

lemma quiet_trans: "quiet a b \<Longrightarrow> quiet b c \<Longrightarrow> quiet a c"
  by (auto simp: quiet_def)

lemma rpc_frame_quiet: "rpc_frame c c' \<Longrightarrow> quiet c c'"
  by (simp add: rpc_frame_def quiet_def)

lemma same_vote_quiet: "same_vote c c' \<Longrightarrow> quiet c c'"
  by (simp add: same_vote_def quiet_def)

lemma quiet_configured: "configured U p c \<Longrightarrow> quiet c c' \<Longrightarrow> configured U p c'"
  by (simp add: configured_def quiet_def)

lemma quiet_candidate:
  assumes "candidate_ok U cl p" "quiet (nodes cl p) (nodes cl' p)" "set (granted cl) \<subseteq> set (granted cl')"
    "asked cl' p = asked cl p"
  shows "candidate_ok U cl' p"
  using assms unfolding candidate_ok_def quiet_def Let_def by auto

lemma inv_quiet:
  assumes inv: "cluster_inv U cl" and p: "p \<in> U" and q: "quiet (nodes cl p) c'" and ord: "vote_order (nodes cl p) c'"
  shows "cluster_inv U (put_node p c' cl)"
proof (rule inv_step [OF inv p])
  note i = inv [unfolded cluster_inv_def]
  show "nodes (put_node p c' cl) = (nodes cl)(p := c')" by (simp add: put_node_def)
  show "candidate_ok U (put_node p c' cl) p"
    by (rule quiet_candidate [of U cl]) (use i p q in \<open>auto simp: put_node_def\<close>)
  show "configured U p c'" using i p q by (blast intro: quiet_configured)
  show "role c' = Leader \<longrightarrow> (current_term c', p) \<in> set (led (put_node p c' cl))"
    using i p q by (fastforce simp: quiet_def put_node_def)
  show "\<forall>q \<in> U. replies_ok U (put_node p c' cl) q"
    using i by (fastforce simp: put_node_def replies_ok_def)
qed (use ord in \<open>simp_all add: put_node_def\<close>)

lemma handle_append_entries_result_quiet:
  assumes "handle_append_entries_result S M p i r c = Some (out, c')"
  shows "quiet c c'"
proof -
  obtain d where "observe_term S (aer_term r) c = Some d" "same_vote d c'"
    using assms by (rule handle_append_entries_result_vote)
  then show ?thesis by (meson observe_term_frame rpc_frame_quiet same_vote_quiet quiet_trans)
qed

lemma local_quiet: "is_local ev \<Longrightarrow> core_step S M ev c = Some c' \<Longrightarrow> quiet c c'"
proof (cases ev)
  case (ClientAppend cmd)
  assume "core_step S M ev c = Some c'"
  with ClientAppend show ?thesis
    by (auto simp: append_log_entry_Some Let_def quiet_def split: if_split_asm)
next
  case ApplyCommitted
  assume "core_step S M ev c = Some c'"
  with ApplyCommitted show ?thesis by (auto intro: same_vote_quiet apply_committed_same_vote)
next
  case TakeSnapshot
  assume "core_step S M ev c = Some c'"
  with TakeSnapshot take_snapshot_same_vote [of c S M] show ?thesis by (auto intro: same_vote_quiet)
qed (auto dest: handle_append_entries_frame handle_install_snapshot_frame handle_append_entries_result_quiet
       intro: rpc_frame_quiet)

lemma local_order:
  assumes "is_local ev" "core_step S M ev c = Some c'"
  shows "vote_order c c'"
proof (rule core_step_order [OF assms(2)])
  show "no_term_overflow ev c" using assms(1) by (cases ev) (simp_all add: no_term_overflow_def)
qed

section \<open>Each step keeps the invariant\<close>

lemma cluster_invD:
  assumes "cluster_inv U cl" "p \<in> U"
  shows "configured U p (nodes cl p)" "votes_recorded (granted cl) p (nodes cl p)" "candidate_ok U cl p"
    "replies_ok U cl p" "role (nodes cl p) = Leader \<Longrightarrow> (current_term (nodes cl p), p) \<in> set (led cl)"
  using assms unfolding cluster_inv_def by blast+

lemma elect_inv:
  assumes inv: "cluster_inv U cl" and p: "p \<in> U" and s: "cluster_step S M (Elect p now) cl = Some cl'"
  shows "cluster_inv U cl'"
proof -
  from s obtain c where c: "start_election S now (nodes cl p) = Some c"
    and nm: "current_term (nodes cl p) \<noteq> -1"
    and cl': "cl' = (put_node p c cl)\<lparr>asked := (asked cl)(p := None), vote_replies := (vote_replies cl)(p := []),
                granted := (current_term c, p, p) # granted cl\<rparr>"
    by (auto simp: bind_eq_Some_conv split: if_split_asm)
  have n: "node_id (nodes cl p) = p" using cluster_invD(1) [OF inv p] by (simp add: configured_def)
  have f: "voted_for c = Some p" "role c = Candidate" "votes_received c = [p]" "node_id c = p"
    "peers c = peers (nodes cl p)"
    using c n by (auto simp: start_election_Some)
  show ?thesis
  proof (rule inv_step [OF inv p])
    show "nodes cl' = (nodes cl)(p := c)" by (simp add: cl' put_node_def)
    show "vote_order (nodes cl p) c" using c nm by (rule start_election_order)
    show "configured U p c" using cluster_invD(1) [OF inv p] f by (simp add: configured_def)
    show "candidate_ok U cl' p" using f p by (simp add: candidate_ok_def cl' put_node_def)
    show "\<forall>q \<in> U. replies_ok U cl' q"
      using cluster_invD(4) [OF inv] by (fastforce simp: replies_ok_def cl' put_node_def)
  qed (use f in \<open>auto simp: cl' put_node_def\<close>)
qed

lemma ask_inv:
  assumes inv: "cluster_inv U cl" and p: "p \<in> U" and s: "cluster_step S M (Ask p) cl = Some cl'"
  shows "cluster_inv U cl'"
proof (rule inv_step [OF inv p])
  have cl': "cl' = cl\<lparr>vote_requests := vote_request (nodes cl p) # vote_requests cl,
              asked := (asked cl)(p := Some (current_term (nodes cl p))),
              vote_replies := (vote_replies cl)(p := [])\<rparr>"
    using s by simp
  show "nodes cl' = (nodes cl)(p := nodes cl p)" by (simp add: cl')
  show "candidate_ok U cl' p"
    using cluster_invD(3) [OF inv p] by (simp add: candidate_ok_def cl' Let_def)
  show "\<forall>q \<in> U. replies_ok U cl' q"
    using cluster_invD(4) [OF inv] by (fastforce simp: replies_ok_def cl')
  show "configured U p (nodes cl p)" by (rule cluster_invD(1) [OF inv p])
qed (use s cluster_invD(5) [OF inv p] in auto)

lemma handle_request_vote_granted:
  assumes "handle_request_vote S req c = Some (res, c')" "vote_granted res"
  shows "current_term c' = rv_term req \<and> voted_for c' = Some (rv_candidate_id req)"
proof -
  have ge: "\<not> rv_term req < current_term c" using assms by (auto simp: handle_request_vote_unfold)
  then obtain d where d: "observe_term S (rv_term req) c = Some d"
    and "\<exists>s. c' = d\<lparr>voted_for := Some (rv_candidate_id req), storage := s\<rparr>"
    using assms unfolding handle_request_vote_unfold
    by (auto simp: bind_eq_Some_conv set_voted_for_Some split: if_split_asm)
  then show ?thesis using observe_term_max [OF d] ge by (auto simp: max_def)
qed

lemma answer_inv:
  assumes inv: "cluster_inv U cl" and q: "q \<in> U" and s: "cluster_step S M (Answer q req) cl = Some cl'"
  shows "cluster_inv U cl'"
proof -
  let ?p = "rv_candidate_id req"
  from s obtain res c where c: "handle_request_vote S req (nodes cl q) = Some (res, c)"
    and cl': "cl' = (put_node q c cl)
          \<lparr>granted := (if vote_granted res then (rv_term req, q, ?p) # granted cl else granted cl),
           vote_replies := (if asked cl ?p = Some (rv_term req)
                            then (vote_replies cl)(?p := (q, res) # vote_replies cl ?p)
                            else vote_replies cl)\<rparr>"
    by (auto simp: bind_eq_Some_conv Let_def split: if_split_asm)
  have quiet: "quiet (nodes cl q) c" using handle_request_vote_frame [OF c] by (rule rpc_frame_quiet)
  show ?thesis
  proof (rule inv_step [OF inv q])
    show "nodes cl' = (nodes cl)(q := c)" by (simp add: cl' put_node_def)
    show "vote_order (nodes cl q) c" using c by (rule handle_request_vote_order)
    show "configured U q c" using cluster_invD(1) [OF inv q] quiet by (rule quiet_configured)
    show "candidate_ok U cl' q"
      by (rule quiet_candidate [OF cluster_invD(3) [OF inv q]]) (use quiet in \<open>auto simp: cl' put_node_def\<close>)
    show "(t, r, a) \<in> set (granted cl) \<or> t = current_term c \<and> r = q \<and> voted_for c = Some a"
      if "(t, r, a) \<in> set (granted cl')" for t r a
      using that handle_request_vote_granted [OF c] by (auto simp: cl' split: if_splits)
    show "\<forall>r \<in> U. replies_ok U cl' r"
      using cluster_invD(4) [OF inv] q by (fastforce simp: replies_ok_def cl' put_node_def)
    show "role c = Leader \<longrightarrow> (current_term c, q) \<in> set (led cl')"
      using quiet cluster_invD(5) [OF inv q] by (auto simp: quiet_def cl' put_node_def)
  qed (auto simp: cl' put_node_def)
qed


lemma configured_majority:
  assumes "configured U p c" "p \<in> U"
  shows "finite U" "majority c = card U div 2 + 1"
proof -
  have "U = insert p (set (peers c))" using assms by (auto simp: configured_def)
  moreover from this show "finite U" by (metis List.finite_set finite_insert)
  moreover have "p \<notin> set (peers c)" using assms(1) by (simp add: configured_def)
  ultimately have "card U = total_nodes c"
    using assms(1) by (simp add: total_nodes_def configured_def distinct_card)
  then show "majority c = card U div 2 + 1" by (simp add: majority_def)
qed

lemma count_inv:
  assumes inv: "cluster_inv U cl" and p: "p \<in> U" and s: "cluster_step S M (Count p now q r) cl = Some cl'"
  shows "cluster_inv U cl'"
proof -
  from s obtain won c where qr: "(q, r) \<in> set (vote_replies cl p)"
    and c: "handle_request_vote_result S now q r (nodes cl p) = Some (won, c)"
    and cl': "cl' = (put_node p c cl)\<lparr>led := (if won then (current_term c, p) # led cl else led cl)\<rparr>"
    by (auto simp: bind_eq_Some_conv split: if_split_asm)
  obtain d where d: "observe_term S (rvr_term r) (nodes cl p) = Some d"
    and f: "node_id c = node_id d" "peers c = peers d" "current_term c = current_term d" "voted_for c = voted_for d"
    and e: "if role d \<noteq> Candidate then \<not> won \<and> c = d
     else votes_received c = votes_received (count_vote q r d) \<and>
       (if won then role c = Leader \<and> majority d \<le> length (votes_received c) else c = count_vote q r d)"
    using c by (rule handle_request_vote_result_parts)
  note old = cluster_invD [OF inv p]
  have qd: "quiet (nodes cl p) d" using observe_term_frame [OF d] by (rule rpc_frame_quiet)
  have conf: "configured U p d" using old(1) qd by (rule quiet_configured)
  then have conf': "configured U p c" using f by (simp add: configured_def)
  have ord: "vote_order (nodes cl p) c" using observe_term_order [OF d] f by (simp add: vote_order_def)
  have votes: "distinct (votes_received c) \<and>
      (\<forall>v \<in> set (votes_received c). v \<in> U \<and> (current_term c, v, p) \<in> set (granted cl)) \<and>
      (\<forall>t. asked cl p = Some t \<longrightarrow> t = current_term c)" if cand: "role d = Candidate"
  proof -
    have same: "role (nodes cl p) = Candidate" "current_term d = current_term (nodes cl p)"
      "votes_received d = votes_received (nodes cl p)"
      using qd cand by (auto simp: quiet_def)
    note ok = old(3) [unfolded candidate_ok_def Let_def, rule_format, OF same(1)]
    obtain t where t: "asked cl p = Some t" "q \<in> U" "vote_granted r \<longrightarrow> (t, q, p) \<in> set (granted cl)"
      using old(4) qr by (fastforce simp: replies_ok_def)
    have "votes_received c = votes_received (count_vote q r d)" using e cand by simp
    with ok t same f(3) show ?thesis by (auto simp: count_vote_def)
  qed
  show ?thesis
  proof (rule inv_step [OF inv p])
    show "nodes cl' = (nodes cl)(p := c)" by (simp add: cl' put_node_def)
    show "configured U p c" by (rule conf')
    show "vote_order (nodes cl p) c" by (rule ord)
    show "candidate_ok U cl' p"
    proof -
      have "role c = Candidate \<Longrightarrow> role d = Candidate" using e by (cases "role d = Candidate") simp_all
      with votes have "role c = Candidate \<longrightarrow> distinct (votes_received c) \<and>
          (\<forall>v \<in> set (votes_received c). v \<in> U \<and> (current_term c, v, p) \<in> set (granted cl)) \<and>
          (\<forall>t. asked cl p = Some t \<longrightarrow> t = current_term c)" by blast
      then show ?thesis by (simp add: candidate_ok_def cl' put_node_def Let_def)
    qed
    show "\<forall>q \<in> U. replies_ok U cl' q"
      using cluster_invD(4) [OF inv] by (simp add: replies_ok_def cl' put_node_def)
    show "role c = Leader \<longrightarrow> (current_term c, p) \<in> set (led cl')"
      using e qd old(5) f(3) by (auto simp: cl' put_node_def quiet_def count_vote_def split: if_splits)
    show "(t, v) \<in> set (led cl) \<or> quorum_for U (granted cl') t v" if "(t, v) \<in> set (led cl')" for t v
    proof (cases "(t, v) \<in> set (led cl)")
      case False
      with that have won: "won" "t = current_term c" "v = p" by (auto simp: cl' put_node_def split: if_splits)
      then have cand: "role d = Candidate" using e by (cases "role d = Candidate") simp_all
      have "majority d \<le> length (votes_received c)" using e cand won(1) by auto
      moreover have "card (set (votes_received c)) = length (votes_received c)"
        using votes [OF cand] distinct_card by blast
      ultimately have "card U div 2 + 1 \<le> card (set (votes_received c))"
        using configured_majority(2) [OF conf p] by simp
      then have "quorum_for U (granted cl) t p"
        using votes [OF cand] won unfolding quorum_for_def by (intro exI [of _ "set (votes_received c)"]) auto
      then show ?thesis using won by (simp add: cl' put_node_def)
    qed simp
  qed (auto simp: cl' put_node_def)
qed

lemma restart_inv:
  assumes inv: "cluster_inv U cl" and p: "p \<in> U" and s: "cluster_step S M (Restart p now m) cl = Some cl'"
  shows "cluster_inv U cl'"
proof -
  let ?c = "nodes cl p"
  from s obtain d where d: "raft_core_new S M now (node_id ?c) (peers ?c) (storage ?c) m = Some d"
    and disk: "load_term S (storage ?c) = Ok (current_term ?c)" "load_voted_for S (storage ?c) = Ok (voted_for ?c)"
    and cl': "cl' = (put_node p d cl)\<lparr>asked := (asked cl)(p := None), vote_replies := (vote_replies cl)(p := [])\<rparr>"
    by (auto simp: Let_def bind_eq_Some_conv split: if_split_asm)
  have f: "current_term d = current_term ?c" "voted_for d = voted_for ?c" "role d = Follower"
    "node_id d = node_id ?c" "peers d = peers ?c"
    using d disk by (auto simp: raft_core_new_def bind_eq_Some_conv)
  show ?thesis
  proof (rule inv_step [OF inv p])
    show "nodes cl' = (nodes cl)(p := d)" by (simp add: cl' put_node_def)
    show "configured U p d" using cluster_invD(1) [OF inv p] f by (simp add: configured_def)
    show "vote_order ?c d" using f by (simp add: vote_order_def)
    show "candidate_ok U cl' p" using f by (simp add: candidate_ok_def cl' put_node_def)
    show "\<forall>q \<in> U. replies_ok U cl' q"
      using cluster_invD(4) [OF inv] by (fastforce simp: replies_ok_def cl' put_node_def)
  qed (use f in \<open>auto simp: cl' put_node_def\<close>)
qed

theorem cluster_step_inv:
  assumes inv: "cluster_inv U cl" and ev: "event_in U ev" and s: "cluster_step S M ev cl = Some cl'"
  shows "cluster_inv U cl'"
proof (cases ev)
  case (Local p e)
  with s obtain c where c: "is_local e" "core_step S M e (nodes cl p) = Some c" "cl' = put_node p c cl"
    by (auto simp: bind_eq_Some_conv split: if_split_asm)
  with inv_quiet [OF inv _ local_quiet [OF c(1,2)] local_order [OF c(1,2)]] ev Local show ?thesis by simp
next
  case (AdoptTerm p t)
  with s have lt: "current_term (nodes cl p) < t" and cl': "cl' = put_node p (adopt_term_in_memory t (nodes cl p)) cl"
    by (auto split: if_split_asm)
  have "quiet (nodes cl p) (adopt_term_in_memory t (nodes cl p))"
    "vote_order (nodes cl p) (adopt_term_in_memory t (nodes cl p))"
    using lt by (simp_all add: quiet_def vote_order_def adopt_term_in_memory_def)
  with inv_quiet [OF inv] ev AdoptTerm cl' show ?thesis by simp
qed (use assms elect_inv ask_inv answer_inv count_inv restart_inv in fastforce)+

lemma cluster_run_inv:
  "cluster_inv U cl \<Longrightarrow> \<forall>ev \<in> set evs. event_in U ev \<Longrightarrow> cluster_run S M evs cl = Some cl' \<Longrightarrow> cluster_inv U cl'"
proof (induction evs arbitrary: cl)
  case (Cons ev evs)
  then show ?case by (auto simp: bind_eq_Some_conv dest: cluster_step_inv)
qed simp

lemma initial_inv:
  assumes "\<forall>p \<in> U. configured U p (f p) \<and> role (f p) = Follower"
  shows "cluster_inv U (initial_cluster f)"
  using assms
  by (simp add: cluster_inv_def initial_cluster_def votes_recorded_def candidate_ok_def replies_ok_def one_vote_def)

lemma inv_one_leader:
  assumes "cluster_inv U cl" "(t, p) \<in> set (led cl)" "(t, q) \<in> set (led cl)" "finite U"
  shows "p = q"
proof -
  have "quorum_for U (granted cl) t p" "quorum_for U (granted cl) t q" "one_vote (granted cl)"
    using assms(1-3) unfolding cluster_inv_def by blast+
  then show ?thesis using assms(4) by (blast intro: leader_unique)
qed

end
