(* ===== verification/Key_Value.thy ===== *)
theory Key_Value
  imports Raft_Types Rust_Strings
begin

text \<open>
  The state machines, \<open>src/state_machine\<close>: the key-value store that the server runs (kv.rs) and
  the recording state machine of the tests (traits.rs). Commands are strings; \<open>apply\<close> and
  \<open>validate\<close> split them with \<open>splitn(3, ' ')\<close>. The JSON text of a snapshot is made by the
  library serde\_json, which is not part of the repository: it is the parameter \<open>J\<close>, and the
  statements that need it assume that what was serialised deserialises to the same data.
\<close>

section \<open>The serialisation parameter\<close>

record 'a json =
  to_vec :: "'a \<Rightarrow> (byte list, string) result"
  from_slice :: "byte list \<Rightarrow> ('a, string) result"

section \<open>kv.rs\<close>

record kv_store =
  kv_data :: "(string, string) hashmap"

definition kv_new :: kv_store where
  "kv_new = \<lparr>kv_data = []\<rparr>"

definition kv_get :: "kv_store \<Rightarrow> string \<Rightarrow> string option" where
  "kv_get m k = hm_get (kv_data m) k"

definition kv_all :: "kv_store \<Rightarrow> (string, string) hashmap" where
  "kv_all m = kv_data m"

definition kv_validate :: "kv_store \<Rightarrow> string \<Rightarrow> (unit, string) result" where
  "kv_validate m command =
     (if command = NOOP_COMMAND then Ok ()
      else case splitn 3 CHR '' '' command of
             [a, _, _] \<Rightarrow> if a = ''SET'' then Ok () else Err (''unknown command: '' @ command)
           | [a, _] \<Rightarrow> if a = ''DELETE'' then Ok () else Err (''unknown command: '' @ command)
           | _ \<Rightarrow> Err (''unknown command: '' @ command))"

definition kv_apply :: "kv_store \<Rightarrow> string \<Rightarrow> kv_store \<times> apply_result" where
  "kv_apply m command =
     (if command = NOOP_COMMAND then (m, Ok '''')
      else case splitn 3 CHR '' '' command of
             [a, k, v] \<Rightarrow>
               if a = ''SET'' then (m\<lparr>kv_data := hm_insert k v (kv_data m)\<rparr>, Ok '''')
               else (m, Err (''unknown command: '' @ command))
           | [a, k] \<Rightarrow>
               if a = ''DELETE''
               then (m\<lparr>kv_data := hm_remove k (kv_data m)\<rparr>,
                     if hm_get (kv_data m) k \<noteq> None then Ok '''' else Err ''NOT_FOUND'')
               else (m, Err (''unknown command: '' @ command))
           | _ \<Rightarrow> (m, Err (''unknown command: '' @ command)))"

definition kv_snapshot :: "(string, string) hashmap json \<Rightarrow> kv_store \<Rightarrow> (byte list, string) result" where
  "kv_snapshot J m =
     (case to_vec J (kv_data m) of
        Ok d \<Rightarrow> Ok d
      | Err e \<Rightarrow> Err (''snapshot serialization failed: '' @ e))"

definition kv_restore ::
  "(string, string) hashmap json \<Rightarrow> kv_store \<Rightarrow> byte list \<Rightarrow> (kv_store, string) result" where
  "kv_restore J m d =
     (case from_slice J d of
        Ok restored \<Rightarrow> Ok (m\<lparr>kv_data := restored\<rparr>)
      | Err e \<Rightarrow> Err (''snapshot deserialization failed: '' @ e))"

text \<open>The method table of \<open>SharedKvStore\<close>: every method locks the store and delegates.\<close>

definition kv_ops :: "(string, string) hashmap json \<Rightarrow> kv_store sm_ops" where
  "kv_ops J = \<lparr>sm_validate = kv_validate, sm_apply = kv_apply,
               sm_snapshot = kv_snapshot J, sm_restore = kv_restore J\<rparr>"

section \<open>traits.rs: the recording state machine\<close>

record test_sm =
  applied :: "string list"

definition tsm_new :: test_sm where
  "tsm_new = \<lparr>applied = []\<rparr>"

definition tsm_new_shared :: "string list \<Rightarrow> test_sm" where
  "tsm_new_shared xs = \<lparr>applied = xs\<rparr>"

definition tsm_validate :: "test_sm \<Rightarrow> string \<Rightarrow> (unit, string) result" where
  "tsm_validate m command = Ok ()"

definition tsm_apply :: "test_sm \<Rightarrow> string \<Rightarrow> test_sm \<times> apply_result" where
  "tsm_apply m command = (m\<lparr>applied := applied m @ [command]\<rparr>, Ok '''')"

definition tsm_snapshot :: "string list json \<Rightarrow> test_sm \<Rightarrow> (byte list, string) result" where
  "tsm_snapshot J m =
     (case to_vec J (applied m) of
        Ok d \<Rightarrow> Ok d
      | Err e \<Rightarrow> Err (''test state machine snapshot failed: '' @ e))"

definition tsm_restore :: "string list json \<Rightarrow> test_sm \<Rightarrow> byte list \<Rightarrow> (test_sm, string) result" where
  "tsm_restore J m d =
     (case from_slice J d of
        Ok xs \<Rightarrow> Ok (m\<lparr>applied := xs\<rparr>)
      | Err e \<Rightarrow> Err (''test state machine restore failed: '' @ e))"

definition tsm_ops :: "string list json \<Rightarrow> test_sm sm_ops" where
  "tsm_ops J = \<lparr>sm_validate = tsm_validate, sm_apply = tsm_apply,
                sm_snapshot = tsm_snapshot J, sm_restore = tsm_restore J\<rparr>"

section \<open>Commands\<close>

lemma kv_split_two:
  assumes "CHR '' '' \<notin> set a" "CHR '' '' \<notin> set k"
  shows "splitn 3 CHR '' '' (a @ CHR '' '' # k) = [a, k]"
    "splitn 3 CHR '' '' (a @ CHR '' '' # k @ CHR '' '' # v) = [a, k, v]"
  using splitn_sep [OF assms(1), of 1 k] splitn_sep [OF assms(1), of 1 "k @ CHR '' '' # v"]
    splitn_sep [OF assms(2), of 0 v] splitn_no_sep [OF assms(2), of 1]
  by (simp_all add: numeral_3_eq_3 numeral_2_eq_2)

lemma kv_apply_set:
  assumes "CHR '' '' \<notin> set k"
  shows "kv_apply m (''SET '' @ k @ '' '' @ v) = (m\<lparr>kv_data := hm_insert k v (kv_data m)\<rparr>, Ok '''')"
  using kv_split_two(2) [of "''SET''" k v] assms by (simp add: kv_apply_def NOOP_COMMAND_def)

lemma kv_apply_delete:
  assumes "CHR '' '' \<notin> set k"
  shows "kv_apply m (''DELETE '' @ k) =
    (m\<lparr>kv_data := hm_remove k (kv_data m)\<rparr>, if kv_get m k = None then Err ''NOT_FOUND'' else Ok '''')"
  using kv_split_two(1) [of "''DELETE''" k] assms by (simp add: kv_apply_def NOOP_COMMAND_def kv_get_def)

lemma kv_get_after:
  "kv_get (m\<lparr>kv_data := hm_insert k v (kv_data m)\<rparr>) k' = (if k' = k then Some v else kv_get m k')"
  "kv_get (m\<lparr>kv_data := hm_remove k (kv_data m)\<rparr>) k' = (if k' = k then None else kv_get m k')"
  by (simp_all add: kv_get_def hm_get_insert hm_get_remove)

text \<open>The commands that \<open>validate\<close> accepts are those that \<open>apply\<close> knows.\<close>

lemma kv_validate_apply:
  "kv_validate m c = Ok () \<longleftrightarrow> snd (kv_apply m c) \<noteq> Err (''unknown command: '' @ c)"
  by (auto simp: kv_validate_def kv_apply_def split: list.splits)

lemma kv_apply_unknown: "kv_validate m c \<noteq> Ok () \<Longrightarrow> fst (kv_apply m c) = m"
  by (auto simp: kv_validate_def kv_apply_def split: list.splits if_splits)

section \<open>Replicas\<close>

text \<open>Two stores hold the same data when every key has the same value, whatever the order of the map.\<close>

definition kv_same :: "kv_store \<Rightarrow> kv_store \<Rightarrow> bool" where
  "kv_same a b \<longleftrightarrow> map_of (kv_data a) = map_of (kv_data b)"

lemma kv_same_get: "kv_same a b \<Longrightarrow> kv_get a k = kv_get b k"
  by (simp add: kv_same_def kv_get_def)

lemma kv_same_insert: "kv_same a b \<Longrightarrow>
    kv_same (a\<lparr>kv_data := hm_insert k v (kv_data a)\<rparr>) (b\<lparr>kv_data := hm_insert k v (kv_data b)\<rparr>)"
  by (simp add: kv_same_def update_conv')

lemma kv_same_remove: "kv_same a b \<Longrightarrow>
    kv_same (a\<lparr>kv_data := hm_remove k (kv_data a)\<rparr>) (b\<lparr>kv_data := hm_remove k (kv_data b)\<rparr>)"
  by (simp add: kv_same_def delete_conv')

lemma kv_apply_same:
  assumes "kv_same a b"
  shows "snd (kv_apply a c) = snd (kv_apply b c) \<and> kv_same (fst (kv_apply a c)) (fst (kv_apply b c))"
  using assms kv_same_insert [OF assms] kv_same_remove [OF assms]
  by (auto simp: kv_apply_def kv_same_def split: list.splits)

section \<open>Snapshots\<close>

text \<open>What the program relies on of serde\_json: a map that was written is read back, in some order.\<close>

definition json_map_ok :: "('k, 'v) hashmap json \<Rightarrow> bool" where
  "json_map_ok J \<longleftrightarrow> (\<forall>x d. to_vec J x = Ok d \<longrightarrow> (\<exists>y. from_slice J d = Ok y \<and> map_of y = map_of x))"

lemma kv_restore_snapshot:
  assumes "json_map_ok J" "kv_snapshot J m = Ok d"
  shows "\<exists>m''. kv_restore J m' d = Ok m'' \<and> kv_same m'' m"
  using assms by (fastforce simp: kv_snapshot_def kv_restore_def json_map_ok_def kv_same_def split: sum.splits)

text \<open>A simple serialisation that meets the assumption: a byte 1 before each character, a byte 0 at the end of a string.\<close>

definition char_byte :: "char \<Rightarrow> byte" where
  "char_byte c = of_nat (of_char c)"

definition byte_char :: "byte \<Rightarrow> char" where
  "byte_char b = char_of (unat b)"

definition write_string :: "string \<Rightarrow> byte list" where
  "write_string s = concat (map (\<lambda>c. [1, char_byte c]) s) @ [0]"

fun read_strings :: "string \<Rightarrow> byte list \<Rightarrow> (string list, string) result" where
  "read_strings acc [] = (if acc = [] then Ok [] else Err ''unexpected end'')"
| "read_strings acc (b # bs) =
     (if b = 0 then (case read_strings [] bs of Ok xs \<Rightarrow> Ok (rev acc # xs) | Err e \<Rightarrow> Err e)
      else case bs of [] \<Rightarrow> Err ''unexpected end'' | c # cs \<Rightarrow> read_strings (byte_char c # acc) cs)"

definition plain_strings :: "string list json" where
  "plain_strings = \<lparr>to_vec = \<lambda>xs. Ok (concat (map write_string xs)), from_slice = read_strings []\<rparr>"

fun pair_up :: "string list \<Rightarrow> (string \<times> string) list" where
  "pair_up (k # v # rest) = (k, v) # pair_up rest"
| "pair_up _ = []"

definition plain_map :: "(string, string) hashmap json" where
  "plain_map = \<lparr>to_vec = \<lambda>m. to_vec plain_strings (concat (map (\<lambda>(k, v). [k, v]) m)),
                from_slice = \<lambda>d. (case from_slice plain_strings d of Ok xs \<Rightarrow> Ok (pair_up xs) | Err e \<Rightarrow> Err e)\<rparr>"

lemma byte_char_inverse [simp]: "byte_char (char_byte c) = c"
proof -
  have "(of_char c :: nat) = of_char c mod 2 ^ 8" by simp
  then have "unat (of_nat (of_char c) :: byte) = of_char c" by (simp add: unat_of_nat)
  then show ?thesis by (simp add: byte_char_def char_byte_def)
qed

lemma read_write_string:
  "read_strings acc (write_string s @ bs) =
     (case read_strings [] bs of Ok xs \<Rightarrow> Ok ((rev acc @ s) # xs) | Err e \<Rightarrow> Err e)"
  by (induction s arbitrary: acc) (simp_all add: write_string_def split: sum.split)

lemma read_write_strings: "read_strings [] (concat (map write_string xs)) = Ok xs"
  by (induction xs) (simp_all add: read_write_string)

lemma pair_up_concat: "pair_up (concat (map (\<lambda>(k, v). [k, v]) m)) = m"
  by (induction m) auto

lemma plain_map_ok: "json_map_ok plain_map"
  by (auto simp: json_map_ok_def plain_map_def plain_strings_def read_write_strings pair_up_concat)

end
