(* ===== verification/Scenarios.thy ===== *)
theory Scenarios
  imports Cluster Memory_Storage Key_Value
begin

text \<open>
  Concrete nodes over the in-memory storage and the recording state machine, small enough to be
  evaluated: the states on which the properties are instantiated and the runs of the findings.
\<close>

type_synonym test_core = "(memory_storage, test_sm) raft_core"

definition test_ops :: "test_sm sm_ops" where
  "test_ops = tsm_ops plain_strings"

definition new_node :: "u64 \<Rightarrow> u64 list \<Rightarrow> test_core" where
  "new_node i ps = the (raft_core_new mem_ops test_ops 0 i ps mem_new tsm_new)"

definition entry :: "u64 \<Rightarrow> u64 \<Rightarrow> string \<Rightarrow> log_entry" where
  "entry t i cmd = \<lparr>le_term = t, le_index = i, le_command = cmd\<rparr>"

definition append_msg :: "u64 \<Rightarrow> u64 \<Rightarrow> u64 \<Rightarrow> u64 \<Rightarrow> log_entry list \<Rightarrow> u64 \<Rightarrow> append_entries_args" where
  "append_msg t l pi pt es lc =
     \<lparr>ae_term = t, ae_leader_id = l, prev_log_index = pi, prev_log_term = pt, ae_entries = es, leader_commit = lc\<rparr>"

definition vote_msg :: "u64 \<Rightarrow> u64 \<Rightarrow> u64 \<Rightarrow> u64 \<Rightarrow> request_vote_args" where
  "vote_msg t p li lt =
     \<lparr>rv_term = t, rv_candidate_id = p, rv_last_log_index = li, rv_last_log_term = lt\<rparr>"

definition vote_yes :: "u64 \<Rightarrow> request_vote_result" where
  "vote_yes t = \<lparr>rvr_term = t, vote_granted = True\<rparr>"

definition append_yes :: "u64 \<Rightarrow> append_entries_result" where
  "append_yes t = \<lparr>aer_term = t, aer_success = True, conflict_term = None, conflict_index = None\<rparr>"

text \<open>A follower of node 1 in term 1 with two entries, the first one committed.\<close>

definition follower_node :: test_core where
  "follower_node = the (core_run mem_ops test_ops
     [AppendEntriesReq 5 (append_msg 1 1 0 0 [entry 1 1 ''a'', entry 1 2 ''b''] 1)] (new_node 2 [1, 3]))"

text \<open>Node 1 of three, leader of term 1 with its no-op at index 1.\<close>

definition leader_node :: test_core where
  "leader_node = the (core_run mem_ops test_ops
     [ElectionStart 10, RequestVoteRes 11 2 (vote_yes 1)] (new_node 1 [2, 3]))"

text \<open>A follower with a snapshot at index 2 and the entries 3 and 4 of term 1 behind it, not committed.\<close>

definition snapshot_node :: test_core where
  "snapshot_node = the (core_run mem_ops test_ops
     [AppendEntriesReq 5 (append_msg 1 1 0 0 [entry 1 1 ''a'', entry 1 2 ''b''] 2), TakeSnapshot,
      AppendEntriesReq 6 (append_msg 1 1 2 1 [entry 1 3 ''c'', entry 1 4 ''d''] 2)] (new_node 2 [1, 3]))"

text \<open>Three new nodes.\<close>

definition three_nodes :: "u64 \<Rightarrow> test_core" where
  "three_nodes p = new_node p (filter (\<lambda>q. q \<noteq> p) [1, 2, 3])"

lemma three_nodes_configured: "\<forall>p \<in> {1, 2, 3}. configured {1, 2, 3} p (three_nodes p) \<and> role (three_nodes p) = Follower"
  by (simp add: configured_def three_nodes_def new_node_def raft_core_new_def mem_new_def mem_defs) auto

lemma mem_storage_total: "storage_total mem_ops"
  by (simp add: storage_total_def mem_defs)

text \<open>The sample nodes are well-formed.\<close>

lemma core_wf_by_fields:
  assumes "unat (snapshot_last_index c) + length (rlog c) + 1 < u64_bound"
    and "map le_index (rlog c) = map (\<lambda>k. snapshot_last_index c + 1 + of_nat k) [0..<length (rlog c)]"
    and "snapshot_last_index c \<le> last_applied c" "last_applied c \<le> commit_index c"
      "unat (commit_index c) \<le> unat (snapshot_last_index c) + length (rlog c)"
  shows "core_wf c"
proof -
  have "unat (le_index (rlog c ! i)) = unat (snapshot_last_index c) + 1 + i" if i: "i < length (rlog c)" for i
  proof -
    have "le_index (rlog c ! i) = snapshot_last_index c + 1 + of_nat i"
      using arg_cong [OF assms(2), of "\<lambda>xs. xs ! i"] i by simp
    moreover have "unat (snapshot_last_index c + 1 + of_nat i) = unat (snapshot_last_index c) + 1 + i"
      using assms(1) i by (simp add: unat_word_ariths unat_of_nat u64_bound_def)
    ultimately show ?thesis by simp
  qed
  then have ok: "log_ok c" using assms(1) by (simp add: log_ok_def log_from_def)
  then show ?thesis
    using assms unat_last_log_index [OF ok] by (simp add: core_wf_def word_le_nat_alt)
qed

lemma follower_fields:
  "rlog follower_node = [entry 1 1 ''a'', entry 1 2 ''b'']" "snapshot_last_index follower_node = 0"
  "last_applied follower_node = 1" "commit_index follower_node = 1" 
  by code_simp+
lemma leader_fields:
  "rlog leader_node = [entry 1 1 ''NOOP'']" "snapshot_last_index leader_node = 0"
  "last_applied leader_node = 0" "commit_index leader_node = 0"  "role leader_node = Leader" "current_term leader_node = 1"
  by code_simp+
lemma snapshot_fields:
  "rlog snapshot_node = [entry 1 3 ''c'', entry 1 4 ''d'']" "snapshot_last_index snapshot_node = 2"
  "last_applied snapshot_node = 2" "commit_index snapshot_node = 2"  
  by code_simp+
lemma u64_bound_gt: "n < 1000 \<Longrightarrow> n < u64_bound" by (simp add: u64_bound_def)
lemma sample_wf [simp]: "core_wf follower_node" "core_wf leader_node" "core_wf snapshot_node"
  by (rule core_wf_by_fields; simp add: follower_fields leader_fields snapshot_fields entry_def u64_bound_gt)+
end
