(* ===== verification/Core_Properties.thy ===== *)
theory Core_Properties
  imports Scenarios
begin

text \<open>
  The properties of the core of a node and of the elections of a cluster, each stated over the
  handlers and proved from the component theories, with a witness on the concrete nodes of
  \<open>Scenarios\<close>.
\<close>

section \<open>Elections\<close>

text \<open>
  C1: election safety. In every run of a cluster in which a node restarts only while its storage holds its
  current term and vote, with any interleaving of messages and log events, at most one node wins the
  election of a term, and every leader has won the election of its term. The condition on restarts is needed:
  \<open>confirm_leadership\<close> and \<open>send_heartbeat\<close> can take over a term without saving it.
\<close>

theorem election_safety:
  assumes "\<forall>p \<in> U. configured U p (f p) \<and> role (f p) = Follower"
    and "\<forall>ev \<in> set evs. event_in U ev" "finite U"
    and "cluster_run S M evs (initial_cluster f) = Some cl"
  shows "(\<forall>p \<in> U. role (nodes cl p) = Leader \<longrightarrow> (current_term (nodes cl p), p) \<in> set (led cl)) \<and>
    (\<forall>t p q. (t, p) \<in> set (led cl) \<longrightarrow> (t, q) \<in> set (led cl) \<longrightarrow> p = q)"
proof -
  have "cluster_inv U cl" using cluster_run_inv [OF initial_inv [OF assms(1)] assms(2,4)] .
  then show ?thesis using inv_one_leader [OF _ _ _ assms(3)] cluster_invD(5) by blast
qed

definition election_run :: "(memory_storage, test_sm) cluster option" where
  "election_run = cluster_run mem_ops test_ops
     [Elect 1 0, Ask 1, Answer 2 (vote_msg 1 1 0 0), Count 1 1 2 (vote_yes 1)] (initial_cluster three_nodes)"

theorem election_safety_witness:
  "\<exists>cl. election_run = Some cl \<and> led cl = [(1, 1)] \<and>
    (\<forall>t p q. (t, p) \<in> set (led cl) \<longrightarrow> (t, q) \<in> set (led cl) \<longrightarrow> p = q)"
proof -
  have run: "map_option led election_run = Some [(1, 1)]" by code_simp
  then obtain cl where cl: "election_run = Some cl" "led cl = [(1, 1)]" by blast
  have "\<forall>t p q. (t, p) \<in> set (led cl) \<longrightarrow> (t, q) \<in> set (led cl) \<longrightarrow> p = q"
    by (rule election_safety [OF three_nodes_configured _ _ cl(1) [unfolded election_run_def], THEN conjunct2])
      simp_all
  with cl show ?thesis by blast
qed











text \<open>A run in which no election starts at the last term, where the next term would wrap around to 0.\<close>

fun elections_below_max ::
  "'s storage_ops \<Rightarrow> 'm sm_ops \<Rightarrow> core_event list \<Rightarrow> ('s, 'm) raft_core \<Rightarrow> bool" where
  "elections_below_max S M [] c = True"
| "elections_below_max S M (ev # evs) c =
     (no_term_overflow ev c \<and>
      (case core_step S M ev c of Some d \<Rightarrow> elections_below_max S M evs d | None \<Rightarrow> True))"

lemma elections_below_max_order:
  "core_run S M evs c = Some c' \<Longrightarrow> elections_below_max S M evs c \<Longrightarrow> vote_order c c'"
proof (induction evs arbitrary: c)
  case (Cons ev evs)
  then obtain d where d: "core_step S M ev c = Some d" "core_run S M evs d = Some c'"
    by (auto simp: bind_eq_Some_conv)
  then have "vote_order c d" "vote_order d c'"
    using Cons.prems(2) Cons.IH [OF d(2)] core_step_order by auto
  then show ?case by (rule vote_order_trans)
qed simp

text \<open>
  C11: the term of a node never decreases, and within a term a vote that was cast is never changed or
  withdrawn, in every run of its handlers, the starts of elections included, as long as no election is
  started at the last term of 64 bits.
\<close>

theorem votes_are_kept:
  assumes "core_run S M evs c = Some c'" "elections_below_max S M evs c"
  shows "current_term c \<le> current_term c' \<and>
    (current_term c' = current_term c \<and> voted_for c \<noteq> None \<longrightarrow> voted_for c' = voted_for c)"
  using elections_below_max_order [OF assms] by (auto simp: vote_order_def)

theorem votes_are_kept_witness:
  "\<exists>c'. core_run mem_ops test_ops [RequestVoteReq (vote_msg 2 3 2 1), ElectionStart 8, RequestVoteReq (vote_msg 3 1 9 9)]
      follower_node = Some c' \<and> 1 \<le> current_term c' \<and> current_term c' = 3 \<and> voted_for c' = Some 2"
proof -
  let ?evs = "[RequestVoteReq (vote_msg 2 3 2 1), ElectionStart 8, RequestVoteReq (vote_msg 3 1 9 9)]"
  have run: "map_option (\<lambda>c. (current_term c, voted_for c)) (core_run mem_ops test_ops ?evs follower_node)
      = Some (3, Some 2)" by code_simp
  then obtain c' where c': "core_run mem_ops test_ops ?evs follower_node = Some c'"
    "current_term c' = 3" "voted_for c' = Some 2" by auto
  have "map_option current_term (core_step mem_ops test_ops (RequestVoteReq (vote_msg 2 3 2 1)) follower_node) = Some 2"
    by code_simp
  then have "elections_below_max mem_ops test_ops ?evs follower_node"
    by (auto simp: no_term_overflow_def simp del: core_step.simps split: option.split)
  moreover have "current_term follower_node = 1" by code_simp
  ultimately show ?thesis using votes_are_kept [OF c'(1)] c' by simp
qed

text \<open>
  C10: a vote is granted exactly when the request is not stale, the voter has not voted for another
  candidate in the term of the request, and the candidate's log is at least as up to date as the
  voter's; the reply carries the larger of the two terms, and the vote is recorded.
\<close>

theorem vote_granted_iff:
  assumes "storage_total S"
  shows "\<exists>res c'. handle_request_vote S req c = Some (res, c') \<and>
    (vote_granted res \<longleftrightarrow>
       current_term c \<le> rv_term req \<and>
       (current_term c < rv_term req \<or> voted_for c = None \<or> voted_for c = Some (rv_candidate_id req)) \<and>
       (last_log_term c < rv_last_log_term req \<or>
        last_log_term c = rv_last_log_term req \<and> last_log_index c \<le> rv_last_log_index req)) \<and>
    rvr_term res = max (rv_term req) (current_term c) \<and> current_term c' = rvr_term res \<and>
    (vote_granted res \<longrightarrow> voted_for c' = Some (rv_candidate_id req))"
proof (cases "rv_term req < current_term c")
  case True
  then have "\<not> current_term c \<le> rv_term req" "rv_term req \<le> current_term c" by auto
  with True show ?thesis by (simp add: handle_request_vote_unfold max_def)
next
  case False
  obtain d where d: "observe_term S (rv_term req) c = Some d" using observe_term_total [OF assms] by blast
  have f: "current_term d = max (rv_term req) (current_term c)"
    "voted_for d = (if current_term c < rv_term req then None else voted_for c)"
    using d by (auto simp: observe_term_Some max_def split: if_splits)
  note sl = same_log_facts(2,3) [OF observe_term_same_log [OF d]]
  obtain s where s: "save_voted_for S (storage d) (Some (rv_candidate_id req)) = Ok s"
    using storage_totalD(2) [OF assms] by blast
  have up: "is_log_up_to_date d (rv_last_log_term req) (rv_last_log_index req) \<longleftrightarrow>
       last_log_term c < rv_last_log_term req \<or>
       last_log_term c = rv_last_log_term req \<and> last_log_index c \<le> rv_last_log_index req"
    using sl by (auto simp: is_log_up_to_date_def Let_def)
  show ?thesis
    using False d f s up by (auto simp: handle_request_vote_unfold set_voted_for_def)
qed

theorem vote_granted_iff_witness:
  "\<exists>res c'. handle_request_vote mem_ops (vote_msg 2 3 1 1) follower_node = Some (res, c') \<and>
     \<not> vote_granted res \<and> rvr_term res = 2"
proof -
  have f: "current_term follower_node = 1" "last_log_term follower_node = 1" "last_log_index follower_node = 2"
    by code_simp+
  show ?thesis
    using vote_granted_iff [OF mem_storage_total, of "vote_msg 2 3 1 1" follower_node] f
    by (auto simp: vote_msg_def word_le_nat_alt)
qed

text \<open>
  C21: a candidate becomes leader exactly on the reply that completes a majority of distinct voters
  without showing a higher term. It then leads the same term, has appended a no-op of that term, and
  starts every peer at the index of that entry with nothing matched.
\<close>

theorem majority_makes_leader:
  assumes "core_wf c" "unat (last_log_index c) + 2 < u64_bound"
    and "handle_request_vote_result S now p r c = Some (won, c')"
  shows "(won \<longleftrightarrow> role c = Candidate \<and> rvr_term r \<le> current_term c \<and>
      majority c \<le> length (votes_received (count_vote p r c))) \<and>
    (won \<longrightarrow> role c' = Leader \<and> current_term c' = current_term c \<and>
      get_log_entry c' (last_log_index c + 1) =
        Some \<lparr>le_term = current_term c, le_index = last_log_index c + 1, le_command = NOOP_COMMAND\<rparr> \<and>
      (\<forall>q \<in> set (peers c). hm_get (next_index c') q = Some (last_log_index c + 1) \<and>
                             hm_get (match_index c') q = Some 0))"
proof (cases "rvr_term r \<le> current_term c")
  case False
  then have "\<not> won"
    using assms(3) by (auto simp: handle_request_vote_result_Some observe_term_Some split: if_split_asm)
  with False show ?thesis by simp
next
  case True
  then have "\<not> current_term c < rvr_term r" by simp
  then have d: "observe_term S (rvr_term r) c = Some c" by (simp add: observe_term_def)
  let ?c = "count_vote p r c"
  have sl: "same_log c ?c" by (rule count_vote_same_log)
  have f: "current_term ?c = current_term c" "peers ?c = peers c" "last_log_index ?c = last_log_index c"
    by (simp_all add: count_vote_def last_log_index_def)
  have w: "core_wf ?c" "unat (last_log_index ?c) + 2 < u64_bound"
    using same_log_facts(1) [OF sl] assms(1,2) f by simp_all
  have e: "if role c \<noteq> Candidate then \<not> won \<and> c' = c
     else if majority c \<le> length (votes_received ?c) then won \<and> become_leader S now ?c = Some c'
     else \<not> won \<and> c' = ?c"
    using assms(3) d by (auto simp: handle_request_vote_result_Some)
  show ?thesis
  proof (cases "role c = Candidate \<and> majority c \<le> length (votes_received ?c)")
    case lead: True
    then have won: "won" and c': "become_leader S now ?c = Some c'" using e by auto
    have "role c' = Leader" "current_term c' = current_term c"
      "\<forall>q \<in> set (peers c). hm_get (next_index c') q = Some (last_log_index c + 1) \<and> hm_get (match_index c') q = Some 0"
      using c' f by (auto simp: become_leader_Some get_fold_insert)
    with lead won True become_leader_wf(4) [OF w c'] f show ?thesis by simp
  next
    case False
    then have "\<not> won" using e by (auto split: if_splits)
    with False show ?thesis by blast
  qed
qed

definition candidate_node :: test_core where
  "candidate_node = the (core_run mem_ops test_ops [ElectionStart 10] (new_node 1 [2, 3]))"

theorem majority_makes_leader_witness:
  "\<exists>c'. handle_request_vote_result mem_ops 11 2 (vote_yes 1) candidate_node = Some (True, c') \<and>
     role c' = Leader \<and> hm_get (next_index c') 3 = Some 1"
proof -
  have f: "rlog candidate_node = []" "snapshot_last_index candidate_node = 0" "last_applied candidate_node = 0"
    "commit_index candidate_node = 0" "peers candidate_node = [2, 3]"
    by code_simp+
  have wf: "core_wf candidate_node" by (rule core_wf_by_fields) (simp_all add: f u64_bound_gt)
  have li: "last_log_index candidate_node = 0" by (simp add: last_log_index_def f)
  have "map_option fst (handle_request_vote_result mem_ops 11 2 (vote_yes 1) candidate_node) = Some True"
    by code_simp
  then obtain c' where c': "handle_request_vote_result mem_ops 11 2 (vote_yes 1) candidate_node = Some (True, c')"
    by auto
  have "unat (last_log_index candidate_node) + 2 < u64_bound" by (simp add: li u64_bound_gt)
  from majority_makes_leader [OF wf this c'] c' show ?thesis by (simp add: li f)
qed

section \<open>Log replication\<close>

text \<open>
  C6: AppendEntries on a well-formed node whose storage works, for a message whose entries follow the tested
  index without a gap, overwrite no entry that the node has committed, and do not conflict with the log when
  the node has a snapshot (\<open>append_ok\<close>): it does not panic and keeps the node well-formed; it
  succeeds exactly when the term is current and the previous entry is in the log with the given term
  (or is the snapshot's); after a success the node holds every received entry; the commit index and
  the applied index do not move back.
\<close>

theorem append_entries_correct:
  assumes "core_wf c" "storage_total S" "append_ok req c"
  shows "\<exists>out c'. handle_append_entries S M now req c = Some (out, c') \<and> core_wf c' \<and>
    (aer_success (hae_result out) \<longleftrightarrow> current_term c \<le> ae_term req \<and> prev_matches req c) \<and>
    commit_index c \<le> commit_index c' \<and> last_applied c \<le> last_applied c' \<and>
    (aer_success (hae_result out) \<longrightarrow> (\<forall>e \<in> set (ae_entries req). holds_entry c' e))"
  by (rule handle_append_entries_correct [OF assms, of M now]) blast

text \<open>A message that extends the log of \<open>snapshot_node\<close> and commits up to its old end.\<close>

definition extend_msg :: append_entries_args where
  "extend_msg = append_msg 1 1 4 1 [entry 1 5 ''e''] 4"

lemma extend_msg_ok: "append_ok extend_msg snapshot_node"
  by (simp add: append_ok_def extend_msg_def append_msg_def entry_def log_from_def u64_bound_gt
        snapshot_fields conflicts_def)

theorem append_entries_correct_witness:
  "\<exists>out c'. handle_append_entries mem_ops test_ops 7 extend_msg snapshot_node = Some (out, c') \<and>
     aer_success (hae_result out) \<and> holds_entry c' (entry 1 5 ''e'')"
proof -
  have "prev_matches extend_msg snapshot_node \<and> current_term snapshot_node = 1" by code_simp
  with append_entries_correct [OF sample_wf(3) mem_storage_total extend_msg_ok, of test_ops 7]
  show ?thesis by (auto simp: extend_msg_def append_msg_def)
qed

text \<open>
  C19: storing the received entries is the merge of the Raft paper: an existing entry that conflicts
  with a new one is removed with all that follow it, and nothing else is. This is the specification
  \<open>merge_log\<close>. The code meets it on a log that starts at index 1 (no snapshot), and behind a snapshot
  only as long as no received entry conflicts.
\<close>

theorem apply_entries_refines_merge:
  assumes "apply_entries S es c = Some c'"
    and "snapshot_last_index c = 0 \<or> conflict_free (snapshot_last_index c) (rlog c) es"
  shows "rlog c' = merge_log (snapshot_last_index c) (rlog c) es"
  using assms by (rule apply_entries_merge)

theorem apply_entries_refines_merge_witness:
  "\<exists>c'. apply_entries mem_ops [entry 2 2 ''x'', entry 2 3 ''y''] follower_node = Some c' \<and>
     rlog c' = [entry 1 1 ''a'', entry 2 2 ''x'', entry 2 3 ''y'']"
proof -
  have "apply_entries mem_ops [entry 2 2 ''x'', entry 2 3 ''y''] follower_node \<noteq> None" by code_simp
  then obtain c' where c': "apply_entries mem_ops [entry 2 2 ''x'', entry 2 3 ''y''] follower_node = Some c'" by blast
  have "merge_log 0 [entry 1 1 ''a'', entry 1 2 ''b''] [entry 2 2 ''x'', entry 2 3 ''y'']
      = [entry 1 1 ''a'', entry 2 2 ''x'', entry 2 3 ''y'']" by code_simp
  with apply_entries_refines_merge [OF c'] c' show ?thesis by (simp add: follower_fields)
qed

text \<open>
  C20: committed entries are applied once, in index order, without a gap: the results are those of
  the pending entries in order, the state is theirs, and the applied index reaches the commit
  index. The node stays well-formed and its log reads the same after the automatic snapshot.
\<close>

theorem committed_entries_applied_in_order:
  assumes "core_wf c" "storage_total S"
  shows "\<exists>c'. apply_committed_entries S M c = Some (snd (apply_all M (pending c) (state_machine c)), c') \<and>
    core_wf c' \<and> same_log_view c c' \<and> commit_index c' = commit_index c \<and> last_applied c' = commit_index c \<and>
    state_machine c' = fst (apply_all M (pending c) (state_machine c))"
  by (rule apply_committed_wf [OF assms, of M]) blast

theorem committed_entries_applied_in_order_witness:
  "\<exists>c'. apply_committed_entries mem_ops test_ops (snapshot_node\<lparr>commit_index := 4\<rparr>)
      = Some ([(3, Ok ''''), (4, Ok '''')], c') \<and> last_applied c' = 4"
proof -
  let ?c = "snapshot_node\<lparr>commit_index := 4\<rparr>"
  have wf: "core_wf ?c" by (rule core_wf_by_fields) (simp_all add: snapshot_fields entry_def u64_bound_gt)
  have "snd (apply_all test_ops (pending ?c) (state_machine ?c)) = [(3, Ok ''''), (4, Ok '''')]" by code_simp
  with committed_entries_applied_in_order [OF wf mem_storage_total, of test_ops] show ?thesis by auto
qed

text \<open>
  C9: acceptable messages cannot make a node panic. From a well-formed node whose storage works, every
  sequence of events whose messages are acceptable where they arrive (\<open>run_ok\<close>: the entries of an AppendEntries
  follow the tested index without a gap, overwrite nothing committed and do not conflict behind a snapshot;
  snapshots deserialise; the log is not at the end of the index range) is executed to its end, keeps the
  node well-formed (a gapless log, and \<open>snapshot \<le> applied \<le> committed \<le> last\<close>), and never moves the
  commit or the applied index back. Messages that break the condition can panic the handler.
\<close>

theorem runs_keep_invariant:
  assumes "core_wf c" "storage_total S" "run_ok S M evs c"
  shows "\<exists>c'. core_run S M evs c = Some c' \<and> core_wf c' \<and>
    commit_index c \<le> commit_index c' \<and> last_applied c \<le> last_applied c'"
  using core_run_advances [OF assms] by (simp add: advances_def)

theorem runs_keep_invariant_witness:
  "\<exists>c'. core_run mem_ops test_ops [ElectionStart 8, AppendEntriesReq 9 extend_msg, TakeSnapshot]
      snapshot_node = Some c' \<and> core_wf c'"
proof -
  let ?evs = "[ElectionStart 8, AppendEntriesReq 9 extend_msg, TakeSnapshot]"
  obtain d where d: "start_election mem_ops 8 snapshot_node = Some d" "same_log snapshot_node d"
    by (rule start_election_same_log [OF mem_storage_total])
  have "append_ok extend_msg d" using extend_msg_ok same_log_facts(5) [OF d(2)] by simp
  with d(1) have "run_ok mem_ops test_ops ?evs snapshot_node" by (simp split: option.split)
  from runs_keep_invariant [OF sample_wf(3) mem_storage_total this] show ?thesis by blast
qed

text \<open>
  C7: the commit rule of the leader. When the reply of a peer makes the leader commit, it commits
  the index it replicated, which is above the old commit index and holds an entry of the leader's
  own term, and a majority of the nodes (itself and peers whose match index covers it) hold it.
\<close>

theorem commit_needs_majority_of_current_term:
  assumes wf: "core_wf c" and st: "storage_total S" and tr: "peers_tracked c" "p \<in> set (peers c)"
    and h: "handle_append_entries_result S M p i r c = Some ((Some k, rs), c')"
  shows "k = i \<and> role c = Leader \<and> commit_index c < i \<and> commit_index c' = i \<and> last_applied c' = i \<and>
    (\<exists>x. get_log_entry c i = Some x \<and> le_term x = current_term c) \<and>
    (\<exists>R \<subseteq> insert (node_id c) (set (peers c)). majority c \<le> card R \<and>
       (\<forall>q \<in> R. q = node_id c \<or> (\<exists>m. hm_get (match_index c') q = Some m \<and> i \<le> m)))"
  using h
proof (cases rule: handle_append_entries_result_cases)
  case (1 d e)
  then obtain rs' x where ld: "role d = Leader" and x: "get_log_entry e i = Some x" "le_term x = current_term e"
    and maj: "majority e \<le> replicated_count i e" and lt: "commit_index e < i" and k: "k = i"
    and ap: "apply_committed_entries S M (e\<lparr>commit_index := i\<rparr>) = Some (rs', c')"
    by auto
  have dc: "d = c" using 1(1) ld by (auto simp: observe_term_Some split: if_splits)
  have e: "e = (if aer_success r then note_success p i c else note_rejection p r c)" using 1(2) ld dc by simp
  have same: "same_log c e" "same_vote c e"
    using e note_same_log [of c p] note_success_same_vote [of c p i] note_rejection_same_vote [of c p r] by auto
  have tre: "peers_tracked e" "peers e = peers c" "node_id e = node_id c"
    using e tr note_success_tracked [of c p i] note_rejection_tracked [of c p r] same(2)
    by (auto simp: same_vote_def)
  have we: "core_wf e" using same_log_facts(1) [OF same(1)] wf by simp
  obtain c'' where "apply_committed_entries S M (e\<lparr>commit_index := i\<rparr>)
      = Some (snd (apply_all M (pending (e\<lparr>commit_index := i\<rparr>)) (state_machine (e\<lparr>commit_index := i\<rparr>))), c'')"
    "commit_index c'' = i" "last_applied c'' = i"
    by (rule apply_committed_wf [OF commit_to_wf [OF we lt x(1)] st, of M]) simp
  then have ci: "commit_index c' = i" "last_applied c' = i" using ap by simp_all
  have mi: "match_index c' = match_index e"
    using apply_committed_frame [OF ap] by (simp add: rpc_frame_def)
  have "replicas i e \<subseteq> insert (node_id c) (set (peers c))" "majority c \<le> card (replicas i e)"
    using replicated_count_replicas(2,3) [OF tre(1), of i] maj tre by (simp_all add: majority_def total_nodes_def)
  moreover have "\<forall>q \<in> replicas i e. q = node_id c \<or> (\<exists>m. hm_get (match_index c') q = Some m \<and> i \<le> m)"
    using tre(3) mi by (auto simp: replicas_def)
  moreover have "get_log_entry c i = Some x" "le_term x = current_term c" "commit_index c < i" "role c = Leader"
    using x lt same same_log_facts(4) [OF same(1), of i] ld dc by (auto simp: same_log_def same_vote_def)
  ultimately show ?thesis using ci k by blast
qed

theorem commit_needs_majority_of_current_term_witness:
  "\<exists>rs c'. handle_append_entries_result mem_ops test_ops 2 1 (append_yes 1) leader_node = Some ((Some 1, rs), c') \<and>
     commit_index c' = 1 \<and> last_applied c' = 1"
proof -
  have tr: "peers_tracked leader_node" "2 \<in> set (peers leader_node)" by code_simp+
  have "map_option fst (handle_append_entries_result mem_ops test_ops 2 1 (append_yes 1) leader_node)
      = Some (Some 1, [(1, Ok '''')])" by code_simp
  then obtain c' where c': "handle_append_entries_result mem_ops test_ops 2 1 (append_yes 1) leader_node
      = Some ((Some 1, [(1, Ok '''')]), c')" by auto
  from commit_needs_majority_of_current_term [OF sample_wf(2) mem_storage_total tr c'] c'
  show ?thesis by blast
qed

text \<open>
  Any two sets of nodes that reach the majority of the commit rule and of the election rule
  share a node, so that a new leader has met a holder of every committed entry.
\<close>

theorem quorums_intersect:
  assumes "peers_tracked c" "majority c \<le> replicated_count i c"
    and "majority c \<le> length vs" "distinct vs" "set vs \<subseteq> insert (node_id c) (set (peers c))"
  shows "\<exists>q \<in> set vs. q = node_id c \<or> (\<exists>m. hm_get (match_index c) q = Some m \<and> i \<le> m)"
proof -
  have "replicas i c \<inter> set vs \<noteq> {}"
    by (rule majority_meets [of c])
       (use assms replicated_count_replicas [OF assms(1), of i] in \<open>simp_all add: peers_tracked_def distinct_card\<close>)
  then show ?thesis by (auto simp: replicas_def)
qed

theorem quorums_intersect_witness:
  "\<exists>q \<in> {2, 3}. \<exists>m. hm_get (match_index (note_success 3 1 leader_node)) q = Some m \<and> 1 \<le> m"
proof -
  let ?c = "note_success 3 1 leader_node"
  have "peers_tracked ?c \<and> majority ?c \<le> replicated_count 1 ?c \<and> majority ?c \<le> length [2 :: u64, 3] \<and>
      set [2, 3] \<subseteq> insert (node_id ?c) (set (peers ?c)) \<and> node_id ?c = 1" by code_simp
  with quorums_intersect [of ?c 1 "[2, 3]"] show ?thesis by auto
qed

text \<open>
  C26: a rejection makes the leader's next index for the peer go back, by at least one while it is
  above 1, and never below 1, whatever the conflict hints say; the match index is untouched.
\<close>

theorem rejection_moves_back:
  "1 \<le> hm_get_or (next_index (note_rejection p r c)) p 1 \<and>
   (1 < hm_get_or (next_index c) p 1 \<longrightarrow>
     hm_get_or (next_index (note_rejection p r c)) p 1 < hm_get_or (next_index c) p 1) \<and>
   match_index (note_rejection p r c) = match_index c \<and>
   (\<forall>q. q \<noteq> p \<longrightarrow> hm_get (next_index (note_rejection p r c)) q = hm_get (next_index c) q)"
  using note_rejection_decreases [where p = p and r = r and c = c] by (simp add: note_rejection_def Let_def hm_get_insert)

theorem rejection_moves_back_witness:
  "hm_get_or (next_index (note_rejection 2
     \<lparr>aer_term = 1, aer_success = False, conflict_term = Some 7, conflict_index = Some 9\<rparr>
     (leader_node\<lparr>next_index := [(2, 5)]\<rparr>))) 2 1 < 5"
  using rejection_moves_back [of 2 "\<lparr>aer_term = 1, aer_success = False, conflict_term = Some 7, conflict_index = Some 9\<rparr>"
     "leader_node\<lparr>next_index := [(2, 5)]\<rparr>"] by (simp add: hm_get_or_def)

text \<open>
  The conflict hint of a follower is the first index of the run of the conflicting term that
  ends at the tested index: all entries from the hint to the tested index have that term, and the
  entry before the hint has another one.
\<close>

theorem conflict_hint_is_first_of_term:
  assumes "log_ok c" "snapshot_last_index c < idx" "idx \<le> last_log_index c"
    and "get_log_entry c idx = Some e" "le_term e = t"
  shows "snapshot_last_index c < find_first_index_for_term c t idx \<and>
    find_first_index_for_term c t idx \<le> idx \<and>
    (\<forall>k. find_first_index_for_term c t idx \<le> k \<and> k \<le> idx \<longrightarrow>
       (\<exists>x. get_log_entry c k = Some x \<and> le_term x = t)) \<and>
    (\<forall>x. get_log_entry c (find_first_index_for_term c t idx - 1) = Some x \<longrightarrow> le_term x \<noteq> t)"
  using find_first_index_for_term_correct [OF assms] .

theorem conflict_hint_is_first_of_term_witness:
  "find_first_index_for_term snapshot_node 1 4 \<le> 4 \<and> 2 < find_first_index_for_term snapshot_node 1 4"
proof -
  have f: "get_log_entry snapshot_node 4 = Some (entry 1 4 ''d'') \<and> 4 \<le> last_log_index snapshot_node" by code_simp
  from conflict_hint_is_first_of_term [OF core_wfD(1) [OF sample_wf(3)], of 4 "entry 1 4 ''d''" 1] f
  show ?thesis by (simp add: snapshot_fields entry_def)
qed

text \<open>
  On a log with ascending terms the leader's search for the last entry of a term finds the
  greatest index of that term.
\<close>

theorem last_index_for_term_is_greatest:
  assumes "terms_ascend (rlog c)" "log_ok c" "find_last_index_for_term c t = Some i"
    and "e \<in> set (rlog c)" "le_term e = t"
  shows "le_index e \<le> i \<and> (\<exists>x \<in> set (rlog c). le_index x = i \<and> le_term x = t)"
  using find_last_index_for_term_correct [OF assms] .

theorem last_index_for_term_is_greatest_witness:
  "\<exists>i. find_last_index_for_term snapshot_node 1 = Some i \<and> 3 \<le> i"
proof -
  have f: "find_last_index_for_term snapshot_node 1 = Some 4 \<and> terms_ascend (rlog snapshot_node)" by code_simp
  have "le_index (entry 1 3 ''c'') \<le> 4"
    using last_index_for_term_is_greatest [OF _ core_wfD(1) [OF sample_wf(3)], of 1 4 "entry 1 3 ''c''"] f
    by (simp add: snapshot_fields entry_def)
  with f show ?thesis by (simp add: entry_def)
qed

section \<open>Snapshots\<close>

lemma take_snapshot_Ok:
  assumes "take_snapshot S M c = (Ok (), c')"
  obtains e d s s' where "snapshot_last_index c < last_applied c" "get_log_entry c (last_applied c) = Some e"
    "sm_snapshot M (state_machine c) = Ok d"
    "save_snapshot S (storage c) \<lparr>metadata = \<lparr>last_included_index = last_applied c,
        last_included_term = le_term e\<rparr>, snapshot_data = d\<rparr> = Ok s"
    "compact_log S s (last_applied c + 1) = Ok s'"
    "c' = c\<lparr>storage := s', snapshot_last_index := last_applied c, snapshot_last_term := le_term e,
            rlog := filter (\<lambda>x. last_applied c + 1 \<le> le_index x) (rlog c)\<rparr>"
  using assms by (auto simp: take_snapshot_def Let_def not_le split: if_split_asm option.split_asm sum.split_asm)

text \<open>
  C24: the first snapshot loses nothing. When a node without a snapshot, whose log is in its storage, takes
  one, the storage holds the snapshot and exactly the entries behind it: a node that restarts from it
  has the same log, the same snapshot position, the same last entry and the restored state, and is
  well-formed. Later snapshots are not covered: the in-memory storage then drops entries by position.
\<close>

theorem snapshot_then_restart:
  assumes wf: "core_wf c" and S: "log_storage S ok" "storage_total S" and disk: "load_log S (storage c) = Ok (rlog c)"
    and first: "snapshot_last_index c = 0" and vote: "vote_persisted S c"
    and snap: "take_snapshot S M c = (Ok (), c')"
    and restore: "\<And>d. sm_snapshot M (state_machine c) = Ok d \<Longrightarrow> sm_restore M m d = Ok m'"
  shows "\<exists>n. raft_core_new S M now i ps (storage c') m = Some n \<and> rlog n = rlog c' \<and>
    snapshot_last_index n = last_applied c \<and> last_applied n = last_applied c \<and>
    snapshot_last_term n = snapshot_last_term c' \<and> state_machine n = m' \<and>
    current_term n = current_term c \<and> voted_for n = voted_for c \<and>
    last_log_index n = last_log_index c \<and> core_wf n"
proof -
  note w = core_wfD [OF wf]
  note vs = log_storage.axioms(1) [OF S(1)]
  obtain e d s s' where lt: "snapshot_last_index c < last_applied c"
    and "get_log_entry c (last_applied c) = Some e" and d: "sm_snapshot M (state_machine c) = Ok d"
    and save: "save_snapshot S (storage c) \<lparr>metadata = \<lparr>last_included_index = last_applied c,
        last_included_term = le_term e\<rparr>, snapshot_data = d\<rparr> = Ok s"
    and comp: "compact_log S s (last_applied c + 1) = Ok s'"
    and c': "c' = c\<lparr>storage := s', snapshot_last_index := last_applied c, snapshot_last_term := le_term e,
            rlog := filter (\<lambda>x. last_applied c + 1 \<le> le_index x) (rlog c)\<rparr>"
    by (rule take_snapshot_Ok [OF snap]) blast
  have "unat (last_applied c) + 1 < u64_bound"
    using w(2,4,5) by (simp add: word_le_nat_alt)
  then have "unat (last_applied c + 1) = unat (last_applied c) + 1" by (rule u64_succ)
  then have pos: "0 < last_applied c + 1" by (simp add: word_less_nat_alt)
  have logs: "load_log S s = Ok (rlog c)" using log_storage.save_snapshot_log [OF S(1) save] disk by simp
  have l0: "log_from 0 (rlog c)" using w(1) first by (simp add: log_ok_def)
  have log': "load_log S s' = Ok (rlog c')"
    using log_storage.compact_log [OF S(1) logs l0 pos comp] c' by simp
  have sn: "st_load_snapshot S s' = Ok (Some \<lparr>metadata = \<lparr>last_included_index = last_applied c,
        last_included_term = le_term e\<rparr>, snapshot_data = d\<rparr>)"
    using log_storage.save_snapshot [OF S(1) save] log_storage.frame_snapshot(5) [OF S(1) comp] by simp
  have v: "load_term S s' = Ok (current_term c)" "load_voted_for S s' = Ok (voted_for c)"
    using vote vote_storage.snapshot_vote [OF vs save] vote_storage.compact_vote [OF vs comp]
    by (simp_all add: vote_persisted_def)
  have st: "storage c' = s'" using c' by simp
  obtain n where n: "raft_core_new S M now i ps (storage c') m = Some n"
    and f: "rlog n = rlog c'" "snapshot_last_index n = last_applied c" "last_applied n = last_applied c"
      "snapshot_last_term n = snapshot_last_term c'" "state_machine n = m'"
      "current_term n = current_term c" "voted_for n = voted_for c" "commit_index n = last_applied c"
    using log' sn v restore [OF d] c' by (simp add: raft_core_new_def)
  have snd: "c' = snd (take_snapshot S M c)" using snap by simp
  have "core_wf n \<and> last_log_index n = last_log_index c" 
    using take_snapshot_wf [OF wf S(2), of M, folded snd] f c'
    by (auto simp: core_wf_def log_ok_def last_log_index_def same_log_view_def)
  then show ?thesis using n f by auto
qed

theorem snapshot_then_restart_witness:
  "\<exists>n. raft_core_new mem_ops test_ops 9 2 [1, 3] (storage (snd (take_snapshot mem_ops test_ops follower_node))) tsm_new
      = Some n \<and> last_applied n = 1 \<and> applied (state_machine n) = [''a''] \<and> last_log_index n = 2"
proof -
  let ?c = "follower_node"
  have snap: "take_snapshot mem_ops test_ops ?c = (Ok (), snd (take_snapshot mem_ops test_ops ?c))"
    by (rule prod_eqI) (code_simp, simp)
  have f: "ms_log (storage ?c) = [entry 1 1 ''a'', entry 1 2 ''b'']" "ms_term (storage ?c) = current_term ?c"
    "ms_voted_for (storage ?c) = voted_for ?c" "applied (state_machine ?c) = [''a'']" "last_log_index ?c = 2"
    by code_simp+
  have disk: "load_log mem_ops (storage ?c) = Ok (rlog ?c)" "vote_persisted mem_ops ?c"
    by (simp_all add: mem_defs vote_persisted_def f follower_fields)
  have restore: "sm_restore test_ops tsm_new d = Ok \<lparr>applied = [''a'']\<rparr>"
    if "sm_snapshot test_ops (state_machine ?c) = Ok d" for d
    using that read_write_strings [of "[''a'']"] f(4)
    by (auto simp: test_ops_def tsm_ops_def tsm_snapshot_def tsm_restore_def plain_strings_def tsm_new_def)
  from snapshot_then_restart [where now = 9 and i = 2 and ps = "[1, 3]", OF sample_wf(1) mem_log.log_storage_axioms mem_storage_total disk(1)
      follower_fields(2) disk(2) snap restore]
  show ?thesis by (auto simp: follower_fields f)
qed

lemma install_newer_snapshot:
  assumes wf: "core_wf c" and st: "storage_total S"
    and room: "unat (is_last_included_index args) + 1 < u64_bound"
    and restore: "sm_restore M (state_machine c) (is_data args) = Ok m"
    and new: "current_term c \<le> is_term args" "snapshot_last_index c < is_last_included_index args"
  obtains c' where "handle_install_snapshot S M now args c = Some (IS_Success (is_term args), c')" "core_wf c'"
    "state_machine c' = m" "snapshot_last_index c' = is_last_included_index args"
    "rlog c' = filter (\<lambda>e. le_index e > is_last_included_index args) (rlog c)"
    "commit_index c' = max (commit_index c) (is_last_included_index args)"
    "last_applied c' = max (last_applied c) (is_last_included_index args)"
proof -
  obtain d where d: "observe_term S (is_term args) c = Some d" using observe_term_total [OF st] by blast
  let ?d = "d\<lparr>last_heartbeat := now, current_leader := Some (is_leader_id args)\<rparr>"
  have sl: "same_log c ?d" using observe_term_same_log [OF d] by (simp add: same_log_def)
  have wf': "core_wf ?d" using same_log_facts(1) [OF sl] wf by simp
  have tm: "current_term ?d = is_term args" using observe_term_max [OF d] new(1) by (simp add: max_absorb1)
  have gt: "snapshot_last_index ?d < is_last_included_index args" using sl new(2) by (simp add: same_log_def)
  have r: "sm_restore M (state_machine ?d) (is_data args) = Ok m" using restore sl by (simp add: same_log_def)
  obtain c' where c': "install_snapshot_steps S M args ?d = Some (IS_Success (current_term ?d), c')"
    "core_wf c'" "state_machine c' = m" "snapshot_last_index c' = is_last_included_index args"
    "rlog c' = filter (\<lambda>e. le_index e > is_last_included_index args) (rlog ?d)"
    "commit_index c' = max (commit_index ?d) (is_last_included_index args)"
    "last_applied c' = max (last_applied ?d) (is_last_included_index args)"
    by (rule install_snapshot_steps_correct [OF wf' st gt room r]) simp
  moreover have "handle_install_snapshot S M now args c = install_snapshot_steps S M args ?d"
    using new d sl
    by (simp add: handle_install_snapshot_def observe_term_def [symmetric] Let_def same_log_def not_less [symmetric])
  ultimately show thesis using that tm sl by (simp add: same_log_def)
qed

text \<open>What every accepted InstallSnapshot does to the term, the role and the view of the leader.\<close>

definition heard_leader :: "instant \<Rightarrow> install_snapshot_args \<Rightarrow> ('s, 'm) raft_core \<Rightarrow> ('s, 'm) raft_core \<Rightarrow> bool" where
  "heard_leader now args c c' \<longleftrightarrow>
     current_term c' = is_term args \<and> current_leader c' = Some (is_leader_id args) \<and> last_heartbeat c' = now \<and>
     role c' = (if current_term c < is_term args then Follower else role c) \<and>
     voted_for c' = (if current_term c < is_term args then None else voted_for c)"

text \<open>
  C25: \<open>handle_install_snapshot\<close> on every branch, once the node could save the term of the message (\<open>d\<close>). A stale
  term is refused and changes nothing. Otherwise the node takes over term and leader, and: a snapshot that
  is not newer than its own is refused; if saving the snapshot fails, the answer is a failure and the node
  goes on with its old log and state and with the storage the failed call left; if the state cannot be
  restored, the node panics; else the state is the restored one, the log keeps exactly the entries behind the
  snapshot, the commit and applied indices are raised to it, the node stays well-formed, and the storage is
  the one after the compaction, whether that succeeded or not.
\<close>

theorem install_snapshot_correct:
  assumes wf: "core_wf c" and room: "unat (is_last_included_index args) + 1 < u64_bound"
    and d: "observe_term S (is_term args) c = Some d"
  shows "if is_term args < current_term c
    then handle_install_snapshot S M now args c = Some (IS_Failed (current_term c) ''stale term'', c)
    else if is_last_included_index args \<le> snapshot_last_index c
    then \<exists>msg c'. handle_install_snapshot S M now args c = Some (IS_Failed (is_term args) msg, c') \<and>
      same_log c c' \<and> heard_leader now args c c' \<and> storage c' = storage d
    else case save_snapshot S (storage d) (received_snapshot args) of
      Err (x, s) \<Rightarrow>
        \<exists>c'. handle_install_snapshot S M now args c
            = Some (IS_Failed (is_term args) (''failed to save snapshot: '' @ show_storage_error x), c') \<and>
          same_log c c' \<and> heard_leader now args c c' \<and> storage c' = s
    | Ok s \<Rightarrow>
        (case sm_restore M (state_machine c) (is_data args) of
          Err _ \<Rightarrow> handle_install_snapshot S M now args c = None
        | Ok m \<Rightarrow>
          \<exists>c'. handle_install_snapshot S M now args c = Some (IS_Success (is_term args), c') \<and> core_wf c' \<and>
            heard_leader now args c c' \<and> state_machine c' = m \<and>
            snapshot_last_index c' = is_last_included_index args \<and>
            snapshot_last_term c' = is_last_included_term args \<and>
            rlog c' = filter (\<lambda>e. le_index e > is_last_included_index args) (rlog c) \<and>
            commit_index c' = max (commit_index c) (is_last_included_index args) \<and>
            last_applied c' = max (last_applied c) (is_last_included_index args) \<and>
            storage c' = (case compact_log S s (is_last_included_index args + 1) of Ok s' \<Rightarrow> s' | Err (_, s') \<Rightarrow> s'))"
proof (cases "is_term args < current_term c")
  case True
  then show ?thesis by (simp add: handle_install_snapshot_def)
next
  case False
  let ?d = "d\<lparr>last_heartbeat := now, current_leader := Some (is_leader_id args)\<rparr>"
  have sl: "same_log c ?d" using observe_term_same_log [OF d] by (simp add: same_log_def)
  have wf': "core_wf ?d" using same_log_facts(1) [OF sl] wf by simp
  have le: "current_term c \<le> is_term args" using False by simp
  then have tm: "current_term ?d = is_term args" using observe_term_max [OF d] by (simp add: max_absorb1)
  have heard: "heard_leader now args c ?d"
    using d le by (auto simp: heard_leader_def observe_term_Some split: if_splits)
  have step: "handle_install_snapshot S M now args c =
     (if is_last_included_index args \<le> snapshot_last_index c
      then Some (IS_Failed (is_term args)
                     (''snapshot too old: '' @ show_u64 (is_last_included_index args) @ '' <= ''
                      @ show_u64 (snapshot_last_index c)), ?d)
      else install_snapshot_steps S M args ?d)"
    using False d sl tm
    by (simp add: handle_install_snapshot_def observe_term_def [symmetric] Let_def same_log_def)
  show ?thesis
  proof (cases "is_last_included_index args \<le> snapshot_last_index c")
    case True
    then show ?thesis using False step sl heard by simp
  next
    case new: False
    note branch = step [unfolded if_not_P [OF new]]
    show ?thesis
    proof (cases "save_snapshot S (storage d) (received_snapshot args)")
      case (Inl x)
      then have "install_snapshot_steps S M args ?d
          = Some (IS_Failed (is_term args) (''failed to save snapshot: '' @ show_storage_error (fst x)), ?d\<lparr>storage := snd x\<rparr>)"
        using tm by (cases x) (simp add: install_snapshot_steps_def received_snapshot_def)
      moreover have "same_log c (?d\<lparr>storage := snd x\<rparr>)" "heard_leader now args c (?d\<lparr>storage := snd x\<rparr>)"
        using sl heard by (simp_all add: same_log_def heard_leader_def)
      ultimately show ?thesis using False new branch Inl by (cases x) simp
    next
      case (Inr s)
      then have save: "save_snapshot S (storage ?d) (received_snapshot args) = Ok s" by simp
      show ?thesis
      proof (cases "sm_restore M (state_machine c) (is_data args)")
        case (Inl e)
        then have "install_snapshot_steps S M args ?d = None"
          using save sl by (simp add: install_snapshot_steps_def received_snapshot_def same_log_def)
        then show ?thesis using False new branch Inl Inr by simp
      next
        case m: (Inr m)
        have r: "sm_restore M (state_machine ?d) (is_data args) = Ok m" using m sl by (simp add: same_log_def)
        have gt: "snapshot_last_index ?d < is_last_included_index args" using sl new by (simp add: same_log_def)
        obtain c' where c': "install_snapshot_steps S M args ?d = Some (IS_Success (current_term ?d), c')"
          "core_wf c'" "state_machine c' = m" "snapshot_last_index c' = is_last_included_index args"
          "snapshot_last_term c' = is_last_included_term args"
          "rlog c' = filter (\<lambda>e. le_index e > is_last_included_index args) (rlog ?d)"
          "commit_index c' = max (commit_index ?d) (is_last_included_index args)"
          "last_applied c' = max (last_applied ?d) (is_last_included_index args)"
          "current_term c' = current_term ?d" "voted_for c' = voted_for ?d" "role c' = role ?d"
          "current_leader c' = current_leader ?d" "last_heartbeat c' = last_heartbeat ?d"
          "storage c' = (case compact_log S s (is_last_included_index args + 1) of Ok s' \<Rightarrow> s' | Err (_, s') \<Rightarrow> s')"
          by (rule install_snapshot_steps_saved [OF wf' save gt room r])
        have "heard_leader now args c c'" using heard c'(9-13) unfolding heard_leader_def by metis
        then show ?thesis using False new branch m Inr c' tm sl by (simp add: same_log_def)
      qed
    qed
  qed
qed

definition snapshot_msg :: "u64 \<Rightarrow> u64 \<Rightarrow> string list \<Rightarrow> install_snapshot_args" where
  "snapshot_msg t i cmds = \<lparr>is_term = t, is_leader_id = 1, is_last_included_index = i,
     is_last_included_term = t, is_data = concat (map write_string cmds)\<rparr>"

lemma restore_snapshot_msg: "sm_restore test_ops m (is_data (snapshot_msg t i cmds)) = Ok (m\<lparr>applied := cmds\<rparr>)"
  by (simp add: test_ops_def tsm_ops_def tsm_restore_def plain_strings_def snapshot_msg_def read_write_strings)

theorem install_snapshot_correct_witness:
  "\<exists>c'. handle_install_snapshot mem_ops test_ops 8 (snapshot_msg 2 3 [''a'', ''b'', ''c'']) snapshot_node
      = Some (IS_Success 2, c') \<and> heard_leader 8 (snapshot_msg 2 3 [''a'', ''b'', ''c'']) snapshot_node c' \<and>
     applied (state_machine c') = [''a'', ''b'', ''c''] \<and> rlog c' = [entry 1 4 ''d''] \<and> last_applied c' = 3"
proof -
  let ?a = "snapshot_msg 2 3 [''a'', ''b'', ''c'']"
  have tm: "current_term snapshot_node = 1" by code_simp
  obtain d where d: "observe_term mem_ops (is_term ?a) snapshot_node = Some d"
    using observe_term_total [OF mem_storage_total] by blast
  have room: "unat (is_last_included_index ?a) + 1 < u64_bound" by (simp add: snapshot_msg_def u64_bound_gt)
  have branch: "\<not> is_term ?a < current_term snapshot_node"
    "\<not> is_last_included_index ?a \<le> snapshot_last_index snapshot_node"
    by (simp_all add: snapshot_msg_def tm snapshot_fields)
  obtain s where s: "save_snapshot mem_ops (storage d) (received_snapshot ?a) = Ok s"
    using storage_totalD(6) [OF mem_storage_total] by blast
  obtain c' where "handle_install_snapshot mem_ops test_ops 8 ?a snapshot_node = Some (IS_Success (is_term ?a), c')"
    "heard_leader 8 ?a snapshot_node c'" "state_machine c' = state_machine snapshot_node\<lparr>applied := [''a'', ''b'', ''c'']\<rparr>"
    "rlog c' = filter (\<lambda>e. le_index e > is_last_included_index ?a) (rlog snapshot_node)"
    "last_applied c' = max (last_applied snapshot_node) (is_last_included_index ?a)"
    using install_snapshot_correct [OF sample_wf(3) room d, of test_ops 8]
    unfolding if_not_P [OF branch(1)] if_not_P [OF branch(2)] s restore_snapshot_msg by auto
  moreover have "is_term ?a = 2" "is_last_included_index ?a = 3" by (simp_all add: snapshot_msg_def)
  ultimately show ?thesis by (auto simp: snapshot_fields entry_def)
qed

text \<open>
  C39: an older snapshot rolls the state machine back. A snapshot newer than the node's own but not
  newer than what the node has applied replaces the state machine by the older state, while the
  applied index stays: the commands in between are not in the state and are not applied again.
\<close>

theorem older_snapshot_rolls_back:
  assumes "core_wf c" "storage_total S" "unat (is_last_included_index args) + 1 < u64_bound"
    and "sm_restore M (state_machine c) (is_data args) = Ok m" "current_term c \<le> is_term args"
    and older: "snapshot_last_index c < is_last_included_index args" "is_last_included_index args \<le> last_applied c"
  shows "\<exists>res c'. handle_install_snapshot S M now args c = Some (res, c') \<and> state_machine c' = m \<and>
    last_applied c' = last_applied c \<and> pending c' = pending c"
proof -
  obtain c' where c': "handle_install_snapshot S M now args c = Some (IS_Success (is_term args), c')" "core_wf c'"
    "state_machine c' = m" "snapshot_last_index c' = is_last_included_index args"
    "rlog c' = filter (\<lambda>e. le_index e > is_last_included_index args) (rlog c)"
    "commit_index c' = max (commit_index c) (is_last_included_index args)"
    "last_applied c' = max (last_applied c) (is_last_included_index args)"
    by (rule install_newer_snapshot [OF assms(1-4,5) older(1), of now])
  note w = core_wfD [OF assms(1)]
  have i: "last_applied c' = last_applied c" "commit_index c' = commit_index c"
    using c'(6,7) older(2) w(4) by (simp_all add: max_absorb1)
  have n: "unat (snapshot_last_index c) \<le> unat (is_last_included_index args)"
    "unat (is_last_included_index args) \<le> unat (last_applied c)"
    "unat (is_last_included_index args) \<le> unat (snapshot_last_index c) + length (rlog c)"
    using older w(4,5) unat_last_log_index [OF w(1)] by (simp_all add: word_le_nat_alt word_less_nat_alt)
  have "rlog c' = drop (unat (is_last_included_index args) - unat (snapshot_last_index c)) (rlog c)"
    using filter_log_from [OF w(1) [unfolded log_ok_def] n(1,3)] c'(5) by simp
  then have "pending c' = pending c" using i c'(4) n(1,2) by (simp add: pending_def)
  with c' i show ?thesis by blast
qed

theorem older_snapshot_rolls_back_witness:
  "\<exists>res c'. handle_install_snapshot mem_ops test_ops 8 (snapshot_msg 1 1 [''a''])
      (follower_node\<lparr>commit_index := 2, last_applied := 2, state_machine := \<lparr>applied = [''a'', ''b'']\<rparr>\<rparr>) = Some (res, c') \<and>
     last_applied c' = 2 \<and> applied (state_machine c') = [''a'']"
proof -
  let ?c = "follower_node\<lparr>commit_index := 2, last_applied := 2, state_machine := \<lparr>applied = [''a'', ''b'']\<rparr>\<rparr>"
  have wf: "core_wf ?c" by (rule core_wf_by_fields) (simp_all add: follower_fields entry_def u64_bound_gt)
  have "current_term follower_node = 1" by code_simp
  moreover have "unat (is_last_included_index (snapshot_msg 1 1 [''a''])) + 1 < u64_bound"
    by (simp add: snapshot_msg_def u64_bound_gt)
  ultimately show ?thesis
    using older_snapshot_rolls_back [OF wf mem_storage_total _ restore_snapshot_msg, of 1 1 "[''a'']" 8]
    by (auto simp: follower_fields snapshot_msg_def)
qed

section \<open>Where the code departs from Raft\<close>

text \<open>
  C38: behind a snapshot a conflicting entry is not removed. \<open>persist_truncate_log\<close> takes the
  position of index \<open>i\<close> to be \<open>i - 1\<close> although the log starts behind the snapshot: when a received
  entry conflicts, the old entry stays at its index and the new one is appended at the end.
\<close>

theorem conflicting_entry_survives:
  assumes "conflicts (snapshot_last_index c) (rlog c) e" "0 < snapshot_last_index c"
    and "apply_entry S e c = Some c'"
  shows "\<exists>x. get_log_entry c (le_index e) = Some x \<and> le_term x \<noteq> le_term e \<and>
    get_log_entry c' (le_index e) = Some x \<and> last (rlog c') = e"
proof -
  let ?s = "snapshot_last_index c"
  let ?k = "unat (le_index e) - unat ?s - 1"
  have gt: "?s < le_index e" and k: "?k < length (rlog c)" and t: "le_term (rlog c ! ?k) \<noteq> le_term e"
    using assms(1) by (simp_all add: conflicts_def Let_def)
  have off: "unat (le_index e - ?s - 1) = ?k" using gt by (rule u64_offset)
  have s: "unat ?s < unat (le_index e)" "0 < unat ?s" using gt assms(2) by (simp_all add: word_less_nat_alt)
  then have "unat (le_index e - 1) = unat (le_index e) - 1" by (intro u64_pred) (simp add: word_less_nat_alt)
  then have pos: "?k < unat (le_index e - 1)" using s by simp
  have ns: "\<not> le_index e \<le> ?s" using gt by simp
  obtain l st where c': "c' = c\<lparr>storage := st, rlog := l @ [e]\<rparr>"
    and l: "l = rlog c \<or> l = take (unat (le_index e - 1)) (rlog c)"
    using assms(3) ns k t off
    by (auto simp: apply_entry_def Let_def bind_eq_Some_conv raft_defs split: if_split_asm)
  have lk: "?k < length l \<and> l ! ?k = rlog c ! ?k" using l k pos by auto
  then have "rlog c' ! ?k = rlog c ! ?k" "?k < length (rlog c')" using c' by (auto simp: nth_append)
  then have "get_log_entry c (le_index e) = Some (rlog c ! ?k)" "get_log_entry c' (le_index e) = Some (rlog c ! ?k)"
    using k off ns c' by (simp_all add: get_log_entry_def Let_def)
  with t c' show ?thesis by simp
qed

text \<open>The follower answers success although it still holds its old entry at the index.\<close>

theorem conflicting_entry_survives_witness:
  "\<exists>x. get_log_entry snapshot_node 3 = Some x \<and> le_term x = 1 \<and>
     (\<exists>out c'. handle_append_entries mem_ops test_ops 9 (append_msg 2 3 2 1 [entry 2 3 ''x''] 2) snapshot_node
         = Some (out, c') \<and> aer_success (hae_result out) \<and> get_log_entry c' 3 = Some x) \<and>
     (\<exists>c'. apply_entry mem_ops (entry 2 3 ''x'') snapshot_node = Some c' \<and> get_log_entry c' 3 = Some x)"
proof -
  let ?r = "handle_append_entries mem_ops test_ops 9 (append_msg 2 3 2 1 [entry 2 3 ''x''] 2) snapshot_node"
  have "map_option (\<lambda>(out, c'). (aer_success (hae_result out), get_log_entry c' 3)) ?r
      = Some (True, Some (entry 1 3 ''c''))" by code_simp
  then have ae: "\<exists>out c'. ?r = Some (out, c') \<and> aer_success (hae_result out) \<and> get_log_entry c' 3 = Some (entry 1 3 ''c'')"
    by auto
  have "apply_entry mem_ops (entry 2 3 ''x'') snapshot_node \<noteq> None" by code_simp
  then obtain c' where c': "apply_entry mem_ops (entry 2 3 ''x'') snapshot_node = Some c'" by blast
  have "conflicts (snapshot_last_index snapshot_node) (rlog snapshot_node) (entry 2 3 ''x'')" by code_simp
  then obtain x where "get_log_entry snapshot_node 3 = Some x" "get_log_entry c' 3 = Some x"
    using conflicting_entry_survives [OF _ _ c'] by (auto simp: snapshot_fields entry_def)
  moreover have "get_log_entry snapshot_node 3 = Some (entry 1 3 ''c'')" by code_simp
  ultimately show ?thesis using ae c' by (auto simp: entry_def)
qed

text \<open>
  A follower commits entries that the message did not cover. An accepted message without
  entries raises the commit index to the smaller of the leader's commit index and the follower's own
  last index, whatever the tested previous index is: a stale suffix behind the tested entry is
  committed and applied. The comment in the code speaks of the index of the last new entry.
\<close>

theorem commit_index_ignores_tested_prefix:
  assumes wf: "core_wf c" and st: "storage_total S" and req: "ae_entries req = []"
    and ok: "current_term c \<le> ae_term req" "prev_matches req c" and lc: "commit_index c < leader_commit req"
  shows "\<exists>out c'. handle_append_entries S M now req c = Some (out, c') \<and> aer_success (hae_result out) \<and>
    commit_index c' = max (commit_index c) (min (leader_commit req) (last_log_index c))"
proof -
  obtain d where d: "observe_term S (ae_term req) c = Some d" using observe_term_total [OF st] by blast
  let ?d = "d\<lparr>role := Follower, current_leader := Some (ae_leader_id req), last_heartbeat := now\<rparr>"
  have sl: "same_log c ?d" using observe_term_same_log [OF d] by (simp add: same_log_def)
  have f: "core_wf ?d" "prev_matches req ?d" "last_log_index ?d = last_log_index c" "commit_index ?d = commit_index c"
    using sl same_log_facts [OF sl] wf ok(2) by (auto simp: prev_matches_def same_log_def)
  have nl: "\<not> ae_term req < current_term d" using observe_term_max [OF d] ok(1) by (simp add: max_def)
  note pl = prev_matches_le [OF f(2)]
  have "unat (prev_log_index req) + 1 < u64_bound"
    using pl core_wfD(2) [OF f(1)] by (simp add: word_le_nat_alt)
  then have aok: "append_ok req ?d" using req by (simp add: append_ok_def)
  obtain c' e where acc: "accept_entries S M req ?d = Some c'" "apply_entries S (ae_entries req) ?d = Some e"
    "commit_index c' = max (commit_index ?d) (min (leader_commit req) (last_log_index e))"
    by (rule accept_entries_wf [OF f(1) st aok pl, of M]) blast
  have "last_log_index e = last_log_index ?d" using acc(2) req by auto
  with handle_append_entries_live [OF d nl check_and_append_accept [OF f(2) acc(1)]] acc(3) f
  show ?thesis by simp
qed

text \<open>
  A follower has the entries a (term 1) and b (term 1). The leader of term 2 has a and x (term 2, committed
  at index 2) and sends the message of \<open>confirm_leadership\<close> that tests index 1. The follower commits
  and applies b.
\<close>

definition stale_suffix_node :: test_core where
  "stale_suffix_node = the (core_run mem_ops test_ops
     [AppendEntriesReq 5 (append_msg 1 1 0 0 [entry 1 1 ''a'', entry 1 2 ''b''] 0)] (new_node 2 [1, 3]))"

theorem commit_index_ignores_tested_prefix_witness:
  "\<exists>out c'. handle_append_entries mem_ops test_ops 9 (append_msg 2 3 1 1 [] 2) stale_suffix_node = Some (out, c') \<and>
     commit_index c' = 2 \<and> applied (state_machine c') = [''a'', ''b'']"
proof -
  let ?r = "handle_append_entries mem_ops test_ops 9 (append_msg 2 3 1 1 [] 2) stale_suffix_node"
  have f: "rlog stale_suffix_node = [entry 1 1 ''a'', entry 1 2 ''b'']" "snapshot_last_index stale_suffix_node = 0"
    "last_applied stale_suffix_node = 0" "commit_index stale_suffix_node = 0" "current_term stale_suffix_node = 1"
    "last_log_index stale_suffix_node = 2"
    by code_simp+
  have wf: "core_wf stale_suffix_node" by (rule core_wf_by_fields) (simp_all add: f entry_def u64_bound_gt)
  have pm: "prev_matches (append_msg 2 3 1 1 [] 2) stale_suffix_node" by code_simp
  have "map_option (\<lambda>(out, c'). applied (state_machine c')) ?r = Some [''a'', ''b'']" by code_simp
  with commit_index_ignores_tested_prefix [OF wf mem_storage_total _ _ pm, of test_ops 9] f
  show ?thesis by (auto simp: append_msg_def)
qed

end
