(* ===== verification/Server_Properties.thy ===== *)
theory Server_Properties
  imports Scenarios
begin

text \<open>
  The properties of the node and the server: what its requests say of its log, what an answer to a
  client means, and where the guarantees that clients and peers rely on are lost.
\<close>

section \<open>Requests\<close>

text \<open>
  The heartbeat of a leader describes its log. For a peer whose next index lies behind the
  snapshot and at most one past the end, it carries exactly the entries from that index on, tests
  the entry before it with the term the leader's own log has there, and reports the last index sent
  (0 when nothing is sent).
\<close>

theorem heartbeat_describes_log:
  assumes wf: "core_wf c" and n: "next_in_log c (peer_next_index c p)"
  shows "\<exists>args. heartbeat_request S c p = Some (AppendEntriesRequest args
      (if ae_entries args = [] then 0 else last_log_index c)) \<and>
    prev_log_index args = peer_next_index c p - 1 \<and> prev_matches args c \<and>
    log_from (prev_log_index args) (ae_entries args) \<and>
    ae_entries args = drop (unat (peer_next_index c p) - 1 - unat (snapshot_last_index c)) (rlog c) \<and>
    ae_term args = current_term c \<and> leader_commit args = commit_index c"
proof -
  let ?n = "peer_next_index c p"
  let ?es = "filter (\<lambda>e. ?n \<le> le_index e) (rlog c)"
  have ns: "\<not> ?n \<le> snapshot_last_index c" using n by (auto simp: next_in_log_def)
  have "le_index (last ?es) = last_log_index c" if "?es \<noteq> []"
  proof -
    have d: "?es = drop (unat ?n - 1 - unat (snapshot_last_index c)) (rlog c)" by (rule request_entries(1) [OF wf n])
    with that have "last ?es = last (rlog c)" "rlog c \<noteq> []" by (auto simp: last_drop)
    then show ?thesis by (simp add: last_log_index_def)
  qed
  then have "heartbeat_request S c p = Some (AppendEntriesRequest (append_request c ?n ?es)
      (if ?es = [] then 0 else last_log_index c))"
    using ns by (simp add: heartbeat_request_def Let_def)
  moreover have "prev_matches (append_request c ?n ?es) c" by (rule append_request_prev [OF wf n])
  ultimately show ?thesis
    using request_entries(1,2) [OF wf n] by (simp add: append_request_def)
qed

theorem heartbeat_describes_log_witness:
  "\<exists>args. heartbeat_request mem_ops leader_node 2 = Some (AppendEntriesRequest args 1) \<and>
     ae_entries args = [entry 1 1 ''NOOP'']"
proof -
  have n: "peer_next_index leader_node 2 = 1 \<and> next_in_log leader_node (peer_next_index leader_node 2) \<and>
      last_log_index leader_node = 1" by code_simp
  with heartbeat_describes_log [OF sample_wf(2), of 2 mem_ops] show ?thesis
    by (auto simp: leader_fields)
qed

text \<open>
  C22: \<open>request_votes\<close> makes a node leader only with a majority: when it reports success, the node
  was a candidate of the same term, and the votes it had and the replies that grant one reach the
  majority, whatever requests from other nodes are handled in between.
\<close>

theorem request_votes_majority:
  assumes net: "rpc_network S M N" and won: "request_votes S N c = Some (True, c')"
  shows "role c = Candidate \<and> role c' = Leader \<and> current_term c' = current_term c \<and>
    majority c \<le> length (votes_received c) +
      length (filter (\<lambda>p. grants (vote_reply N p (vote_request (entry_env N c)))) (map fst (arrivals N)))"
proof -
  let ?c = "entry_env N c"
  let ?replies = "map (\<lambda>(p, env). (p, env, vote_reply N p (vote_request ?c))) (arrivals N)"
  have f: "rpc_frame c ?c" using net rpc_env_frame by (auto simp: rpc_network_def)
  have envs: "\<forall>(p, env, _) \<in> set ?replies. rpc_env S M env"
    using net by (fastforce simp: rpc_network_def)
  have "collect_votes S (clock N) ?replies ?c = Some (True, c')"
    using won by (simp add: request_votes_def Let_def)
  from collect_votes_won [OF this envs] f show ?thesis
    by (auto simp: rpc_frame_def majority_def total_nodes_def filter_map comp_def case_prod_beta)
qed

definition quiet_network :: "(u64 \<Rightarrow> append_entries_args \<Rightarrow> (append_entries_result, transport_error) result) \<Rightarrow>
    u64 list \<Rightarrow> (memory_storage, test_sm) network" where
  "quiet_network f ps = \<lparr>vote_reply = \<lambda>p a. Ok (vote_yes (rv_term a)), append_reply = f,
     snapshot_reply = \<lambda>p a. Err ConnectionFailed, entry_env = \<lambda>c. c,
     arrivals = map (\<lambda>p. (p, \<lambda>c. c)) ps, exit_env = \<lambda>c. c, clock = 20\<rparr>"

lemma quiet_network_rpc: "rpc_network S M (quiet_network f ps)"
  by (auto simp: rpc_network_def quiet_network_def rpc_env_id)

theorem request_votes_majority_witness:
  "\<exists>c'. request_votes mem_ops (quiet_network (\<lambda>p a. Err Timeout) [3]) (new_node 1 [2, 3]\<lparr>role := Candidate,
      current_term := 1, votes_received := [1]\<rparr>) = Some (True, c') \<and> role c' = Leader"
proof -
  let ?c = "new_node 1 [2, 3]\<lparr>role := Candidate, current_term := 1, votes_received := [1]\<rparr>"
  have "map_option fst (request_votes mem_ops (quiet_network (\<lambda>p a. Err Timeout) [3]) ?c) = Some True" by code_simp
  then obtain c' where c': "request_votes mem_ops (quiet_network (\<lambda>p a. Err Timeout) [3]) ?c = Some (True, c')" by auto
  from request_votes_majority [OF quiet_network_rpc c'] c' show ?thesis by blast
qed

section \<open>Answers to clients\<close>

text \<open>
  C8: an answer to \<open>submit\<close>, a value or the error of the state machine, is the result of the
  client's own command: the node was leader, the command was valid, it was appended at the end of the
  log, that entry is committed and is the last one applied, and the answer is what applying it
  returned.
\<close>

theorem submit_answer_is_committed:
  assumes "core_wf c" "storage_total S" "unat (last_log_index c) + 2 < u64_bound"
    and "leader_env (entry_env N)" "\<forall>(p, env) \<in> set (arrivals N). leader_env env"
    and "handle_submit S M N command c = Some (out, c')"
    and "out = Ok v \<and> r = Ok v \<or> out = Err (StateMachineError msg) \<and> r = Err msg"
  shows "role c = Leader \<and> sm_validate M (state_machine c) command = Ok () \<and>
    commit_index c' = last_log_index c + 1 \<and> last_applied c' = last_log_index c + 1 \<and>
    role c' = Leader \<and> current_term c' = current_term c \<and>
    (\<exists>m. sm_apply M m command = (state_machine c', r))"
  using handle_submit_answered [OF assms] by (auto simp: answered_def)

text \<open>The network of a leader whose peer 2 runs the handler of the follower \<open>d\<close>; peer 3 is unreachable.\<close>

definition follower_reply :: "u64 \<Rightarrow> test_core \<Rightarrow> u64 \<Rightarrow> append_entries_args \<Rightarrow> (append_entries_result, transport_error) result" where
  "follower_reply q d p args =
     (if p = q then Ok (hae_result (fst (the (handle_append_entries mem_ops test_ops 21 args d)))) else Err ConnectionFailed)"

definition submit_network :: "(memory_storage, test_sm) network" where
  "submit_network = quiet_network (follower_reply 2 (new_node 2 [1, 3])) [2]"

theorem submit_answer_is_committed_witness:
  "\<exists>c'. handle_submit mem_ops test_ops submit_network ''x'' leader_node = Some (Ok '''', c') \<and>
     commit_index c' = 2 \<and> last_applied c' = 2"
proof -
  have "map_option fst (handle_submit mem_ops test_ops submit_network ''x'' leader_node) = Some (Ok '''')" by code_simp
  then obtain c' where c': "handle_submit mem_ops test_ops submit_network ''x'' leader_node = Some (Ok '''', c')" by auto
  have env: "leader_env (entry_env submit_network)" "\<forall>(p, env) \<in> set (arrivals submit_network). leader_env env"
    by (simp_all add: submit_network_def quiet_network_def leader_env_def same_log_def)
  have li: "last_log_index leader_node = 1" by code_simp
  then have "unat (last_log_index leader_node) + 2 < u64_bound" by (simp add: u64_bound_gt)
  from submit_answer_is_committed [OF sample_wf(2) mem_storage_total this env c', of "''''" "Ok ''''"] c' li
  show ?thesis by simp
qed

text \<open>
  C23: a read index is answered only by a leader that a majority confirmed after the request, and only
  after it applied everything that it knew to be committed when the request came.
\<close>

theorem read_index_confirmed:
  assumes "rpc_network S M N" "handle_read_index N env rounds c = (Some (Ok j), c')"
  shows "role c = Leader \<and> role c' = Leader \<and> commit_index c \<le> j \<and> j = last_applied c' \<and>
    majority c \<le> Suc (length (confirm_acks N (entry_env N c)))"
  using handle_read_index_Ok [OF assms] .

theorem read_index_confirmed_witness:
  "\<exists>c'. handle_read_index submit_network (\<lambda>c. c) [(\<lambda>c. c, 0)] leader_node = (Some (Ok 0), c') \<and> role c' = Leader"
proof -
  have "fst (handle_read_index submit_network (\<lambda>c. c) [(\<lambda>c. c, 0)] leader_node) = Some (Ok 0)" by code_simp
  then obtain c' where c': "handle_read_index submit_network (\<lambda>c. c) [(\<lambda>c. c, 0)] leader_node = (Some (Ok 0), c')"
    by (metis prod.collapse)
  have "rpc_network mem_ops test_ops submit_network" unfolding submit_network_def by (rule quiet_network_rpc)
  from read_index_confirmed [OF this c'] c' show ?thesis by blast
qed

text \<open>
  C27: a read request ends. The confirmation of the leadership has no time limit of its own, and the five
  seconds of the wait loop start after it: if every peer answers or fails (the transport's timeout makes a
  silent peer fail) and one round of the loop then sees five seconds elapsed, the request has an answer,
  whatever requests from other nodes are handled in between.
\<close>

theorem read_index_terminates:
  assumes "rpc_network S M N" "set (peers c) \<subseteq> set (map fst (arrivals N))"
    and "\<exists>(env, elapsed) \<in> set rounds. 5000 \<le> elapsed"
  shows "\<exists>r. fst (handle_read_index N env' rounds c) = Some r"
  using assms unfolding read_timeout_def [symmetric] by (rule handle_read_index_terminates)

text \<open>
  A leader that knows an entry to be committed and has not applied it; both peers acknowledge, and the
  first round of the loop gives no answer.
\<close>

definition lagging_leader :: test_core where
  "lagging_leader = leader_node\<lparr>commit_index := 1, last_applied := 0\<rparr>"

definition both_network :: "(memory_storage, test_sm) network" where
  "both_network = quiet_network (follower_reply 2 (new_node 2 [1, 3])) [2, 3]"

theorem read_index_terminates_witness:
  "fst (handle_read_index both_network (\<lambda>c. c) [(\<lambda>c. c, 10)] lagging_leader) = None \<and>
   (\<exists>r. fst (handle_read_index both_network (\<lambda>c. c) [(\<lambda>c. c, 10), (\<lambda>c. c, 5000)] lagging_leader) = Some r)"
proof -
  have "fst (handle_read_index both_network (\<lambda>c. c) [(\<lambda>c. c, 10)] lagging_leader) = None \<and>
      set (peers lagging_leader) \<subseteq> set (map fst (arrivals both_network))" by code_simp
  moreover have "rpc_network mem_ops test_ops both_network" unfolding both_network_def by (rule quiet_network_rpc)
  ultimately show ?thesis
    using read_index_terminates [of mem_ops test_ops both_network lagging_leader "[(\<lambda>c. c, 10), (\<lambda>c. c, 5000)]"] by simp
qed

text \<open>Operations during which no other task touches the core.\<close>

definition undisturbed :: "('s, 'm) network \<Rightarrow> bool" where
  "undisturbed N \<longleftrightarrow> entry_env N = (\<lambda>c. c) \<and> exit_env N = (\<lambda>c. c) \<and> (\<forall>(p, env) \<in> set (arrivals N). env = (\<lambda>c. c))"

lemma collect_confirm_undisturbed:
  assumes "\<forall>(env, _) \<in> set replies. env = (\<lambda>c. c)" "collect_confirm need replies n c = (lost, m, c')"
  shows "if lost then \<exists>t > current_term c. c' = adopt_term_in_memory t c else c' = c"
  using assms
proof (induction need replies n c rule: collect_confirm.induct)
  case (2 need env result rest n c)
  have env: "env c = c" and rest: "\<forall>(env, _) \<in> set rest. env = (\<lambda>c. c)" using 2(3) by simp_all
  show ?case
  proof (cases result)
    case (Inl e)
    show ?thesis
    proof (cases "n \<ge> need")
      case False
      show ?thesis by (rule 2(1) [OF Inl False rest]) (use 2(4) Inl False in simp)
    qed (use 2(4) Inl in auto)
  next
    case (Inr r)
    show ?thesis
    proof (cases "aer_term r > current_term c \<or> (if aer_success r then n + 1 else n) \<ge> need")
      case True
      then show ?thesis using 2(4) Inr env by (auto simp: Let_def split: if_splits)
    next
      case False
      then have more: "\<not> aer_term r > current_term (env c)" "\<not> (if aer_success r then n + 1 else n) \<ge> need"
        using env by auto
      have "if lost then \<exists>t > current_term (env c). c' = adopt_term_in_memory t (env c) else c' = env c"
        by (rule 2(2) [OF Inr refl more(1) refl more(2) rest]) (use 2(4) Inr more in \<open>simp add: Let_def\<close>)
      then show ?thesis unfolding env .
    qed
  qed
qed auto

lemma confirm_undisturbed:
  assumes "undisturbed N" "role c = Leader" "confirm_leadership N c = (Some (still, k), c')"
  shows "if still then c' = c else \<exists>t > current_term c. c' = adopt_term_in_memory t c"
proof -
  let ?replies = "map (\<lambda>(p, env). (env, append_reply N p (confirm_request c p))) (arrivals N)"
  obtain lost n e where e: "collect_confirm ((length (peers c) + 1) div 2) ?replies 0 c = (lost, n, e)" by (rule prod_cases3)
  have "\<forall>(env, _) \<in> set ?replies. env = (\<lambda>c. c)" using assms(1) by (auto simp: undisturbed_def)
  from collect_confirm_undisturbed [OF this e]
  have d: "if lost then \<exists>t > current_term c. e = adopt_term_in_memory t c else e = c" .
  show ?thesis
    using assms e d by (cases lost) (auto simp: confirm_leadership_def undisturbed_def Let_def split: if_splits)
qed

section \<open>Where the code departs from Raft\<close>

text \<open>
  C33: a read may miss an answered write. \<open>handle_read_index\<close> takes the commit index as it is and does not
  wait for an entry of the leader's own term to be committed. A write was answered by the leader \<open>d\<close>; any later
  leader \<open>c\<close> that has the entry of the write in its log, does not yet know it to be committed, and is
  confirmed by a majority, answers a read at once, at an index below the committed write and from a state
  machine to which the write was not applied.
\<close>

theorem stale_read_after_answered_write:
  assumes "core_wf d" "storage_total S" "unat (last_log_index d) + 2 < u64_bound"
    and "leader_env (entry_env N)" "\<forall>(p, env) \<in> set (arrivals N). leader_env env"
    and wrote: "handle_submit S M N command d = Some (Ok v, d')"
    and later: "role c = Leader" "current_term d < current_term c" "last_applied c = commit_index c"
      "get_log_entry c (last_log_index d + 1)
         = Some \<lparr>le_term = current_term d, le_index = last_log_index d + 1, le_command = command\<rparr>"
      "commit_index c < last_log_index d + 1"
    and confirmed: "undisturbed R" "confirm_leadership R c = (Some (True, k), c')" "majority c \<le> Suc k"
  shows "commit_index d' = last_log_index d + 1 \<and> (\<exists>m. sm_apply M m command = (state_machine d', Ok v)) \<and>
    handle_read_index R env ((\<lambda>c. c, t) # rounds) c = (Some (Ok (commit_index c)), c) \<and>
    commit_index c < commit_index d' \<and>
    (\<exists>e. get_log_entry c (commit_index d') = Some e \<and> le_command e = command \<and> le_term e < current_term c)"
proof -
  have w: "commit_index d' = last_log_index d + 1" "\<exists>m. sm_apply M m command = (state_machine d', Ok v)"
    using handle_submit_answered [OF assms(1-6), of v "Ok v"] by (auto simp: answered_def)
  have "c' = c" using confirm_undisturbed [OF confirmed(1) later(1) confirmed(2)] by simp
  then have "handle_read_index R env ((\<lambda>c. c, t) # rounds) c = (Some (Ok (commit_index c)), c)"
    using confirmed(2,3) later(1,3) by (simp add: handle_read_index_def Let_def majority_def total_nodes_def)
  with w later show ?thesis by simp
qed

text \<open>
  Node 1 leads term 1 and answers the write x with the acknowledgement of node 2. Node 1 stops; node 2 is
  elected by node 3 in term 2; its first heartbeat is rejected by the empty log of node 3, so it has
  committed nothing in its term. A read is then confirmed by node 3.
\<close>

definition after_write :: test_core where
  "after_write = snd (the (handle_append_entries mem_ops test_ops 21
     (replicate_request 2 (snd (the (append_log_entry mem_ops ''x'' leader_node))) 2) (new_node 2 [1, 3])))"

definition second_leader :: test_core where
  "second_leader = the (core_run mem_ops test_ops [ElectionStart 30, RequestVoteRes 31 3 (vote_yes 2)] after_write)"

definition third_node :: test_core where
  "third_node = the (core_run mem_ops test_ops [RequestVoteReq (vote_request (second_leader\<lparr>role := Candidate, rlog := rlog after_write\<rparr>))]
     (new_node 3 [1, 2]))"

definition read_network :: "(memory_storage, test_sm) network" where
  "read_network = quiet_network (follower_reply 3 third_node) [3]"

definition first_heartbeat :: test_core where
  "first_heartbeat = snd (the (send_heartbeat mem_ops test_ops read_network second_leader))"

theorem stale_read_after_answered_write_witness:
  "\<exists>d'. handle_submit mem_ops test_ops submit_network ''x'' leader_node = Some (Ok '''', d') \<and> commit_index d' = 2 \<and>
     voted_for third_node = Some 2 \<and> map le_command (rlog first_heartbeat) = [''NOOP'', ''x'', ''NOOP''] \<and>
     handle_read_index read_network (\<lambda>c. c) [(\<lambda>c. c, 0)] first_heartbeat = (Some (Ok 0), first_heartbeat) \<and>
     applied (state_machine first_heartbeat) = []"
proof -
  have "map_option fst (handle_submit mem_ops test_ops submit_network ''x'' leader_node) = Some (Ok '''')" by code_simp
  then obtain d' where d': "handle_submit mem_ops test_ops submit_network ''x'' leader_node = Some (Ok '''', d')" by auto
  have env: "leader_env (entry_env submit_network)" "\<forall>(p, env) \<in> set (arrivals submit_network). leader_env env"
    by (simp_all add: submit_network_def quiet_network_def leader_env_def same_log_def)
  have und: "undisturbed read_network" by (simp add: read_network_def quiet_network_def undisturbed_def)
  have li: "last_log_index leader_node = 1" and tm: "current_term leader_node = 1" by code_simp+
  have room: "unat (last_log_index leader_node) + 2 < u64_bound" using li by (simp add: u64_bound_gt)
  have f: "role first_heartbeat = Leader" "current_term first_heartbeat = 2" "last_applied first_heartbeat = 0"
    "commit_index first_heartbeat = 0" "get_log_entry first_heartbeat 2 = Some (entry 1 2 ''x'')"
    "map le_command (rlog first_heartbeat) = [''NOOP'', ''x'', ''NOOP'']" "applied (state_machine first_heartbeat) = []"
    "majority first_heartbeat = 2" "voted_for third_node = Some 2"
    by code_simp+
  have "fst (confirm_leadership read_network first_heartbeat) = Some (True, 1)" by code_simp
  then obtain c' where c': "confirm_leadership read_network first_heartbeat = (Some (True, 1), c')"
    by (metis prod.collapse)
  from stale_read_after_answered_write [OF sample_wf(2) mem_storage_total room env d' f(1) _ _ _ _ und c',
      of "\<lambda>c. c" 0 "[]"] d' f li tm
  show ?thesis by (simp add: entry_def)
qed

text \<open>
  C34: two votes in one term. \<open>confirm_leadership\<close> takes over the higher term of a reply in memory only. The
  leader that met term \<open>t\<close> there grants its vote of term \<open>t\<close> to one candidate and saves the vote but not the
  term; after a crash it is back in its old term, and it grants the vote of term \<open>t\<close> a second time to
  any other candidate whose log is up to date. This holds for every storage that keeps the contract.
\<close>

theorem double_vote_after_restart:
  assumes S: "vote_storage S" "storage_total S"
    and leader: "role c = Leader" "vote_persisted S c"
    and met: "undisturbed N" "confirm_leadership N c = (Some (False, k), a)"
    and first: "rv_term req = current_term a" "handle_request_vote S req a = Some (reply, b)" "vote_granted reply"
    and restart: "raft_core_new S M now i ps (storage b) m = Some n"
    and second: "rv_term req' = current_term a" "rv_candidate_id req' \<noteq> rv_candidate_id req"
      "is_log_up_to_date n (rv_last_log_term req') (rv_last_log_index req')"
  shows "current_term n = current_term c \<and> current_term c < current_term a \<and>
    rvr_term reply = current_term a \<and> voted_for b = Some (rv_candidate_id req) \<and>
    (\<exists>reply' n'. handle_request_vote S req' n = Some (reply', n') \<and> vote_granted reply' \<and>
       rvr_term reply' = current_term a \<and> voted_for n' = Some (rv_candidate_id req') \<and> voted_for n' \<noteq> voted_for b)"
proof -
  obtain t where t: "current_term c < t" "a = adopt_term_in_memory t c"
    using confirm_undisturbed [OF met(1) leader(1) met(2)] by auto
  have same: "\<not> rv_term req < current_term a" "\<not> current_term a < rv_term req" using first(1) by simp_all
  then obtain s where b: "save_voted_for S (storage c) (Some (rv_candidate_id req)) = Ok s" "storage b = s"
    "voted_for b = Some (rv_candidate_id req)" "rvr_term reply = current_term a"
    using first(2,3) t by (auto simp: handle_request_vote_def set_voted_for_def adopt_term_in_memory_def bind_eq_Some_conv
        split: if_splits)
  have "load_term S s = load_term S (storage c)" by (rule vote_storage.save_vote_term [OF S(1) b(1)])
  then have n: "current_term n = current_term c"
    using restart b(2) leader(2) by (auto simp: raft_core_new_def bind_eq_Some_conv vote_persisted_def)
  have up: "is_log_up_to_date (n\<lparr>current_term := x, voted_for := v, storage := s, role := q\<rparr>) y z = is_log_up_to_date n y z"
    for x v s q y z by (simp add: is_log_up_to_date_def last_log_term_def last_log_index_def Let_def)
  obtain s1 where s1: "save_term S (storage n) (rv_term req') = Ok s1" using storage_totalD(1) [OF S(2)] by blast
  obtain s2 where s2: "save_voted_for S s1 None = Ok s2" using storage_totalD(2) [OF S(2)] by blast
  obtain s3 where s3: "save_voted_for S s2 (Some (rv_candidate_id req')) = Ok s3" using storage_totalD(2) [OF S(2)] by blast
  have "current_term n < rv_term req'" using n t second(1) by (simp add: adopt_term_in_memory_def)
  then show ?thesis
    using n t b second s1 s2 s3 up
    by (auto simp: handle_request_vote_def update_term_def set_term_def set_voted_for_def adopt_term_in_memory_def)
qed

text \<open>The leader of term 1 meets term 5, votes for node 2, restarts, and votes for node 3.\<close>

definition term_five_network :: "(memory_storage, test_sm) network" where
  "term_five_network = quiet_network
     (\<lambda>p a. Ok \<lparr>aer_term = 5, aer_success = False, conflict_term = None, conflict_index = None\<rparr>) [2]"

definition adopted_node :: test_core where
  "adopted_node = snd (confirm_leadership term_five_network leader_node)"

definition first_vote :: "(request_vote_result \<times> test_core) option" where
  "first_vote = handle_request_vote mem_ops (vote_msg 5 2 9 9) adopted_node"

definition restarted_node :: test_core where
  "restarted_node = the (raft_core_new mem_ops test_ops 50 1 [2, 3] (storage (snd (the first_vote))) tsm_new)"

theorem double_vote_after_restart_witness:
  "map_option fst first_vote = Some (vote_yes 5) \<and> current_term restarted_node = 1 \<and>
   (\<exists>reply n'. handle_request_vote mem_ops (vote_msg 5 3 9 9) restarted_node = Some (reply, n') \<and> vote_granted reply \<and>
      rvr_term reply = 5 \<and> voted_for n' = Some 3)"
proof -
  have f: "map_option fst first_vote = Some (vote_yes 5)" "current_term adopted_node = 5" "role leader_node = Leader"
    "fst (confirm_leadership term_five_network leader_node) = Some (False, 0)" "current_term leader_node = 1"
    "ms_term (storage leader_node) = 1" "ms_voted_for (storage leader_node) = voted_for leader_node"
    "is_log_up_to_date restarted_node 9 9"
    by code_simp+
  have pers: "vote_persisted mem_ops leader_node" using f by (simp add: vote_persisted_def mem_defs)
  have und: "undisturbed term_five_network" by (simp add: term_five_network_def quiet_network_def undisturbed_def)
  have conf: "confirm_leadership term_five_network leader_node = (Some (False, 0), adopted_node)"
    using f(4) by (simp add: adopted_node_def prod_eq_iff)
  obtain b where b: "handle_request_vote mem_ops (vote_msg 5 2 9 9) adopted_node = Some (vote_yes 5, b)"
    using f(1) by (auto simp: first_vote_def)
  have "raft_core_new mem_ops test_ops 50 1 [2, 3] (storage b) tsm_new \<noteq> None"
  proof -
    have "raft_core_new mem_ops test_ops 50 1 [2, 3] (storage (snd (the first_vote))) tsm_new \<noteq> None" by code_simp
    then show ?thesis using b by (simp add: first_vote_def)
  qed
  then have n: "raft_core_new mem_ops test_ops 50 1 [2, 3] (storage b) tsm_new = Some restarted_node"
    using b by (simp add: restarted_node_def first_vote_def)
  have g: "rv_term (vote_msg 5 2 9 9) = current_term adopted_node" "vote_granted (vote_yes 5)"
    "rv_term (vote_msg 5 3 9 9) = current_term adopted_node" "rv_candidate_id (vote_msg 5 3 9 9) \<noteq> rv_candidate_id (vote_msg 5 2 9 9)"
    "is_log_up_to_date restarted_node (rv_last_log_term (vote_msg 5 3 9 9)) (rv_last_log_index (vote_msg 5 3 9 9))"
    using f by (simp_all add: vote_msg_def vote_yes_def)
  from double_vote_after_restart [OF mem_vote.vote_storage_axioms mem_storage_total f(3) pers und conf g(1) b g(2) n g(3-5)]
    f(1,2,5) show ?thesis by (auto simp: vote_msg_def)
qed

text \<open>
  A leader with a snapshot at index 2 and one entry behind it replicates a new entry to a peer with an
  empty log, whose next index is 1.
\<close>

definition compacted_leader :: test_core where
  "compacted_leader = snapshot_node\<lparr>node_id := 1, peers := [2, 3], role := Leader, next_index := [(2, 5), (3, 1)]\<rparr>"

definition gapped_request :: append_entries_args where
  "gapped_request = replicate_request 4 (compacted_leader\<lparr>commit_index := 4, last_applied := 4\<rparr>) 3"

text \<open>
  Replication to a peer behind the snapshot breaks the peer. \<open>replicate_to_peers\<close> does not test,
  as \<open>send_heartbeat\<close> does, whether the peer needs the snapshot: its request tests index 0, which every
  follower accepts, and carries entries that start behind the snapshot. An empty follower stores them
  at the wrong positions and panics when it applies them.
\<close>

theorem gapped_replication_panics:
  "prev_log_index gapped_request = 0 \<and> map le_index (ae_entries gapped_request) = [3, 4] \<and>
   (\<exists>args. heartbeat_request mem_ops compacted_leader 3 = Some (InstallSnapshotRequest args)) \<and>
   handle_append_entries mem_ops test_ops 9 gapped_request (new_node 3 [1, 2]) = None \<and>
   map_option (\<lambda>c. map_option le_index (get_log_entry c 1)) (apply_entries mem_ops (ae_entries gapped_request) (new_node 3 [1, 2]))
     = Some (Some 3)"
proof -
  have "(case heartbeat_request mem_ops compacted_leader 3 of Some (InstallSnapshotRequest args) \<Rightarrow> True | _ \<Rightarrow> False)"
    by code_simp
  then have hb: "\<exists>args. heartbeat_request mem_ops compacted_leader 3 = Some (InstallSnapshotRequest args)"
    by (auto split: option.splits node_request.splits)
  have "prev_log_index gapped_request = 0 \<and> map le_index (ae_entries gapped_request) = [3, 4] \<and>
   handle_append_entries mem_ops test_ops 9 gapped_request (new_node 3 [1, 2]) = None \<and>
   map_option (\<lambda>c. map_option le_index (get_log_entry c 1)) (apply_entries mem_ops (ae_entries gapped_request) (new_node 3 [1, 2]))
     = Some (Some 3)"
    by (intro conjI; code_simp)
  with hb show ?thesis by blast
qed

end
