(* ===== verification/Crash_Properties.thy ===== *)
theory Crash_Properties
  imports Scenarios
begin

text \<open>Crashes between two writes to the storage that belong together.\<close>

text \<open>
  C32: a crash between the two writes of a snapshot breaks the log. \<open>take_snapshot\<close> saves the snapshot and then
  compacts the log; a node that stops in between restarts with the snapshot's position in front of the whole
  old log, so that it finds its entry 1 where the entry behind the snapshot should be.
\<close>

theorem crash_before_compaction:
  assumes wf: "core_wf c" and S: "log_storage S ok" and disk: "load_log S (storage c) = Ok (rlog c)"
    and first: "snapshot_last_index c = 0" "0 < last_applied c"
    and save: "save_snapshot S (storage c) \<lparr>metadata = \<lparr>last_included_index = last_applied c,
        last_included_term = t\<rparr>, snapshot_data = d\<rparr> = Ok s"
    and new: "raft_core_new S M now i ps s m = Some n"
  shows "rlog n = rlog c \<and> snapshot_last_index n = last_applied c \<and> \<not> core_wf n \<and>
    (\<exists>e. get_log_entry n (last_applied c + 1) = Some e \<and> le_index e = 1)"
proof -
  note w = core_wfD [OF wf]
  have l0: "log_from 0 (rlog c)" using w(1) first by (simp add: log_ok_def)
  have "load_log S s = Ok (rlog c)" "st_load_snapshot S s = Ok (Some \<lparr>metadata = \<lparr>last_included_index = last_applied c,
        last_included_term = t\<rparr>, snapshot_data = d\<rparr>)"
    using log_storage.save_snapshot_log [OF S save] log_storage.save_snapshot [OF S save] disk by simp_all
  then have n: "rlog n = rlog c" "snapshot_last_index n = last_applied c"
    using new by (auto simp: raft_core_new_def bind_eq_Some_conv)
  have "0 < length (rlog c)"
    using w first unat_last_log_index [OF w(1)] by (auto simp: word_le_nat_alt word_less_nat_alt)
  then have head: "unat (le_index (rlog c ! 0)) = 1" using log_from_nth [OF l0, of 0] by simp
  then have one: "le_index (rlog c ! 0) = 1" by (metis unsigned_1 word_unat_eq_iff)
  have "\<not> log_from (last_applied c) (rlog c)"
    using log_from_nth [of "last_applied c" "rlog c" 0] head first \<open>0 < length (rlog c)\<close>
    by (auto simp: word_less_nat_alt)
  then have "\<not> core_wf n" using n by (simp add: core_wf_def log_ok_def)
  moreover have "unat (last_applied c) + 1 < u64_bound"
    using w(2,4,5) by (simp add: word_le_nat_alt)
  then have "last_applied c < last_applied c + 1" by (simp add: word_less_nat_alt u64_succ)
  then have "get_log_entry n (last_applied c + 1) = Some (rlog c ! 0)"
    using n \<open>0 < length (rlog c)\<close> by (simp add: get_log_entry_def Let_def)
  ultimately show ?thesis using n one by blast
qed

theorem crash_before_compaction_witness:
  "\<exists>s n. save_snapshot mem_ops (storage follower_node) \<lparr>metadata = \<lparr>last_included_index = 1, last_included_term = 1\<rparr>,
        snapshot_data = []\<rparr> = Ok s \<and>
     raft_core_new mem_ops test_ops 9 2 [1, 3] s tsm_new = Some n \<and> \<not> core_wf n"
proof -
  let ?sn = "\<lparr>metadata = \<lparr>last_included_index = last_applied follower_node, last_included_term = 1\<rparr>, snapshot_data = []\<rparr>"
  obtain s where s: "save_snapshot mem_ops (storage follower_node) ?sn = Ok s"
    and f: "ms_snapshot s = Some ?sn" "ms_log s = ms_log (storage follower_node)"
    by (simp add: mem_save_snapshot_def)
  have disk: "load_log mem_ops (storage follower_node) = Ok (rlog follower_node)"
  proof -
    have "ms_log (storage follower_node) = rlog follower_node" by code_simp
    then show ?thesis by (simp add: mem_load_log_def)
  qed
  have "sm_restore test_ops tsm_new [] = Ok \<lparr>applied = []\<rparr>" by code_simp
  then obtain n where n: "raft_core_new mem_ops test_ops 9 2 [1, 3] s tsm_new = Some n"
    using f by (simp add: raft_core_new_def mem_defs)
  have "0 < last_applied follower_node" by (simp add: follower_fields)
  from crash_before_compaction [OF sample_wf(1) mem_log.log_storage_axioms disk follower_fields(2) this s n]
  show ?thesis using s n by (auto simp: follower_fields)
qed

end
