(* ===== verification/Log_Cluster.thy ===== *)
theory Log_Cluster
  imports Cluster Raft_Invariant
begin

text \<open>
  Several nodes with the vote and the AppendEntries messages between them, over the handlers of the
  core and the requests of the node. The network loses, delays, duplicates and reorders messages:
  what was sent stays in \<open>appends\<close> and may be delivered at any time, any number of times, or never.
  The theory shows log matching: two logs that agree on the term of one entry agree on every entry
  up to it.

  The runs are those in which no node takes or installs a snapshot; a node restarts with the term,
  the vote and the log it had (the storage holds them).
\<close>

section \<open>The transition function\<close>

text \<open>
  A message is kept with its destination and the entry index that the sender passes to
  \<open>handle_append_entries_result\<close> for it, \<open>None\<close> where it does not call that handler
  (\<open>confirm_leadership\<close>). \<open>made\<close> records every entry that a leader created, with the term of the
  entry before it.
\<close>

record ('s, 'm) log_cluster =
  elections :: "('s, 'm) cluster"
  appends :: "(u64 \<times> u64 option \<times> append_entries_args) list"
  append_replies :: "(u64 \<times> u64 \<times> append_entries_args \<times> append_entries_result) list"
  made :: "(log_entry \<times> u64) list"

datatype 'm log_event =
    Election "'m cluster_event"
  | Submit u64 string
  | Heartbeat u64 u64
  | Replicate u64 u64 u64
  | Confirm u64 u64
  | Deliver u64 instant "u64 option" append_entries_args
  | Acknowledge u64 u64 append_entries_args append_entries_result

abbreviation node :: "('s, 'm) log_cluster \<Rightarrow> u64 \<Rightarrow> ('s, 'm) raft_core" where
  "node lc p \<equiv> nodes (elections lc) p"

fun cluster_actor :: "'m cluster_event \<Rightarrow> u64" where
  "cluster_actor (Elect p now) = p"
| "cluster_actor (Ask p) = p"
| "cluster_actor (Answer q req) = q"
| "cluster_actor (Count p now q r) = p"
| "cluster_actor (Local p ev) = p"
| "cluster_actor (AdoptTerm p t) = p"
| "cluster_actor (Restart p now m) = p"

fun log_actor :: "'m log_event \<Rightarrow> u64" where
  "log_actor (Election ev) = cluster_actor ev"
| "log_actor (Submit p cmd) = p"
| "log_actor (Heartbeat p q) = p"
| "log_actor (Replicate p i q) = p"
| "log_actor (Confirm p q) = p"
| "log_actor (Deliver q now i req) = q"
| "log_actor (Acknowledge q i req r) = ae_leader_id req"

text \<open>The events of the core that take part neither in an election nor in the replication of the log.\<close>

fun is_internal :: "core_event \<Rightarrow> bool" where
  "is_internal (InstallSnapshotReq now args) = True"
| "is_internal ApplyCommitted = True"
| "is_internal TakeSnapshot = True"
| "is_internal _ = False"

text \<open>
  When an event can happen. A log is never so long that its next index wraps around. A reply reaches
  a leader in the term of its request only: the loop of the server waits for the replies before it
  can start an election.
\<close>

definition log_room :: "('s, 'm) raft_core \<Rightarrow> bool" where
  "log_room c \<longleftrightarrow> last_log_index c < -2"

lemma log_room_iff: "log_room c \<longleftrightarrow> unat (last_log_index c) + 2 < u64_bound"
proof -
  have "uint (-2 :: u64) = 18446744073709551614" by code_simp
  then have "unat (-2 :: u64) = u64_bound - 2" by (simp add: u64_bound_def unat_eq_nat_uint del: uint_sint)
  then show ?thesis by (auto simp: log_room_def word_less_nat_alt u64_bound_def)
qed

fun log_guard :: "'s storage_ops \<Rightarrow> 'm log_event \<Rightarrow> ('s, 'm) log_cluster \<Rightarrow> bool" where
  "log_guard S (Election (Local p ev)) lc = is_internal ev"
| "log_guard S (Election (Restart p now m)) lc = (load_log S (storage (node lc p)) = Ok (rlog (node lc p)))"
| "log_guard S (Election (Count p now q r)) lc = log_room (node lc p)"
| "log_guard S (Election ev) lc = True"
| "log_guard S (Submit p cmd) lc = log_room (node lc p)"
| "log_guard S (Heartbeat p q) lc = (role (node lc p) = Leader)"
| "log_guard S (Replicate p i q) lc = True"
| "log_guard S (Confirm p q) lc = (role (node lc p) = Leader)"
| "log_guard S (Deliver q now i req) lc = ((q, i, req) \<in> set (appends lc))"
| "log_guard S (Acknowledge q i req r) lc =
     ((q, i, req, r) \<in> set (append_replies lc) \<and>
      (role (node lc (ae_leader_id req)) = Leader \<longrightarrow> ae_term req = current_term (node lc (ae_leader_id req))))"

definition prev_term :: "log_entry list \<Rightarrow> u64" where
  "prev_term l = (if l = [] then 0 else le_term (last l))"

definition note_made :: "log_entry list \<Rightarrow> log_entry list \<Rightarrow> (log_entry \<times> u64) list \<Rightarrow> (log_entry \<times> u64) list" where
  "note_made l l' g = (if length l' = length l + 1 then (last l', prev_term l) # g else g)"

definition send_append ::
  "u64 \<Rightarrow> u64 option \<Rightarrow> append_entries_args \<Rightarrow> ('s, 'm) log_cluster \<Rightarrow> ('s, 'm) log_cluster" where
  "send_append q i req lc = lc\<lparr>appends := (q, i, req) # appends lc\<rparr>"

definition set_node :: "u64 \<Rightarrow> ('s, 'm) raft_core \<Rightarrow> ('s, 'm) log_cluster \<Rightarrow> ('s, 'm) log_cluster" where
  "set_node p c lc = lc\<lparr>elections := put_node p c (elections lc)\<rparr>"

fun log_effect ::
  "'s storage_ops \<Rightarrow> 'm sm_ops \<Rightarrow> 'm log_event \<Rightarrow> ('s, 'm) log_cluster \<Rightarrow> ('s, 'm) log_cluster option" where
  "log_effect S M (Election ev) lc =
     do {
       cl \<leftarrow> cluster_step S M ev (elections lc);
       let p = cluster_actor ev;
       Some (lc\<lparr>elections := cl, made := note_made (rlog (node lc p)) (rlog (nodes cl p)) (made lc)\<rparr>)
     }"
| "log_effect S M (Submit p cmd) lc =
     do {
       (_, c) \<leftarrow> append_log_entry S cmd (node lc p);
       Some ((set_node p c lc)\<lparr>made := note_made (rlog (node lc p)) (rlog c) (made lc)\<rparr>)
     }"
| "log_effect S M (Heartbeat p q) lc =
     (case heartbeat_request S (node lc p) q of
        Some (AppendEntriesRequest req i) \<Rightarrow> Some (send_append q (Some i) req lc)
      | _ \<Rightarrow> None)"
| "log_effect S M (Replicate p i q) lc = Some (send_append q (Some i) (replicate_request i (node lc p) q) lc)"
| "log_effect S M (Confirm p q) lc = Some (send_append q None (confirm_request (node lc p) q) lc)"
| "log_effect S M (Deliver q now i req) lc =
     do {
       (out, c) \<leftarrow> handle_append_entries S M now req (node lc q);
       let lc = set_node q c lc;
       Some (case i of None \<Rightarrow> lc
             | Some i \<Rightarrow> lc\<lparr>append_replies := (q, i, req, hae_result out) # append_replies lc\<rparr>)
     }"
| "log_effect S M (Acknowledge q i req r) lc =
     do {
       (_, c) \<leftarrow> handle_append_entries_result S M q i r (node lc (ae_leader_id req));
       Some (set_node (ae_leader_id req) c lc)
     }"

text \<open>A step is refused when it leaves a snapshot behind.\<close>

definition log_step ::
  "'s storage_ops \<Rightarrow> 'm sm_ops \<Rightarrow> 'm log_event \<Rightarrow> ('s, 'm) log_cluster \<Rightarrow> ('s, 'm) log_cluster option" where
  "log_step S M ev lc =
     (if log_guard S ev lc
      then do {
        lc \<leftarrow> log_effect S M ev lc;
        if snapshot_last_index (node lc (log_actor ev)) = 0 then Some lc else None
      }
      else None)"

fun log_run ::
  "'s storage_ops \<Rightarrow> 'm sm_ops \<Rightarrow> 'm log_event list \<Rightarrow> ('s, 'm) log_cluster \<Rightarrow> ('s, 'm) log_cluster option" where
  "log_run S M [] lc = Some lc"
| "log_run S M (ev # evs) lc = do { lc \<leftarrow> log_step S M ev lc; log_run S M evs lc }"

definition initial_log_cluster :: "(u64 \<Rightarrow> ('s, 'm) raft_core) \<Rightarrow> ('s, 'm) log_cluster" where
  "initial_log_cluster f = \<lparr>elections = initial_cluster f, appends = [], append_replies = [], made = []\<rparr>"

text \<open>A node as the cluster starts: a follower with an empty log.\<close>

definition fresh_node :: "u64 set \<Rightarrow> u64 \<Rightarrow> ('s, 'm) raft_core \<Rightarrow> bool" where
  "fresh_node U p c \<longleftrightarrow>
     configured U p c \<and> role c = Follower \<and> rlog c = [] \<and> snapshot_last_index c = 0 \<and> snapshot_last_term c = 0 \<and>
     commit_index c = 0 \<and> last_applied c = 0 \<and> match_index c = []"

inductive reachable ::
  "'s storage_ops \<Rightarrow> 'm sm_ops \<Rightarrow> u64 set \<Rightarrow> ('s, 'm) log_cluster \<Rightarrow> bool"
  for S :: "'s storage_ops" and M :: "'m sm_ops" and U :: "u64 set" where
  reachable_init: "\<forall>p \<in> U. fresh_node U p (f p) \<Longrightarrow> reachable S M U (initial_log_cluster f)"
| reachable_step: "reachable S M U lc \<Longrightarrow> log_actor ev \<in> U \<Longrightarrow> log_step S M ev lc = Some lc' \<Longrightarrow> reachable S M U lc'"

lemma reachable_run:
  assumes "reachable S M U lc" "\<forall>ev \<in> set evs. log_actor ev \<in> U" "log_run S M evs lc = Some lc'"
  shows "reachable S M U lc'"
  using assms
proof (induction evs arbitrary: lc)
  case (Cons ev evs)
  from Cons.prems(3) obtain lc1 where "log_step S M ev lc = Some lc1" "log_run S M evs lc1 = Some lc'"
    by (auto simp: bind_eq_Some_conv)
  with Cons show ?case by (auto intro: reachable_step)
qed simp

section \<open>Chains\<close>

text \<open>
  A log is a chain over \<open>made\<close>: every entry was created by a leader, behind an entry of the term
  that the entry before it has.
\<close>

fun chain :: "(log_entry \<times> u64) list \<Rightarrow> u64 \<Rightarrow> log_entry list \<Rightarrow> bool" where
  "chain g t [] = True"
| "chain g t (e # es) = ((e, t) \<in> set g \<and> chain g (le_term e) es)"

definition made_once :: "(log_entry \<times> u64) list \<Rightarrow> bool" where
  "made_once g \<longleftrightarrow>
     (\<forall>e t e' t'. (e, t) \<in> set g \<longrightarrow> (e', t') \<in> set g \<longrightarrow>
        le_term e = le_term e' \<longrightarrow> le_index e = le_index e' \<longrightarrow> e = e' \<and> t = t')"

lemma chain_mono: "chain g t l \<Longrightarrow> set g \<subseteq> set g' \<Longrightarrow> chain g' t l"
  by (induction l arbitrary: t) auto

lemma chain_append: "chain g t (xs @ ys) \<longleftrightarrow> chain g t xs \<and> chain g (if xs = [] then t else le_term (last xs)) ys"
  by (induction xs arbitrary: t) auto

lemma chain_take: "chain g t l \<Longrightarrow> chain g t (take n l)"
  by (metis append_take_drop_id chain_append)

lemma chain_nth:
  assumes "chain g t l" "k < length l"
  shows "(l ! k, if k = 0 then t else le_term (l ! (k - 1))) \<in> set g"
  using assms
proof (induction l arbitrary: t k)
  case (Cons e l)
  show ?case
  proof (cases k)
    case (Suc j)
    with Cons.IH [of "le_term e" j] Cons.prems show ?thesis by (cases j) auto
  qed (use Cons.prems in simp)
qed simp

lemma chain_member: "chain g t l \<Longrightarrow> e \<in> set l \<Longrightarrow> \<exists>t. (e, t) \<in> set g"
  by (induction l arbitrary: t) auto

lemma chain_drop:
  assumes "chain g t l" "k \<le> length l"
  shows "chain g (if k = 0 then t else le_term (l ! (k - 1))) (drop k l)"
proof -
  have "chain g t (take k l @ drop k l)" using assms(1) by simp
  then show ?thesis
    using assms(2) unfolding chain_append by (cases k) (auto simp: take_Suc_conv_app_nth split: if_splits)
qed

lemma made_onceD:
  assumes "made_once g" "(e, t) \<in> set g" "(e', t') \<in> set g" "le_term e = le_term e'" "le_index e = le_index e'"
  shows "e = e'" "t = t'"
  using assms unfolding made_once_def by blast+

lemma made_once_Cons:
  assumes "made_once g" "\<forall>(e', t') \<in> set g. le_term e' = le_term e \<longrightarrow> le_index e' \<noteq> le_index e"
  shows "made_once ((e, t) # g)"
  unfolding made_once_def
proof (intro allI impI)
  fix x s y u
  assume xy: "(x, s) \<in> set ((e, t) # g)" "(y, u) \<in> set ((e, t) # g)" "le_term x = le_term y" "le_index x = le_index y"
  then consider "(x, s) = (e, t) \<and> (y, u) = (e, t)" | "(x, s) \<in> set g" "(y, u) \<in> set g"
    | "(x, s) \<in> set g" "y = e" | "(y, u) \<in> set g" "x = e" by auto
  then show "x = y \<and> s = u"
  proof cases
    case 2
    with made_onceD [OF assms(1) 2 xy(3,4)] show ?thesis by simp
  qed (use xy(3,4) assms(2) in auto)
qed

text \<open>Entries with one index and one term are the same, and so are all the entries before them.\<close>

lemma chain_match:
  assumes "made_once g" "chain g 0 l" "chain g 0 l'" "log_from 0 l" "log_from 0 l'"
    and "k < length l" "k < length l'" "le_term (l ! k) = le_term (l' ! k)"
  shows "take (Suc k) l = take (Suc k) l'"
  using assms(6-8)
proof (induction k)
  case (Suc k)
  have "le_index (l ! Suc k) = le_index (l' ! Suc k)"
    using log_from_nth [OF assms(4)] log_from_nth [OF assms(5)] Suc.prems by (simp add: word_unat_eq_iff)
  then have "l ! Suc k = l' ! Suc k \<and> le_term (l ! k) = le_term (l' ! k)"
    using made_onceD [OF assms(1) chain_nth [OF assms(2) Suc.prems(1)] chain_nth [OF assms(3) Suc.prems(2)] Suc.prems(3)]
    by simp
  with Suc show ?case by (simp add: take_Suc_conv_app_nth)
next
  case 0
  have "le_index (l ! 0) = le_index (l' ! 0)"
    using log_from_nth [OF assms(4)] log_from_nth [OF assms(5)] 0 by (simp add: word_unat_eq_iff)
  then have "l ! 0 = l' ! 0"
    using made_onceD(1) [OF assms(1) chain_nth [OF assms(2) 0(1)] chain_nth [OF assms(3) 0(2)] 0(3)] by simp
  with 0 show ?case by (simp add: take_Suc_conv_app_nth)
qed

section \<open>Handlers that leave no snapshot behind\<close>

definition same_entries :: "('s, 'm) raft_core \<Rightarrow> ('s, 'm) raft_core \<Rightarrow> bool" where
  "same_entries c c' \<longleftrightarrow>
     rlog c' = rlog c \<and> snapshot_last_index c' = snapshot_last_index c \<and> snapshot_last_term c' = snapshot_last_term c"

lemma same_entries_refl [simp]: "same_entries c c"
  by (simp add: same_entries_def)

lemma same_entries_trans: "same_entries a b \<Longrightarrow> same_entries b c \<Longrightarrow> same_entries a c"
  by (simp add: same_entries_def)

lemma same_log_entries: "same_log c c' \<Longrightarrow> same_entries c c'"
  by (simp add: same_log_def same_entries_def)

lemma same_entries_prev_matches: "same_entries a b \<Longrightarrow> prev_matches req b = prev_matches req a"
  by (simp add: same_entries_def prev_matches_def last_log_index_def get_log_entry_def Let_def)

lemma take_snapshot_none:
  assumes "snapshot_last_index (snd (take_snapshot S M c)) = 0" "snapshot_last_index c = 0"
  shows "same_entries c (snd (take_snapshot S M c))"
  using assms
  by (auto simp: take_snapshot_def same_entries_def Let_def split: if_split_asm option.split sum.split)

lemma apply_committed_none:
  assumes "apply_committed_entries S M c = Some (rs, c')" "snapshot_last_index c' = 0" "snapshot_last_index c = 0"
  shows "same_entries c c'"
proof -
  from assms(1) obtain d where d: "apply_loop M c [] = Some (rs, d)"
    and c': "c' = d \<or> c' = snd (take_snapshot S M d)"
    by (auto simp: apply_committed_entries_def bind_eq_Some_conv)
  have "apply_write c d" using d by (rule apply_loop_frame)
  then have cd: "same_entries c d" unfolding apply_write_def same_entries_def by (metis (no_types) raft_core.select_convs(5-7) raft_core.surjective raft_core.update_convs(2,9))
  then show ?thesis
    using c' take_snapshot_none [of S M d] assms(2,3) by (auto simp: same_entries_def)
qed

lemma apply_loop_indices:
  "apply_loop M c rs = Some (rs', c') \<Longrightarrow>
     commit_index c' = commit_index c \<and> last_applied c' = max (last_applied c) (commit_index c)"
proof (induction M c rs rule: apply_loop.induct)
  case (1 M c rs)
  show ?case
  proof (cases "last_applied c < commit_index c")
    case True
    let ?c = "c\<lparr>last_applied := last_applied c + 1\<rparr>"
    from 1(2) True obtain e m r where e: "get_log_entry ?c (last_applied ?c) = Some e"
      "sm_apply M (state_machine ?c) (le_command e) = (m, r)"
      "apply_loop M (?c\<lparr>state_machine := m\<rparr>) (rs @ [(last_applied ?c, r)]) = Some (rs', c')"
      by (subst (asm) apply_loop.simps) (auto simp: Let_def split: option.split_asm prod.split_asm)
    have "last_applied c + 1 \<le> commit_index c"
      using True u64_succ_less [OF True] by (simp add: word_le_nat_alt word_less_nat_alt)
    with 1(1) [OF True refl e(1) e(2) [symmetric] refl e(3)] True show ?thesis
      by (simp add: max_def less_imp_le)
  next
    case False
    then show ?thesis using 1(2) by (subst (asm) apply_loop.simps) (auto simp: max_def)
  qed
qed

lemma apply_committed_indices:
  assumes "apply_committed_entries S M c = Some (rs, c')"
  shows "commit_index c' = commit_index c" "last_applied c' = max (last_applied c) (commit_index c)"
proof -
  from assms obtain d where d: "apply_loop M c [] = Some (rs, d)"
    and c': "c' = d \<or> c' = snd (take_snapshot S M d)"
    by (auto simp: apply_committed_entries_def bind_eq_Some_conv)
  then show "commit_index c' = commit_index c" "last_applied c' = max (last_applied c) (commit_index c)"
    using apply_loop_indices [OF d] by (auto simp: take_snapshot_keeps)
qed

text \<open>How a follower takes over the commit index of the leader.\<close>

definition followed :: "append_entries_args \<Rightarrow> ('s, 'm) raft_core \<Rightarrow> ('s, 'm) raft_core \<Rightarrow> bool" where
  "followed req c c' \<longleftrightarrow>
     (if commit_index c < leader_commit req
      then commit_index c' = min (leader_commit req) (last_log_index c') \<and>
        last_applied c' = max (last_applied c) (commit_index c')
      else commit_index c' = commit_index c \<and> last_applied c' = last_applied c)"

lemma accept_entries_none:
  assumes "accept_entries S M req c = Some c'" "snapshot_last_index c' = 0" "snapshot_last_index c = 0"
  shows "rlog c' = merge_log 0 (rlog c) (ae_entries req)" "snapshot_last_term c' = snapshot_last_term c"
    "followed req c c'"
proof -
  from assms(1) obtain d where d: "apply_entries S (ae_entries req) c = Some d"
    and c': "\<not> commit_index d < leader_commit req \<and> c' = d \<or>
      commit_index d < leader_commit req \<and>
      (\<exists>rs. apply_committed_entries S M (d\<lparr>commit_index := min (leader_commit req) (last_log_index d)\<rparr>) = Some (rs, c'))"
    by (auto simp: accept_entries_def bind_eq_Some_conv split: if_split_asm)
  have f: "d = c\<lparr>storage := storage d, rlog := rlog d\<rparr>"
    using apply_entries_frame [OF d] by (simp add: log_write_def)
  have s: "snapshot_last_index d = 0" "snapshot_last_term d = snapshot_last_term c" "commit_index d = commit_index c"
    "last_applied d = last_applied c"
    using assms(3) by (subst f, simp)+
  have m: "rlog d = merge_log 0 (rlog c) (ae_entries req)"
    using apply_entries_merge [OF d] assms(3) by simp
  have "same_entries d c' \<and> followed req c c'"
    using c'
  proof (elim disjE exE conjE)
    fix rs let ?d = "d\<lparr>commit_index := min (leader_commit req) (last_log_index d)\<rparr>"
    assume a: "commit_index d < leader_commit req" "apply_committed_entries S M ?d = Some (rs, c')"
    have "same_entries d c'" using apply_committed_none [OF a(2) assms(2)] s(1) by (simp add: same_entries_def)
    moreover from this have "last_log_index c' = last_log_index d" by (simp add: same_entries_def last_log_index_def)
    ultimately show ?thesis using apply_committed_indices [OF a(2)] a(1) s by (simp add: followed_def)
  qed (use s in \<open>simp add: followed_def\<close>)
  with m s show "rlog c' = merge_log 0 (rlog c) (ae_entries req)" "snapshot_last_term c' = snapshot_last_term c"
    "followed req c c'"
    by (simp_all add: same_entries_def)
qed

text \<open>AppendEntries either leaves the log as it is, or merges the entries behind a matching previous entry.\<close>

lemma handle_append_entries_none:
  assumes h: "handle_append_entries S M now req c = Some (out, c')"
    and s: "snapshot_last_index c' = 0" "snapshot_last_index c = 0"
  shows "same_log c c' \<and> \<not> aer_success (hae_result out) \<or>
    prev_matches req c \<and> rlog c' = merge_log 0 (rlog c) (ae_entries req) \<and>
    snapshot_last_term c' = snapshot_last_term c \<and> aer_success (hae_result out) \<and>
    role c' = Follower \<and> current_term c' = ae_term req \<and> current_term c \<le> ae_term req \<and> followed req c c'"
proof -
  from h obtain d where d: "observe_term S (ae_term req) c = Some d"
    and r: "if ae_term req < current_term d
         then c' = d \<and> \<not> aer_success (hae_result out)
         else \<exists>ok ct ci. check_and_append S M req
                 (d\<lparr>role := Follower, current_leader := Some (ae_leader_id req), last_heartbeat := now\<rparr>)
                 = Some (ok, ct, ci, c') \<and> aer_success (hae_result out) = ok"
    unfolding handle_append_entries_unfold by (auto split: if_split_asm)
  have cd: "same_log c d" using d by (rule observe_term_same_log)
  show ?thesis
  proof (cases "ae_term req < current_term d")
    case True
    with r cd show ?thesis by simp
  next
    case False
    let ?e = "d\<lparr>role := Follower, current_leader := Some (ae_leader_id req), last_heartbeat := now\<rparr>"
    from r False obtain ok ct ci where k: "check_and_append S M req ?e = Some (ok, ct, ci, c')"
      and ok: "aer_success (hae_result out) = ok" by auto
    have pm: "prev_matches req ?e = prev_matches req c"
      using cd by (intro same_entries_prev_matches) (simp add: same_entries_def same_log_def)
    have tm: "current_term d = ae_term req" "current_term c \<le> ae_term req"
      using observe_term_max [OF d] False by (auto simp: max_def split: if_splits)
    have sv: "same_vote ?e c'" using k by (rule check_and_append_same_vote)
    show ?thesis
    proof (cases "prev_matches req ?e")
      case True
      with check_and_append_Some [OF k] have a: "ok" "accept_entries S M req ?e = Some c'" by simp_all
      have "snapshot_last_index ?e = 0" using cd s(2) by (simp add: same_log_def)
      note m = accept_entries_none [OF a(2) s(1) this]
      have "followed req c c'" using m(3) cd by (simp add: followed_def same_log_def)
      with m(1,2) cd sv tm a(1) ok True pm show ?thesis by (simp add: same_log_def same_vote_def)
    next
      case False
      with check_and_append_Some [OF k] have "\<not> ok" "c' = ?e" by simp_all
      with cd ok show ?thesis by (simp add: same_log_def)
    qed
  qed
qed

lemma handle_append_entries_result_none:
  assumes "handle_append_entries_result S M p i r c = Some (out, c')"
    "snapshot_last_index c' = 0" "snapshot_last_index c = 0"
  shows "same_entries c c'"
  using assms(1)
proof (rule handle_append_entries_result_cases)
  fix d e assume d: "observe_term S (aer_term r) c = Some d"
    and e: "e = (if role d \<noteq> Leader then d else if aer_success r then note_success p i d else note_rejection p r d)"
    and c': "c' = e \<and> out = (None, []) \<or>
      (\<exists>rs x. role d = Leader \<and> 0 < i \<and> get_log_entry e i = Some x \<and> le_term x = current_term e \<and>
         majority e \<le> replicated_count i e \<and> commit_index e < i \<and> out = (Some i, rs) \<and>
         apply_committed_entries S M (e\<lparr>commit_index := i\<rparr>) = Some (rs, c'))"
  have "same_log d e" using note_same_log [where c = d] by (simp add: e same_log_def)
  then have ce: "same_entries c e" using observe_term_same_log [OF d] by (blast intro: same_log_trans same_log_entries)
  from c' show ?thesis
  proof (elim disjE exE conjE)
    fix rs x assume "apply_committed_entries S M (e\<lparr>commit_index := i\<rparr>) = Some (rs, c')"
    from apply_committed_none [OF this assms(2)] ce assms(3) show ?thesis by (simp add: same_entries_def)
  qed (use ce in simp)
qed

lemma handle_request_vote_same_entries:
  assumes "handle_request_vote S req c = Some (res, c')"
  shows "same_entries c c'"
  using assms
  by (auto simp: handle_request_vote_unfold bind_eq_Some_conv observe_term_Some set_voted_for_Some
      same_entries_def split: if_split_asm)

lemma install_snapshot_none:
  assumes "handle_install_snapshot S M now args c = Some (res, c')" "snapshot_last_index c' = 0" "snapshot_last_index c = 0"
  shows "same_log c c'"
proof (cases "is_term args < current_term c")
  case False
  let ?e = "\<lambda>d. d\<lparr>last_heartbeat := now, current_leader := Some (is_leader_id args)\<rparr>"
  from assms(1) False obtain d where d: "observe_term S (is_term args) c = Some d"
    and k: "if is_last_included_index args \<le> snapshot_last_index d then c' = ?e d
      else install_snapshot_steps S M args (?e d) = Some (res, c')"
    unfolding handle_install_snapshot_def observe_term_def [symmetric]
    by (cases "observe_term S (is_term args) c") (auto simp: Let_def split: if_split_asm)
  have cd: "same_log c d" using d by (rule observe_term_same_log)
  have "same_log (?e d) c'"
  proof (cases "is_last_included_index args \<le> snapshot_last_index d")
    case True
    with k show ?thesis by (simp add: same_log_def)
  next
    case False
    with k have "install_snapshot_steps S M args (?e d) = Some (res, c')" by simp
    then show ?thesis
      using False assms(2) cd assms(3)
      by (auto simp: install_snapshot_steps_def Let_def bind_eq_Some_conv advance_to_snapshot_fields same_log_def
          split: sum.split_asm)
  qed
  with cd show ?thesis by (simp add: same_log_def)
qed (use assms in \<open>simp add: handle_install_snapshot_def same_log_def\<close>)

lemma internal_none:
  assumes "is_internal ev" "core_step S M ev c = Some c'" "snapshot_last_index c' = 0" "snapshot_last_index c = 0"
  shows "same_entries c c'"
  using assms
  by (cases ev) (auto dest: install_snapshot_none [THEN same_log_entries] apply_committed_none take_snapshot_none)

section \<open>Merging keeps the chain\<close>

lemma last_take_nth: "0 < k \<Longrightarrow> k \<le> length l \<Longrightarrow> last (take k l) = l ! (k - 1)"
  by (subst last_conv_nth) (auto simp: min_def)

lemma merge_log_chain:
  assumes "log_from 0 l" "chain g 0 l" "log_from p es" "unat p \<le> length l"
    and "chain g (if p = 0 then 0 else le_term (l ! (unat p - 1))) es"
  shows "chain g 0 (merge_log 0 l es)"
  using assms
proof (induction es arbitrary: p l)
  case (Cons e es)
  note d = log_from_ConsD [OF Cons.prems(3)]
  let ?l = "merge_entry 0 l e" and ?k = "unat p"
  have k: "unat (le_index e) - unat (0 :: u64) - 1 = ?k" "\<not> le_index e \<le> 0" "le_index e \<noteq> 0"
    using d(1) by (auto simp: word_le_nat_alt)
  have e: "(e, if p = 0 then 0 else le_term (l ! (?k - 1))) \<in> set g" and es: "chain g (le_term e) es"
    using Cons.prems(5) by simp_all
  have z: "p = 0 \<longleftrightarrow> ?k = 0" by (simp add: unat_eq_0)
  have chain: "chain g 0 ?l"
  proof (cases "?k < length l \<and> le_term (l ! ?k) = le_term e")
    case False
    have "last (take ?k l) = l ! (?k - 1)" "take ?k l \<noteq> []" if "?k \<noteq> 0"
      using last_take_nth [of ?k l] that Cons.prems(4) by auto
    then have "chain g 0 (take ?k l @ [e])"
      using chain_take [OF Cons.prems(2), of ?k] e z by (auto simp: chain_append)
    with False k show ?thesis by (auto simp: merge_entry_def Let_def)
  qed (use k Cons.prems(2) in \<open>simp add: merge_entry_def Let_def\<close>)
  have len: "unat (le_index e) \<le> length ?l"
    using merge_entry_length [of 0 e l] k d(1) Cons.prems(4) by (simp add: word_le_nat_alt word_less_nat_alt)
  have at: "le_term (?l ! (unat (le_index e) - 1)) = le_term e"
    using merge_entry_at [of 0 e l] k d(1) Cons.prems(4) by (simp add: word_le_nat_alt word_less_nat_alt)
  have "log_from 0 ?l" using merge_entry_log_from [OF Cons.prems(1), of e] d(1) Cons.prems(4) by simp
  from Cons.IH [OF this chain d(2) len] at k(3) es show ?case by simp
qed simp

section \<open>The invariant\<close>

text \<open>The log of a node; a leader still has every entry it created; what a message carries.\<close>

definition node_log :: "(log_entry \<times> u64) list \<Rightarrow> ('s, 'm) raft_core \<Rightarrow> bool" where
  "node_log g c \<longleftrightarrow>
     snapshot_last_index c = 0 \<and> log_from 0 (rlog c) \<and> length (rlog c) + 1 < u64_bound \<and> chain g 0 (rlog c)"

definition leader_made :: "(log_entry \<times> u64) list \<Rightarrow> ('s, 'm) raft_core \<Rightarrow> bool" where
  "leader_made g c \<longleftrightarrow>
     (role c = Leader \<longrightarrow> (\<forall>(e, t) \<in> set g. le_term e = current_term c \<longrightarrow> e \<in> set (rlog c)))"

definition past_candidacy :: "u64 \<Rightarrow> ('s, 'm) raft_core \<Rightarrow> bool" where
  "past_candidacy t c \<longleftrightarrow> t < current_term c \<or> t = current_term c \<and> role c \<noteq> Candidate"

definition carries :: "(log_entry \<times> u64) list \<Rightarrow> append_entries_args \<Rightarrow> bool" where
  "carries g req \<longleftrightarrow>
     ae_entries req = [] \<or> prev_log_index req = -1 \<or>
     log_from (prev_log_index req) (ae_entries req) \<and>
     unat (prev_log_index req) + length (ae_entries req) + 1 < u64_bound \<and>
     chain g (if prev_log_index req = 0 then 0 else prev_log_term req) (ae_entries req)"

definition log_inv :: "u64 set \<Rightarrow> ('s, 'm) log_cluster \<Rightarrow> bool" where
  "log_inv U lc \<longleftrightarrow>
     cluster_inv U (elections lc) \<and>
     (\<forall>p \<in> U. node_log (made lc) (node lc p) \<and> leader_made (made lc) (node lc p)) \<and>
     (\<forall>(t, p) \<in> set (led (elections lc)). p \<in> U \<and> past_candidacy t (node lc p)) \<and>
     (\<forall>(e, t) \<in> set (made lc). \<exists>p. (le_term e, p) \<in> set (led (elections lc))) \<and>
     made_once (made lc) \<and>
     (\<forall>(q, i, req) \<in> set (appends lc). carries (made lc) req)"

lemma log_invD:
  assumes "log_inv U lc"
  shows "cluster_inv U (elections lc)" "made_once (made lc)"
    "p \<in> U \<Longrightarrow> node_log (made lc) (node lc p)" "p \<in> U \<Longrightarrow> leader_made (made lc) (node lc p)"
    "(t, p) \<in> set (led (elections lc)) \<Longrightarrow> p \<in> U" "(t, p) \<in> set (led (elections lc)) \<Longrightarrow> past_candidacy t (node lc p)"
    "(e, t) \<in> set (made lc) \<Longrightarrow> \<exists>p. (le_term e, p) \<in> set (led (elections lc))"
    "(q, i, req) \<in> set (appends lc) \<Longrightarrow> carries (made lc) req"
  using assms unfolding log_inv_def by blast+

lemma node_log_mono: "node_log g c \<Longrightarrow> set g \<subseteq> set g' \<Longrightarrow> node_log g' c"
  by (auto simp: node_log_def intro: chain_mono)

lemma carries_mono: "carries g req \<Longrightarrow> set g \<subseteq> set g' \<Longrightarrow> carries g' req"
  by (auto simp: carries_def intro: chain_mono)

lemma leader_made_Cons:
  "leader_made g c \<Longrightarrow> role c = Leader \<Longrightarrow> le_term e \<noteq> current_term c \<Longrightarrow> leader_made ((e, t) # g) c"
  by (auto simp: leader_made_def)

text \<open>One node changes; it creates at most one entry, as the leader of the entry's term.\<close>

lemma log_inv_step:
  assumes inv: "log_inv U lc" and p: "p \<in> U" and el: "cluster_inv U (elections lc')"
    and nodes: "nodes (elections lc') = (nodes (elections lc))(p := c')"
    and log: "node_log (made lc') c'" "leader_made (made lc') c'"
    and led: "set (led (elections lc)) \<subseteq> set (led (elections lc'))"
      "\<And>t q. (t, q) \<in> set (led (elections lc')) \<Longrightarrow> (t, q) \<in> set (led (elections lc)) \<or> q = p"
      "\<And>t. (t, p) \<in> set (led (elections lc')) \<Longrightarrow> past_candidacy t c'"
    and made: "made lc' = made lc \<or>
      (\<exists>e t. made lc' = (e, t) # made lc \<and> (le_term e, p) \<in> set (led (elections lc')) \<and>
         (\<forall>(e', t') \<in> set (made lc). le_term e' = le_term e \<longrightarrow> le_index e' \<noteq> le_index e))"
    and app: "\<And>q i req. (q, i, req) \<in> set (appends lc') \<Longrightarrow> (q, i, req) \<in> set (appends lc) \<or> carries (made lc') req"
  shows "log_inv U lc'"
proof -
  note i = log_invD [OF inv]
  have node: "node lc' q = node lc q" if "q \<noteq> p" for q using nodes that by simp
  have same: "node lc' p = c'" using nodes by simp
  have fin: "finite U" using cluster_invD(1) [OF el p] p by (rule configured_majority(1))
  have sub: "set (made lc) \<subseteq> set (made lc')" using made by auto
  have "node_log (made lc') (node lc' q) \<and> leader_made (made lc') (node lc' q)" if q: "q \<in> U" for q
  proof (cases "q = p")
    case False
    have "leader_made (made lc') (node lc q)"
      using made
    proof (elim disjE exE conjE)
      fix e t assume e: "made lc' = (e, t) # made lc" "(le_term e, p) \<in> set (led (elections lc'))"
      show ?thesis
      proof (cases "role (node lc q) = Leader")
        case True
        then have "(current_term (node lc q), q) \<in> set (led (elections lc'))"
          using cluster_invD(5) [OF el q] node [OF False] by simp
        then have "le_term e \<noteq> current_term (node lc q)"
          using inv_one_leader [OF el e(2) _ fin, of q] False by auto
        then show ?thesis unfolding e(1) using i(4) [OF q] True by (blast intro: leader_made_Cons)
      qed (simp add: leader_made_def)
    qed (use i(4) [OF q] in simp)
    then show ?thesis using node [OF False] node_log_mono [OF i(3) [OF q] sub] by simp
  qed (use log same in simp)
  moreover have "q \<in> U \<and> past_candidacy t (node lc' q)" if "(t, q) \<in> set (led (elections lc'))" for t q
    using led(2) [OF that] i(5,6) [of t q] led(3) [of t] that p node same by (cases "q = p") auto
  moreover have "\<exists>q. (le_term e, q) \<in> set (led (elections lc'))" if "(e, t) \<in> set (made lc')" for e t
    using made
  proof (elim disjE exE conjE)
    fix e' t' assume "made lc' = (e', t') # made lc" "(le_term e', p) \<in> set (led (elections lc'))"
    then show ?thesis using that i(7) [of e t] led(1) by fastforce
  qed (use that i(7) [of e t] led(1) in fastforce)
  moreover have "made_once (made lc')"
    using made
  proof (elim disjE exE conjE)
    fix e t assume m: "made lc' = (e, t) # made lc"
      "\<forall>(e', t') \<in> set (made lc). le_term e' = le_term e \<longrightarrow> le_index e' \<noteq> le_index e"
    show ?thesis unfolding m(1) by (rule made_once_Cons [OF i(2) m(2)])
  qed (use i(2) in simp)
  moreover have "carries (made lc') req" if "(q, i, req) \<in> set (appends lc')" for q i req
    using app [OF that] i(8) [of q i req] sub carries_mono by blast
  ultimately show ?thesis using el unfolding log_inv_def by blast
qed

section \<open>Each step keeps the invariant\<close>

text \<open>A step that creates no entry, and after which a leader is as it was.\<close>

lemma log_inv_quiet:
  assumes inv: "log_inv U lc" and p: "p \<in> U" and el: "cluster_inv U (elections lc')"
    and nodes: "nodes (elections lc') = (nodes (elections lc))(p := c')"
    and log: "node_log (made lc) c'"
    and leader: "role c' = Leader \<Longrightarrow>
      role (node lc p) = Leader \<and> current_term c' = current_term (node lc p) \<and> rlog c' = rlog (node lc p)"
    and same: "led (elections lc') = led (elections lc)" "made lc' = made lc"
    and past: "\<And>t. past_candidacy t (node lc p) \<Longrightarrow> past_candidacy t c'"
    and app: "\<And>q i req. (q, i, req) \<in> set (appends lc') \<Longrightarrow> (q, i, req) \<in> set (appends lc) \<or> carries (made lc) req"
  shows "log_inv U lc'"
proof (rule log_inv_step [OF inv p el nodes])
  note i = log_invD [OF inv]
  show "leader_made (made lc') c'" using i(4) [OF p] leader same(2) by (auto simp: leader_made_def)
  show "past_candidacy t c'" if "(t, p) \<in> set (led (elections lc'))" for t
    using that same(1) i(6) past by simp
qed (use log same app in auto)

text \<open>The next entry of a leader, made of its last index and its term.\<close>

lemma log_inv_append:
  assumes inv: "log_inv U lc" and p: "p \<in> U" and el: "cluster_inv U (elections lc')"
    and nodes: "nodes (elections lc') = (nodes (elections lc))(p := c')"
    and e: "rlog c' = rlog (node lc p) @ [e]" "le_index e = last_log_index (node lc p) + 1" "le_term e = current_term c'"
      "snapshot_last_index c' = 0"
    and room: "log_room (node lc p)"
    and led: "set (led (elections lc)) \<subseteq> set (led (elections lc'))" "(current_term c', p) \<in> set (led (elections lc'))"
      "\<And>t q. (t, q) \<in> set (led (elections lc')) \<Longrightarrow> (t, q) \<in> set (led (elections lc)) \<or> q = p"
      "\<And>t. (t, p) \<in> set (led (elections lc')) \<Longrightarrow> past_candidacy t c'"
    and own: "\<And>x t. (x, t) \<in> set (made lc) \<Longrightarrow> le_term x = current_term c' \<Longrightarrow> x \<in> set (rlog (node lc p))"
    and made: "made lc' = note_made (rlog (node lc p)) (rlog c') (made lc)" and app: "appends lc' = appends lc"
  shows "log_inv U lc'"
proof -
  note i = log_invD [OF inv]
  let ?l = "rlog (node lc p)"
  have made': "made lc' = (e, prev_term ?l) # made lc" by (simp add: made e(1) note_made_def)
  have nl: "snapshot_last_index (node lc p) = 0" "log_from 0 ?l" "chain (made lc) 0 ?l"
    using i(3) [OF p] by (simp_all add: node_log_def)
  have last: "unat (last_log_index (node lc p)) = length ?l"
    using unat_last_log_index [of "node lc p"] nl by (simp add: log_ok_def)
  have idx: "unat (le_index e) = length ?l + 1" "length ?l + 2 < u64_bound"
    using u64_succ [of "last_log_index (node lc p)"] last room e(2) by (simp_all add: log_room_iff)
  have fresh: "le_index x \<noteq> le_index e" if "(x, t) \<in> set (made lc)" "le_term x = le_term e" for x t
  proof -
    have "x \<in> set ?l" using own [OF that(1)] that(2) e(3) by simp
    then have "unat (le_index x) \<le> length ?l"
      using log_from_nth [OF nl(2)] by (fastforce simp: in_set_conv_nth)
    with idx(1) show ?thesis by auto
  qed
  show ?thesis
  proof (rule log_inv_step [OF inv p el nodes])
    have "chain (made lc') 0 (?l @ [e])"
    proof -
      have "chain (made lc') 0 ?l" by (rule chain_mono [OF nl(3)]) (auto simp: made')
      then show ?thesis by (simp add: chain_append made' prev_term_def)
    qed
    moreover have "log_from 0 (?l @ [e])" using log_from_append1 [OF nl(2)] idx by simp
    ultimately show "node_log (made lc') c'" using e idx(2) by (simp add: node_log_def)
    show "leader_made (made lc') c'" using own e(1) by (fastforce simp: leader_made_def made')
    show "made lc' = made lc \<or>
      (\<exists>e t. made lc' = (e, t) # made lc \<and> (le_term e, p) \<in> set (led (elections lc')) \<and>
         (\<forall>(e', t') \<in> set (made lc). le_term e' = le_term e \<longrightarrow> le_index e' \<noteq> le_index e))"
      using made' led(2) e(3) fresh by fastforce
  qed (use led app in auto)
qed

lemma event_in_actor: "event_in U ev = (cluster_actor ev \<in> U)"
  by (cases ev) simp_all

lemma note_made_same [simp]: "note_made l l g = g"
  by (simp add: note_made_def)

lemma same_entries_node_log: "node_log g c \<Longrightarrow> same_entries c c' \<Longrightarrow> node_log g c'"
  by (simp add: node_log_def same_entries_def)

lemma quiet_past: "quiet c c' \<Longrightarrow> vote_order c c' \<Longrightarrow> past_candidacy t c \<Longrightarrow> past_candidacy t c'"
  by (auto simp: quiet_def vote_order_def past_candidacy_def)

lemma quiet_leader: "quiet c c' \<Longrightarrow> role c' = Leader \<Longrightarrow> role c = Leader \<and> current_term c' = current_term c"
  by (auto simp: quiet_def)

lemma log_inv_same:
  assumes inv: "log_inv U lc" and p: "p \<in> U" and el: "cluster_inv U (elections lc')"
    and nodes: "nodes (elections lc') = (nodes (elections lc))(p := c')"
    and c': "quiet (node lc p) c'" "vote_order (node lc p) c'" "same_entries (node lc p) c'"
    and same: "led (elections lc') = led (elections lc)" "made lc' = made lc" "appends lc' = appends lc"
  shows "log_inv U lc'"
proof (rule log_inv_quiet [OF inv p el nodes])
  show "node_log (made lc) c'" using log_invD(3) [OF inv p] c'(3) by (rule same_entries_node_log)
qed (use c' same quiet_leader quiet_past in \<open>auto simp: same_entries_def\<close>)

text \<open>Counting a vote: the node may become the leader, with a new entry.\<close>

lemma count_log_inv:
  assumes inv: "log_inv U lc" and p: "p \<in> U" and g: "log_room (node lc p)"
    and cl: "cluster_step S M (Count p now v r) (elections lc) = Some cl" and el: "cluster_inv U cl"
  shows "log_inv U (lc\<lparr>elections := cl, made := note_made (rlog (node lc p)) (rlog (nodes cl p)) (made lc)\<rparr>)"
    (is "log_inv U ?lc'")
proof -
  note i = log_invD [OF inv]
  let ?n = "node lc p"
  from cl obtain won c where c: "handle_request_vote_result S now v r ?n = Some (won, c)"
    and step: "cl = (put_node p c (elections lc))
      \<lparr>led := (if won then (current_term c, p) # led (elections lc) else led (elections lc))\<rparr>"
    by (auto simp: bind_eq_Some_conv split: if_split_asm)
  have cl': "nodes cl = (nodes (elections lc))(p := c)"
      "led cl = (if won then (current_term c, p) # led (elections lc) else led (elections lc))"
    using step by (simp_all add: put_node_def)
  from c obtain d where d: "observe_term S (rvr_term r) ?n = Some d"
    and k: "if role d \<noteq> Candidate then \<not> won \<and> c = d
        else if majority d \<le> length (votes_received (count_vote v r d))
        then won \<and> become_leader S now (count_vote v r d) = Some c
        else \<not> won \<and> c = count_vote v r d"
    unfolding handle_request_vote_result_Some by blast
  have cv: "same_entries d (count_vote v r d)" "role (count_vote v r d) = role d"
    "current_term (count_vote v r d) = current_term d"
    by (simp_all add: count_vote_def same_entries_def)
  have nd: "same_entries ?n d" using observe_term_same_log [OF d] by (rule same_log_entries)
  have q: "quiet ?n d" "vote_order ?n d"
    using rpc_frame_quiet [OF observe_term_frame [OF d]] observe_term_order [OF d] .
  have log: "node_log (made lc) ?n" using i(3) [OF p] .
  have el': "cluster_inv U (elections ?lc')" using el by simp
  show ?thesis
  proof (cases won)
    case False
    with k cv have e: "same_entries d c" "role c = role d" "current_term c = current_term d"
      by (auto split: if_split_asm)
    have nc: "same_entries ?n c" using nd e(1) by (rule same_entries_trans)
    show ?thesis
    proof (rule log_inv_quiet [OF inv p el', of c])
      show "node_log (made lc) c" using log nc by (rule same_entries_node_log)
      show "role ?n = Leader \<and> current_term c = current_term ?n \<and> rlog c = rlog ?n" if "role c = Leader"
        using that quiet_leader [OF q(1)] e nc by (simp add: same_entries_def)
      show "past_candidacy t c" if "past_candidacy t ?n" for t
        using quiet_past [OF q that] e by (simp add: past_candidacy_def)
    qed (use False cl' nc in \<open>simp_all add: same_entries_def\<close>)
  next
    case True
    with k have cand: "role d = Candidate" and b: "become_leader S now (count_vote v r d) = Some c"
      by (auto split: if_split_asm)
    have same: "role ?n = Candidate" "current_term ?n = current_term d" using q(1) cand by (auto simp: quiet_def)
    have f: "role c = Leader" "current_term c = current_term d" "snapshot_last_index c = snapshot_last_index ?n"
      and l: "\<exists>e. rlog c = rlog ?n @ [e] \<and> le_index e = last_log_index ?n + 1 \<and> le_term e = current_term c"
      using b cv nd by (auto simp: become_leader_Some same_entries_def last_log_index_def)
    obtain e where e: "rlog c = rlog ?n @ [e]" "le_index e = last_log_index ?n + 1" "le_term e = current_term c"
      using l by blast
    have fin: "finite U" using cluster_invD(1) [OF el p] p by (rule configured_majority(1))
    have led': "led cl = (current_term c, p) # led (elections lc)" using cl'(2) True by simp
    have old: "\<not> past_candidacy (current_term c) ?n" using same f(2) by (simp add: past_candidacy_def)
    have none: "(current_term c, q) \<notin> set (led (elections lc))" for q
    proof
      assume "(current_term c, q) \<in> set (led (elections lc))"
      moreover from this have "q = p" using inv_one_leader [OF el _ _ fin, of "current_term c" q p] led' by simp
      ultimately show False using i(6) old by blast
    qed
    show ?thesis
    proof (rule log_inv_append [OF inv p el', of c e])
      show "x \<in> set (rlog ?n)" if "(x, t) \<in> set (made lc)" "le_term x = current_term c" for x t
        using i(7) [OF that(1)] none that(2) by simp
      show "past_candidacy t c" if "(t, p) \<in> set (led (elections ?lc'))" for t
        using that led' f i(6) [of t p] same by (auto simp: past_candidacy_def)
      show "rlog c = rlog ?n @ [e]" "le_index e = last_log_index ?n + 1" "le_term e = current_term c" using e .
      show "snapshot_last_index c = 0" using f(3) log by (simp add: node_log_def)
      show "log_room ?n" by (rule g)
    qed (auto simp: cl'(1) led')
  qed
qed

lemma election_log_inv:
  assumes inv: "log_inv U lc" and p: "cluster_actor ev \<in> U"
    and g: "log_guard S (Election ev) lc" and s: "log_effect S M (Election ev) lc = Some lc'"
    and none: "snapshot_last_index (node lc' (cluster_actor ev)) = 0"
  shows "log_inv U lc'"
proof -
  from s obtain cl where cl: "cluster_step S M ev (elections lc) = Some cl"
    and lc': "lc' = lc\<lparr>elections := cl,
       made := note_made (rlog (node lc (cluster_actor ev))) (rlog (nodes cl (cluster_actor ev))) (made lc)\<rparr>"
    by (auto simp: bind_eq_Some_conv Let_def)
  note i = log_invD [OF inv]
  have el: "cluster_inv U (elections lc')"
    using cluster_step_inv [OF i(1) _ cl] p by (simp add: lc' event_in_actor)
  have log: "node_log (made lc) (node lc (cluster_actor ev))" using i(3) [OF p] .
  then have sli: "snapshot_last_index (node lc (cluster_actor ev)) = 0" by (simp add: node_log_def)
  show ?thesis
  proof (cases ev)
    case (Elect q now)
    from cl Elect obtain c where c: "start_election S now (node lc q) = Some c"
      and nm: "current_term (node lc q) \<noteq> -1" and n: "nodes cl = (nodes (elections lc))(q := c)" "led cl = led (elections lc)"
      by (auto simp: bind_eq_Some_conv put_node_def split: if_split_asm)
    have e: "same_entries (node lc q) c" "role c = Candidate" "current_term c = current_term (node lc q) + 1"
      using c by (auto simp: start_election_Some same_entries_def)
    have "current_term (node lc q) < current_term c"
      using start_election_order [OF c nm] e(3) by (simp add: vote_order_def)
    then have "past_candidacy t c" if "past_candidacy t (node lc q)" for t
      using that by (auto simp: past_candidacy_def)
    moreover have "node_log (made lc) c" using log Elect e(1) by (auto intro: same_entries_node_log)
    ultimately show ?thesis
      using inv p Elect n e by (intro log_inv_quiet [OF inv p el, of c]) (auto simp: lc' same_entries_def)
  next
    case (Ask q)
    with cl have "nodes cl = (nodes (elections lc))(q := node lc q)" "led cl = led (elections lc)" by auto
    then show ?thesis using Ask by (intro log_inv_same [OF inv p el, of "node lc q"]) (simp_all add: lc' quiet_def)
  next
    case (Answer q req)
    from cl Answer obtain res c where c: "handle_request_vote S req (node lc q) = Some (res, c)"
      and n: "nodes cl = (nodes (elections lc))(q := c)" "led cl = led (elections lc)"
      by (auto simp: bind_eq_Some_conv put_node_def Let_def split: if_split_asm)
    have e: "same_entries (node lc q) c" "quiet (node lc q) c" "vote_order (node lc q) c"
      using handle_request_vote_same_entries [OF c] rpc_frame_quiet [OF handle_request_vote_frame [OF c]]
        handle_request_vote_order [OF c] .
    show ?thesis
      using Answer e n by (intro log_inv_same [OF inv p el, of c]) (simp_all add: lc' same_entries_def)
  next
    case (Count q now v r)
    show ?thesis
      using cl g p el none unfolding Count cluster_actor.simps lc' by (intro count_log_inv [OF inv]) simp_all
  next
    case (Local q e)
    with cl obtain c where c: "is_local e" "core_step S M e (node lc q) = Some c"
      and n: "nodes cl = (nodes (elections lc))(q := c)" "led cl = led (elections lc)"
      by (auto simp: bind_eq_Some_conv put_node_def split: if_split_asm)
    have e: "same_entries (node lc q) c"
      using internal_none [OF _ c(2)] g none n sli Local by (simp add: lc')
    show ?thesis
      using Local e n local_quiet [OF c] local_order [OF c]
      by (intro log_inv_same [OF inv p el, of c]) (simp_all add: lc' same_entries_def)
  next
    case (AdoptTerm q t)
    with cl have lt: "current_term (node lc q) < t"
      and n: "nodes cl = (nodes (elections lc))(q := adopt_term_in_memory t (node lc q))" "led cl = led (elections lc)"
      by (auto simp: put_node_def split: if_split_asm)
    have e: "quiet (node lc q) (adopt_term_in_memory t (node lc q))"
      "vote_order (node lc q) (adopt_term_in_memory t (node lc q))"
      "same_entries (node lc q) (adopt_term_in_memory t (node lc q))"
      using lt by (simp_all add: quiet_def vote_order_def adopt_term_in_memory_def same_entries_def)
    show ?thesis
      using AdoptTerm e n
      by (intro log_inv_same [OF inv p el, of "adopt_term_in_memory t (node lc q)"]) (simp_all add: lc' same_entries_def)
  next
    case (Restart q now m)
    let ?c = "node lc q"
    from cl Restart obtain d where d: "raft_core_new S M now (node_id ?c) (peers ?c) (storage ?c) m = Some d"
      and disk: "load_term S (storage ?c) = Ok (current_term ?c)"
      and n: "nodes cl = (nodes (elections lc))(q := d)" "led cl = led (elections lc)"
      by (auto simp: bind_eq_Some_conv put_node_def Let_def split: if_split_asm)
    have e: "rlog d = rlog ?c" "role d = Follower" "current_term d = current_term ?c"
      using d disk g Restart by (auto simp: raft_core_new_def bind_eq_Some_conv)
    have "snapshot_last_index d = 0" using none n Restart by (simp add: lc')
    then have "node_log (made lc) d" using log e(1) Restart by (simp add: node_log_def)
    then show ?thesis
      using Restart e n
      by (intro log_inv_quiet [OF inv p el, of d]) (auto simp: lc' past_candidacy_def)
  qed
qed

lemma submit_log_inv:
  assumes inv: "log_inv U lc" and p: "p \<in> U" and g: "log_room (node lc p)"
    and s: "log_effect S M (Submit p cmd) lc = Some lc'"
  shows "log_inv U lc'"
proof -
  note i = log_invD [OF inv]
  from s obtain res c where c: "append_log_entry S cmd (node lc p) = Some (res, c)"
    and lc': "lc' = (set_node p c lc)\<lparr>made := note_made (rlog (node lc p)) (rlog c) (made lc)\<rparr>"
    by (auto simp: bind_eq_Some_conv)
  have step: "core_step S M (ClientAppend cmd) (node lc p) = Some c" using c by simp
  have q: "quiet (node lc p) c" "vote_order (node lc p) c"
    using local_quiet [OF _ step] local_order [OF _ step] by simp_all
  have el: "cluster_inv U (elections lc')"
    using inv_quiet [OF i(1) p q] by (simp add: lc' set_node_def)
  show ?thesis
  proof (cases "role (node lc p) = Leader")
    case False
    with c have "c = node lc p" by (simp add: append_log_entry_Some)
    then show ?thesis
      using el by (intro log_inv_same [OF inv p, of lc' c]) (simp_all add: lc' set_node_def put_node_def quiet_def)
  next
    case True
    with c obtain e where e: "rlog c = rlog (node lc p) @ [e]" "le_index e = last_log_index (node lc p) + 1"
      "le_term e = current_term c" and f: "current_term c = current_term (node lc p)" "role c = Leader"
      "snapshot_last_index c = snapshot_last_index (node lc p)"
      by (auto simp: append_log_entry_Some Let_def)
    have led: "led (elections lc') = led (elections lc)" by (simp add: lc' set_node_def put_node_def)
    show ?thesis
    proof (rule log_inv_append [OF inv p el _ e(1,2)])
      show "nodes (elections lc') = (nodes (elections lc))(p := c)" by (simp add: lc' set_node_def put_node_def)
      show "snapshot_last_index c = 0" using f(3) i(3) [OF p] by (simp add: node_log_def)
      show "(current_term c, p) \<in> set (led (elections lc'))"
        using cluster_invD(5) [OF i(1) p True] led f(1) by simp
      show "x \<in> set (rlog (node lc p))" if "(x, t) \<in> set (made lc)" "le_term x = current_term c" for x t
        using i(4) [OF p] True that f(1) by (auto simp: leader_made_def)
      show "past_candidacy t c" if "(t, p) \<in> set (led (elections lc'))" for t
        using i(6) [of t p] that led q quiet_past by simp
      show "made lc' = note_made (rlog (node lc p)) (rlog c) (made lc)" by (simp add: lc')
      show "log_room (node lc p)" by (rule g)
    qed (use e(3) led in \<open>simp_all add: lc' set_node_def\<close>)
  qed
qed

text \<open>What a node sends of its log, whatever the next index is.\<close>

lemma request_carries:
  assumes log: "node_log g c" and es: "es = take j (filter (\<lambda>e. n \<le> le_index e) (rlog c))"
  shows "carries g (append_request c n es)"
proof (cases "n = 0 \<or> es = []")
  case True
  then show ?thesis by (auto simp: carries_def append_request_def)
next
  case False
  note l = log [unfolded node_log_def]
  have n: "unat (n - 1) = unat n - 1" "0 < unat n" using False by (simp_all add: u64_pred unat_gt_0 word_gt_0)
  then have "(n \<le> x) = (n - 1 < x)" for x by (auto simp: word_le_nat_alt word_less_nat_alt)
  then have f: "filter (\<lambda>e. n \<le> le_index e) (rlog c) = filter (\<lambda>e. n - 1 < le_index e) (rlog c)" by simp
  have le: "unat (n - 1) \<le> length (rlog c)"
    using filter_log_from_beyond [of 0 "rlog c" "n - 1"] l False es f by fastforce
  let ?k = "unat (n - 1)"
  have d: "filter (\<lambda>e. n \<le> le_index e) (rlog c) = drop ?k (rlog c)"
    using filter_log_from [of 0 "rlog c" "n - 1"] l le f by simp
  have lf: "log_from (n - 1) (drop ?k (rlog c))" using log_from_drop [of 0 "rlog c" "n - 1"] l le by simp
  have tm: "(if n - 1 = 0 then 0 else term_at c (n - 1)) = (if ?k = 0 then 0 else le_term (rlog c ! (?k - 1)))"
  proof (cases "n - 1 = 0")
    case False
    then have k: "0 < ?k" "unat (n - 1 - 1) = ?k - 1"
      using u64_pred [of "n - 1"] by (simp_all only: unat_gt_0 word_gt_0 simp_thms)
    moreover from k(1) le have "?k - 1 < length (rlog c)" by linarith
    ultimately show ?thesis using False l by (simp add: term_at_def word_gt_0 Let_def)
  qed simp
  have "chain g (if ?k = 0 then 0 else le_term (rlog c ! (?k - 1))) (drop ?k (rlog c))"
    using l le by (intro chain_drop) simp_all
  then have "chain g (if n - 1 = 0 then 0 else term_at c (n - 1)) es"
    unfolding tm es d by (rule chain_take)
  moreover have "log_from (n - 1) es" unfolding es d using lf by (rule log_from_take)
  moreover have "?k + length es + 1 < u64_bound"
  proof -
    have "length es \<le> length (rlog c) - ?k" unfolding es d by simp
    then show ?thesis using l le by linarith
  qed
  ultimately show ?thesis by (simp add: carries_def append_request_def split: if_splits)
qed

lemma replicate_carries:
  assumes "node_log g c"
  shows "carries g (replicate_request i c q)"
proof -
  let ?n = "peer_next_index c q"
  have l: "log_from 0 (rlog c)" using assms by (simp add: node_log_def)
  have "\<exists>j. filter (\<lambda>e. ?n \<le> le_index e \<and> le_index e \<le> i) (rlog c) = take j (filter (\<lambda>e. ?n \<le> le_index e) (rlog c))"
  proof -
    have "filter (\<lambda>e. ?n \<le> le_index e \<and> le_index e \<le> i) (rlog c) = filter (\<lambda>e. ?n \<le> le_index e) (filter (\<lambda>e. le_index e \<le> i) (rlog c))"
      by (simp add: conj_commute)
    also have "\<dots> = filter (\<lambda>e. ?n \<le> le_index e) (take (unat i) (rlog c))"
      using filter_log_upto [OF l, of i] by simp
    also have "\<exists>j. \<dots> = take j (filter (\<lambda>e. ?n \<le> le_index e) (rlog c))"
      by (metis append_eq_conv_conj append_take_drop_id filter_append)
    finally show ?thesis .
  qed
  then show ?thesis using request_carries [OF assms] by (auto simp: replicate_request_def Let_def)
qed

lemma heartbeat_carries:
  assumes "node_log g c" "heartbeat_request S c q = Some (AppendEntriesRequest req i)"
  shows "carries g req"
proof -
  have "req = append_request c (peer_next_index c q) (filter (\<lambda>e. peer_next_index c q \<le> le_index e) (rlog c))"
    using assms(2) by (auto simp: heartbeat_request_def Let_def split: if_split_asm sum.split_asm option.split_asm)
  moreover have "filter P l = take (length l) (filter P l)" for P and l :: "log_entry list" by simp
  ultimately show ?thesis using request_carries [OF assms(1)] by metis
qed

lemma send_log_inv:
  assumes inv: "log_inv U lc" and c: "carries (made lc) req"
  shows "log_inv U (send_append q i req lc)"
  using assms unfolding log_inv_def send_append_def by auto

text \<open>Receiving a message.\<close>

lemma carries_merge:
  assumes log: "node_log g c" and car: "carries g req" and m: "prev_matches req c"
    and c': "rlog c' = merge_log 0 (rlog c) (ae_entries req)" "snapshot_last_index c' = 0"
  shows "node_log g c'"
proof (cases "ae_entries req = []")
  case True
  then show ?thesis using log c' by (simp add: node_log_def)
next
  case False
  note l = log [unfolded node_log_def]
  let ?p = "prev_log_index req" and ?l = "rlog c"
  have last: "unat (last_log_index c) = length ?l"
    using unat_last_log_index [of c] l by (simp add: log_ok_def)
  have le: "unat ?p \<le> length ?l" using prev_matches_le [OF m] last by (simp add: word_le_nat_alt)
  have "?p \<noteq> -1"
  proof
    assume "?p = -1"
    then have "unat ?p + 1 = u64_bound" by (simp add: u64_bound_def unsigned_minus_1_eq_mask mask_eq_exp_minus_1)
    with le l show False by simp
  qed
  with car False have r: "log_from ?p (ae_entries req)" "unat ?p + length (ae_entries req) + 1 < u64_bound"
    "chain g (if ?p = 0 then 0 else prev_log_term req) (ae_entries req)"
    by (simp_all add: carries_def)
  have "prev_log_term req = le_term (?l ! (unat ?p - 1))" if nz: "?p \<noteq> 0"
  proof -
    from nz m l obtain e where "get_log_entry c ?p = Some e" "le_term e = prev_log_term req"
      by (auto simp: prev_matches_def split: if_split_asm)
    moreover have "get_log_entry c ?p = Some (?l ! (unat ?p - unat (snapshot_last_index c) - 1))"
      using nz l le last by (intro get_log_entry_Some) (simp_all add: log_ok_def unat_gt_0)
    ultimately show ?thesis using l by simp
  qed
  with r(3) have ch: "chain g (if ?p = 0 then 0 else le_term (?l ! (unat ?p - 1))) (ae_entries req)" by (simp split: if_splits)
  have "length (merge_log 0 ?l (ae_entries req)) \<le> max (length ?l) (unat ?p + length (ae_entries req))"
    using merge_log_length_le [OF r(1), of 0 ?l] by simp
  then have "length (rlog c') + 1 < u64_bound" using l r(2) c'(1) by (simp add: max_def split: if_splits)
  moreover have "chain g 0 (rlog c')" using merge_log_chain [OF _ _ r(1) le ch] l c'(1) by simp
  moreover have "log_from 0 (rlog c')" using merge_log_from [OF _ r(1), of 0 ?l] l le c'(1) by simp
  ultimately show ?thesis using c'(2) by (simp add: node_log_def)
qed

lemma deliver_log_inv:
  assumes inv: "log_inv U lc" and q: "q \<in> U" and msg: "(q, i, req) \<in> set (appends lc)"
    and s: "log_effect S M (Deliver q now i req) lc = Some lc'" and none: "snapshot_last_index (node lc' q) = 0"
  shows "log_inv U lc'"
proof -
  note inv_facts = log_invD [OF inv]
  from s obtain out c where c: "handle_append_entries S M now req (node lc q) = Some (out, c)"
    and lc': "lc' = (case i of None \<Rightarrow> set_node q c lc
        | Some i \<Rightarrow> (set_node q c lc)\<lparr>append_replies := (q, i, req, hae_result out) # append_replies (set_node q c lc)\<rparr>)"
    by (auto simp: bind_eq_Some_conv Let_def)
  have f: "nodes (elections lc') = (nodes (elections lc))(q := c)" "led (elections lc') = led (elections lc)"
    "made lc' = made lc" "appends lc' = appends lc" "elections lc' = put_node q c (elections lc)"
    by (simp_all add: lc' set_node_def put_node_def split: option.split)
  have step: "core_step S M (AppendEntriesReq now req) (node lc q) = Some c" using c by simp
  have qu: "quiet (node lc q) c" "vote_order (node lc q) c"
    using local_quiet [OF _ step] local_order [OF _ step] by simp_all
  have el: "cluster_inv U (elections lc')" using inv_quiet [OF inv_facts(1) q qu] by (simp add: f(5))
  have log: "node_log (made lc) (node lc q)" using inv_facts(3) [OF q] .
  have sc: "snapshot_last_index c = 0" "snapshot_last_index (node lc q) = 0"
    using none log by (simp_all add: f(1) node_log_def)
  from handle_append_entries_none [OF c sc] show ?thesis
  proof (elim disjE conjE)
    assume "same_log (node lc q) c"
    then have "same_entries (node lc q) c" by (rule same_log_entries)
    then show ?thesis using f qu by (intro log_inv_same [OF inv q el, of c]) simp_all
  next
    assume m: "prev_matches req (node lc q)" "rlog c = merge_log 0 (rlog (node lc q)) (ae_entries req)" "role c = Follower"
    have "node_log (made lc) c" by (rule carries_merge [OF log inv_facts(8) [OF msg] m(1,2) sc(1)])
    then show ?thesis
      using f m(3) quiet_past [OF qu] by (intro log_inv_quiet [OF inv q el, of c]) simp_all
  qed
qed

lemma acknowledge_log_inv:
  assumes inv: "log_inv U lc" and p: "ae_leader_id req \<in> U"
    and s: "log_effect S M (Acknowledge q i req r) lc = Some lc'"
    and none: "snapshot_last_index (node lc' (ae_leader_id req)) = 0"
  shows "log_inv U lc'"
proof -
  note inv_facts = log_invD [OF inv]
  let ?p = "ae_leader_id req"
  from s obtain out c where c: "handle_append_entries_result S M q i r (node lc ?p) = Some (out, c)"
    and lc': "lc' = set_node ?p c lc"
    by (auto simp: bind_eq_Some_conv)
  have step: "core_step S M (AppendEntriesRes q i r) (node lc ?p) = Some c" using c by simp
  have qu: "quiet (node lc ?p) c" "vote_order (node lc ?p) c"
    using local_quiet [OF _ step] local_order [OF _ step] by simp_all
  have "same_entries (node lc ?p) c"
    using handle_append_entries_result_none [OF c] none inv_facts(3) [OF p]
    by (simp add: lc' set_node_def put_node_def node_log_def)
  moreover have "cluster_inv U (elections lc')" using inv_quiet [OF inv_facts(1) p qu] by (simp add: lc' set_node_def)
  ultimately show ?thesis
    using qu by (intro log_inv_same [OF inv p, of lc' c]) (simp_all add: lc' set_node_def put_node_def)
qed

lemma log_step_inv:
  assumes inv: "log_inv U lc" and p: "log_actor ev \<in> U" and s: "log_step S M ev lc = Some lc'"
  shows "log_inv U lc'"
proof -
  from s have g: "log_guard S ev lc" and e: "log_effect S M ev lc = Some lc'"
    and none: "snapshot_last_index (node lc' (log_actor ev)) = 0"
    by (auto simp: log_step_def bind_eq_Some_conv split: if_split_asm)
  note log = log_invD(3) [OF inv p]
  show ?thesis
  proof (cases ev)
    case (Election x)
    with election_log_inv [OF inv _ _ _ none [unfolded Election log_actor.simps]] p g e show ?thesis by simp
  next
    case (Submit q cmd)
    with submit_log_inv [OF inv] p g e show ?thesis by simp
  next
    case (Heartbeat a q)
    with e obtain req i where "heartbeat_request S (node lc a) q = Some (AppendEntriesRequest req i)"
      "lc' = send_append q (Some i) req lc"
      by (auto split: option.split_asm node_request.split_asm)
    with Heartbeat log show ?thesis by (auto intro: send_log_inv [OF inv] heartbeat_carries)
  next
    case (Replicate a i q)
    with e log show ?thesis by (auto intro: send_log_inv [OF inv] replicate_carries)
  next
    case (Confirm a q)
    moreover have "carries (made lc) (confirm_request (node lc a) q)"
      by (simp add: carries_def confirm_request_def append_request_def)
    ultimately show ?thesis using e by (auto intro: send_log_inv [OF inv])
  next
    case (Deliver q now i req)
    with deliver_log_inv [OF inv, of q i req] p g e none show ?thesis by simp
  next
    case (Acknowledge q i req r)
    with acknowledge_log_inv [OF inv, of req] p e none show ?thesis by simp
  qed
qed

lemma initial_log_inv:
  assumes "\<forall>p \<in> U. fresh_node U p (f p)"
  shows "log_inv U (initial_log_cluster f)"
proof -
  have "cluster_inv U (initial_cluster f)" using assms by (intro initial_inv) (simp add: fresh_node_def)
  then show ?thesis
    using assms
    by (simp add: log_inv_def initial_log_cluster_def initial_cluster_def fresh_node_def node_log_def leader_made_def
        made_once_def u64_bound_def)
qed

theorem reachable_log_inv: "reachable S M U lc \<Longrightarrow> log_inv U lc"
  by (induction rule: reachable.induct) (auto intro: initial_log_inv log_step_inv)

section \<open>Log matching\<close>

lemma node_log_entry:
  assumes "node_log g c"
  shows "get_log_entry c i = (if 0 < i \<and> unat i \<le> length (rlog c) then Some (rlog c ! (unat i - 1)) else None)"
proof -
  have l: "log_ok c" "snapshot_last_index c = 0" using assms by (simp_all add: node_log_def log_ok_def)
  have last: "unat (last_log_index c) = length (rlog c)" using unat_last_log_index [OF l(1)] l(2) by simp
  show ?thesis
    using get_log_entry_Some [OF l(1), of i] get_log_entry_None [OF l(1), of i] l(2) last
    by (auto simp: word_gt_0 unat_gt_0 not_le)
qed

lemma log_inv_matching:
  assumes inv: "log_inv U lc" and pq: "p \<in> U" "q \<in> U"
    and e: "get_log_entry (node lc p) i = Some e" "get_log_entry (node lc q) i = Some e'" "le_term e = le_term e'"
    and j: "j \<le> i"
  shows "get_log_entry (node lc p) j = get_log_entry (node lc q) j"
proof -
  note i = log_invD [OF inv]
  have n: "node_log (made lc) (node lc p)" "node_log (made lc) (node lc q)" using i(3) pq by blast+
  let ?l = "rlog (node lc p)" and ?m = "rlog (node lc q)" and ?k = "unat i - 1"
  have b: "0 < i" "unat i \<le> length ?l" "unat i \<le> length ?m" "e = ?l ! ?k" "e' = ?m ! ?k"
    using e node_log_entry [OF n(1), of i] node_log_entry [OF n(2), of i] by (auto split: if_split_asm)
  have k: "0 < unat i" using b(1) by (simp add: word_less_nat_alt)
  have "take (Suc ?k) ?l = take (Suc ?k) ?m"
    using n b k e(3) by (intro chain_match [OF i(2)]) (auto simp: node_log_def)
  then have t: "take (unat i) ?l = take (unat i) ?m" using k by simp
  show ?thesis
  proof (cases "j = 0")
    case False
    then have jk: "0 < unat j" "unat j \<le> unat i" using j by (simp_all add: unat_gt_0 word_le_nat_alt)
    then have "?l ! (unat j - 1) = take (unat i) ?l ! (unat j - 1)" "?m ! (unat j - 1) = take (unat i) ?m ! (unat j - 1)"
      by simp_all
    with t have "?l ! (unat j - 1) = ?m ! (unat j - 1)" by simp
    with jk b False node_log_entry [OF n(1), of j] node_log_entry [OF n(2), of j] show ?thesis by (simp add: word_gt_0)
  qed (use node_log_entry [OF n(1), of 0] node_log_entry [OF n(2), of 0] in simp)
qed

end
