(* ===== verification/Commit_Logs.thy ===== *)
theory Commit_Logs
  imports Log_Cluster
begin

text \<open>
  Logs as chains of created entries: the history of an entry (the one log that ends with it), the order
  of entries within histories, and what the merge of a piece of a leader's log does to a log.
\<close>

section \<open>Histories\<close>

definition has_log :: "(log_entry \<times> u64) list \<Rightarrow> log_entry list \<Rightarrow> bool" where
  "has_log g l \<longleftrightarrow> chain g 0 l \<and> log_from 0 l"

definition hist :: "(log_entry \<times> u64) list \<Rightarrow> log_entry \<Rightarrow> log_entry list \<Rightarrow> bool" where
  "hist g x l \<longleftrightarrow> has_log g l \<and> l \<noteq> [] \<and> last l = x"

definition below :: "(log_entry \<times> u64) list \<Rightarrow> log_entry \<Rightarrow> log_entry \<Rightarrow> bool" where
  "below g e x \<longleftrightarrow> (\<exists>l. hist g x l \<and> e \<in> set l)"

abbreviation idx :: "log_entry \<Rightarrow> nat" where
  "idx e \<equiv> unat (le_index e)"

lemma has_log_take: "has_log g l \<Longrightarrow> has_log g (take n l)"
  by (simp add: has_log_def chain_take log_from_take)

lemma has_log_mono: "has_log g l \<Longrightarrow> set g \<subseteq> set g' \<Longrightarrow> has_log g' l"
  by (auto simp: has_log_def intro: chain_mono)

lemma hist_mono: "hist g x l \<Longrightarrow> set g \<subseteq> set g' \<Longrightarrow> hist g' x l"
  by (auto simp: hist_def intro: has_log_mono)

lemma below_mono: "below g e x \<Longrightarrow> set g \<subseteq> set g' \<Longrightarrow> below g' e x"
  by (auto simp: below_def intro: hist_mono)

lemma has_log_nth:
  assumes "has_log g l" "e \<in> set l"
  shows "0 < idx e" "idx e \<le> length l" "l ! (idx e - 1) = e"
proof -
  obtain k where k: "k < length l" "l ! k = e" using assms(2) by (auto simp: in_set_conv_nth)
  then have "idx e = k + 1" using log_from_nth [of 0 l k] assms(1) by (simp add: has_log_def)
  with k show "0 < idx e" "idx e \<le> length l" "l ! (idx e - 1) = e" by simp_all
qed

lemma has_log_index: "has_log g l \<Longrightarrow> k < length l \<Longrightarrow> idx (l ! k) = k + 1"
  using log_from_nth [of 0 l k] by (simp add: has_log_def)

lemma has_log_last: "has_log g l \<Longrightarrow> l \<noteq> [] \<Longrightarrow> idx (last l) = length l"
  using has_log_index [of g l "length l - 1"] by (simp add: last_conv_nth)

lemma has_log_made: "has_log g l \<Longrightarrow> e \<in> set l \<Longrightarrow> \<exists>t. (e, t) \<in> set g"
  by (auto simp: has_log_def dest: chain_member)

text \<open>Two logs that hold the same entry, or entries of one index and term, are equal up to it.\<close>

lemma has_log_agree:
  assumes "made_once g" "has_log g l" "has_log g m" "0 < n" "n \<le> length l" "n \<le> length m"
    and "le_term (l ! (n - 1)) = le_term (m ! (n - 1))"
  shows "take n l = take n m"
  using chain_match [OF assms(1), of l m "n - 1"] assms by (simp add: has_log_def)

lemma has_log_common:
  assumes "made_once g" "has_log g l" "has_log g m" "x \<in> set l" "x \<in> set m"
  shows "take (idx x) l = take (idx x) m"
  using has_log_agree [OF assms(1-3), of "idx x"] has_log_nth [OF assms(2,4)] has_log_nth [OF assms(3,5)] by simp

lemma in_take_idx: "has_log g l \<Longrightarrow> e \<in> set l \<Longrightarrow> idx e \<le> n \<Longrightarrow> e \<in> set (take n l)"
  using has_log_nth [of g l e] by (auto simp: in_set_conv_nth intro!: exI [of _ "idx e - 1"])

lemma in_take_idxD: "has_log g l \<Longrightarrow> e \<in> set (take n l) \<Longrightarrow> e \<in> set l \<and> idx e \<le> n"
  using has_log_nth [of g "take n l" e] has_log_take [of g l n] by (auto dest: in_set_takeD)

lemma hist_unique:
  assumes "made_once g" "hist g x l" "hist g x m"
  shows "l = m"
proof -
  note h = assms(2,3) [unfolded hist_def]
  have l: "has_log g l" "x \<in> set l" "idx x = length l" and m: "has_log g m" "x \<in> set m" "idx x = length m"
    using h has_log_last [of g l] has_log_last [of g m] last_in_set [of l] last_in_set [of m] by simp_all
  show ?thesis using has_log_common [OF assms(1) l(1) m(1) l(2) m(2)] l(3) m(3) by simp
qed

lemma hist_take:
  assumes "has_log g l" "x \<in> set l"
  shows "hist g x (take (idx x) l)"
  using assms has_log_nth [OF assms] has_log_take [OF assms(1)]
  by (auto simp: hist_def last_take_nth)

lemma below_in_log:
  assumes "made_once g" "below g e x" "has_log g l" "x \<in> set l"
  shows "e \<in> set l" "idx e \<le> idx x"
proof -
  obtain m where m: "hist g x m" "e \<in> set m" using assms(2) by (auto simp: below_def)
  have "m = take (idx x) l" using hist_unique [OF assms(1) m(1) hist_take [OF assms(3,4)]] .
  with m(2) in_take_idxD [OF assms(3), of e "idx x"] show "e \<in> set l" "idx e \<le> idx x" by simp_all
qed

lemma belowI: "has_log g l \<Longrightarrow> e \<in> set l \<Longrightarrow> x \<in> set l \<Longrightarrow> idx e \<le> idx x \<Longrightarrow> below g e x"
  unfolding below_def using hist_take in_take_idx by blast

lemma below_refl: "has_log g l \<Longrightarrow> x \<in> set l \<Longrightarrow> below g x x"
  by (rule belowI) simp_all

lemma below_hist: "below g e x \<Longrightarrow> \<exists>l. hist g x l"
  by (auto simp: below_def)

lemma below_made: "below g e x \<Longrightarrow> (\<exists>t. (e, t) \<in> set g) \<and> (\<exists>t. (x, t) \<in> set g)"
  unfolding below_def hist_def using has_log_made last_in_set by metis

text \<open>Two entries below a third one that have the same index are the same.\<close>

lemma below_index_unique:
  assumes "made_once g" "below g e x" "below g e' x" "le_index e = le_index e'"
  shows "e = e'"
proof -
  obtain l where l: "hist g x l" "e \<in> set l" using assms(2) by (auto simp: below_def)
  then have h: "has_log g l" "x \<in> set l" by (auto simp: hist_def)
  have "e' \<in> set l" using below_in_log(1) [OF assms(1,3) h] .
  with l(2) h(1) assms(4) has_log_nth(3) show ?thesis by metis
qed

section \<open>Merging a piece of a log\<close>

lemma merge_keeps_agreeing:
  assumes "log_from p es" "n \<le> length l" "unat p \<le> length l"
    and "\<And>k. k < length es \<Longrightarrow> unat p + k < n \<Longrightarrow> le_term (es ! k) = le_term (l ! (unat p + k))"
  shows "take n (merge_log 0 l es) = take n l"
  using assms
proof (induction es arbitrary: p l)
  case (Cons e es)
  note d = log_from_ConsD [OF Cons.prems(1)]
  have k: "unat (le_index e) - unat (0 :: u64) - 1 = unat p" "\<not> le_index e \<le> 0"
    using d(1) by (auto simp: word_le_nat_alt)
  show ?case
  proof (cases "unat p < length l \<and> le_term (l ! unat p) = le_term e")
    case True
    then have m: "merge_entry 0 l e = l" using k by (auto simp: merge_entry_def Let_def)
    have "take n (merge_log 0 l es) = take n l"
      using Cons.prems(4) [of "Suc k" for k] d True Cons.prems(2)
      by (intro Cons.IH [of "le_index e"]) simp_all
    with m show ?thesis by simp
  next
    case False
    have n: "n \<le> unat p"
    proof (rule ccontr)
      assume "\<not> n \<le> unat p"
      with Cons.prems(4) [of 0] Cons.prems(2) False show False by simp
    qed
    have m: "merge_entry 0 l e = take (unat p) l @ [e]" using False k by (auto simp: merge_entry_def Let_def)
    have "take n (merge_log 0 (merge_entry 0 l e) es) = take n (merge_entry 0 l e)"
      using d Cons.prems(3) n by (intro Cons.IH [of "le_index e"]) (auto simp: m)
    also have "\<dots> = take n l" using n Cons.prems(3) by (simp add: m min_def)
    finally show ?thesis by simp
  qed
qed simp

lemma set_merge_log: "set (merge_log 0 l es) \<subseteq> set l \<union> set es"
proof (induction es arbitrary: l)
  case (Cons e es)
  have "set (merge_entry 0 l e) \<subseteq> insert e (set l)"
    by (auto simp: merge_entry_def Let_def dest: in_set_takeD)
  with Cons [of "merge_entry 0 l e"] show ?case by auto
qed simp

text \<open>
  \<open>L\<close> is a log, \<open>es\<close> its entries from position \<open>k\<close> on, and \<open>l\<close> a log that agrees with \<open>L\<close> on the term at
  position \<open>k\<close>. After the merge \<open>l\<close> agrees with \<open>L\<close> as far as \<open>es\<close> goes.
\<close>

lemma merge_piece:
  fixes p :: u64
  assumes g: "made_once g" and L: "has_log g L" and l: "has_log g l" and l': "has_log g (merge_log 0 l es)"
    and p: "unat p \<le> length L" "unat p \<le> length l" "0 < unat p \<Longrightarrow> le_term (l ! (unat p - 1)) = le_term (L ! (unat p - 1))"
    and es: "es = take k (drop (unat p) L)"
  shows "take (unat p + length es) (merge_log 0 l es) = take (unat p + length es) L"
    and "unat p + length es \<le> length (merge_log 0 l es)"
proof -
  let ?m = "merge_log 0 l es" and ?n = "unat p + length es"
  have pre: "take (unat p) l = take (unat p) L"
    using has_log_agree [OF g l L, of "unat p"] p by (cases "unat p") simp_all
  have lf: "log_from p es"
  proof -
    have "log_from p (drop (unat p) L)" using log_from_drop [of 0 L p] L p(1) by (simp add: has_log_def)
    then show ?thesis unfolding es by (rule log_from_take)
  qed
  have "take ?n ?m = take ?n L \<and> ?n \<le> length ?m"
  proof (cases "es = []")
    case True
    with pre p(2) show ?thesis by simp
  next
    case False
    have nL: "?n \<le> length L" using es p(1) by auto
    have nth: "es ! j = L ! (unat p + j)" if "j < length es" for j using that p(1) unfolding es by simp
    have "last es = es ! (length es - 1)" "length es - 1 < length es" using False by (simp_all add: last_conv_nth)
    with nth have last: "last es = L ! (?n - 1)" using False by (simp add: Suc_leI)
    have lm: "last es \<in> set es" using False by simp
    have i: "idx (last es) = ?n"
      using has_log_index [OF L, of "?n - 1"] last nL False by (cases "length es") simp_all
    have nz: "0 < le_index (last es)" using i False by (simp add: word_less_nat_alt)
    have "unat (le_index (last es)) - unat (0 :: u64) - 1 < length ?m \<and>
        le_term (?m ! (unat (le_index (last es)) - unat (0 :: u64) - 1)) = le_term (last es)"
      using merge_log_contains [of 0 l p es "last es"] l lf p(2) lm nz by (simp add: has_log_def)
    then have c: "?n - 1 < length ?m" "le_term (?m ! (?n - 1)) = le_term (L ! (?n - 1))"
      using i last by simp_all
    have "0 < ?n" using False by simp
    with c(1) have "?n \<le> length ?m" by linarith
    then show ?thesis
      using has_log_agree [OF g l' L _ _ nL] c(2) \<open>0 < ?n\<close> by simp
  qed
  then show "take ?n ?m = take ?n L" "?n \<le> length ?m" by simp_all
qed

text \<open>An entry of \<open>l\<close> stays if it is in \<open>L\<close>, or if \<open>L\<close> is within its history.\<close>

lemma merge_keeps:
  fixes p :: u64
  assumes g: "made_once g" and L: "has_log g L" and l: "has_log g l" and e: "e \<in> set l"
    and p: "unat p \<le> length L" "unat p \<le> length l" and es: "es = take k (drop (unat p) L)"
    and rel: "e \<in> set L \<or> (L \<noteq> [] \<and> last L \<in> set l \<and> idx (last L) \<le> idx e)"
  shows "take (idx e) (merge_log 0 l es) = take (idx e) l" "e \<in> set (merge_log 0 l es)"
proof -
  note i = has_log_nth [OF l e]
  have lf: "log_from p es"
  proof -
    have "log_from p (drop (unat p) L)" using log_from_drop [of 0 L p] L p(1) by (simp add: has_log_def)
    then show ?thesis unfolding es by (rule log_from_take)
  qed
  have agree: "l ! j = L ! j" if "j < idx e" "j < length L" for j
    using rel
  proof
    assume "e \<in> set L"
    with has_log_common [OF g l L e] that show ?thesis by (metis nth_take)
  next
    assume x: "L \<noteq> [] \<and> last L \<in> set l \<and> idx (last L) \<le> idx e"
    then have "take (idx (last L)) l = take (idx (last L)) L" "idx (last L) = length L"
      using has_log_common [OF g l L, of "last L"] has_log_last [OF L] by simp_all
    with that show ?thesis by (metis nth_take)
  qed
  show t: "take (idx e) (merge_log 0 l es) = take (idx e) l"
  proof (rule merge_keeps_agreeing [OF lf i(2) p(2)])
    fix k' assume k': "k' < length es" "unat p + k' < idx e"
    then have "es ! k' = L ! (unat p + k')" "unat p + k' < length L" using es by auto
    with agree [of "unat p + k'"] k'(2) show "le_term (es ! k') = le_term (l ! (unat p + k'))" by simp
  qed
  have "e \<in> set (take (idx e) l)" using in_take_idx [OF l e] by simp
  with t have "e \<in> set (take (idx e) (merge_log 0 l es))" by simp
  then show "e \<in> set (merge_log 0 l es)" by (rule in_set_takeD)
qed

end
