(* ===== verification/Commit_Safety.thy ===== *)
theory Commit_Safety
  imports Commit_Logs
begin

text \<open>
  Leader completeness and state machine safety. The theory keeps, beside the cluster, the history that
  the argument of the Raft paper refers to: the log with which every leader was elected (\<open>ballots\<close>)
  and the entries a node held in the term in which they were created (\<open>stored\<close>). An entry that a
  majority stored in its term is in the log of every later leader, and all that any node commits is
  part of the history of such an entry.

  The runs are those of \<open>Log_Cluster\<close> in which a node sends AppendEntries only while it leads, takes replies
  from its peers only, and a message commits no entry behind the last one it covers. The code breaks both in rare runs; what
  then happens is shown in \<open>Replication_Properties\<close>.
\<close>

section \<open>Runs with their history\<close>

record past =
  ballots :: "(u64 \<times> u64 \<times> log_entry list) list"
  stored :: "(u64 \<times> log_entry) list"

text \<open>The message tells the follower to commit no more than what it has compared with the leader.\<close>

definition covers :: "append_entries_args \<Rightarrow> bool" where
  "covers req \<longleftrightarrow> unat (leader_commit req) \<le> unat (prev_log_index req) + length (ae_entries req)"

fun safe_guard :: "'s storage_ops \<Rightarrow> 'm log_event \<Rightarrow> ('s, 'm) log_cluster \<Rightarrow> bool" where
  "safe_guard S (Replicate p i q) lc =
     (role (node lc p) = Leader \<and> i \<le> last_log_index (node lc p) \<and> covers (replicate_request i (node lc p) q))"
| "safe_guard S (Confirm p q) lc = covers (confirm_request (node lc p) q)"
| "safe_guard S (Acknowledge q i req r) lc = (q \<in> set (peers (node lc (ae_leader_id req))))"
| "safe_guard S (Election (Restart p now m)) lc = (st_load_snapshot S (storage (node lc p)) = Ok None)"
| "safe_guard S ev lc = True"

definition observe :: "u64 \<Rightarrow> ('s, 'm) raft_core \<Rightarrow> ('s, 'm) raft_core \<Rightarrow> past \<Rightarrow> past" where
  "observe p c c' h =
     h\<lparr>ballots := (if role c' = Leader \<and> role c \<noteq> Leader then (current_term c', p, rlog c) # ballots h else ballots h),
       stored := map (Pair p) (filter (\<lambda>e. le_term e = current_term c') (rlog c')) @ stored h\<rparr>"

inductive safe_reachable ::
  "'s storage_ops \<Rightarrow> 'm sm_ops \<Rightarrow> u64 set \<Rightarrow> ('s, 'm) log_cluster \<Rightarrow> past \<Rightarrow> bool"
  for S :: "'s storage_ops" and M :: "'m sm_ops" and U :: "u64 set" where
  safe_init: "\<forall>p \<in> U. fresh_node U p (f p) \<Longrightarrow> safe_reachable S M U (initial_log_cluster f) \<lparr>ballots = [], stored = []\<rparr>"
| safe_step: "safe_reachable S M U lc h \<Longrightarrow> log_actor ev \<in> U \<Longrightarrow> safe_guard S ev lc \<Longrightarrow> log_step S M ev lc = Some lc' \<Longrightarrow>
    safe_reachable S M U lc' (observe (log_actor ev) (node lc (log_actor ev)) (node lc' (log_actor ev)) h)"

lemma safe_is_reachable: "safe_reachable S M U lc h \<Longrightarrow> reachable S M U lc"
  by (induction rule: safe_reachable.induct) (auto intro: reachable_init reachable_step)

section \<open>The invariant\<close>

type_synonym ballot_set = "(u64 \<times> u64 \<times> log_entry list) set"
type_synonym stored_set = "(u64 \<times> log_entry) set"

definition quorum_stored :: "u64 set \<Rightarrow> stored_set \<Rightarrow> log_entry \<Rightarrow> bool" where
  "quorum_stored U St x \<longleftrightarrow> (\<exists>Q \<subseteq> U. card U div 2 + 1 \<le> card Q \<and> (\<forall>q \<in> Q. (q, x) \<in> St))"

text \<open>\<open>e\<close> is in the history of an entry that a majority stored, of term \<open>t\<close> or before.\<close>

definition secure :: "u64 set \<Rightarrow> (log_entry \<times> u64) list \<Rightarrow> stored_set \<Rightarrow> u64 \<Rightarrow> log_entry \<Rightarrow> bool" where
  "secure U g St t e \<longleftrightarrow> (\<exists>x. quorum_stored U St x \<and> le_term x \<le> t \<and> below g e x)"

definition lacks :: "ballot_set \<Rightarrow> log_entry \<Rightarrow> u64 \<Rightarrow> bool" where
  "lacks B e t \<longleftrightarrow> (\<exists>p l. (t, p, l) \<in> B \<and> e \<notin> set l)"

text \<open>\<open>e\<close> is in the log, or it was lost to a leader of a later term up to \<open>t\<close> that did not have it.\<close>

definition accounted :: "ballot_set \<Rightarrow> log_entry list \<Rightarrow> log_entry \<Rightarrow> u64 \<Rightarrow> bool" where
  "accounted B l e t \<longleftrightarrow> e \<in> set l \<or> (\<exists>t'. le_term e < t' \<and> t' \<le> t \<and> lacks B e t')"

definition entry_ok :: "(log_entry \<times> u64) list \<Rightarrow> ballot_set \<Rightarrow> log_entry \<Rightarrow> bool" where
  "entry_ok g B x \<longleftrightarrow>
     0 < le_term x \<and>
     (\<exists>l p lb. hist g x l \<and> (\<forall>e \<in> set l. le_term e \<le> le_term x) \<and>
        (le_term x, p, lb) \<in> B \<and> length lb < length l \<and> take (length lb) l = lb)"

definition order_ok :: "(log_entry \<times> u64) list \<Rightarrow> bool" where
  "order_ok g \<longleftrightarrow>
     (\<forall>x s y t. (x, s) \<in> set g \<longrightarrow> (y, t) \<in> set g \<longrightarrow> le_term x = le_term y \<longrightarrow> idx x \<le> idx y \<longrightarrow> below g x y)"

definition backed ::
  "('s, 'm) raft_core \<Rightarrow> ballot_set \<Rightarrow> stored_set \<Rightarrow> u64 \<Rightarrow> log_entry list \<Rightarrow> u64 \<Rightarrow> bool" where
  "backed v B St q l t \<longleftrightarrow>
     t \<le> current_term v \<and> (\<forall>e. (q, e) \<in> St \<longrightarrow> le_term e < t \<longrightarrow> accounted B l e t)"

definition vote_ok :: "('s, 'm) cluster \<Rightarrow> ballot_set \<Rightarrow> stored_set \<Rightarrow> u64 \<times> u64 \<times> u64 \<Rightarrow> bool" where
  "vote_ok cl B St = (\<lambda>(t, q, a).
     (let c = nodes cl a
      in t \<le> current_term c \<and>
         (role c = Candidate \<and> current_term c = t \<longrightarrow> backed (nodes cl q) B St q (rlog c) t)))"

definition ballot_ok :: "u64 set \<Rightarrow> ('s, 'm) cluster \<Rightarrow> ballot_set \<Rightarrow> stored_set \<Rightarrow> u64 \<times> u64 \<times> log_entry list \<Rightarrow> bool" where
  "ballot_ok U cl B St = (\<lambda>(t, p, l).
     (t, p) \<in> set (led cl) \<and>
     (\<exists>Q \<subseteq> U. card U div 2 + 1 \<le> card Q \<and>
        (\<forall>q \<in> Q. t \<le> current_term (nodes cl q) \<and>
           (\<forall>e. (q, e) \<in> St \<longrightarrow> le_term e < t \<longrightarrow>
              e \<in> set l \<or> (\<exists>t'. le_term e < t' \<and> t' < t \<and> lacks B e t')))))"

definition terms_ok :: "('s, 'm) raft_core \<Rightarrow> bool" where
  "terms_ok c \<longleftrightarrow>
     snapshot_last_term c = 0 \<and> (\<forall>e \<in> set (rlog c). 0 < le_term e \<and> le_term e \<le> current_term c) \<and>
     (role c \<noteq> Follower \<longrightarrow> 0 < current_term c)"

definition stored_ok :: "(log_entry \<times> u64) list \<Rightarrow> ballot_set \<Rightarrow> stored_set \<Rightarrow> u64 \<Rightarrow> ('s, 'm) raft_core \<Rightarrow> bool" where
  "stored_ok g B St p c \<longleftrightarrow>
     (\<forall>e \<in> set (rlog c). le_term e = current_term c \<longrightarrow> (p, e) \<in> St) \<and>
     (\<forall>e. (p, e) \<in> St \<longrightarrow> (\<exists>t. (e, t) \<in> set g) \<and> le_term e \<le> current_term c \<and> accounted B (rlog c) e (current_term c))"

definition leader_ok :: "ballot_set \<Rightarrow> stored_set \<Rightarrow> u64 \<Rightarrow> ('s, 'm) raft_core \<Rightarrow> bool" where
  "leader_ok B St p c \<longleftrightarrow>
     (role c = Leader \<longrightarrow>
        rlog c \<noteq> [] \<and> le_term (last (rlog c)) = current_term c \<and>
        (\<exists>lb. (current_term c, p, lb) \<in> B \<and> length lb < length (rlog c) \<and> take (length lb) (rlog c) = lb) \<and>
        (\<forall>q m. hm_get (match_index c) q = Some m \<longrightarrow>
           unat m \<le> length (rlog c) \<and>
           (\<forall>e \<in> set (rlog c). le_term e = current_term c \<longrightarrow> le_index e \<le> m \<longrightarrow> (q, e) \<in> St)))"

definition commit_ok :: "u64 set \<Rightarrow> (log_entry \<times> u64) list \<Rightarrow> stored_set \<Rightarrow> ('s, 'm) raft_core \<Rightarrow> bool" where
  "commit_ok U g St c \<longleftrightarrow>
     last_applied c \<le> commit_index c \<and> unat (commit_index c) \<le> length (rlog c) \<and>
     (\<forall>e \<in> set (rlog c). le_index e \<le> commit_index c \<longrightarrow> secure U g St (current_term c) e)"

definition node_ok ::
  "u64 set \<Rightarrow> (log_entry \<times> u64) list \<Rightarrow> ballot_set \<Rightarrow> stored_set \<Rightarrow> u64 \<Rightarrow> ('s, 'm) raft_core \<Rightarrow> bool" where
  "node_ok U g B St p c \<longleftrightarrow>
     peers_tracked c \<and> terms_ok c \<and> stored_ok g B St p c \<and> leader_ok B St p c \<and> commit_ok U g St c"

definition request_ok :: "u64 set \<Rightarrow> ('s, 'm) cluster \<Rightarrow> request_vote_args \<Rightarrow> bool" where
  "request_ok U cl req \<longleftrightarrow>
     (let c = nodes cl (rv_candidate_id req)
      in rv_candidate_id req \<in> U \<and> rv_term req \<le> current_term c \<and>
         (role c = Candidate \<and> current_term c = rv_term req \<longrightarrow>
            rv_last_log_index req = last_log_index c \<and> rv_last_log_term req = last_log_term c))"

text \<open>A message is a piece of the log of a leader of its term, or it matches no log.\<close>

definition piece_of :: "append_entries_args \<Rightarrow> log_entry list \<Rightarrow> bool" where
  "piece_of req L \<longleftrightarrow>
     unat (prev_log_index req) \<le> length L \<and>
     (\<exists>k. ae_entries req = take k (drop (unat (prev_log_index req)) L)) \<and>
     (prev_log_index req \<noteq> 0 \<longrightarrow> prev_log_term req = le_term (L ! (unat (prev_log_index req) - 1)))"

definition sent_ok ::
  "u64 set \<Rightarrow> (log_entry \<times> u64) list \<Rightarrow> stored_set \<Rightarrow> u64 option \<Rightarrow> append_entries_args \<Rightarrow> bool" where
  "sent_ok U g St i req \<longleftrightarrow>
     prev_log_index req \<noteq> 0 \<and> prev_log_term req = 0 \<or>
     (\<exists>L. hist g (last L) L \<and> le_term (last L) = ae_term req \<and> (\<forall>e \<in> set L. le_term e \<le> ae_term req) \<and>
        piece_of req L \<and> covers req \<and>
        (\<forall>j. i = Some j \<longrightarrow> unat j \<le> unat (prev_log_index req) + length (ae_entries req)) \<and>
        (\<forall>e \<in> set L. le_index e \<le> leader_commit req \<longrightarrow> secure U g St (ae_term req) e))"

definition reply_ok ::
  "u64 set \<Rightarrow> (log_entry \<times> u64) list \<Rightarrow> stored_set \<Rightarrow> u64 \<times> u64 \<times> append_entries_args \<times> append_entries_result \<Rightarrow> bool" where
  "reply_ok U g St = (\<lambda>(q, i, req, r).
     q \<in> U \<and>
     (aer_success r \<longrightarrow>
        (\<exists>L. hist g (last L) L \<and> le_term (last L) = ae_term req \<and> unat i \<le> length L \<and>
           (\<forall>e \<in> set L. le_term e = ae_term req \<longrightarrow> le_index e \<le> i \<longrightarrow> (q, e) \<in> St))))"

definition commit_inv :: "u64 set \<Rightarrow> ('s, 'm) log_cluster \<Rightarrow> past \<Rightarrow> bool" where
  "commit_inv U lc h \<longleftrightarrow>
     (let g = made lc; B = set (ballots h); St = set (stored h); cl = elections lc
      in log_inv U lc \<and> (\<forall>(x, t) \<in> set g. entry_ok g B x) \<and> order_ok g \<and> (\<forall>b \<in> B. ballot_ok U cl B St b) \<and>
         (\<forall>p \<in> U. node_ok U g B St p (node lc p)) \<and> (\<forall>v \<in> set (granted cl). vote_ok cl B St v) \<and>
         (\<forall>req \<in> set (vote_requests cl). request_ok U cl req) \<and>
         (\<forall>(q, i, req) \<in> set (appends lc). sent_ok U g St i req) \<and>
         (\<forall>x \<in> set (append_replies lc). reply_ok U g St x))"

lemma commit_invD:
  assumes "commit_inv U lc h"
  shows "log_inv U lc" "(x, t) \<in> set (made lc) \<Longrightarrow> entry_ok (made lc) (set (ballots h)) x" "order_ok (made lc)"
    "b \<in> set (ballots h) \<Longrightarrow> ballot_ok U (elections lc) (set (ballots h)) (set (stored h)) b"
    "p \<in> U \<Longrightarrow> node_ok U (made lc) (set (ballots h)) (set (stored h)) p (node lc p)"
    "v \<in> set (granted (elections lc)) \<Longrightarrow> vote_ok (elections lc) (set (ballots h)) (set (stored h)) v"
    "vr \<in> set (vote_requests (elections lc)) \<Longrightarrow> request_ok U (elections lc) vr"
    "(q, i, req) \<in> set (appends lc) \<Longrightarrow> sent_ok U (made lc) (set (stored h)) i req"
    "y \<in> set (append_replies lc) \<Longrightarrow> reply_ok U (made lc) (set (stored h)) y"
  using assms unfolding commit_inv_def Let_def by blast+

lemma node_okD:
  assumes "node_ok U g B St p c"
  shows "peers_tracked c" "terms_ok c" "stored_ok g B St p c" "leader_ok B St p c" "commit_ok U g St c"
  using assms by (simp_all add: node_ok_def)

section \<open>Growth of the history\<close>

lemma quorum_stored_mono: "quorum_stored U St x \<Longrightarrow> St \<subseteq> St' \<Longrightarrow> quorum_stored U St' x"
  unfolding quorum_stored_def by blast

lemma secure_mono: "secure U g St t e \<Longrightarrow> set g \<subseteq> set g' \<Longrightarrow> St \<subseteq> St' \<Longrightarrow> t \<le> t' \<Longrightarrow> secure U g' St' t' e"
  unfolding secure_def by (meson quorum_stored_mono below_mono order_trans)

lemma lacks_mono: "lacks B e t \<Longrightarrow> B \<subseteq> B' \<Longrightarrow> lacks B' e t"
  unfolding lacks_def by blast

lemma accounted_mono: "accounted B l e t \<Longrightarrow> B \<subseteq> B' \<Longrightarrow> t \<le> t' \<Longrightarrow> accounted B' l e t'"
  unfolding accounted_def by (meson lacks_mono order_trans)

lemma entry_ok_mono: "entry_ok g B x \<Longrightarrow> set g \<subseteq> set g' \<Longrightarrow> B \<subseteq> B' \<Longrightarrow> entry_ok g' B' x"
  unfolding entry_ok_def by (meson hist_mono subsetD)

lemma sent_ok_mono:
  assumes "sent_ok U g St i req" "set g \<subseteq> set g'" "St \<subseteq> St'"
  shows "sent_ok U g' St' i req"
  using assms(1) hist_mono [OF _ assms(2)] secure_mono [OF _ assms(2,3) order_refl]
  unfolding sent_ok_def by meson

lemma reply_ok_mono:
  assumes "reply_ok U g St y" "set g \<subseteq> set g'" "St \<subseteq> St'"
  shows "reply_ok U g' St' y"
  using assms(1) hist_mono [OF _ assms(2)] assms(3)
  unfolding reply_ok_def by (fastforce split: prod.splits)

lemma commit_ok_mono: "commit_ok U g St c \<Longrightarrow> set g \<subseteq> set g' \<Longrightarrow> St \<subseteq> St' \<Longrightarrow> commit_ok U g' St' c"
  unfolding commit_ok_def by (meson secure_mono order_refl)

section \<open>Leader completeness\<close>

lemma ballot_finite:
  assumes "commit_inv U lc h" "(t, p, l) \<in> set (ballots h)"
  shows "finite U" "p \<in> U"
proof -
  note i = log_invD [OF commit_invD(1) [OF assms(1)]]
  have "(t, p) \<in> set (led (elections lc))" using commit_invD(4) [OF assms] by (simp add: ballot_ok_def)
  then show p: "p \<in> U" using i(5) by blast
  show "finite U" using cluster_invD(1) [OF i(1) p] p by (rule configured_majority(1))
qed

theorem leader_complete:
  assumes inv: "commit_inv U lc h" and x: "quorum_stored U (set (stored h)) x"
  shows "(t, p, l) \<in> set (ballots h) \<Longrightarrow> le_term x < t \<Longrightarrow> x \<in> set l"
proof (induction "unat t" arbitrary: t p l rule: less_induct)
  case less
  let ?B = "set (ballots h)" and ?St = "set (stored h)"
  obtain Q where Q: "Q \<subseteq> U" "card U div 2 + 1 \<le> card Q" "\<forall>q \<in> Q. (q, x) \<in> ?St"
    using x unfolding quorum_stored_def by blast
  obtain R where R: "R \<subseteq> U" "card U div 2 + 1 \<le> card R"
    "\<forall>q \<in> R. \<forall>e. (q, e) \<in> ?St \<longrightarrow> le_term e < t \<longrightarrow> e \<in> set l \<or> (\<exists>t'. le_term e < t' \<and> t' < t \<and> lacks ?B e t')"
    using commit_invD(4) [OF inv less.prems(1)] unfolding ballot_ok_def by auto
  obtain q where "q \<in> Q" "q \<in> R"
    using quorums_meet [OF ballot_finite(1) [OF inv less.prems(1)] Q(1) R(1) Q(2) R(2)] by blast
  with Q(3) R(3) less.prems(2) have "x \<in> set l \<or> (\<exists>t'. le_term x < t' \<and> t' < t \<and> lacks ?B x t')" by blast
  then show ?case
  proof
    assume "\<exists>t'. le_term x < t' \<and> t' < t \<and> lacks ?B x t'"
    then obtain t' p' l' where t': "le_term x < t'" "t' < t" "(t', p', l') \<in> ?B" "x \<notin> set l'"
      unfolding lacks_def by blast
    with less.hyps [of t' p' l'] show ?case by (simp add: word_less_nat_alt)
  qed
qed

lemma entry_ballot:
  assumes "commit_inv U lc h" "hist (made lc) x L"
  obtains p lb where "(le_term x, p, lb) \<in> set (ballots h)" "set lb \<subseteq> set L" "\<forall>e \<in> set L. le_term e \<le> le_term x"
proof -
  have "x \<in> set L" "has_log (made lc) L" using assms(2) by (auto simp: hist_def)
  then obtain t where "(x, t) \<in> set (made lc)" using has_log_made by blast
  then have "entry_ok (made lc) (set (ballots h)) x" by (rule commit_invD(2) [OF assms(1)])
  then obtain l p lb where l: "hist (made lc) x l" "(le_term x, p, lb) \<in> set (ballots h)" "take (length lb) l = lb"
    "\<forall>e \<in> set l. le_term e \<le> le_term x"
    unfolding entry_ok_def by blast
  moreover have "l = L" using hist_unique [OF log_invD(2) [OF commit_invD(1) [OF assms(1)]] l(1) assms(2)] .
  ultimately show thesis using that by (metis set_take_subset)
qed

text \<open>An entry of a leader's log and the log of a leader of the same or a later term.\<close>

lemma entry_vs_leader:
  assumes inv: "commit_inv U lc h" and L: "hist (made lc) (last L) L" and e: "(e, s) \<in> set (made lc)"
    and le: "le_term e \<le> le_term (last L)" and l: "has_log (made lc) l" "e \<in> set l"
  shows "(e \<in> set L \<or> last L \<in> set l \<and> idx (last L) \<le> idx e) \<or>
    le_term e < le_term (last L) \<and> lacks (set (ballots h)) e (le_term (last L))"
proof (cases "le_term e = le_term (last L)")
  case True
  note i = log_invD [OF commit_invD(1) [OF inv]]
  let ?x = "last L"
  have LL: "has_log (made lc) L" "?x \<in> set L" using L by (auto simp: hist_def)
  then obtain t where x: "(?x, t) \<in> set (made lc)" using has_log_made by blast
  show ?thesis
  proof (cases "idx e \<le> idx ?x")
    case True
    then have "below (made lc) e ?x"
      using commit_invD(3) [OF inv] e x \<open>le_term e = le_term (last L)\<close> unfolding order_ok_def by blast
    then show ?thesis using below_in_log(1) [OF i(2) _ LL] by blast
  next
    case False
    then have "below (made lc) ?x e"
      using commit_invD(3) [OF inv] e x \<open>le_term e = le_term (last L)\<close> unfolding order_ok_def by (metis nat_le_linear)
    then show ?thesis using below_in_log [OF i(2) _ l] by blast
  qed
next
  case False
  then have lt: "le_term e < le_term (last L)" using le by simp
  obtain p lb where "(le_term (last L), p, lb) \<in> set (ballots h)" "set lb \<subseteq> set L"
    using entry_ballot [OF inv L] .
  with lt show ?thesis unfolding lacks_def by blast
qed

text \<open>A secure entry is never lost to a leader.\<close>

lemma secure_vs_leader:
  assumes inv: "commit_inv U lc h" and L: "hist (made lc) (last L) L"
    and e: "secure U (made lc) (set (stored h)) t e" and le: "t \<le> le_term (last L)"
    and l: "has_log (made lc) l" "e \<in> set l"
  shows "e \<in> set L \<or> last L \<in> set l \<and> idx (last L) \<le> idx e"
proof -
  note i = log_invD [OF commit_invD(1) [OF inv]]
  let ?g = "made lc" and ?y = "last L"
  have LL: "has_log ?g L" "?y \<in> set L" using L by (auto simp: hist_def)
  obtain x where x: "quorum_stored U (set (stored h)) x" "le_term x \<le> t" "below ?g e x"
    using e unfolding secure_def by blast
  obtain H where H: "hist ?g x H" "e \<in> set H" using x(3) by (auto simp: below_def)
  then have HH: "has_log ?g H" "x \<in> set H" by (auto simp: hist_def)
  then obtain s where xm: "(x, s) \<in> set ?g" using has_log_made by blast
  from entry_vs_leader [OF inv L xm order_trans [OF x(2) le] HH]
  consider "x \<in> set L" | "?y \<in> set H" "idx ?y \<le> idx x"
    | "le_term x < le_term ?y" "lacks (set (ballots h)) x (le_term ?y)" by blast
  then show ?thesis
  proof cases
    case 1
    then show ?thesis using below_in_log(1) [OF i(2) x(3) LL(1)] by simp
  next
    case 2
    show ?thesis
    proof (cases "idx e \<le> idx ?y")
      case True
      have "below ?g e ?y" by (rule belowI [OF HH(1) H(2) 2(1) True])
      then show ?thesis using below_in_log(1) [OF i(2) _ LL] by simp
    next
      case False
      have "below ?g ?y e" by (rule belowI [OF HH(1) 2(1) H(2)]) (use False in simp)
      then show ?thesis using below_in_log(1) [OF i(2) _ l] False by simp
    qed
  next
    case 3
    then show ?thesis unfolding lacks_def using leader_complete [OF inv x(1)] by blast
  qed
qed

text \<open>Of two entries that majorities stored, one is in the history of the other.\<close>

lemma quorum_stored_chain:
  assumes inv: "commit_inv U lc h"
    and xy: "quorum_stored U (set (stored h)) x" "quorum_stored U (set (stored h)) y"
    and hist: "hist (made lc) x H" "hist (made lc) y K" and le: "le_term x \<le> le_term y"
  shows "below (made lc) x y \<or> below (made lc) y x"
proof (cases "le_term x = le_term y")
  case True
  have "x \<in> set H" "has_log (made lc) H" "y \<in> set K" "has_log (made lc) K" using hist by (auto simp: hist_def)
  then obtain s t where "(x, s) \<in> set (made lc)" "(y, t) \<in> set (made lc)" using has_log_made by metis
  then show ?thesis
    using commit_invD(3) [OF inv] True unfolding order_ok_def by (metis nat_le_linear)
next
  case False
  then have lt: "le_term x < le_term y" using le by simp
  obtain p lb where lb: "(le_term y, p, lb) \<in> set (ballots h)" "set lb \<subseteq> set K"
    using entry_ballot [OF inv hist(2)] .
  have "x \<in> set K" using leader_complete [OF inv xy(1) lb(1) lt] lb(2) by blast
  then show ?thesis using hist(2) unfolding below_def by blast
qed

theorem secure_unique:
  assumes inv: "commit_inv U lc h"
    and e: "secure U (made lc) (set (stored h)) t e" "secure U (made lc) (set (stored h)) t' e'"
    and same: "le_index e = le_index e'"
  shows "e = e'"
proof -
  let ?g = "made lc"
  note once = log_invD(2) [OF commit_invD(1) [OF inv]]
  obtain x where x: "quorum_stored U (set (stored h)) x" "below ?g e x" using e(1) unfolding secure_def by blast
  obtain y where y: "quorum_stored U (set (stored h)) y" "below ?g e' y" using e(2) unfolding secure_def by blast
  obtain H K where H: "hist ?g x H" "e \<in> set H" and K: "hist ?g y K" "e' \<in> set K" using x(2) y(2) by (auto simp: below_def)
  have hH: "has_log ?g H" "x \<in> set H" and hK: "has_log ?g K" "y \<in> set K" using H K by (auto simp: hist_def)
  have "below ?g x y \<or> below ?g y x"
  proof (cases "le_term x \<le> le_term y")
    case True
    from quorum_stored_chain [OF inv x(1) y(1) H(1) K(1) True] show ?thesis .
  next
    case False
    then have "le_term y \<le> le_term x" by simp
    from quorum_stored_chain [OF inv y(1) x(1) K(1) H(1) this] show ?thesis by blast
  qed
  then show ?thesis
  proof
    assume "below ?g x y"
    then have "x \<in> set K" using below_in_log(1) [OF once _ hK] by blast
    then have "e \<in> set K" using below_in_log(1) [OF once x(2) hK(1)] by blast
    with K(1) have "below ?g e y" by (auto simp: below_def)
    then show ?thesis using below_index_unique [OF once _ y(2) same] by blast
  next
    assume "below ?g y x"
    then have "y \<in> set H" using below_in_log(1) [OF once _ hH] by blast
    then have "e' \<in> set H" using below_in_log(1) [OF once y(2) hH(1)] by blast
    with H(1) have "below ?g e' x" by (auto simp: below_def)
    then show ?thesis using below_index_unique [OF once x(2) _ same] by blast
  qed
qed

section \<open>One node changes\<close>

text \<open>What one step of node \<open>p\<close> from \<open>c\<close> to \<open>c'\<close> may do to the cluster and to its history.\<close>

definition step_of ::
  "u64 \<Rightarrow> ('s, 'm) log_cluster \<Rightarrow> past \<Rightarrow> ('s, 'm) raft_core \<Rightarrow> ('s, 'm) log_cluster \<Rightarrow> past \<Rightarrow> bool" where
  "step_of p lc h c' lc' h' \<longleftrightarrow>
     nodes (elections lc') = (nodes (elections lc))(p := c') \<and>
     current_term (node lc p) \<le> current_term c' \<and>
     set (made lc) \<subseteq> set (made lc') \<and> set (ballots h) \<subseteq> set (ballots h') \<and>
     set (stored h') = set (stored h) \<union> Pair p ` {e \<in> set (rlog c'). le_term e = current_term c'} \<and>
     set (led (elections lc)) \<subseteq> set (led (elections lc')) \<and>
     (role c' = Candidate \<longrightarrow>
        current_term (node lc p) < current_term c' \<or> role (node lc p) = Candidate \<and> rlog c' = rlog (node lc p))"

lemma step_stored:
  assumes "step_of p lc h c' lc' h'"
  shows "(q, e) \<in> set (stored h') \<Longrightarrow> (q, e) \<in> set (stored h) \<or> q = p \<and> le_term e = current_term c' \<and> e \<in> set (rlog c')"
    "set (stored h) \<subseteq> set (stored h')"
  using assms by (auto simp: step_of_def)

lemma backed_step:
  assumes st: "step_of p lc h c' lc' h'"
    and b: "backed (node lc q) (set (ballots h)) (set (stored h)) q l t"
  shows "backed (node lc' q) (set (ballots h')) (set (stored h')) q l t"
  unfolding backed_def
proof (intro conjI allI impI)
  have t: "t \<le> current_term (node lc q)" using b by (simp add: backed_def)
  have n: "current_term (node lc q) \<le> current_term (node lc' q)" using st by (simp add: step_of_def)
  with t show "t \<le> current_term (node lc' q)" by simp
  fix e assume e: "(q, e) \<in> set (stored h')" "le_term e < t"
  then have "(q, e) \<in> set (stored h)" using step_stored(1) [OF st e(1)] t n st by (auto simp: step_of_def)
  then have "accounted (set (ballots h)) l e t" using b e(2) by (simp add: backed_def)
  then show "accounted (set (ballots h')) l e t"
    using st by (auto simp: step_of_def intro: accounted_mono)
qed

lemma ballot_step:
  assumes st: "step_of p lc h c' lc' h'"
    and b: "ballot_ok U (elections lc) (set (ballots h)) (set (stored h)) b"
  shows "ballot_ok U (elections lc') (set (ballots h')) (set (stored h')) b"
proof -
  obtain t q l where bd: "b = (t, q, l)" by (rule prod_cases3)
  obtain Q where Q: "Q \<subseteq> U" "card U div 2 + 1 \<le> card Q"
    and v: "\<And>v. v \<in> Q \<Longrightarrow> t \<le> current_term (node lc v)"
      "\<And>v e. v \<in> Q \<Longrightarrow> (v, e) \<in> set (stored h) \<Longrightarrow> le_term e < t \<Longrightarrow>
         e \<in> set l \<or> (\<exists>t'. le_term e < t' \<and> t' < t \<and> lacks (set (ballots h)) e t')"
    and led: "(t, q) \<in> set (led (elections lc))"
    using b unfolding ballot_ok_def bd by auto
  have mono: "current_term (node lc v) \<le> current_term (node lc' v)" for v using st by (simp add: step_of_def)
  have B: "set (ballots h) \<subseteq> set (ballots h')" using st by (simp add: step_of_def)
  have "e \<in> set l \<or> (\<exists>t'. le_term e < t' \<and> t' < t \<and> lacks (set (ballots h')) e t')"
    if "w \<in> Q" "(w, e) \<in> set (stored h')" "le_term e < t" for w e
  proof -
    have "(w, e) \<in> set (stored h)"
      using step_stored(1) [OF st that(2)] v(1) [OF that(1)] mono [of w] that(3) st by (auto simp: step_of_def)
    with v(2) that lacks_mono [OF _ B] show ?thesis by blast
  qed
  moreover have "t \<le> current_term (node lc' w)" if "w \<in> Q" for w using v(1) [OF that] mono [of w] by simp
  moreover have "(t, q) \<in> set (led (elections lc'))" using led st by (auto simp: step_of_def)
  ultimately show ?thesis using Q unfolding ballot_ok_def bd by blast
qed

lemma node_step:
  assumes st: "step_of p lc h c' lc' h'" and q: "q \<noteq> p"
    and n: "node_ok U (made lc) (set (ballots h)) (set (stored h)) q c"
  shows "node_ok U (made lc') (set (ballots h')) (set (stored h')) q c"
proof -
  note d = node_okD [OF n]
  have g: "set (made lc) \<subseteq> set (made lc')" and B: "set (ballots h) \<subseteq> set (ballots h')"
    using st by (simp_all add: step_of_def)
  note St = step_stored [OF st]
  have "stored_ok (made lc') (set (ballots h')) (set (stored h')) q c"
    unfolding stored_ok_def
  proof (intro conjI ballI allI impI)
    show "(q, e) \<in> set (stored h')" if "e \<in> set (rlog c)" "le_term e = current_term c" for e
      using d(3) that St(2) unfolding stored_ok_def by blast
    fix e assume "(q, e) \<in> set (stored h')"
    then have "(q, e) \<in> set (stored h)" using St(1) q by blast
    then have "(\<exists>t. (e, t) \<in> set (made lc)) \<and> le_term e \<le> current_term c \<and>
        accounted (set (ballots h)) (rlog c) e (current_term c)"
      using d(3) by (simp add: stored_ok_def)
    then show "\<exists>t. (e, t) \<in> set (made lc')" "le_term e \<le> current_term c"
      "accounted (set (ballots h')) (rlog c) e (current_term c)"
      using g accounted_mono [OF _ B order_refl] by blast+
  qed
  moreover have "leader_ok (set (ballots h')) (set (stored h')) q c"
    using d(4) B St(2) unfolding leader_ok_def by (meson subsetD)
  ultimately show ?thesis
    using d(1,2) commit_ok_mono [OF d(5) g St(2)] by (simp add: node_ok_def)
qed

lemma vote_step:
  assumes st: "step_of p lc h c' lc' h'"
    and v: "vote_ok (elections lc) (set (ballots h)) (set (stored h)) v"
  shows "vote_ok (elections lc') (set (ballots h')) (set (stored h')) v"
proof -
  obtain t q a where vd: "v = (t, q, a)" by (rule prod_cases3)
  show ?thesis
  proof (cases "a = p")
    case True
    then show ?thesis
      using v st backed_step [OF st] unfolding vote_ok_def vd step_of_def Let_def by fastforce
  next
    case False
    then have "node lc' a = node lc a" using st by (simp add: step_of_def)
    with v show ?thesis using backed_step [OF st] unfolding vote_ok_def vd Let_def by simp
  qed
qed

lemma request_step:
  assumes st: "step_of p lc h c' lc' h'" and inv: "log_inv U lc" "log_inv U lc'" and p: "p \<in> U"
    and t: "terms_ok (node lc p)" "terms_ok c'" and r: "request_ok U (elections lc) vr"
  shows "request_ok U (elections lc') vr"
proof (cases "rv_candidate_id vr = p")
  case True
  have n: "nodes (elections lc') = (nodes (elections lc))(p := c')" using st by (simp add: step_of_def)
  have z: "snapshot_last_index (node lc p) = 0" "snapshot_last_index c' = 0"
    using log_invD(3) [OF inv(1) p] log_invD(3) [OF inv(2) p] n by (simp_all add: node_log_def)
  have "last_log_index c' = last_log_index (node lc p) \<and> last_log_term c' = last_log_term (node lc p)"
    if "rlog c' = rlog (node lc p)"
    using that z t by (simp add: last_log_index_def last_log_term_def terms_ok_def)
  with st r True show ?thesis by (auto simp: step_of_def request_ok_def Let_def)
next
  case False
  then show ?thesis using st r by (simp add: step_of_def request_ok_def Let_def)
qed

lemma commit_step:
  assumes inv: "commit_inv U lc h" and p: "p \<in> U" and st: "step_of p lc h c' lc' h'" and log': "log_inv U lc'"
    and made: "\<And>x t. (x, t) \<in> set (made lc') \<Longrightarrow> (x, t) \<in> set (made lc) \<or> entry_ok (made lc') (set (ballots h')) x"
      "order_ok (made lc')"
    and ballots: "\<And>b. b \<in> set (ballots h') \<Longrightarrow>
      b \<in> set (ballots h) \<or> ballot_ok U (elections lc') (set (ballots h')) (set (stored h')) b"
    and node: "node_ok U (made lc') (set (ballots h')) (set (stored h')) p c'"
    and votes: "\<And>v. v \<in> set (granted (elections lc')) \<Longrightarrow>
      v \<in> set (granted (elections lc)) \<or> vote_ok (elections lc') (set (ballots h')) (set (stored h')) v"
    and requests: "\<And>vr. vr \<in> set (vote_requests (elections lc')) \<Longrightarrow>
      vr \<in> set (vote_requests (elections lc)) \<or> request_ok U (elections lc') vr"
    and sent: "\<And>q i req. (q, i, req) \<in> set (appends lc') \<Longrightarrow>
      (q, i, req) \<in> set (appends lc) \<or> sent_ok U (made lc') (set (stored h')) i req"
    and replies: "\<And>y. y \<in> set (append_replies lc') \<Longrightarrow>
      y \<in> set (append_replies lc) \<or> reply_ok U (made lc') (set (stored h')) y"
  shows "commit_inv U lc' h'"
proof -
  note i = commit_invD [OF inv]
  have g: "set (made lc) \<subseteq> set (made lc')" and B: "set (ballots h) \<subseteq> set (ballots h')"
    and n: "nodes (elections lc') = (nodes (elections lc))(p := c')"
    using st by (simp_all add: step_of_def)
  note St = step_stored(2) [OF st]
  have "entry_ok (made lc') (set (ballots h')) x" if "(x, t) \<in> set (made lc')" for x t
    using made(1) [OF that] i(2) entry_ok_mono [OF _ g B] by blast
  moreover have "ballot_ok U (elections lc') (set (ballots h')) (set (stored h')) b" if "b \<in> set (ballots h')" for b
    using ballots [OF that] ballot_step [OF st i(4)] by blast
  moreover have "node_ok U (made lc') (set (ballots h')) (set (stored h')) q (nodes (elections lc') q)" if "q \<in> U" for q
    using node node_step [OF st _ i(5) [OF that]] n by (cases "q = p") simp_all
  moreover have "vote_ok (elections lc') (set (ballots h')) (set (stored h')) v" if "v \<in> set (granted (elections lc'))" for v
    using votes [OF that] vote_step [OF st i(6)] by blast
  moreover have "request_ok U (elections lc') vr" if "vr \<in> set (vote_requests (elections lc'))" for vr
    using requests [OF that] request_step [OF st i(1) log' p _ _ i(7)] node_okD(2) [OF i(5) [OF p]] node_okD(2) [OF node]
    by blast
  moreover have "sent_ok U (made lc') (set (stored h')) j req" if "(q, j, req) \<in> set (appends lc')" for q j req
    using sent [OF that] i(8) sent_ok_mono [OF _ g St] by blast
  moreover have "reply_ok U (made lc') (set (stored h')) y" if "y \<in> set (append_replies lc')" for y
    using replies [OF that] i(9) reply_ok_mono [OF _ g St] by blast
  ultimately show ?thesis using log' made(2) unfolding commit_inv_def Let_def by blast
qed

text \<open>A step that leaves the log alone.\<close>

definition calm :: "stored_set \<Rightarrow> ('s, 'm) raft_core \<Rightarrow> ('s, 'm) raft_core \<Rightarrow> bool" where
  "calm St c c' \<longleftrightarrow>
     rlog c' = rlog c \<and> snapshot_last_term c' = snapshot_last_term c \<and> current_term c \<le> current_term c' \<and>
     commit_index c' \<le> commit_index c \<and> last_applied c' \<le> commit_index c' \<and> peers_tracked c' \<and>
     (role c' = Leader \<longrightarrow>
        role c = Leader \<and> current_term c' = current_term c \<and>
        (\<forall>q m. hm_get (match_index c') q = Some m \<longrightarrow> hm_get (match_index c) q = Some m \<or>
           unat m \<le> length (rlog c) \<and>
           (\<forall>e \<in> set (rlog c). le_term e = current_term c \<longrightarrow> le_index e \<le> m \<longrightarrow> (q, e) \<in> St))) \<and>
     (role c' = Candidate \<longrightarrow> current_term c < current_term c' \<or> role c = Candidate)"

lemma observe_stored:
  "set (stored (observe p c c' h)) = set (stored h) \<union> Pair p ` {e \<in> set (rlog c'). le_term e = current_term c'}"
  by (auto simp: observe_def)

lemma observe_ballots: "(role c' = Leader \<Longrightarrow> role c = Leader) \<Longrightarrow> ballots (observe p c c' h) = ballots h"
  by (auto simp: observe_def)

lemma calm_step_of:
  assumes "calm St (node lc p) c'" "nodes (elections lc') = (nodes (elections lc))(p := c')"
    "made lc' = made lc" "led (elections lc') = led (elections lc)"
  shows "step_of p lc h c' lc' (observe p (node lc p) c' h)"
  using assms by (auto simp: step_of_def calm_def observe_stored observe_ballots)

lemma calm_stored:
  assumes n: "node_ok U g B St p c" and c: "calm St c c'"
  shows "stored_ok g B (St \<union> Pair p ` {e \<in> set (rlog c'). le_term e = current_term c'}) p c'"
proof -
  note d = node_okD [OF n]
  have r: "rlog c' = rlog c" and t: "current_term c \<le> current_term c'" using c by (simp_all add: calm_def)
  have "(\<exists>t. (e, t) \<in> set g) \<and> le_term e \<le> current_term c' \<and> accounted B (rlog c') e (current_term c')"
    if "(p, e) \<in> St \<or> e \<in> set (rlog c') \<and> le_term e = current_term c'" for e
    using that
  proof
    assume "(p, e) \<in> St"
    then have "(\<exists>t. (e, t) \<in> set g) \<and> le_term e \<le> current_term c \<and> accounted B (rlog c) e (current_term c)"
      using d(3) by (simp add: stored_ok_def)
    then show ?thesis using t r accounted_mono [OF _ subset_refl t] by fastforce
  next
    assume e: "e \<in> set (rlog c') \<and> le_term e = current_term c'"
    then have "le_term e \<le> current_term c" using d(2) r by (auto simp: terms_ok_def)
    with e t have "le_term e = current_term c" by simp
    then have "(p, e) \<in> St" using d(3) e r by (simp add: stored_ok_def)
    then have "\<exists>t. (e, t) \<in> set g" using d(3) by (simp add: stored_ok_def)
    with e show ?thesis by (simp add: accounted_def)
  qed
  then show ?thesis unfolding stored_ok_def by blast
qed

lemma calm_node:
  assumes n: "node_ok U g B St p c" and c: "calm St c c'"
  shows "node_ok U g B (St \<union> Pair p ` {e \<in> set (rlog c'). le_term e = current_term c'}) p c'"
    (is "node_ok U g B ?St p c'")
proof -
  note d = node_okD [OF n]
  have r: "rlog c' = rlog c" and t: "current_term c \<le> current_term c'" using c by (simp_all add: calm_def)
  have "terms_ok c'"
    using d(2) c by (cases "role c'") (fastforce simp: terms_ok_def calm_def word_less_nat_alt word_le_nat_alt)+
  moreover have "leader_ok B ?St p c'"
  proof (cases "role c' = Leader")
    case True
    then have l: "role c = Leader" "current_term c' = current_term c"
      "\<forall>q m. hm_get (match_index c') q = Some m \<longrightarrow> hm_get (match_index c) q = Some m \<or>
         unat m \<le> length (rlog c) \<and>
         (\<forall>e \<in> set (rlog c). le_term e = current_term c \<longrightarrow> le_index e \<le> m \<longrightarrow> (q, e) \<in> St)"
      using c by (simp_all add: calm_def)
    have old: "(q, e) \<in> St"
      if "hm_get (match_index c) q = Some m" "e \<in> set (rlog c)" "le_term e = current_term c" "le_index e \<le> m" for q m e
      using d(4) l(1) that unfolding leader_ok_def by blast
    have "(q, e) \<in> ?St"
      if "hm_get (match_index c') q = Some m" "e \<in> set (rlog c')" "le_term e = current_term c'" "le_index e \<le> m" for q m e
      using l(3) that old [of q m e] unfolding r l(2) by blast
    moreover have "unat m \<le> length (rlog c)" if "hm_get (match_index c') q = Some m" for q m
      using l(3) d(4) l(1) that unfolding leader_ok_def by blast
    ultimately show ?thesis using d(4) l(1) unfolding leader_ok_def r l(2) by blast
  qed (simp add: leader_ok_def)
  moreover have "commit_ok U g ?St c'"
  proof -
    have "secure U g ?St (current_term c') e" if "e \<in> set (rlog c)" "le_index e \<le> commit_index c'" for e
    proof -
      have "le_index e \<le> commit_index c" using that(2) c by (auto simp: calm_def)
      then have "secure U g St (current_term c) e" using d(5) that(1) by (simp add: commit_ok_def)
      then show ?thesis by (rule secure_mono) (use t in auto)
    qed
    moreover have "unat (commit_index c') \<le> length (rlog c)"
      using d(5) c by (auto simp: commit_ok_def calm_def word_le_nat_alt)
    ultimately show ?thesis using c unfolding commit_ok_def r by (simp add: calm_def)
  qed
  ultimately show ?thesis using calm_stored [OF n c] c by (simp add: node_ok_def calm_def)
qed

lemma calm_step:
  assumes inv: "commit_inv U lc h" and p: "p \<in> U" and c: "calm (set (stored h)) (node lc p) c'" and log': "log_inv U lc'"
    and same: "nodes (elections lc') = (nodes (elections lc))(p := c')" "made lc' = made lc"
      "led (elections lc') = led (elections lc)"
    and h': "h' = observe p (node lc p) c' h"
    and votes: "\<And>v. v \<in> set (granted (elections lc')) \<Longrightarrow>
      v \<in> set (granted (elections lc)) \<or> vote_ok (elections lc') (set (ballots h)) (set (stored h')) v"
    and requests: "\<And>vr. vr \<in> set (vote_requests (elections lc')) \<Longrightarrow>
      vr \<in> set (vote_requests (elections lc)) \<or> request_ok U (elections lc') vr"
    and sent: "\<And>q i req. (q, i, req) \<in> set (appends lc') \<Longrightarrow>
      (q, i, req) \<in> set (appends lc) \<or> sent_ok U (made lc) (set (stored h')) i req"
    and replies: "\<And>y. y \<in> set (append_replies lc') \<Longrightarrow>
      y \<in> set (append_replies lc) \<or> reply_ok U (made lc) (set (stored h')) y"
  shows "commit_inv U lc' h'"
proof -
  note i = commit_invD [OF inv]
  have b: "ballots h' = ballots h" using c by (simp add: h' calm_def observe_ballots)
  have st: "step_of p lc h c' lc' h'" unfolding h' by (rule calm_step_of [OF c same])
  show ?thesis
  proof (rule commit_step [OF inv p st log'])
    show "order_ok (made lc')" using i(3) same(2) by simp
    show "node_ok U (made lc') (set (ballots h')) (set (stored h')) p c'"
      using calm_node [OF i(5) [OF p] c] by (simp add: b same(2)) (simp add: h' observe_stored)
  qed (use same(2) b votes requests sent replies in auto)
qed

section \<open>What the handlers do to the indices\<close>

lemma handle_request_vote_same:
  assumes "handle_request_vote S req c = Some (res, c')"
  shows "same_log c c'"
  using assms
  by (auto simp: handle_request_vote_unfold bind_eq_Some_conv observe_term_Some set_voted_for_Some
      same_log_def split: if_split_asm)

lemma internal_indices:
  assumes "is_internal ev" "core_step S M ev c = Some c'" "snapshot_last_index c' = 0" "snapshot_last_index c = 0"
    and la: "last_applied c \<le> commit_index c"
  shows "commit_index c' = commit_index c \<and> last_applied c' \<le> commit_index c'"
proof (cases ev)
  case (InstallSnapshotReq now args)
  with assms show ?thesis by (auto dest: install_snapshot_none simp: same_log_def)
next
  case ApplyCommitted
  then show ?thesis using assms(2) la apply_committed_indices by (fastforce simp: max_def)
next
  case TakeSnapshot
  then show ?thesis using assms(2) la by (auto simp: take_snapshot_keeps)
qed (use assms(1) in simp_all)

lemma frame_calm:
  assumes "rpc_frame c c'" "same_entries c c'" "vote_order c c'" "commit_index c' = commit_index c"
    "last_applied c' \<le> commit_index c'" "peers_tracked c"
  shows "calm St c c'"
  using assms peers_tracked_same [of c' c]
  by (auto simp: calm_def rpc_frame_def same_entries_def vote_order_def)

lemma core_step_rpc_frame:
  "is_internal ev \<Longrightarrow> core_step S M ev c = Some c' \<Longrightarrow> rpc_frame c c'"
  by (cases ev) (auto dest: handle_install_snapshot_frame apply_committed_frame simp: log_side_frame)

end
