(* ===== verification/Commit_Elections.thy ===== *)
theory Commit_Elections
  imports Commit_Safety
begin

text \<open>
  The invariant of \<open>Commit_Safety\<close> is kept by elections, restarts and the steps of a node on its own,
  and by the append of an entry to the log of a leader.
\<close>

section \<open>Elections keep the invariant\<close>

lemma log_stepD:
  assumes "log_step S M ev lc = Some lc'"
  shows "log_guard S ev lc" "log_effect S M ev lc = Some lc'" "snapshot_last_index (node lc' (log_actor ev)) = 0"
  using assms by (auto simp: log_step_def bind_eq_Some_conv split: if_split_asm)

lemma node_no_snapshot:
  assumes "commit_inv U lc h" "p \<in> U"
  shows "snapshot_last_index (node lc p) = 0" "snapshot_last_term (node lc p) = 0" "has_log (made lc) (rlog (node lc p))"
    "last_applied (node lc p) \<le> commit_index (node lc p)" "peers_tracked (node lc p)"
  using log_invD(3) [OF commit_invD(1) [OF assms(1)] assms(2)] node_okD [OF commit_invD(5) [OF assms]]
  by (simp_all add: node_log_def terms_ok_def has_log_def commit_ok_def)

text \<open>A step of an election in which the log stays; the messages about the log are not touched.\<close>

lemma election_step:
  assumes inv: "commit_inv U lc h" and p: "cluster_actor ev \<in> U" and s: "log_step S M (Election ev) lc = Some lc'"
    and c: "calm (set (stored h)) (node lc (cluster_actor ev)) c'"
    and nodes: "nodes (elections lc') = (nodes (elections lc))(cluster_actor ev := c')"
    and led: "led (elections lc') = led (elections lc)"
    and votes: "\<And>v. v \<in> set (granted (elections lc')) \<Longrightarrow> v \<in> set (granted (elections lc)) \<or>
      vote_ok (elections lc') (set (ballots h)) (set (stored (observe (cluster_actor ev) (node lc (cluster_actor ev)) c' h))) v"
    and requests: "\<And>vr. vr \<in> set (vote_requests (elections lc')) \<Longrightarrow>
      vr \<in> set (vote_requests (elections lc)) \<or> request_ok U (elections lc') vr"
  shows "commit_inv U lc' (observe (cluster_actor ev) (node lc (cluster_actor ev)) c' h)"
proof -
  let ?p = "cluster_actor ev"
  have log': "log_inv U lc'" using log_step_inv [OF commit_invD(1) [OF inv] _ s] p by simp
  from log_stepD(2) [OF s] have f: "appends lc' = appends lc" "append_replies lc' = append_replies lc"
    and m: "made lc' = note_made (rlog (node lc ?p)) (rlog (nodes (elections lc') ?p)) (made lc)"
    by (auto simp: bind_eq_Some_conv Let_def)
  have made: "made lc' = made lc" using m nodes c by (simp add: calm_def)
  show ?thesis
    by (rule calm_step [OF inv p c log' nodes made led refl votes requests]) (simp_all add: f)
qed

lemma cluster_stepD:
  assumes "log_step S M (Election ev) lc = Some lc'"
  shows "cluster_step S M ev (elections lc) = Some (elections lc')"
  using log_stepD(2) [OF assms] by (auto simp: bind_eq_Some_conv Let_def)

lemma elect_commit_inv:
  assumes inv: "commit_inv U lc h" and p: "p \<in> U" and s: "log_step S M (Election (Elect p now)) lc = Some lc'"
  shows "commit_inv U lc' (observe p (node lc p) (node lc' p) h)"
proof -
  let ?c = "node lc p"
  from cluster_stepD [OF s] obtain c where c: "start_election S now ?c = Some c" and nm: "current_term ?c \<noteq> -1"
    and cl: "elections lc' = (put_node p c (elections lc))\<lparr>asked := (asked (elections lc))(p := None),
        vote_replies := (vote_replies (elections lc))(p := []), granted := (current_term c, p, p) # granted (elections lc)\<rparr>"
    by (auto simp: bind_eq_Some_conv split: if_split_asm)
  note i = node_no_snapshot [OF inv p]
  have f: "rlog c = rlog ?c" "snapshot_last_term c = snapshot_last_term ?c" "commit_index c = commit_index ?c"
    "last_applied c = last_applied ?c" "role c = Candidate" "match_index c = match_index ?c" "peers c = peers ?c"
    "node_id c = node_id ?c"
    using c by (auto simp: start_election_Some)
  have t: "current_term ?c < current_term c"
    using start_election_order [OF c nm] c by (auto simp: vote_order_def start_election_Some)
  have calm: "calm (set (stored h)) ?c c"
    using f t i(4,5) peers_tracked_same [OF f(7,8,6)] by (simp add: calm_def)
  have n: "node lc' p = c" by (simp add: cl put_node_def)
  have vote: "vote_ok (elections lc') (set (ballots h)) (set (stored (observe p ?c c h))) (current_term c, p, p)"
  proof -
    have "accounted (set (ballots h)) (rlog c) e (current_term c)"
      if "(p, e) \<in> set (stored (observe p ?c c h))" "le_term e < current_term c" for e
    proof -
      have "(p, e) \<in> set (stored h)" using that by (auto simp: observe_stored)
      then have "accounted (set (ballots h)) (rlog ?c) e (current_term ?c)"
        using node_okD(3) [OF commit_invD(5) [OF inv p]] by (simp add: stored_ok_def)
      then show ?thesis using f(1) t by (simp add: accounted_mono)
    qed
    then show ?thesis using n by (simp add: vote_ok_def backed_def)
  qed
  have "commit_inv U lc' (observe p ?c c h)"
    by (rule election_step [OF inv _ s, unfolded cluster_actor.simps]) (use p calm vote in \<open>auto simp: cl put_node_def\<close>)
  then show ?thesis using n by simp
qed

lemma ask_commit_inv:
  assumes inv: "commit_inv U lc h" and p: "p \<in> U" and s: "log_step S M (Election (Ask p)) lc = Some lc'"
  shows "commit_inv U lc' (observe p (node lc p) (node lc' p) h)"
proof -
  let ?c = "node lc p"
  have cl: "elections lc' = (elections lc)\<lparr>vote_requests := vote_request ?c # vote_requests (elections lc),
      asked := (asked (elections lc))(p := Some (current_term ?c)),
      vote_replies := (vote_replies (elections lc))(p := [])\<rparr>"
    using cluster_stepD [OF s] by simp
  have calm: "calm (set (stored h)) ?c ?c" using node_no_snapshot [OF inv p] by (simp add: calm_def)
  have id: "node_id ?c = p"
    using cluster_invD(1) [OF log_invD(1) [OF commit_invD(1) [OF inv]] p] by (simp add: configured_def)
  have r: "request_ok U (elections lc') (vote_request ?c)"
    using id p by (simp add: request_ok_def vote_request_def cl)
  have "commit_inv U lc' (observe p ?c ?c h)"
    by (rule election_step [OF inv _ s, unfolded cluster_actor.simps]) (use p calm r in \<open>auto simp: cl\<close>)
  then show ?thesis by (simp add: cl)
qed

text \<open>The comparison of the logs when a vote is granted.\<close>

lemma up_to_date_accounted:
  assumes inv: "commit_inv U lc h" and q: "q \<in> U" and a: "a \<in> U"
    and up: "is_log_up_to_date (node lc q) (last_log_term (node lc a)) (last_log_index (node lc a))"
    and e: "e \<in> set (rlog (node lc q))" and t: "\<forall>x \<in> set (rlog (node lc a)). le_term x \<le> t"
  shows "accounted (set (ballots h)) (rlog (node lc a)) e t"
proof -
  note once = log_invD(2) [OF commit_invD(1) [OF inv]]
  note nq = node_no_snapshot [OF inv q] and na = node_no_snapshot [OF inv a]
  let ?l = "rlog (node lc q)" and ?m = "rlog (node lc a)" and ?g = "made lc"
  have ne: "?l \<noteq> []" using e by auto
  have tq: "\<forall>x \<in> set ?l. 0 < le_term x"
    using node_okD(2) [OF commit_invD(5) [OF inv q]] by (simp add: terms_ok_def)
  have lastq: "last_log_term (node lc q) = le_term (last ?l)" "last_log_index (node lc q) = le_index (last ?l)"
    using ne by (simp_all add: last_log_term_def last_log_index_def)
  have pos: "0 < le_term (last ?l)" using tq ne by simp
  have nm: "?m \<noteq> []"
    using up pos lastq na(2) by (auto simp: is_log_up_to_date_def last_log_term_def)
  then have lasta: "last_log_term (node lc a) = le_term (last ?m)" "last_log_index (node lc a) = le_index (last ?m)"
    by (simp_all add: last_log_term_def last_log_index_def)
  have hm: "hist ?g (last ?m) ?m" using na(3) nm by (simp add: hist_def)
  have lm: "last ?m \<in> set ?m" "last ?l \<in> set ?l" using nm ne by simp_all
  obtain s1 s2 where sm: "(last ?m, s1) \<in> set ?g" "(last ?l, s2) \<in> set ?g"
    using has_log_made [OF na(3) lm(1)] has_log_made [OF nq(3) lm(2)] by blast
  have be: "below ?g e (last ?l)"
    using nq(3) e ne by (auto simp: below_def hist_def)
  consider "le_term (last ?l) < le_term (last ?m)" | "le_term (last ?m) = le_term (last ?l)" "le_index (last ?l) \<le> le_index (last ?m)"
    using up lastq lasta by (auto simp: is_log_up_to_date_def Let_def)
  then show ?thesis
  proof cases
    case 1
    have hl: "hist ?g (last ?l) ?l" using nq(3) ne by (simp add: hist_def)
    have "le_term e \<le> le_term (last ?l)" by (rule entry_ballot [OF inv hl]) (use e in blast)
    with 1 have lt: "le_term e < le_term (last ?m)" by simp
    obtain s where "(e, s) \<in> set ?g" using has_log_made [OF nq(3) e] by blast
    from entry_vs_leader [OF inv hm this less_imp_le [OF lt] nq(3) e]
    consider "e \<in> set ?m" | "last ?m \<in> set ?l" "idx (last ?m) \<le> idx e" | "lacks (set (ballots h)) e (le_term (last ?m))"
      by blast
    then show ?thesis
    proof cases
      case 2
      have "last ?m \<in> set (take (idx e) ?l)" by (rule in_take_idx [OF nq(3) 2])
      moreover have "\<forall>x \<in> set (take (idx e) ?l). le_term x \<le> le_term e"
        by (rule entry_ballot [OF inv hist_take [OF nq(3) e]])
      ultimately show ?thesis using lt by fastforce
    next
      case 3
      then show ?thesis using lt t lm(1) unfolding accounted_def by blast
    qed (simp add: accounted_def)
  next
    case 2
    then have "below ?g (last ?l) (last ?m)"
      using commit_invD(3) [OF inv] sm unfolding order_ok_def word_le_nat_alt by metis
    then have "last ?l \<in> set ?m" using below_in_log(1) [OF once _ na(3) lm(1)] by blast
    then have "e \<in> set ?m" using below_in_log(1) [OF once be na(3)] by blast
    then show ?thesis by (simp add: accounted_def)
  qed
qed

lemma granted_up_to_date:
  assumes "handle_request_vote S req c = Some (res, c')" "vote_granted res"
  shows "is_log_up_to_date c (rv_last_log_term req) (rv_last_log_index req)"
proof -
  have ge: "\<not> rv_term req < current_term c" using assms by (auto simp: handle_request_vote_unfold)
  then obtain d where d: "observe_term S (rv_term req) c = Some d"
    and up: "is_log_up_to_date d (rv_last_log_term req) (rv_last_log_index req)"
    using assms unfolding handle_request_vote_unfold by (auto simp: bind_eq_Some_conv split: if_split_asm)
  then show ?thesis
    using same_log_facts(2,3) [OF observe_term_same_log [OF d]] by (simp add: is_log_up_to_date_def)
qed

lemma answer_commit_inv:
  assumes inv: "commit_inv U lc h" and q: "q \<in> U" and s: "log_step S M (Election (Answer q req)) lc = Some lc'"
  shows "commit_inv U lc' (observe q (node lc q) (node lc' q) h)"
proof -
  let ?c = "node lc q" and ?a = "rv_candidate_id req" and ?t = "rv_term req"
  from cluster_stepD [OF s] obtain res c where req: "req \<in> set (vote_requests (elections lc))"
    and c: "handle_request_vote S req ?c = Some (res, c)"
    and cl: "elections lc' = (put_node q c (elections lc))
          \<lparr>granted := (if vote_granted res then (?t, q, ?a) # granted (elections lc) else granted (elections lc)),
           vote_replies := (if asked (elections lc) ?a = Some ?t
                            then (vote_replies (elections lc))(?a := (q, res) # vote_replies (elections lc) ?a)
                            else vote_replies (elections lc))\<rparr>"
    by (auto simp: bind_eq_Some_conv Let_def split: if_split_asm)
  note i = node_no_snapshot [OF inv q]
  have fr: "rpc_frame ?c c" and or: "vote_order ?c c" and sl: "same_log ?c c"
    using handle_request_vote_frame [OF c] handle_request_vote_order [OF c] handle_request_vote_same [OF c] .
  have calm: "calm (set (stored h)) ?c c"
    using sl i by (intro frame_calm fr or same_log_entries) (simp_all add: same_log_def)
  have n: "node lc' a = (if a = q then c else node lc a)" for a by (simp add: cl put_node_def)
  have vote: "vote_ok (elections lc') (set (ballots h)) (set (stored (observe q ?c c h))) (?t, q, ?a)" if g: "vote_granted res"
  proof -
    have a: "?a \<in> U" "?t \<le> current_term (node lc ?a)"
      and last: "role (node lc ?a) = Candidate \<Longrightarrow> current_term (node lc ?a) = ?t \<Longrightarrow>
        rv_last_log_index req = last_log_index (node lc ?a) \<and> rv_last_log_term req = last_log_term (node lc ?a)"
      using commit_invD(7) [OF inv req] by (simp_all add: request_ok_def Let_def)
    have tm: "current_term c = ?t" using handle_request_vote_granted [OF c g] by simp
    have le: "current_term ?c \<le> current_term c" using or by (auto simp: vote_order_def)
    have same: "rlog (node lc' ?a) = rlog (node lc ?a)" "current_term (node lc ?a) \<le> current_term (node lc' ?a)"
      using sl le by (simp_all add: n same_log_def)
    have "backed (node lc' q) (set (ballots h)) (set (stored (observe q ?c c h))) q (rlog (node lc' ?a)) ?t"
      if cand: "role (node lc' ?a) = Candidate" "current_term (node lc' ?a) = ?t"
    proof -
      have old: "role (node lc ?a) = Candidate" "current_term (node lc ?a) = ?t"
        using cand fr n by (auto simp: rpc_frame_def split: if_split_asm)
      have up: "is_log_up_to_date ?c (last_log_term (node lc ?a)) (last_log_index (node lc ?a))"
        using granted_up_to_date [OF c g] last [OF old] by simp
      have bound: "\<forall>x \<in> set (rlog (node lc ?a)). le_term x \<le> ?t"
        using node_okD(2) [OF commit_invD(5) [OF inv a(1)]] old(2) by (simp add: terms_ok_def)
      have "accounted (set (ballots h)) (rlog (node lc ?a)) e ?t"
        if e: "(q, e) \<in> set (stored (observe q ?c c h))" "le_term e < ?t" for e
      proof -
        have "(q, e) \<in> set (stored h)" using e tm by (auto simp: observe_stored)
        then have "accounted (set (ballots h)) (rlog ?c) e (current_term ?c)"
          using node_okD(3) [OF commit_invD(5) [OF inv q]] by (simp add: stored_ok_def)
        then consider "e \<in> set (rlog ?c)" | t' where "le_term e < t'" "t' \<le> current_term ?c" "lacks (set (ballots h)) e t'"
          unfolding accounted_def by blast
        then show ?thesis
        proof cases
          case 1
          then show ?thesis by (rule up_to_date_accounted [OF inv q a(1) up _ bound])
        next
          case 2
          then show ?thesis using le tm unfolding accounted_def by (auto intro: order_trans)
        qed
      qed
      then show ?thesis using tm n same(1) by (simp add: backed_def)
    qed
    moreover have "?t \<le> current_term (node lc' ?a)" using a(2) same(2) by simp
    ultimately show ?thesis by (simp add: vote_ok_def)
  qed
  have "commit_inv U lc' (observe q ?c c h)"
    by (rule election_step [OF inv _ s, unfolded cluster_actor.simps])
      (use q calm vote in \<open>auto simp: cl put_node_def split: if_split_asm\<close>)
  then show ?thesis by (simp add: n)
qed

lemma local_commit_inv:
  assumes inv: "commit_inv U lc h" and p: "p \<in> U" and s: "log_step S M (Election (Local p ev)) lc = Some lc'"
  shows "commit_inv U lc' (observe p (node lc p) (node lc' p) h)"
proof -
  let ?c = "node lc p"
  from cluster_stepD [OF s] obtain c where c: "is_local ev" "core_step S M ev ?c = Some c"
    and cl: "elections lc' = put_node p c (elections lc)"
    by (auto simp: bind_eq_Some_conv split: if_split_asm)
  note i = node_no_snapshot [OF inv p]
  have int: "is_internal ev" using log_stepD(1) [OF s] by simp
  have none: "snapshot_last_index c = 0" using log_stepD(3) [OF s] by (simp add: cl put_node_def)
  have calm: "calm (set (stored h)) ?c c"
    using core_step_rpc_frame [OF int c(2)] internal_none [OF int c(2) none i(1)] local_order [OF c]
      internal_indices [OF int c(2) none i(1,4)] i(5)
    by (intro frame_calm) blast+
  have "commit_inv U lc' (observe p ?c c h)"
    by (rule election_step [OF inv _ s, unfolded cluster_actor.simps]) (use p calm in \<open>auto simp: cl put_node_def\<close>)
  then show ?thesis by (simp add: cl put_node_def)
qed

lemma adopt_commit_inv:
  assumes inv: "commit_inv U lc h" and p: "p \<in> U" and s: "log_step S M (Election (AdoptTerm p t)) lc = Some lc'"
  shows "commit_inv U lc' (observe p (node lc p) (node lc' p) h)"
proof -
  let ?c = "node lc p" and ?d = "adopt_term_in_memory t (node lc p)"
  have lt: "current_term ?c < t" and cl: "elections lc' = put_node p ?d (elections lc)"
    using cluster_stepD [OF s] by (auto split: if_split_asm)
  have calm: "calm (set (stored h)) ?c ?d"
    using lt node_no_snapshot [OF inv p] by (simp add: calm_def adopt_term_in_memory_def peers_tracked_def)
  have "commit_inv U lc' (observe p ?c ?d h)"
    by (rule election_step [OF inv _ s, unfolded cluster_actor.simps]) (use p calm in \<open>auto simp: cl put_node_def\<close>)
  then show ?thesis by (simp add: cl put_node_def)
qed

lemma restart_commit_inv:
  assumes inv: "commit_inv U lc h" and p: "p \<in> U" and s: "log_step S M (Election (Restart p now m)) lc = Some lc'"
    and none: "st_load_snapshot S (storage (node lc p)) = Ok None"
  shows "commit_inv U lc' (observe p (node lc p) (node lc' p) h)"
proof -
  let ?c = "node lc p"
  from cluster_stepD [OF s] obtain d where d: "raft_core_new S M now (node_id ?c) (peers ?c) (storage ?c) m = Some d"
    and disk: "load_term S (storage ?c) = Ok (current_term ?c)"
    and cl: "elections lc' = (put_node p d (elections lc))\<lparr>asked := (asked (elections lc))(p := None),
        vote_replies := (vote_replies (elections lc))(p := [])\<rparr>"
    by (auto simp: Let_def bind_eq_Some_conv split: if_split_asm)
  note i = node_no_snapshot [OF inv p]
  have log: "load_log S (storage ?c) = Ok (rlog ?c)" using log_stepD(1) [OF s] by simp
  have f: "rlog d = rlog ?c" "snapshot_last_term d = 0" "current_term d = current_term ?c" "commit_index d = 0"
    "last_applied d = 0" "role d = Follower" "match_index d = []" "peers d = peers ?c" "node_id d = node_id ?c"
    using d disk log none by (auto simp: raft_core_new_def bind_eq_Some_conv)
  have calm: "calm (set (stored h)) ?c d" using f i by (simp add: calm_def peers_tracked_def)
  have "commit_inv U lc' (observe p ?c d h)"
    by (rule election_step [OF inv _ s, unfolded cluster_actor.simps]) (use p calm in \<open>auto simp: cl put_node_def\<close>)
  then show ?thesis by (simp add: cl put_node_def)
qed

section \<open>A leader appends\<close>

text \<open>The new entry \<open>e\<close> of a leader goes behind all entries of its term, which are in the leader's log \<open>l\<close>.\<close>

lemma order_ok_append:
  assumes order: "order_ok g" and g': "g' = (e, t0) # g" and l: "has_log g l" and he: "hist g' e (l @ [e])"
    and e: "idx e = length l + 1" and own: "\<And>x t. (x, t) \<in> set g \<Longrightarrow> le_term x = le_term e \<Longrightarrow> x \<in> set l"
  shows "order_ok g'"
  unfolding order_ok_def
proof (intro allI impI)
  fix x s y t
  assume a: "(x, s) \<in> set g'" "(y, t) \<in> set g'" "le_term x = le_term y" "idx x \<le> idx y"
  show "below g' x y"
  proof (cases "y = e")
    case True
    have "x \<in> set (l @ [e])" using a(1,3) own [of x s] g' True by auto
    with True he show ?thesis by (auto simp: below_def)
  next
    case y: False
    then have ym: "(y, t) \<in> set g" using a(2) g' by simp
    have "x \<noteq> e"
    proof
      assume "x = e"
      then have "y \<in> set l" using own [OF ym] a(3) by simp
      then have "idx y \<le> length l" by (rule has_log_nth(2) [OF l])
      with a(4) \<open>x = e\<close> e show False by simp
    qed
    then have "(x, s) \<in> set g" using a(1) g' by simp
    then have "below g x y" using order ym a(3,4) unfolding order_ok_def by blast
    then show ?thesis by (rule below_mono) (auto simp: g')
  qed
qed

lemma stored_ok_append:
  assumes st: "stored_ok g B St p c" and l: "rlog c' = rlog c @ [e]" "has_log g' (rlog c')"
    and t: "current_term c' = current_term c" and mono: "set g \<subseteq> set g'" "B \<subseteq> B'"
    and St': "St' = St \<union> Pair p ` {x \<in> set (rlog c'). le_term x = current_term c'}"
  shows "stored_ok g' B' St' p c'"
  unfolding stored_ok_def
proof (intro conjI ballI allI impI)
  show "(p, x) \<in> St'" if "x \<in> set (rlog c')" "le_term x = current_term c'" for x using that by (simp add: St')
  fix x assume "(p, x) \<in> St'"
  then consider "(p, x) \<in> St" | "x \<in> set (rlog c')" "le_term x = current_term c'" by (auto simp: St')
  then have "(\<exists>t. (x, t) \<in> set g') \<and> le_term x \<le> current_term c' \<and> accounted B' (rlog c') x (current_term c')"
  proof cases
    case 1
    then have "(\<exists>t. (x, t) \<in> set g) \<and> le_term x \<le> current_term c \<and> accounted B (rlog c) x (current_term c)"
      using st by (simp add: stored_ok_def)
    then show ?thesis
      using mono(1) t l(1) accounted_mono [OF _ mono(2) order_refl, of "rlog c" x "current_term c"]
      by (auto simp: accounted_def)
  next
    case 2
    then show ?thesis using has_log_made [OF l(2)] by (simp add: accounted_def)
  qed
  then show "\<exists>t. (x, t) \<in> set g'" "le_term x \<le> current_term c'" "accounted B' (rlog c') x (current_term c')" by blast+
qed

lemma commit_ok_append:
  assumes c: "commit_ok U g St c" and e: "rlog c' = rlog c @ [e]" "idx e = length (rlog c) + 1"
    and f: "current_term c' = current_term c" "commit_index c' = commit_index c" "last_applied c' = last_applied c"
    and mono: "set g \<subseteq> set g'" "St \<subseteq> St'"
  shows "commit_ok U g' St' c'"
proof -
  have ci: "unat (commit_index c) \<le> length (rlog c)" using c by (simp add: commit_ok_def)
  have "secure U g' St' (current_term c') x" if "x \<in> set (rlog c')" "le_index x \<le> commit_index c'" for x
  proof -
    have "x \<noteq> e" using that(2) ci e(2) f(2) by (auto simp: word_le_nat_alt)
    then have "secure U g St (current_term c) x" using that e(1) f(2) c by (simp add: commit_ok_def)
    then show ?thesis by (rule secure_mono) (use mono f(1) in auto)
  qed
  then show ?thesis using c f e(1) by (simp add: commit_ok_def)
qed

lemma append_commit_step:
  assumes inv: "commit_inv U lc h" and p: "p \<in> U" and log': "log_inv U lc'"
    and nodes: "nodes (elections lc') = (nodes (elections lc))(p := c')"
    and e: "rlog c' = rlog (node lc p) @ [e]" "idx e = length (rlog (node lc p)) + 1" "le_term e = current_term c'"
    and f: "role c' = Leader" "current_term c' = current_term (node lc p)" "snapshot_last_term c' = snapshot_last_term (node lc p)"
      "commit_index c' = commit_index (node lc p)" "last_applied c' = last_applied (node lc p)" "0 < current_term c'"
    and own: "\<And>x t. (x, t) \<in> set (made lc) \<Longrightarrow> le_term x = current_term c' \<Longrightarrow> x \<in> set (rlog (node lc p))"
    and made: "made lc' = (e, t0) # made lc"
    and B: "set (ballots h) \<subseteq> set (ballots h')"
      "\<And>b. b \<in> set (ballots h') \<Longrightarrow>
        b \<in> set (ballots h) \<or> ballot_ok U (elections lc') (set (ballots h')) (set (stored h')) b"
      "(current_term c', p, lb) \<in> set (ballots h')" "length lb \<le> length (rlog (node lc p))" "take (length lb) (rlog (node lc p)) = lb"
    and St: "stored h' = stored (observe p (node lc p) c' h)"
    and led: "set (led (elections lc)) \<subseteq> set (led (elections lc'))"
    and track: "peers_tracked c'"
    and match: "\<And>q m. hm_get (match_index c') q = Some m \<Longrightarrow> unat m \<le> length (rlog (node lc p)) \<and>
       (\<forall>x \<in> set (rlog (node lc p)). le_term x = current_term c' \<longrightarrow> le_index x \<le> m \<longrightarrow> (q, x) \<in> set (stored h))"
    and same: "granted (elections lc') = granted (elections lc)" "vote_requests (elections lc') = vote_requests (elections lc)"
      "appends lc' = appends lc" "append_replies lc' = append_replies lc"
  shows "commit_inv U lc' h'"
proof -
  let ?c = "node lc p" and ?l = "rlog (node lc p)" and ?g' = "made lc'"
  note i = commit_invD [OF inv] and n = node_okD [OF commit_invD(5) [OF inv p]]
  have stored: "set (stored h') = set (stored h) \<union> Pair p ` {x \<in> set (rlog c'). le_term x = current_term c'}"
    unfolding St by (rule observe_stored)
  have g: "set (made lc) \<subseteq> set ?g'" by (auto simp: made)
  have st: "step_of p lc h c' lc' h'"
    using nodes f B(1) led g by (simp add: step_of_def stored)
  have nl': "has_log ?g' (?l @ [e])"
    using log_invD(3) [OF log' p] nodes e(1) by (simp add: node_log_def has_log_def)
  have hl: "has_log (made lc) ?l" by (rule node_no_snapshot(3) [OF inv p])
  have he: "hist ?g' e (?l @ [e])" using nl' by (simp add: hist_def)
  have tl: "\<forall>x \<in> set ?l. 0 < le_term x \<and> le_term x \<le> current_term c'" using n(2) f(2) by (simp add: terms_ok_def)
  have ents: "x \<in> set ?l \<or> x = e" if "x \<in> set (rlog c')" for x using that e(1) by auto
  show ?thesis
  proof (rule commit_step [OF inv p st log'])
    show "(x, t) \<in> set (made lc) \<or> entry_ok ?g' (set (ballots h')) x" if "(x, t) \<in> set ?g'" for x t
    proof (cases "(x, t) \<in> set (made lc)")
      case False
      then have "x = e" using that made by simp
      moreover have "entry_ok ?g' (set (ballots h')) e"
        unfolding entry_ok_def
        using he B(3-5) f(6) e(3) tl by (intro conjI exI [of _ "?l @ [e]"] exI [of _ p] exI [of _ lb]) auto
      ultimately show ?thesis by simp
    qed simp
    show "order_ok ?g'"
      by (rule order_ok_append [OF i(3) made hl he e(2)]) (use own e(3) in simp)
    show "node_ok U ?g' (set (ballots h')) (set (stored h')) p c'"
      unfolding node_ok_def
    proof (intro conjI)
      show "terms_ok c'" using n(2) f tl e(3) by (auto simp: terms_ok_def e(1))
      show "stored_ok ?g' (set (ballots h')) (set (stored h')) p c'"
        by (rule stored_ok_append [OF n(3) e(1) _ f(2) g B(1) stored]) (use nl' e(1) in simp)
      show "leader_ok (set (ballots h')) (set (stored h')) p c'"
        unfolding leader_ok_def
      proof (intro impI conjI allI)
        show "rlog c' \<noteq> []" "le_term (last (rlog c')) = current_term c'" using e by simp_all
        show "\<exists>lb. (current_term c', p, lb) \<in> set (ballots h') \<and> length lb < length (rlog c') \<and> take (length lb) (rlog c') = lb"
          using B(3-5) e(1) by (intro exI [of _ lb]) simp
        fix q m assume m: "hm_get (match_index c') q = Some m"
        show "unat m \<le> length (rlog c')" using match [OF m] e(1) by simp
        have "\<not> le_index e \<le> m" using match [OF m] e(2) by (simp add: word_le_nat_alt)
        then show "\<forall>x \<in> set (rlog c'). le_term x = current_term c' \<longrightarrow> le_index x \<le> m \<longrightarrow> (q, x) \<in> set (stored h')"
          using match [OF m] ents by (auto simp: stored)
      qed
      show "commit_ok U ?g' (set (stored h')) c'"
        by (rule commit_ok_append [OF n(5) e(1,2) f(2,4,5) g]) (simp add: stored)
      show "peers_tracked c'" by (rule track)
    qed
  qed (use B(2) same in auto)
qed

lemma hm_get_fold_insert:
  "hm_get (fold (\<lambda>p. hm_insert p v) ps m) q = (if q \<in> set ps then Some v else hm_get m q)"
  by (induction ps arbitrary: m) (auto simp: hm_get_insert)

text \<open>The votes of a candidate, once it has a quorum, make its log a ballot of its term.\<close>

lemma winner_ballot:
  assumes inv: "commit_inv U lc h" and cand: "role (node lc p) = Candidate" "current_term (node lc p) = t"
    and el: "quorum_for U (granted (elections lc)) t p"
    and fresh: "\<And>q l. (t, q, l) \<notin> set (ballots h)" and led: "(t, p) \<in> set (led cl)"
    and mono: "\<And>q. current_term (node lc q) \<le> current_term (nodes cl q)"
    and B: "set (ballots h) \<subseteq> B"
    and St: "\<And>q e. (q, e) \<in> St \<Longrightarrow> le_term e < t \<Longrightarrow> (q, e) \<in> set (stored h)"
  shows "ballot_ok U cl B St (t, p, rlog (node lc p))"
proof -
  let ?l = "rlog (node lc p)"
  obtain Q where Q: "Q \<subseteq> U" "card U div 2 + 1 \<le> card Q" "\<forall>q \<in> Q. (t, q, p) \<in> set (granted (elections lc))"
    using el unfolding quorum_for_def by blast
  have bk: "backed (node lc q) (set (ballots h)) (set (stored h)) q ?l t" if "q \<in> Q" for q
    using commit_invD(6) [OF inv] Q(3) that cand unfolding vote_ok_def Let_def by fastforce
  have "t \<le> current_term (nodes cl q)" if "q \<in> Q" for q
    using bk [OF that] mono [of q] by (auto simp: backed_def)
  moreover have "e \<in> set ?l \<or> (\<exists>t'. le_term e < t' \<and> t' < t \<and> lacks B e t')"
    if q: "q \<in> Q" and e: "(q, e) \<in> St" "le_term e < t" for q e
  proof -
    have "accounted (set (ballots h)) ?l e t" using bk [OF q] St [OF e] e(2) by (simp add: backed_def)
    then consider "e \<in> set ?l" | t' where "le_term e < t'" "t' \<le> t" "lacks (set (ballots h)) e t'"
      unfolding accounted_def by blast
    then show ?thesis
    proof cases
      case 2
      then have "t' \<noteq> t" using fresh unfolding lacks_def by blast
      then show ?thesis using 2 lacks_mono [OF 2(3) B] by fastforce
    qed blast
  qed
  ultimately show ?thesis using Q(1,2) led unfolding ballot_ok_def case_prod_conv by blast
qed

lemma fresh_match_index:
  assumes tr: "peers_tracked c" and l: "has_log g (rlog c)"
    and m: "hm_get (fold (\<lambda>p. hm_insert p 0) (peers c) (match_index c)) q = Some m"
  shows "unat m \<le> length (rlog c) \<and> (\<forall>x \<in> set (rlog c). le_term x = t \<longrightarrow> le_index x \<le> m \<longrightarrow> (q, x) \<in> St)"
proof -
  have "q \<in> set (peers c)"
  proof (rule ccontr)
    assume q: "q \<notin> set (peers c)"
    with m have "hm_get (match_index c) q = Some m" by (simp add: hm_get_fold_insert)
    then have "q \<in> fst ` set (match_index c)" by (metis domI dom_map_of_conv_image_fst)
    with tr q show False by (auto simp: peers_tracked_def)
  qed
  then have "m = 0" using m by (simp add: hm_get_fold_insert)
  moreover have "\<not> le_index x \<le> 0" if "x \<in> set (rlog c)" for x
    using has_log_nth(1) [OF l that] by (auto simp: word_le_nat_alt)
  ultimately show ?thesis by simp
qed

lemma win_commit_inv:
  assumes inv: "commit_inv U lc h" and p: "p \<in> U" and s: "log_step S M (Election (Count p now v r)) lc = Some lc'"
    and d: "observe_term S (rvr_term r) (node lc p) = Some d" "role d = Candidate"
    and b: "become_leader S now (count_vote v r d) = Some c"
    and step: "elections lc' = (put_node p c (elections lc))\<lparr>led := (current_term c, p) # led (elections lc)\<rparr>"
  shows "commit_inv U lc' (observe p (node lc p) (node lc' p) h)"
proof -
  let ?c = "node lc p" and ?l = "rlog (node lc p)" and ?t = "current_term c"
  let ?h = "observe p ?c c h"
  note i = commit_invD [OF inv] and z = node_no_snapshot [OF inv p] and li = log_invD [OF commit_invD(1) [OF inv]]
  have log': "log_inv U lc'" using log_step_inv [OF i(1) _ s] p by simp
  have dc: "d = ?c" using d by (auto simp: observe_term_Some split: if_split_asm)
  have cand: "role ?c = Candidate" using d(2) dc by simp
  have cv: "rlog (count_vote v r ?c) = ?l" "current_term (count_vote v r ?c) = current_term ?c"
    "snapshot_last_index (count_vote v r ?c) = snapshot_last_index ?c" "snapshot_last_term (count_vote v r ?c) = snapshot_last_term ?c"
    "commit_index (count_vote v r ?c) = commit_index ?c" "last_applied (count_vote v r ?c) = last_applied ?c"
    "match_index (count_vote v r ?c) = match_index ?c" "peers (count_vote v r ?c) = peers ?c"
    "node_id (count_vote v r ?c) = node_id ?c" "last_log_index (count_vote v r ?c) = last_log_index ?c"
    by (simp_all add: count_vote_def last_log_index_def)
  obtain e where e: "rlog c = ?l @ [e]" "le_index e = last_log_index ?c + 1" "le_term e = ?t"
    and f: "role c = Leader" "?t = current_term ?c" "snapshot_last_term c = snapshot_last_term ?c"
      "commit_index c = commit_index ?c" "last_applied c = last_applied ?c"
      "match_index c = fold (\<lambda>p. hm_insert p 0) (peers ?c) (match_index ?c)"
    using b cv unfolding become_leader_Some dc by auto
  have n: "nodes (elections lc') = (nodes (elections lc))(p := c)" "led (elections lc') = (?t, p) # led (elections lc)"
    "granted (elections lc') = granted (elections lc)" "vote_requests (elections lc') = vote_requests (elections lc)"
    using step by (simp_all add: put_node_def)
  have same: "appends lc' = appends lc" "append_replies lc' = append_replies lc"
    "made lc' = note_made ?l (rlog c) (made lc)"
    using log_stepD(2) [OF s] n(1) by (auto simp: bind_eq_Some_conv Let_def)
  have made: "made lc' = (e, prev_term ?l) # made lc" by (simp add: same(3) e(1) note_made_def)
  have last: "unat (last_log_index ?c) = length ?l"
    using unat_last_log_index [of ?c] z(1,3) by (simp add: log_ok_def has_log_def)
  have ix: "idx e = length ?l + 1"
    using u64_succ [of "last_log_index ?c"] last e(2) log_stepD(1) [OF s] by (simp add: log_room_iff)
  have el: "cluster_inv U (elections lc')" using log_invD(1) [OF log'] .
  have fin: "finite U" using cluster_invD(1) [OF el p] p by (rule configured_majority(1))
  have none: "(?t, q) \<notin> set (led (elections lc))" for q
  proof
    assume a: "(?t, q) \<in> set (led (elections lc))"
    then have "q = p" using inv_one_leader [OF el _ _ fin, of ?t q p] n(2) by simp
    with a li(6) [of ?t p] cand f(2) show False by (simp add: past_candidacy_def)
  qed
  have fresh: "t \<noteq> ?t" if "(t, q, l) \<in> set (ballots h)" for t q l
    using i(4) [OF that] none by (auto simp: ballot_ok_def)
  have bh: "ballots ?h = (?t, p, ?l) # ballots h" using cand f(1) by (simp add: observe_def)
  have new: "ballot_ok U (elections lc') (set (ballots ?h)) (set (stored ?h)) (?t, p, ?l)"
  proof (rule winner_ballot [OF inv cand])
    show "quorum_for U (granted (elections lc)) ?t p"
      using el n(2,3) unfolding cluster_inv_def by auto
    show "(?t, q, l) \<notin> set (ballots h)" for q l using fresh by blast
    show "current_term (node lc q) \<le> current_term (node lc' q)" for q by (simp add: n(1) f(2))
  qed (auto simp: n(2) bh f(2) observe_stored)
  have tr: "peers_tracked c"
  proof (rule become_leader_tracked [OF _ b])
    show "peers_tracked (count_vote v r d)" using z(5) cv dc by (simp add: peers_tracked_def)
  qed
  have "commit_inv U lc' ?h"
  proof (rule append_commit_step [OF inv p log' n(1) e(1) ix e(3) f(1-5), where lb = ?l])
    show "0 < ?t" using node_okD(2) [OF i(5) [OF p]] cand f(2) by (simp add: terms_ok_def)
    show "x \<in> set ?l" if "(x, t) \<in> set (made lc)" "le_term x = ?t" for x t
      using li(7) [OF that(1)] none that(2) by simp
    show "unat m \<le> length ?l \<and> (\<forall>x \<in> set ?l. le_term x = ?t \<longrightarrow> le_index x \<le> m \<longrightarrow> (q, x) \<in> set (stored h))"
      if "hm_get (match_index c) q = Some m" for q m
      using fresh_match_index [OF z(5,3)] that f(6) by simp
    show "b \<in> set (ballots h) \<or> ballot_ok U (elections lc') (set (ballots ?h)) (set (stored ?h)) b"
      if "b \<in> set (ballots ?h)" for b
      using that new by (auto simp: bh)
  qed (use made bh tr n same in auto)
  then show ?thesis using n(1) by simp
qed

lemma count_commit_inv:
  assumes inv: "commit_inv U lc h" and p: "p \<in> U" and s: "log_step S M (Election (Count p now v r)) lc = Some lc'"
  shows "commit_inv U lc' (observe p (node lc p) (node lc' p) h)"
proof -
  let ?c = "node lc p"
  from cluster_stepD [OF s] obtain won c where c: "handle_request_vote_result S now v r ?c = Some (won, c)"
    and step: "elections lc' = (put_node p c (elections lc))
      \<lparr>led := (if won then (current_term c, p) # led (elections lc) else led (elections lc))\<rparr>"
    by (auto simp: bind_eq_Some_conv split: if_split_asm)
  from c obtain d where d: "observe_term S (rvr_term r) ?c = Some d"
    and k: "if role d \<noteq> Candidate then \<not> won \<and> c = d
        else if majority d \<le> length (votes_received (count_vote v r d))
        then won \<and> become_leader S now (count_vote v r d) = Some c
        else \<not> won \<and> c = count_vote v r d"
    unfolding handle_request_vote_result_Some by blast
  show ?thesis
  proof (cases won)
    case True
    with k have "role d = Candidate" "become_leader S now (count_vote v r d) = Some c"
      by (auto split: if_split_asm)
    then show ?thesis using win_commit_inv [OF inv p s d] step True by simp
  next
    case False
    note z = node_no_snapshot [OF inv p]
    have e: "c = d \<or> c = count_vote v r d" using k False by (auto split: if_split_asm)
    have sl: "same_log ?c d" using d by (rule observe_term_same_log)
    then have ix: "commit_index d = commit_index ?c" "last_applied d \<le> commit_index d"
      using z(4) by (simp_all add: same_log_def)
    have cd: "calm (set (stored h)) ?c d"
      by (rule frame_calm [OF observe_term_frame [OF d] same_log_entries [OF sl] observe_term_order [OF d] ix z(5)])
    have "calm (set (stored h)) ?c (count_vote v r d)"
      using cd by (simp add: calm_def count_vote_def peers_tracked_def)
    with e cd have calm: "calm (set (stored h)) ?c c" by blast
    have n: "nodes (elections lc') = (nodes (elections lc))(p := c)" "led (elections lc') = led (elections lc)"
      "granted (elections lc') = granted (elections lc)" "vote_requests (elections lc') = vote_requests (elections lc)"
      using step False by (simp_all add: put_node_def)
    have "commit_inv U lc' (observe p ?c c h)"
      by (rule election_step [OF inv _ s, unfolded cluster_actor.simps, OF p calm n(1,2)]) (simp_all add: n(3,4))
    then show ?thesis by (simp add: n(1))
  qed
qed

end
