(* ===== verification/Commit_Replication.thy ===== *)
theory Commit_Replication
  imports Commit_Elections
begin

text \<open>
  The invariant of \<open>Commit_Safety\<close> is kept by the replication of the log: the commands of clients, the
  messages of a leader, their receipt and the replies. With it every run of \<open>safe_reachable\<close> has it.
\<close>

section \<open>Commands of clients\<close>

lemma calm_refl:
  assumes "commit_inv U lc h" "p \<in> U"
  shows "calm St (node lc p) (node lc p)"
  using node_no_snapshot [OF assms] by (simp add: calm_def)

lemma submit_commit_inv:
  assumes inv: "commit_inv U lc h" and p: "p \<in> U" and s: "log_step S M (Submit p cmd) lc = Some lc'"
  shows "commit_inv U lc' (observe p (node lc p) (node lc' p) h)"
proof -
  let ?c = "node lc p" and ?l = "rlog (node lc p)"
  note i = commit_invD [OF inv] and z = node_no_snapshot [OF inv p] and li = log_invD [OF commit_invD(1) [OF inv]]
  note d = node_okD [OF i(5) [OF p]]
  have log': "log_inv U lc'" using log_step_inv [OF i(1) _ s] p by simp
  from log_stepD(2) [OF s] obtain res c where c: "append_log_entry S cmd ?c = Some (res, c)"
    and lc': "lc' = (set_node p c lc)\<lparr>made := note_made ?l (rlog c) (made lc)\<rparr>"
    by (auto simp: bind_eq_Some_conv)
  have n: "nodes (elections lc') = (nodes (elections lc))(p := c)" "led (elections lc') = led (elections lc)"
    "granted (elections lc') = granted (elections lc)" "vote_requests (elections lc') = vote_requests (elections lc)"
    "appends lc' = appends lc" "append_replies lc' = append_replies lc"
    by (simp_all add: lc' set_node_def put_node_def)
  have "commit_inv U lc' (observe p ?c c h)"
  proof (cases "role ?c = Leader")
    case False
    with c have c0: "c = ?c" by (simp add: append_log_entry_Some)
    have m: "made lc' = made lc" by (simp add: lc' c0)
    have "calm (set (stored h)) ?c c" unfolding c0 by (rule calm_refl [OF inv p])
    then show ?thesis by (rule calm_step [OF inv p _ log' n(1) m n(2) refl]) (simp_all add: n(3-6))
  next
    case True
    from c True obtain e where e: "rlog c = ?l @ [e]" "le_index e = last_log_index ?c + 1" "le_term e = current_term c"
      and f: "role c = Leader" "current_term c = current_term ?c" "snapshot_last_term c = snapshot_last_term ?c"
        "commit_index c = commit_index ?c" "last_applied c = last_applied ?c" "match_index c = match_index ?c"
        "peers c = peers ?c" "node_id c = node_id ?c"
      by (auto simp: append_log_entry_Some Let_def)
    have made: "made lc' = (e, prev_term ?l) # made lc" by (simp add: lc' e(1) note_made_def)
    have last: "unat (last_log_index ?c) = length ?l"
      using unat_last_log_index [of ?c] z(1,3) by (simp add: log_ok_def has_log_def)
    have ix: "idx e = length ?l + 1"
      using u64_succ [of "last_log_index ?c"] last e(2) log_stepD(1) [OF s] by (simp add: log_room_iff)
    obtain lb where lb: "(current_term c, p, lb) \<in> set (ballots h)" "length lb < length ?l" "take (length lb) ?l = lb"
      using d(4) True f(2) unfolding leader_ok_def by auto
    have bh: "ballots (observe p ?c c h) = ballots h" using True by (simp add: observe_ballots)
    show ?thesis
    proof (rule append_commit_step [OF inv p log' n(1) e(1) ix e(3) f(1-5), where lb = lb])
      show "0 < current_term c" using d(2) True f(2) by (simp add: terms_ok_def)
      show "x \<in> set ?l" if "(x, t) \<in> set (made lc)" "le_term x = current_term c" for x t
        using li(4) [OF p] True that f(2) by (auto simp: leader_made_def)
      show "peers_tracked c" using z(5) peers_tracked_same [OF f(7,8,6)] by simp
      show "unat m \<le> length ?l \<and> (\<forall>x \<in> set ?l. le_term x = current_term c \<longrightarrow> le_index x \<le> m \<longrightarrow> (q, x) \<in> set (stored h))"
        if "hm_get (match_index c) q = Some m" for q m
        using d(4) True that unfolding leader_ok_def f(2,6) by blast
      show "length lb \<le> length ?l" using lb(2) by simp
    qed (use made bh n lb in simp_all)
  qed
  then show ?thesis by (simp add: n(1))
qed

section \<open>The messages of a leader\<close>

lemma term_at_beyond: "snapshot_last_index c = 0 \<Longrightarrow> length (rlog c) < unat i \<Longrightarrow> term_at c i = 0"
  using u64_pred [of i] by (auto simp: term_at_def Let_def word_gt_0 unat_gt_0)

lemma term_at_nth:
  "snapshot_last_index c = 0 \<Longrightarrow> i \<noteq> 0 \<Longrightarrow> unat i \<le> length (rlog c) \<Longrightarrow> term_at c i = le_term (rlog c ! (unat i - 1))"
proof -
  assume a: "snapshot_last_index c = 0" "i \<noteq> 0" "unat i \<le> length (rlog c)"
  then have i: "0 < i" "0 < unat i" by (simp_all add: word_gt_0 unat_gt_0)
  then have "unat (i - 1) < length (rlog c)" using a(3) u64_pred [OF i(1)] by linarith
  then show ?thesis using a i u64_pred [OF i(1)] by (simp add: term_at_def Let_def)
qed

lemma request_sent:
  assumes inv: "commit_inv U lc h" and p: "p \<in> U" and leader: "role (node lc p) = Leader"
    and req: "req = append_request (node lc p) n (take k (filter (\<lambda>e. n \<le> le_index e) (rlog (node lc p))))"
    and cov: "covers req" and St: "set (stored h) \<subseteq> St"
    and i: "\<And>j. i = Some j \<Longrightarrow> unat (n - 1) \<le> length (rlog (node lc p)) \<Longrightarrow>
      unat j \<le> unat (n - 1) + length (ae_entries req)"
  shows "sent_ok U (made lc) St i req"
proof -
  let ?c = "node lc p" and ?L = "rlog (node lc p)" and ?p = "n - 1"
  note z = node_no_snapshot [OF inv p] and d = node_okD [OF commit_invD(5) [OF inv p]]
  have f: "prev_log_index req = ?p" "prev_log_term req = term_at ?c ?p" "ae_term req = current_term ?c"
    "leader_commit req = commit_index ?c"
    by (simp_all add: req append_request_def)
  show ?thesis
  proof (cases "unat ?p \<le> length ?L")
    case False
    then have "term_at ?c ?p = 0" "?p \<noteq> 0" using term_at_beyond [OF z(1)] by auto
    then show ?thesis by (simp add: sent_ok_def f)
  next
    case True
    have len: "length ?L + 1 < u64_bound"
      using log_invD(3) [OF commit_invD(1) [OF inv] p] by (simp add: node_log_def)
    have "n \<noteq> 0"
    proof
      assume "n = 0"
      then have "unat ?p + 1 = u64_bound" by (simp add: u64_bound_def unsigned_minus_1_eq_mask mask_eq_exp_minus_1)
      with True len show False by simp
    qed
    then have n: "0 < n" "unat ?p = unat n - 1" by (simp_all add: u64_pred word_gt_0)
    have es: "ae_entries req = take k (drop (unat ?p) ?L)"
      using filter_log_above [OF _ n(1), of ?L] z(3) n(2) by (simp add: req append_request_def has_log_def)
    have ne: "?L \<noteq> []" and lt: "le_term (last ?L) = current_term ?c"
      using d(4) leader unfolding leader_ok_def by blast+
    show ?thesis
      unfolding sent_ok_def
    proof (intro disjI2 exI [of _ ?L] conjI)
      show "hist (made lc) (last ?L) ?L" using z(3) ne by (simp add: hist_def)
      show "le_term (last ?L) = ae_term req" using lt f(3) by simp
      show "\<forall>e \<in> set ?L. le_term e \<le> ae_term req" using d(2) f(3) by (simp add: terms_ok_def)
      show "piece_of req ?L"
        unfolding piece_of_def f(1,2) using True es term_at_nth [OF z(1) _ True] by blast
      show "covers req" by (rule cov)
      show "\<forall>j. i = Some j \<longrightarrow> unat j \<le> unat (prev_log_index req) + length (ae_entries req)"
        using i True f(1) by simp
      show "\<forall>e \<in> set ?L. le_index e \<le> leader_commit req \<longrightarrow> secure U (made lc) St (ae_term req) e"
        using d(5) secure_mono [OF _ order_refl St order_refl] unfolding commit_ok_def f(3,4) by blast
    qed
  qed
qed

text \<open>A step in which a node only sends a message.\<close>

lemma send_commit_inv:
  assumes inv: "commit_inv U lc h" and p: "p \<in> U"
    and req: "\<And>St. set (stored h) \<subseteq> St \<Longrightarrow> sent_ok U (made lc) St i req"
    and log': "log_inv U (send_append q i req lc)"
  shows "commit_inv U (send_append q i req lc) (observe p (node lc p) (node (send_append q i req lc) p) h)"
proof -
  have "commit_inv U (send_append q i req lc) (observe p (node lc p) (node lc p) h)"
  proof (rule calm_step [OF inv p calm_refl [OF inv p] log' _ _ _ refl])
    fix q' i' req' assume "(q', i', req') \<in> set (appends (send_append q i req lc))"
    then show "(q', i', req') \<in> set (appends lc) \<or> sent_ok U (made lc) (set (stored (observe p (node lc p) (node lc p) h))) i' req'"
      using req [of "set (stored (observe p (node lc p) (node lc p) h))"]
      by (auto simp: send_append_def observe_stored)
  qed (simp_all add: send_append_def)
  then show ?thesis by (simp add: send_append_def)
qed

lemma heartbeat_commit_inv:
  assumes inv: "commit_inv U lc h" and p: "p \<in> U" and s: "log_step S M (Heartbeat p q) lc = Some lc'"
  shows "commit_inv U lc' (observe p (node lc p) (node lc' p) h)"
proof -
  let ?c = "node lc p" and ?L = "rlog (node lc p)" and ?n = "peer_next_index (node lc p) q"
  let ?es = "filter (\<lambda>e. ?n \<le> le_index e) ?L"
  note z = node_no_snapshot [OF inv p] and d = node_okD [OF commit_invD(5) [OF inv p]]
  have leader: "role ?c = Leader" using log_stepD(1) [OF s] by simp
  from log_stepD(2) [OF s] obtain req i where r: "heartbeat_request S ?c q = Some (AppendEntriesRequest req i)"
    and lc': "lc' = send_append q (Some i) req lc"
    by (auto split: option.split_asm node_request.split_asm)
  have n: "0 < ?n" and req: "req = append_request ?c ?n ?es" and i: "i = (if ?es = [] then 0 else le_index (last ?es))"
    using r z(1) by (auto simp: heartbeat_request_def Let_def word_gt_0 split: if_split_asm sum.split_asm option.split_asm)
  have es: "?es = drop (unat (?n - 1)) ?L"
    using filter_log_above [OF _ n, of ?L] z(3) n by (simp add: has_log_def u64_pred)
  have log': "log_inv U lc'" using log_step_inv [OF commit_invD(1) [OF inv] _ s] p by simp
  have f: "ae_entries req = ?es" "leader_commit req = commit_index ?c" "prev_log_index req = ?n - 1"
    by (simp_all add: req append_request_def)
  have "sent_ok U (made lc) St (Some i) req" if "set (stored h) \<subseteq> St" for St
  proof (rule request_sent [OF inv p leader _ _ that, where n = ?n and k = "length ?L"])
    show "req = append_request ?c ?n (take (length ?L) ?es)" using req by simp
    have "unat (commit_index ?c) \<le> length ?L" using d(5) by (simp add: commit_ok_def)
    then show "covers req" unfolding covers_def f es length_drop by linarith
    fix j assume j: "Some i = Some j" and le: "unat (?n - 1) \<le> length ?L"
    show "unat j \<le> unat (?n - 1) + length (ae_entries req)"
    proof (cases "?es = []")
      case False
      then have "last ?es = last ?L" "?L \<noteq> []" using es by (auto simp: last_drop)
      then have "unat i = length ?L" using has_log_last [OF z(3)] i False by simp
      with j le show ?thesis unfolding f(1) es by simp
    qed (use i j in simp)
  qed
  from send_commit_inv [OF inv p this log' [unfolded lc']] show ?thesis unfolding lc' .
qed

lemma confirm_commit_inv:
  assumes inv: "commit_inv U lc h" and p: "p \<in> U" and s: "log_step S M (Confirm p q) lc = Some lc'"
    and g: "safe_guard S (Confirm p q) lc"
  shows "commit_inv U lc' (observe p (node lc p) (node lc' p) h)"
proof -
  let ?c = "node lc p" and ?n = "peer_next_index (node lc p) q"
  have lc': "lc' = send_append q None (confirm_request ?c q) lc" using log_stepD(2) [OF s] by simp
  have log': "log_inv U lc'" using log_step_inv [OF commit_invD(1) [OF inv] _ s] p by simp
  have "sent_ok U (made lc) St None (confirm_request ?c q)" if "set (stored h) \<subseteq> St" for St
    by (rule request_sent [OF inv p _ _ _ that, where n = ?n and k = 0])
      (use log_stepD(1) [OF s] g in \<open>simp_all add: confirm_request_def\<close>)
  from send_commit_inv [OF inv p this log' [unfolded lc']] show ?thesis unfolding lc' .
qed

lemma replicate_commit_inv:
  assumes inv: "commit_inv U lc h" and p: "p \<in> U" and s: "log_step S M (Replicate p i q) lc = Some lc'"
    and g: "safe_guard S (Replicate p i q) lc"
  shows "commit_inv U lc' (observe p (node lc p) (node lc' p) h)"
proof -
  let ?c = "node lc p" and ?L = "rlog (node lc p)" and ?n = "peer_next_index (node lc p) q"
  let ?req = "replicate_request i ?c q"
  let ?es = "filter (\<lambda>e. ?n \<le> le_index e) ?L"
  note z = node_no_snapshot [OF inv p]
  have lc': "lc' = send_append q (Some i) ?req lc" using log_stepD(2) [OF s] by simp
  have log': "log_inv U lc'" using log_step_inv [OF commit_invD(1) [OF inv] _ s] p by simp
  have l: "log_from 0 ?L" using z(3) by (simp add: has_log_def)
  have iL: "unat i \<le> length ?L"
    using g unat_last_log_index [of ?c] z(1) l by (simp add: log_ok_def word_le_nat_alt)
  have "filter (\<lambda>e. ?n \<le> le_index e \<and> le_index e \<le> i) ?L = filter (\<lambda>e. ?n \<le> le_index e) (filter (\<lambda>e. le_index e \<le> i) ?L)"
    by (simp add: conj_commute)
  also have "\<dots> = filter (\<lambda>e. ?n \<le> le_index e) (take (unat i) ?L)" using filter_log_upto [OF l, of i] by simp
  finally have upto: "filter (\<lambda>e. ?n \<le> le_index e \<and> le_index e \<le> i) ?L = filter (\<lambda>e. ?n \<le> le_index e) (take (unat i) ?L)" .
  have "\<exists>k. filter (\<lambda>e. ?n \<le> le_index e) (take (unat i) ?L) = take k ?es"
    by (metis append_eq_conv_conj append_take_drop_id filter_append)
  then have "\<exists>k. filter (\<lambda>e. ?n \<le> le_index e \<and> le_index e \<le> i) ?L = take k ?es" unfolding upto .
  then obtain k where k: "?req = append_request ?c ?n (take k ?es)"
    by (auto simp: replicate_request_def Let_def)
  have "sent_ok U (made lc) St (Some i) ?req" if St: "set (stored h) \<subseteq> St" for St
  proof (rule request_sent [OF inv p _ k _ St])
    fix j assume j: "Some i = Some j" and le: "unat (?n - 1) \<le> length ?L"
    have len: "length ?L + 1 < u64_bound"
      using log_invD(3) [OF commit_invD(1) [OF inv] p] by (simp add: node_log_def)
    have "?n \<noteq> 0"
    proof
      assume "?n = 0"
      then have "unat (?n - 1) + 1 = u64_bound" by (simp add: u64_bound_def unsigned_minus_1_eq_mask mask_eq_exp_minus_1)
      with le len show False by simp
    qed
    then have n: "0 < ?n" by (simp add: word_gt_0)
    have "ae_entries ?req = drop (unat ?n - 1) (take (unat i) ?L)"
      using filter_log_above [OF log_from_take [OF l] n] upto by (simp add: replicate_request_def append_request_def Let_def)
    then have "length (ae_entries ?req) = unat i - unat (?n - 1)" using iL u64_pred [OF n] by simp
    with j show "unat j \<le> unat (?n - 1) + length (ae_entries ?req)" by simp
  qed (use g in simp_all)
  from send_commit_inv [OF inv p this log' [unfolded lc']] show ?thesis unfolding lc' .
qed

section \<open>Receipt of a message\<close>

text \<open>An accepted message is a piece of a leader's log; the log of the receiver takes it over.\<close>

lemma sent_piece:
  assumes inv: "commit_inv U lc h" and q: "q \<in> U" and sent: "sent_ok U (made lc) St i req"
    and m: "prev_matches req (node lc q)"
  obtains L where "hist (made lc) (last L) L" "le_term (last L) = ae_term req" "\<forall>e \<in> set L. le_term e \<le> ae_term req"
    "piece_of req L" "covers req" "\<forall>j. i = Some j \<longrightarrow> unat j \<le> unat (prev_log_index req) + length (ae_entries req)"
    "\<forall>e \<in> set L. le_index e \<le> leader_commit req \<longrightarrow> secure U (made lc) St (ae_term req) e"
proof -
  note z = node_no_snapshot [OF inv q]
  have "\<not> (prev_log_index req \<noteq> 0 \<and> prev_log_term req = 0)"
  proof
    assume a: "prev_log_index req \<noteq> 0 \<and> prev_log_term req = 0"
    then obtain e where e: "get_log_entry (node lc q) (prev_log_index req) = Some e" "le_term e = 0"
      using m z(1) by (auto simp: prev_matches_def split: if_split_asm)
    have nl: "node_log (made lc) (node lc q)" using log_invD(3) [OF commit_invD(1) [OF inv] q] .
    have "0 < unat (prev_log_index req)" using a by (simp add: unat_gt_0)
    then have "e \<in> set (rlog (node lc q))"
      using e(1) node_log_entry [OF nl, of "prev_log_index req"] by (auto split: if_split_asm)
    with e(2) show False using node_okD(2) [OF commit_invD(5) [OF inv q]] by (auto simp: terms_ok_def)
  qed
  with sent that show thesis unfolding sent_ok_def by blast
qed

lemma prev_matches_piece:
  assumes nl: "node_log g c" and m: "prev_matches req c" and piece: "piece_of req L"
  defines "n \<equiv> unat (prev_log_index req)"
  shows "n \<le> length (rlog c)" "0 < n \<Longrightarrow> le_term (rlog c ! (n - 1)) = le_term (L ! (n - 1))"
proof -
  have last: "unat (last_log_index c) = length (rlog c)"
    using unat_last_log_index [of c] nl by (simp add: node_log_def log_ok_def)
  show "n \<le> length (rlog c)" using prev_matches_le [OF m] last by (simp add: n_def word_le_nat_alt)
  assume "0 < n"
  then have nz: "prev_log_index req \<noteq> 0" by (simp add: n_def unat_gt_0)
  moreover have "snapshot_last_index c = 0" using nl by (simp add: node_log_def)
  ultimately obtain e where "get_log_entry c (prev_log_index req) = Some e" "le_term e = prev_log_term req"
    using m by (auto simp: prev_matches_def split: if_split_asm)
  then have "le_term (rlog c ! (n - 1)) = prev_log_term req"
    using node_log_entry [OF nl, of "prev_log_index req"] by (auto simp: n_def split: if_split_asm)
  with piece nz show "le_term (rlog c ! (n - 1)) = le_term (L ! (n - 1))" by (simp add: piece_of_def n_def)
qed

text \<open>\<open>c'\<close> is node \<open>q\<close> after it merged the entries of \<open>req\<close>, which are a piece of the leader's log \<open>L\<close>.\<close>

definition merged ::
  "('s, 'm) log_cluster \<Rightarrow> u64 \<Rightarrow> append_entries_args \<Rightarrow> log_entry list \<Rightarrow> ('s, 'm) raft_core \<Rightarrow> bool" where
  "merged lc q req L c' \<longleftrightarrow>
     hist (made lc) (last L) L \<and> le_term (last L) = ae_term req \<and> (\<forall>e \<in> set L. le_term e \<le> ae_term req) \<and>
     piece_of req L \<and> prev_matches req (node lc q) \<and>
     rlog c' = merge_log 0 (rlog (node lc q)) (ae_entries req) \<and> has_log (made lc) (rlog c') \<and>
     current_term c' = ae_term req \<and> current_term (node lc q) \<le> ae_term req"

lemma mergedD:
  assumes "merged lc q req L c'"
  shows "hist (made lc) (last L) L" "le_term (last L) = ae_term req" "\<And>e. e \<in> set L \<Longrightarrow> le_term e \<le> ae_term req"
    "piece_of req L" "prev_matches req (node lc q)" "rlog c' = merge_log 0 (rlog (node lc q)) (ae_entries req)"
    "has_log (made lc) (rlog c')" "current_term c' = ae_term req" "current_term (node lc q) \<le> ae_term req"
    "has_log (made lc) L" "L \<noteq> []"
  using assms by (auto simp: merged_def hist_def)

abbreviation reach :: "append_entries_args \<Rightarrow> nat" where
  "reach req \<equiv> unat (prev_log_index req) + length (ae_entries req)"

lemma merged_log:
  assumes inv: "commit_inv U lc h" and q: "q \<in> U" and m: "merged lc q req L c'"
  shows "take (reach req) (rlog c') = take (reach req) L" "reach req \<le> length (rlog c')" "reach req \<le> length L"
    "set (rlog c') \<subseteq> set (rlog (node lc q)) \<union> set L"
    "\<And>e. e \<in> set (rlog (node lc q)) \<Longrightarrow> e \<in> set L \<or> last L \<in> set (rlog (node lc q)) \<and> idx (last L) \<le> idx e \<Longrightarrow>
       take (idx e) (rlog c') = take (idx e) (rlog (node lc q)) \<and> e \<in> set (rlog c')"
proof -
  let ?l = "rlog (node lc q)" and ?p = "prev_log_index req"
  note d = mergedD [OF m]
  have nl: "node_log (made lc) (node lc q)" using log_invD(3) [OF commit_invD(1) [OF inv] q] .
  note pm = prev_matches_piece [OF nl d(5,4)]
  have once: "made_once (made lc)" using log_invD(2) [OF commit_invD(1) [OF inv]] .
  have hl: "has_log (made lc) ?l" using node_no_snapshot(3) [OF inv q] .
  have pL: "unat ?p \<le> length L" using d(4) by (simp add: piece_of_def)
  obtain k where k: "ae_entries req = take k (drop (unat ?p) L)" using d(4) by (auto simp: piece_of_def)
  note mp = merge_piece [OF once d(10) hl d(7) [unfolded d(6)] pL pm k]
  show "take (reach req) (rlog c') = take (reach req) L" "reach req \<le> length (rlog c')" using mp by (simp_all add: d(6))
  show "reach req \<le> length L" using pL by (simp add: k)
  have "set (ae_entries req) \<subseteq> set L" unfolding k by (meson in_set_dropD in_set_takeD subsetI)
  then show "set (rlog c') \<subseteq> set ?l \<union> set L" using set_merge_log [of ?l "ae_entries req"] unfolding d(6) by blast
  show "take (idx e) (rlog c') = take (idx e) ?l \<and> e \<in> set (rlog c')"
    if "e \<in> set ?l" "e \<in> set L \<or> last L \<in> set ?l \<and> idx (last L) \<le> idx e" for e
    using merge_keeps [OF once d(10) hl that(1) pL pm(1) k] that(2) d(11) unfolding d(6) by blast
qed

lemma merged_reaches:
  assumes inv: "commit_inv U lc h" and q: "q \<in> U" and m: "merged lc q req L c'" and le: "idx e \<le> reach req"
  shows "e \<in> set (rlog c') \<longleftrightarrow> e \<in> set L"
  using merged_log(1) [OF inv q m] in_take_idx [OF mergedD(7) [OF m] _ le] in_take_idx [OF mergedD(10) [OF m] _ le]
  by (metis in_set_takeD)

text \<open>What the node has committed stays.\<close>

lemma merged_keeps_committed:
  assumes inv: "commit_inv U lc h" and q: "q \<in> U" and m: "merged lc q req L c'"
  defines "n \<equiv> unat (commit_index (node lc q))"
  shows "n \<le> length (rlog c')" "take n (rlog c') = take n (rlog (node lc q))"
proof -
  let ?c = "node lc q" and ?l = "rlog (node lc q)"
  note d = mergedD [OF m] and k = node_okD(5) [OF commit_invD(5) [OF inv q]] and hl = node_no_snapshot(3) [OF inv q]
  have "n \<le> length (rlog c') \<and> take n (rlog c') = take n ?l"
  proof (cases "n = 0")
    case False
    let ?e = "?l ! (n - 1)"
    have "n \<le> length ?l" using k by (simp add: commit_ok_def n_def)
    then have e: "?e \<in> set ?l" "idx ?e = n" using False has_log_index [OF hl, of "n - 1"] by simp_all
    then have "secure U (made lc) (set (stored h)) (current_term ?c) ?e"
      using k by (simp add: commit_ok_def word_le_nat_alt n_def)
    from secure_vs_leader [OF inv d(1) this _ hl e(1)] d(2,9)
    have "take (idx ?e) (rlog c') = take (idx ?e) ?l" "?e \<in> set (rlog c')"
      using merged_log(5) [OF inv q m e(1)] by simp_all
    then show ?thesis using has_log_nth(2) [OF d(7)] e(2) by fastforce
  qed simp
  then show "n \<le> length (rlog c')" "take n (rlog c') = take n ?l" by simp_all
qed

lemma merged_stored:
  assumes inv: "commit_inv U lc h" and q: "q \<in> U" and m: "merged lc q req L c'"
    and St': "St' = set (stored h) \<union> Pair q ` {e \<in> set (rlog c'). le_term e = current_term c'}"
  shows "stored_ok (made lc) (set (ballots h)) St' q c'"
  unfolding stored_ok_def
proof (intro conjI ballI allI impI)
  let ?c = "node lc q" and ?l = "rlog (node lc q)" and ?g = "made lc" and ?t = "ae_term req"
  note d = mergedD [OF m] and hl = node_no_snapshot(3) [OF inv q]
  show "(q, e) \<in> St'" if "e \<in> set (rlog c')" "le_term e = current_term c'" for e using that by (simp add: St')
  fix e assume "(q, e) \<in> St'"
  then consider "(q, e) \<in> set (stored h)" | "e \<in> set (rlog c')" "le_term e = current_term c'" by (auto simp: St')
  then have "(\<exists>t. (e, t) \<in> set ?g) \<and> le_term e \<le> current_term c' \<and> accounted (set (ballots h)) (rlog c') e (current_term c')"
  proof cases
    case 1
    then have "(\<exists>t. (e, t) \<in> set ?g) \<and> le_term e \<le> current_term ?c \<and> accounted (set (ballots h)) ?l e (current_term ?c)"
      using node_okD(3) [OF commit_invD(5) [OF inv q]] by (simp add: stored_ok_def)
    then obtain s where s: "(e, s) \<in> set ?g" "le_term e \<le> ?t" and acc: "accounted (set (ballots h)) ?l e (current_term ?c)"
      using d(9) by (meson order_trans)
    have "accounted (set (ballots h)) (rlog c') e ?t"
    proof (cases "e \<in> set ?l")
      case True
      from entry_vs_leader [OF inv d(1) s(1) _ hl True] s(2) d(2) merged_log(5) [OF inv q m True] show ?thesis
        unfolding accounted_def by fastforce
    next
      case False
      then show ?thesis using acc d(9) unfolding accounted_def by (meson order_trans)
    qed
    with s d(8) show ?thesis by auto
  next
    case 2
    then show ?thesis using has_log_made [OF d(7)] by (simp add: accounted_def)
  qed
  then show "\<exists>t. (e, t) \<in> set ?g" "le_term e \<le> current_term c'" "accounted (set (ballots h)) (rlog c') e (current_term c')"
    by blast+
qed

lemma merged_commit:
  assumes inv: "commit_inv U lc h" and q: "q \<in> U" and m: "merged lc q req L c'"
    and f: "followed req (node lc q) c'" and cov: "covers req" and none: "snapshot_last_index c' = 0"
    and sec: "\<forall>e \<in> set L. le_index e \<le> leader_commit req \<longrightarrow> secure U (made lc) (set (stored h)) (ae_term req) e"
    and sub: "set (stored h) \<subseteq> St'"
  shows "commit_ok U (made lc) St' c'"
proof -
  let ?c = "node lc q" and ?l = "rlog (node lc q)" and ?t = "ae_term req"
  note d = mergedD [OF m] and z = node_no_snapshot [OF inv q] and k = node_okD(5) [OF commit_invD(5) [OF inv q]]
  note keep = merged_keeps_committed [OF inv q m]
  have old: "secure U (made lc) St' ?t e" if e: "e \<in> set (rlog c')" "le_index e \<le> commit_index ?c" for e
  proof -
    have "e \<in> set (take (unat (commit_index ?c)) (rlog c'))" using in_take_idx [OF d(7) e(1)] e(2) by (simp add: word_le_nat_alt)
    then have "e \<in> set ?l" using keep by (metis in_set_takeD)
    then have "secure U (made lc) (set (stored h)) (current_term ?c) e" using k e(2) by (simp add: commit_ok_def)
    then show ?thesis by (rule secure_mono) (use sub d(9) in auto)
  qed
  have new: "secure U (made lc) St' ?t e" if e: "e \<in> set (rlog c')" "le_index e \<le> leader_commit req" for e
  proof -
    have "idx e \<le> reach req" using e(2) cov by (simp add: covers_def word_le_nat_alt)
    then have "e \<in> set L" using merged_reaches [OF inv q m] e(1) by blast
    with e(2) sec have "secure U (made lc) (set (stored h)) ?t e" by blast
    then show ?thesis by (rule secure_mono) (use sub in auto)
  qed
  have last: "unat (last_log_index c') = length (rlog c')"
    using unat_last_log_index [of c'] d(7) none by (simp add: log_ok_def has_log_def)
  show ?thesis
  proof (cases "commit_index ?c < leader_commit req")
    case True
    have f': "commit_index c' = min (leader_commit req) (last_log_index c')"
      "last_applied c' = max (last_applied ?c) (commit_index c')"
      using f True by (simp_all add: followed_def)
    have "commit_index ?c \<le> last_log_index c'" using keep(1) last by (simp add: word_le_nat_alt)
    then have ge: "commit_index ?c \<le> commit_index c'" using True f'(1) by simp
    then have "last_applied c' = commit_index c'" using f'(2) order_trans [OF z(4) ge] by (simp add: max_def)
    moreover have "commit_index c' \<le> last_log_index c'" by (simp add: f'(1))
    then have "unat (commit_index c') \<le> length (rlog c')" using last by (simp add: word_le_nat_alt)
    ultimately show ?thesis using new f'(1) by (simp add: commit_ok_def d(8))
  next
    case False
    then show ?thesis using f z(4) keep old by (simp add: followed_def commit_ok_def d(8))
  qed
qed

lemma merged_terms:
  assumes inv: "commit_inv U lc h" and q: "q \<in> U" and m: "merged lc q req L c'"
    and f: "snapshot_last_term c' = snapshot_last_term (node lc q)" "role c' = Follower"
  shows "terms_ok c'"
proof -
  note d = mergedD [OF m] and n = node_okD(2) [OF commit_invD(5) [OF inv q]]
  have "0 < le_term e \<and> le_term e \<le> ae_term req" if e: "e \<in> set (rlog c')" for e
  proof (cases "e \<in> set L")
    case True
    then obtain t where "(e, t) \<in> set (made lc)" using has_log_made [OF d(10)] by blast
    then have "0 < le_term e" using commit_invD(2) [OF inv] by (simp add: entry_ok_def)
    with True d(3) show ?thesis by simp
  next
    case False
    then have "e \<in> set (rlog (node lc q))" using e merged_log(4) [OF inv q m] by blast
    then show ?thesis using n d(9) by (auto simp: terms_ok_def intro: order_trans)
  qed
  then show ?thesis using f d(8) n by (simp add: terms_ok_def)
qed

lemma merged_reply:
  assumes inv: "commit_inv U lc h" and q: "q \<in> U" and m: "merged lc q req L c'" and j: "unat j \<le> reach req"
    and St': "St' = set (stored h) \<union> Pair q ` {e \<in> set (rlog c'). le_term e = current_term c'}"
  shows "reply_ok U (made lc) St' (q, j, req, r)"
proof -
  note d = mergedD [OF m]
  have "(q, e) \<in> St'" if e: "e \<in> set L" "le_term e = ae_term req" "le_index e \<le> j" for e
  proof -
    have "idx e \<le> reach req" using e(3) j by (simp add: word_le_nat_alt)
    then have "e \<in> set (rlog c')" using merged_reaches [OF inv q m] e(1) by blast
    then show ?thesis using e(2) d(8) by (simp add: St')
  qed
  then show ?thesis
    unfolding reply_ok_def case_prod_conv using q d(1,2) j merged_log(3) [OF inv q m] by (meson order_trans)
qed

lemma accepted_node:
  assumes inv: "commit_inv U lc h" and q: "q \<in> U" and sent: "sent_ok U (made lc) (set (stored h)) i req"
    and m: "prev_matches req (node lc q)"
    and c': "rlog c' = merge_log 0 (rlog (node lc q)) (ae_entries req)" "snapshot_last_term c' = snapshot_last_term (node lc q)"
      "role c' = Follower" "current_term c' = ae_term req" "current_term (node lc q) \<le> ae_term req"
      "followed req (node lc q) c'" "peers_tracked c'"
    and nl': "node_log (made lc) c'"
    and St': "St' = set (stored h) \<union> Pair q ` {e \<in> set (rlog c'). le_term e = current_term c'}"
  shows "node_ok U (made lc) (set (ballots h)) St' q c' \<and>
    (\<forall>j r. i = Some j \<longrightarrow> reply_ok U (made lc) St' (q, j, req, r))"
proof -
  obtain L where L: "hist (made lc) (last L) L" "le_term (last L) = ae_term req" "\<forall>e \<in> set L. le_term e \<le> ae_term req"
    "piece_of req L" "covers req" "\<forall>j. i = Some j \<longrightarrow> unat j \<le> reach req"
    "\<forall>e \<in> set L. le_index e \<le> leader_commit req \<longrightarrow> secure U (made lc) (set (stored h)) (ae_term req) e"
    using sent_piece [OF inv q sent m] .
  have mg: "merged lc q req L c'"
    unfolding merged_def using L(1-4) m c'(1,4,5) nl' by (simp add: node_log_def has_log_def)
  have "snapshot_last_index c' = 0" using nl' by (simp add: node_log_def)
  then have "commit_ok U (made lc) St' c'" by (rule merged_commit [OF inv q mg c'(6) L(5) _ L(7)]) (simp add: St')
  then show ?thesis
    using merged_stored [OF inv q mg St'] merged_terms [OF inv q mg c'(2,3)] merged_reply [OF inv q mg _ St'] c'(3,7) L(6)
    by (simp add: node_ok_def leader_ok_def)
qed

lemma deliver_commit_inv:
  assumes inv: "commit_inv U lc h" and q: "q \<in> U" and s: "log_step S M (Deliver q now i req) lc = Some lc'"
  shows "commit_inv U lc' (observe q (node lc q) (node lc' q) h)"
proof -
  let ?c = "node lc q"
  note d = node_no_snapshot [OF inv q]
  from log_stepD(2) [OF s] obtain out c where c: "handle_append_entries S M now req ?c = Some (out, c)"
    and lc': "lc' = (case i of None \<Rightarrow> set_node q c lc
        | Some i \<Rightarrow> (set_node q c lc)\<lparr>append_replies := (q, i, req, hae_result out) # append_replies (set_node q c lc)\<rparr>)"
    by (auto simp: bind_eq_Some_conv Let_def)
  have n: "nodes (elections lc') = (nodes (elections lc))(q := c)" "made lc' = made lc" "led (elections lc') = led (elections lc)"
    "granted (elections lc') = granted (elections lc)" "vote_requests (elections lc') = vote_requests (elections lc)"
    "appends lc' = appends lc"
    "\<And>y. y \<in> set (append_replies lc') \<Longrightarrow>
      y \<in> set (append_replies lc) \<or> (\<exists>j. i = Some j \<and> y = (q, j, req, hae_result out))"
    by (auto simp: lc' set_node_def put_node_def split: option.split_asm option.split)
  have log': "log_inv U lc'" using log_step_inv [OF commit_invD(1) [OF inv] _ s] q by simp
  have nl': "node_log (made lc) c" using log_invD(3) [OF log' q] n(1,2) by simp
  have none: "snapshot_last_index c = 0" using nl' by (simp add: node_log_def)
  have fr: "rpc_frame ?c c" using c by (rule handle_append_entries_frame)
  have tr: "peers_tracked c" using rpc_frame_tracked [OF fr] d(5) by simp
  have or: "vote_order ?c c" using local_order [of "AppendEntriesReq now req" S M ?c c] c by simp
  have sent: "sent_ok U (made lc) (set (stored h)) i req"
    using commit_invD(8) [OF inv] log_stepD(1) [OF s] by simp
  have "commit_inv U lc' (observe q ?c c h)"
    using handle_append_entries_none [OF c none d(1)]
  proof (elim disjE conjE)
    assume a: "same_log ?c c" "\<not> aer_success (hae_result out)"
    have calm: "calm (set (stored h)) ?c c"
      by (rule frame_calm [OF fr same_log_entries [OF a(1)] or _ _ d(5)]) (use a(1) d(4) in \<open>simp_all add: same_log_def\<close>)
    have "reply_ok U (made lc) St (q, j, req, hae_result out)" for St j using q a(2) by (simp add: reply_ok_def)
    with n(7) have "y \<in> set (append_replies lc) \<or> reply_ok U (made lc) St y" if "y \<in> set (append_replies lc')" for St y
      using that by blast
    then show ?thesis by (rule calm_step [OF inv q calm log' n(1-3) refl, rotated 3]) (simp_all add: n(4-6))
  next
    assume m: "prev_matches req ?c"
    assume a: "rlog c = merge_log 0 (rlog ?c) (ae_entries req)" "snapshot_last_term c = snapshot_last_term ?c"
      "role c = Follower" "current_term c = ae_term req" "current_term ?c \<le> ae_term req" "followed req ?c c"
    let ?h = "observe q ?c c h"
    have b: "ballots ?h = ballots h" using a(3) by (simp add: observe_def)
    note acc = accepted_node [OF inv q sent m a tr nl' observe_stored]
    have st: "step_of q lc h c lc' ?h"
      using n a by (simp add: step_of_def observe_stored b)
    show ?thesis
    proof (rule commit_step [OF inv q st log'])
      show "order_ok (made lc')" using commit_invD(3) [OF inv] n(2) by simp
      show "node_ok U (made lc') (set (ballots ?h)) (set (stored ?h)) q c" using acc unfolding n(2) b by blast
      show "y \<in> set (append_replies lc) \<or> reply_ok U (made lc') (set (stored ?h)) y" if "y \<in> set (append_replies lc')" for y
        using n(7) [OF that] acc unfolding n(2) by blast
    qed (use n b in auto)
  qed
  then show ?thesis by (simp add: n(1))
qed

section \<open>Replies, and the commit rule\<close>

lemma note_success_match:
  "hm_get (match_index (note_success q i c)) p = Some m \<Longrightarrow> hm_get (match_index c) p = Some m \<or> p = q \<and> m = i"
  by (auto simp: note_success_def Let_def hm_get_insert split: if_split_asm)

lemma note_calm:
  assumes inv: "commit_inv U lc h" and p: "p \<in> U" and leader: "role (node lc p) = Leader" and q: "q \<in> set (peers (node lc p))"
    and r: "reply_ok U (made lc) (set (stored h)) (q, i, req, r)" and t: "ae_term req = current_term (node lc p)"
  shows "calm (set (stored h)) (node lc p) (if aer_success r then note_success q i (node lc p) else note_rejection q r (node lc p))"
proof -
  let ?c = "node lc p" and ?l = "rlog (node lc p)"
  note z = node_no_snapshot [OF inv p] and li = log_invD [OF commit_invD(1) [OF inv]]
  show ?thesis
  proof (cases "aer_success r")
    case False
    then show ?thesis
      using calm_refl [OF inv p, of "set (stored h)"] note_rejection_tracked [OF z(5)]
      by (simp add: calm_def note_rejection_def Let_def)
  next
    case True
    then obtain L where L: "hist (made lc) (last L) L" "le_term (last L) = current_term ?c" "unat i \<le> length L"
      "\<forall>e \<in> set L. le_term e = current_term ?c \<longrightarrow> le_index e \<le> i \<longrightarrow> (q, e) \<in> set (stored h)"
      using r t unfolding reply_ok_def by auto
    have hL: "has_log (made lc) L" "last L \<in> set L" using L(1) by (auto simp: hist_def)
    obtain s where "(last L, s) \<in> set (made lc)" using has_log_made [OF hL] by blast
    then have "last L \<in> set ?l" using li(4) [OF p] leader L(2) by (auto simp: leader_made_def)
    then have same: "take (idx (last L)) L = take (idx (last L)) ?l" "idx (last L) \<le> length ?l"
      using has_log_common [OF li(2) hL(1) z(3) hL(2)] has_log_nth(2) [OF z(3)] by simp_all
    have len: "idx (last L) = length L" using has_log_last [OF hL(1)] L(1) by (simp add: hist_def)
    have new: "unat i \<le> length ?l \<and> (\<forall>e \<in> set ?l. le_term e = current_term ?c \<longrightarrow> le_index e \<le> i \<longrightarrow> (q, e) \<in> set (stored h))"
    proof (intro conjI ballI impI)
      show "unat i \<le> length ?l" using L(3) same(2) len by simp
      fix e assume e: "e \<in> set ?l" "le_term e = current_term ?c" "le_index e \<le> i"
      have "idx e \<le> length L" using e(3) L(3) by (simp add: word_le_nat_alt)
      then have "e \<in> set (take (length L) ?l)" by (rule in_take_idx [OF z(3) e(1)])
      then have "e \<in> set L" using same(1) len by simp
      with e L(4) show "(q, e) \<in> set (stored h)" by blast
    qed
    have f: "rlog (note_success q i ?c) = ?l" "role (note_success q i ?c) = role ?c"
      "current_term (note_success q i ?c) = current_term ?c" "commit_index (note_success q i ?c) = commit_index ?c"
      "last_applied (note_success q i ?c) = last_applied ?c" "snapshot_last_term (note_success q i ?c) = snapshot_last_term ?c"
      by (simp_all add: note_success_def Let_def)
    show ?thesis
      using True f z(4) leader note_success_tracked [OF z(5) q] note_success_match [of q i ?c] new
      unfolding calm_def by (auto simp del: One_nat_def)
  qed
qed

text \<open>The commit rule: the entry is of the term of the leader, and a majority holds it.\<close>

lemma replicas_quorum:
  assumes inv: "commit_inv U lc h" and p: "p \<in> U" and leader: "role c = Leader" and node: "node_ok U (made lc) B St p c"
    and conf: "configured U p c" and x: "x \<in> set (rlog c)" "le_term x = current_term c"
    and maj: "majority c \<le> replicated_count (le_index x) c"
  shows "quorum_stored U St x"
proof -
  note d = node_okD [OF node]
  have U: "insert p (set (peers c)) = U" "node_id c = p" using conf p by (auto simp: configured_def)
  note rep = replicated_count_replicas [OF d(1), of "le_index x"]
  have "card U div 2 + 1 \<le> card (replicas (le_index x) c)"
    using configured_majority(2) [OF conf p] rep(2) maj by simp
  moreover have "replicas (le_index x) c \<subseteq> U" using rep(3) U by simp
  moreover have "(v, x) \<in> St" if v: "v \<in> replicas (le_index x) c" for v
  proof (cases "v = p")
    case True
    then show ?thesis using d(3) x by (simp add: stored_ok_def)
  next
    case False
    then obtain m where "hm_get (match_index c) v = Some m" "le_index x \<le> m" using v U(2) by (auto simp: replicas_def)
    then show ?thesis using d(4) leader x unfolding leader_ok_def by blast
  qed
  ultimately show ?thesis unfolding quorum_stored_def by blast
qed

text \<open>After the note of a reply, the commit index moves to an entry that a majority holds.\<close>

lemma commit_node:
  assumes inv: "commit_inv U lc h" and p: "p \<in> U" and leader: "role e = Leader"
    and node: "node_ok U (made lc) B St p e" and conf: "configured U p e" and nl: "node_log (made lc) e"
    and x: "get_log_entry e i = Some x" "le_term x = current_term e" and i: "commit_index e < i"
    and maj: "majority e \<le> replicated_count i e"
    and a: "apply_committed_entries S M (e\<lparr>commit_index := i\<rparr>) = Some (rs, c')" "snapshot_last_index c' = 0"
  shows "same_entries e c'" "role c' = Leader" "current_term c' = current_term e" "node_ok U (made lc) B St p c'"
proof -
  note d = node_okD [OF node]
  let ?e = "e\<lparr>commit_index := i\<rparr>"
  have fr: "rpc_frame ?e c'" using a(1) by (rule apply_committed_frame)
  have sv: "same_vote ?e c'" using a(1) by (rule apply_committed_same_vote)
  have se: "same_entries ?e c'" using apply_committed_none [OF a] nl by (simp add: node_log_def)
  show "same_entries e c'" "role c' = Leader" "current_term c' = current_term e"
    using se sv leader by (simp_all add: same_entries_def same_vote_def)
  have f: "rlog c' = rlog e" "snapshot_last_term c' = snapshot_last_term e" "role c' = role e" "current_term c' = current_term e"
    "match_index c' = match_index e" "peers c' = peers e" "node_id c' = node_id e"
    using se sv fr by (simp_all add: same_entries_def same_vote_def rpc_frame_def)
  have ix: "commit_index c' = i" "last_applied c' = i"
    using apply_committed_indices [OF a(1)] d(5) i by (auto simp: commit_ok_def max_def)
  have hl: "has_log (made lc) (rlog e)" using nl by (simp add: node_log_def has_log_def)
  have pos: "0 < i" using i by (simp add: word_less_nat_alt)
  have xl: "unat i \<le> length (rlog e)" "x = rlog e ! (unat i - 1)"
    using x(1) node_log_entry [OF nl, of i] by (auto split: if_split_asm)
  have k: "unat i - 1 < length (rlog e)" using xl(1) pos by (simp add: word_less_nat_alt)
  have xs: "x \<in> set (rlog e)" using xl(2) k by simp
  have "idx x = unat i" using has_log_index [OF hl k] xl(2) pos by (simp add: word_less_nat_alt)
  then have xi: "le_index x = i" by (simp add: word_unat_eq_iff)
  have quorum: "quorum_stored U St x" using replicas_quorum [OF inv p leader node conf xs x(2)] maj xi by simp
  have "secure U (made lc) St (current_term e) y" if y: "y \<in> set (rlog e)" "le_index y \<le> i" for y
  proof -
    have "below (made lc) y x" using belowI [OF hl y(1) xs] y(2) xi by (simp add: word_le_nat_alt)
    then show ?thesis using quorum x(2) unfolding secure_def by auto
  qed
  then have "commit_ok U (made lc) St c'" using ix xl(1) f by (simp add: commit_ok_def)
  moreover have "peers_tracked c'" using d(1) peers_tracked_same [OF f(6,7,5)] by simp
  moreover have "terms_ok c'" "stored_ok (made lc) B St p c'" "leader_ok B St p c'"
    using d(2-4) f unfolding terms_ok_def stored_ok_def leader_ok_def by simp_all
  ultimately show "node_ok U (made lc) B St p c'" by (simp add: node_ok_def)
qed

lemma acknowledge_commit_inv:
  assumes inv: "commit_inv U lc h" and p: "ae_leader_id req \<in> U" and s: "log_step S M (Acknowledge q i req r) lc = Some lc'"
    and g: "safe_guard S (Acknowledge q i req r) lc"
  shows "commit_inv U lc' (observe (ae_leader_id req) (node lc (ae_leader_id req)) (node lc' (ae_leader_id req)) h)"
proof -
  let ?p = "ae_leader_id req"
  let ?c = "node lc ?p"
  note z = node_no_snapshot [OF inv p]
  from log_stepD(2) [OF s] obtain out c where c: "handle_append_entries_result S M q i r ?c = Some (out, c)"
    and lc': "lc' = set_node ?p c lc"
    by (auto simp: bind_eq_Some_conv)
  have n: "nodes (elections lc') = (nodes (elections lc))(?p := c)" "made lc' = made lc" "led (elections lc') = led (elections lc)"
    "granted (elections lc') = granted (elections lc)" "vote_requests (elections lc') = vote_requests (elections lc)"
    "appends lc' = appends lc" "append_replies lc' = append_replies lc"
    by (simp_all add: lc' set_node_def put_node_def)
  have log': "log_inv U lc'" using log_step_inv [OF commit_invD(1) [OF inv] _ s] p by simp
  have none: "snapshot_last_index c = 0" using log_stepD(3) [OF s] n(1) by simp
  have calm_case: "commit_inv U lc' (observe ?p ?c c h)" if "calm (set (stored h)) ?c c"
    by (rule calm_step [OF inv p that log' n(1-3) refl]) (simp_all add: n(4-7))
  have reply: "reply_ok U (made lc) (set (stored h)) (q, i, req, r)" and peer: "q \<in> set (peers ?c)"
    using commit_invD(9) [OF inv] log_stepD(1) [OF s] g by simp_all
  from c have "commit_inv U lc' (observe ?p ?c c h)"
  proof (rule handle_append_entries_result_cases)
    fix d e assume d: "observe_term S (aer_term r) ?c = Some d"
      and e: "e = (if role d \<noteq> Leader then d else if aer_success r then note_success q i d else note_rejection q r d)"
      and c': "c = e \<and> out = (None, []) \<or>
        (\<exists>rs x. role d = Leader \<and> 0 < i \<and> get_log_entry e i = Some x \<and> le_term x = current_term e \<and>
           majority e \<le> replicated_count i e \<and> commit_index e < i \<and> out = (Some i, rs) \<and>
           apply_committed_entries S M (e\<lparr>commit_index := i\<rparr>) = Some (rs, c))"
    show ?thesis
    proof (cases "role d = Leader")
      case False
      have sl: "same_log ?c d" using d by (rule observe_term_same_log)
      have "calm (set (stored h)) ?c d"
        by (rule frame_calm [OF observe_term_frame [OF d] same_log_entries [OF sl] observe_term_order [OF d] _ _ z(5)])
          (use sl z(4) in \<open>simp_all add: same_log_def\<close>)
      with c' e False calm_case show ?thesis by auto
    next
      case True
      then have dc: "d = ?c" using d by (auto simp: observe_term_Some split: if_split_asm)
      have leader: "role ?c = Leader" using True dc by simp
      have t: "ae_term req = current_term ?c" using log_stepD(1) [OF s] leader by simp
      have e': "e = (if aer_success r then note_success q i ?c else note_rejection q r ?c)" using e True dc by simp
      have calm: "calm (set (stored h)) ?c e" unfolding e' by (rule note_calm [OF inv p leader peer reply t])
      have f: "role e = Leader" "node_id e = node_id ?c" "peers e = peers ?c" "current_term e = current_term ?c" "same_entries ?c e"
        using leader by (simp_all add: e' note_success_def note_rejection_def Let_def same_entries_def)
      from c' show ?thesis
      proof (elim disjE exE conjE)
        fix rs x
        assume a: "get_log_entry e i = Some x" "le_term x = current_term e" "majority e \<le> replicated_count i e"
          "commit_index e < i" "apply_committed_entries S M (e\<lparr>commit_index := i\<rparr>) = Some (rs, c)"
        have conf: "configured U ?p e"
          using cluster_invD(1) [OF log_invD(1) [OF commit_invD(1) [OF inv]] p] f by (simp add: configured_def)
        have nl: "node_log (made lc) e"
          using log_invD(3) [OF commit_invD(1) [OF inv] p] f(5) by (rule same_entries_node_log)
        note node = calm_node [OF commit_invD(5) [OF inv p] calm]
        note k = commit_node [OF inv p f(1) node conf nl a(1,2,4,3,5) none]
        let ?h = "observe ?p ?c c h"
        have b: "ballots ?h = ballots h" using leader by (simp add: observe_ballots)
        have st: "step_of ?p lc h c lc' ?h"
          using n k f by (simp add: step_of_def observe_stored b same_entries_def)
        have "node_ok U (made lc') (set (ballots ?h)) (set (stored ?h)) ?p c"
          using k f(5) unfolding n(2) b observe_stored by (simp add: same_entries_def)
        moreover have "order_ok (made lc')" using commit_invD(3) [OF inv] n(2) by simp
        ultimately show ?thesis
          by (intro commit_step [OF inv p st log']) (simp_all add: n b)
      qed (use calm calm_case in simp)
    qed
  qed
  then show ?thesis by (simp add: n(1))
qed

section \<open>Every run has the invariant\<close>

lemma safe_step_inv:
  assumes inv: "commit_inv U lc h" and p: "log_actor ev \<in> U" and g: "safe_guard S ev lc" and s: "log_step S M ev lc = Some lc'"
  shows "commit_inv U lc' (observe (log_actor ev) (node lc (log_actor ev)) (node lc' (log_actor ev)) h)"
proof (cases ev)
  case (Election x)
  show ?thesis
  proof (cases x)
    case (Elect q now)
    with elect_commit_inv [OF inv] Election p s show ?thesis by simp
  next
    case (Ask q)
    with ask_commit_inv [OF inv] Election p s show ?thesis by simp
  next
    case (Answer q req)
    with answer_commit_inv [OF inv] Election p s show ?thesis by simp
  next
    case (Count q now v r)
    with count_commit_inv [OF inv] Election p s show ?thesis by simp
  next
    case (Local q e)
    with local_commit_inv [OF inv] Election p s show ?thesis by simp
  next
    case (AdoptTerm q t)
    with adopt_commit_inv [OF inv] Election p s show ?thesis by simp
  next
    case (Restart q now m)
    with restart_commit_inv [OF inv] Election p s g show ?thesis by simp
  qed
next
  case (Submit q cmd)
  with submit_commit_inv [OF inv] p s show ?thesis by simp
next
  case (Heartbeat a q)
  with heartbeat_commit_inv [OF inv] p s show ?thesis by simp
next
  case (Replicate a i q)
  with replicate_commit_inv [OF inv] p s g show ?thesis by simp
next
  case (Confirm a q)
  with confirm_commit_inv [OF inv] p s g show ?thesis by simp
next
  case (Deliver q now i req)
  with deliver_commit_inv [OF inv] p s show ?thesis by simp
next
  case (Acknowledge q i req r)
  with acknowledge_commit_inv [OF inv] p s g show ?thesis by simp
qed

lemma initial_commit_inv:
  assumes "\<forall>p \<in> U. fresh_node U p (f p)"
  shows "commit_inv U (initial_log_cluster f) \<lparr>ballots = [], stored = []\<rparr>"
proof -
  let ?lc = "initial_log_cluster f"
  have n: "node_ok U [] {} {} p (f p)" if "p \<in> U" for p
    using assms that
    by (simp add: fresh_node_def node_ok_def peers_tracked_def terms_ok_def stored_ok_def leader_ok_def commit_ok_def configured_def)
  have "log_inv U ?lc" using assms by (rule initial_log_inv)
  with n show ?thesis
    by (simp add: commit_inv_def Let_def initial_log_cluster_def initial_cluster_def order_ok_def)
qed

theorem safe_reachable_inv: "safe_reachable S M U lc h \<Longrightarrow> commit_inv U lc h"
  by (induction rule: safe_reachable.induct) (auto intro: initial_commit_inv safe_step_inv)

section \<open>Committed entries\<close>

text \<open>A run from a state to a later one.\<close>

fun safe_run ::
  "'s storage_ops \<Rightarrow> 'm sm_ops \<Rightarrow> 'm log_event list \<Rightarrow> ('s, 'm) log_cluster \<Rightarrow> past \<Rightarrow>
   (('s, 'm) log_cluster \<times> past) option" where
  "safe_run S M [] lc h = Some (lc, h)"
| "safe_run S M (ev # evs) lc h =
     (if safe_guard S ev lc
      then do {
        lc' \<leftarrow> log_step S M ev lc;
        safe_run S M evs lc' (observe (log_actor ev) (node lc (log_actor ev)) (node lc' (log_actor ev)) h)
      }
      else None)"

lemma log_step_made:
  assumes "log_step S M ev lc = Some lc'"
  shows "set (made lc) \<subseteq> set (made lc')"
  using log_stepD(2) [OF assms]
  by (cases ev)
    (auto simp: bind_eq_Some_conv Let_def note_made_def set_node_def send_append_def
      split: option.splits node_request.splits if_splits)

lemma safe_run_reachable:
  assumes "safe_reachable S M U lc h" "\<forall>ev \<in> set evs. log_actor ev \<in> U" "safe_run S M evs lc h = Some (lc', h')"
  shows "safe_reachable S M U lc' h' \<and> set (made lc) \<subseteq> set (made lc') \<and> set (stored h) \<subseteq> set (stored h')"
  using assms
proof (induction evs arbitrary: lc h)
  case (Cons ev evs)
  from Cons.prems(3) obtain lc1 where g: "safe_guard S ev lc" and s: "log_step S M ev lc = Some lc1"
    and r: "safe_run S M evs lc1 (observe (log_actor ev) (node lc (log_actor ev)) (node lc1 (log_actor ev)) h) = Some (lc', h')"
    by (auto simp: bind_eq_Some_conv split: if_split_asm)
  have "safe_reachable S M U lc1 (observe (log_actor ev) (node lc (log_actor ev)) (node lc1 (log_actor ev)) h)"
    using Cons.prems(1,2) g s by (auto intro: safe_step)
  from Cons.IH [OF this _ r] Cons.prems(2) log_step_made [OF s] show ?case by (auto simp: observe_stored)
qed simp

lemma committed_entry:
  assumes inv: "commit_inv U lc h" and p: "p \<in> U" and i: "0 < i" "i \<le> commit_index (node lc p)"
  obtains e where "get_log_entry (node lc p) i = Some e" "le_index e = i" "e \<in> set (rlog (node lc p))"
    "secure U (made lc) (set (stored h)) (current_term (node lc p)) e"
proof -
  let ?l = "rlog (node lc p)"
  note d = node_okD(5) [OF commit_invD(5) [OF inv p]] and hl = node_no_snapshot(3) [OF inv p]
  have nl: "node_log (made lc) (node lc p)" using log_invD(3) [OF commit_invD(1) [OF inv] p] .
  have pos: "0 < unat i" using i(1) by (simp add: word_less_nat_alt)
  have le: "unat i \<le> length ?l" using d i(2) by (simp add: commit_ok_def word_le_nat_alt)
  then have k: "unat i - 1 < length ?l" using pos by linarith
  have "idx (?l ! (unat i - 1)) = unat i" using has_log_index [OF hl k] pos by simp
  then have "le_index (?l ! (unat i - 1)) = i" by (simp add: word_unat_eq_iff)
  moreover have "?l ! (unat i - 1) \<in> set ?l" using k by simp
  ultimately show thesis
    using that [of "?l ! (unat i - 1)"] node_log_entry [OF nl, of i] i le d by (simp add: commit_ok_def)
qed

text \<open>Two nodes that have committed an index have the same entry there, also at different times.\<close>

theorem committed_agree:
  assumes r: "safe_reachable S M U lc h" and evs: "\<forall>ev \<in> set evs. log_actor ev \<in> U"
    and run: "safe_run S M evs lc h = Some (lc', h')" and pq: "p \<in> U" "q \<in> U"
    and i: "0 < i" "i \<le> commit_index (node lc p)" "i \<le> commit_index (node lc' q)"
  shows "\<exists>e. get_log_entry (node lc p) i = Some e \<and> get_log_entry (node lc' q) i = Some e"
proof -
  note run' = safe_run_reachable [OF r evs run]
  have inv: "commit_inv U lc h" "commit_inv U lc' h'" using safe_reachable_inv r run' by blast+
  obtain e where e: "get_log_entry (node lc p) i = Some e" "le_index e = i"
    "secure U (made lc) (set (stored h)) (current_term (node lc p)) e"
    using committed_entry [OF inv(1) pq(1) i(1,2)] .
  obtain e' where e': "get_log_entry (node lc' q) i = Some e'" "le_index e' = i"
    "secure U (made lc') (set (stored h')) (current_term (node lc' q)) e'"
    using committed_entry [OF inv(2) pq(2) i(1,3)] .
  have "secure U (made lc') (set (stored h')) (current_term (node lc p)) e"
    using e(3) run' by (auto intro: secure_mono)
  from secure_unique [OF inv(2) this e'(3)] e e' show ?thesis by simp
qed

text \<open>A leader has every secure entry of its term or an earlier one.\<close>

lemma secure_in_leader:
  assumes inv: "commit_inv U lc h" and p: "p \<in> U" and leader: "role (node lc p) = Leader"
    and e: "secure U (made lc) (set (stored h)) t e" and t: "t \<le> current_term (node lc p)"
    and l: "has_log (made lc) l" "e \<in> set l"
  shows "e \<in> set (rlog (node lc p))"
proof -
  let ?L = "rlog (node lc p)"
  have hL: "has_log (made lc) ?L" using node_no_snapshot(3) [OF inv p] .
  have ne: "?L \<noteq> []" and lt: "le_term (last ?L) = current_term (node lc p)"
    using node_okD(4) [OF commit_invD(5) [OF inv p]] leader unfolding leader_ok_def by blast+
  have h: "hist (made lc) (last ?L) ?L" using hL ne by (simp add: hist_def)
  from secure_vs_leader [OF inv h e _ l] t lt consider "e \<in> set ?L" | "last ?L \<in> set l" "idx (last ?L) \<le> idx e" by auto
  then show ?thesis
  proof cases
    case 2
    obtain x where x: "le_term x \<le> t" "below (made lc) e x" using e unfolding secure_def by blast
    then obtain H where H: "hist (made lc) x H" "e \<in> set H" by (auto simp: below_def)
    have "\<forall>y \<in> set H. le_term y \<le> le_term x" by (rule entry_ballot [OF inv H(1)])
    with H(2) x(1) have et: "le_term e \<le> current_term (node lc p)" using t by (meson order_trans)
    have "\<forall>y \<in> set (take (idx e) l). le_term y \<le> le_term e" by (rule entry_ballot [OF inv hist_take [OF l]])
    moreover have "last ?L \<in> set (take (idx e) l)" using in_take_idx [OF l(1) 2] .
    ultimately have "le_term e = current_term (node lc p)" using lt et by (metis order_antisym)
    moreover obtain s where "(e, s) \<in> set (made lc)" using has_log_made [OF l] by blast
    ultimately show ?thesis
      using log_invD(4) [OF commit_invD(1) [OF inv] p] leader by (auto simp: leader_made_def)
  qed
qed

theorem committed_in_leader:
  assumes r: "safe_reachable S M U lc h" and evs: "\<forall>ev \<in> set evs. log_actor ev \<in> U"
    and run: "safe_run S M evs lc h = Some (lc', h')" and pq: "p \<in> U" "q \<in> U"
    and i: "0 < i" "i \<le> commit_index (node lc q)"
    and leader: "role (node lc' p) = Leader" "current_term (node lc q) \<le> current_term (node lc' p)"
  shows "\<exists>e. get_log_entry (node lc q) i = Some e \<and> get_log_entry (node lc' p) i = Some e"
proof -
  note run' = safe_run_reachable [OF r evs run]
  have inv: "commit_inv U lc h" "commit_inv U lc' h'" using safe_reachable_inv r run' by blast+
  obtain e where e: "get_log_entry (node lc q) i = Some e" "le_index e = i" "e \<in> set (rlog (node lc q))"
    "secure U (made lc) (set (stored h)) (current_term (node lc q)) e"
    using committed_entry [OF inv(1) pq(2) i] .
  have "secure U (made lc') (set (stored h')) (current_term (node lc q)) e"
    using e(4) run' by (auto intro: secure_mono)
  moreover have "has_log (made lc') (rlog (node lc q))"
    using node_no_snapshot(3) [OF inv(1) pq(2)] run' by (auto intro: has_log_mono)
  ultimately have "e \<in> set (rlog (node lc' p))"
    using secure_in_leader [OF inv(2) pq(1) leader(1) _ leader(2)] e(3) by blast
  note n = has_log_nth [OF node_no_snapshot(3) [OF inv(2) pq(1)] this]
  have "node_log (made lc') (node lc' p)" using log_invD(3) [OF commit_invD(1) [OF inv(2)] pq(1)] .
  from node_log_entry [OF this, of i] n e(2) i(1) e(1) show ?thesis by simp
qed

end
