(* ===== verification/Commit_Machine.thy ===== *)
theory Commit_Machine
  imports Commit_Replication
begin

text \<open>
  What the state machines of the nodes hold. The machine of a node is the initial machine with the
  applied prefix of the node's log fed to it, so nodes that have applied equally much are equal.
\<close>

section \<open>The state machine of one node\<close>

definition replayed :: "'m sm_ops \<Rightarrow> 'm \<Rightarrow> ('s, 'm) raft_core \<Rightarrow> bool" where
  "replayed M m0 c \<longleftrightarrow> state_machine c = fst (apply_all M (take (unat (last_applied c)) (rlog c)) m0)"

text \<open>A handler feeds the machine with the next entries of the log.\<close>

definition played :: "'m sm_ops \<Rightarrow> ('s, 'm) raft_core \<Rightarrow> ('s, 'm) raft_core \<Rightarrow> bool" where
  "played M c c' \<longleftrightarrow>
     last_applied c \<le> last_applied c' \<and>
     state_machine c' = fst (apply_all M
       (take (unat (last_applied c') - unat (last_applied c)) (drop (unat (last_applied c)) (rlog c'))) (state_machine c))"

lemma apply_all_append: "fst (apply_all M (xs @ ys) m) = fst (apply_all M ys (fst (apply_all M xs m)))"
  by (induction xs arbitrary: m) (simp_all add: split_def Let_def)

lemma played_same: "state_machine c' = state_machine c \<Longrightarrow> last_applied c' = last_applied c \<Longrightarrow> played M c c'"
  by (simp add: played_def)

lemma same_log_played: "same_log c c' \<Longrightarrow> played M c c'"
  by (rule played_same) (simp_all add: same_log_def)

lemma played_replayed:
  assumes "replayed M m0 c" "played M c c'"
    and "take (unat (last_applied c)) (rlog c') = take (unat (last_applied c)) (rlog c)"
  shows "replayed M m0 c'"
proof -
  let ?n = "unat (last_applied c)" and ?k = "unat (last_applied c')"
  have "?n \<le> ?k" using assms(2) by (simp add: played_def word_le_nat_alt)
  then have "take ?k (rlog c') = take ?n (rlog c') @ take (?k - ?n) (drop ?n (rlog c'))"
    by (metis add_diff_inverse_nat not_less take_add)
  then show ?thesis using assms by (simp add: replayed_def played_def apply_all_append)
qed

lemma apply_committed_played:
  assumes a: "apply_committed_entries S M c = Some (rs, c')"
    and ok: "log_ok c" "snapshot_last_index c = 0" "commit_index c \<le> last_log_index c" "snapshot_last_index c' = 0"
  shows "played M c c'"
proof -
  from a obtain d where d: "apply_loop M c [] = Some (rs, d)"
    and c': "c' = d \<or> c' = snd (take_snapshot S M d)"
    by (auto simp: apply_committed_entries_def bind_eq_Some_conv)
  have "d = c\<lparr>last_applied := max (last_applied c) (commit_index c),
      state_machine := fst (apply_all M (pending c) (state_machine c))\<rparr>"
    using d apply_loop_correct [OF ok(1) _ ok(3), of M "[]"] ok(2) by simp
  moreover have "state_machine c' = state_machine d" using c' by (auto simp: take_snapshot_keeps)
  moreover have "rlog c' = rlog c" using apply_committed_none [OF a ok(4,2)] by (simp add: same_entries_def)
  moreover have "last_applied c' = max (last_applied c) (commit_index c)" using apply_committed_indices [OF a] by simp
  moreover have "unat (max (last_applied c) (commit_index c)) - unat (last_applied c) = unat (commit_index c) - unat (last_applied c)"
    by (simp add: max_def word_le_nat_alt)
  ultimately show ?thesis by (simp add: played_def pending_def ok(2))
qed

section \<open>Each step plays on\<close>

lemma node_log_ok:
  assumes "node_log g c"
  shows "log_ok c" "snapshot_last_index c = 0"
  using assms by (simp_all add: node_log_def log_ok_def)

lemma accept_entries_played:
  assumes a: "accept_entries S M req c = Some c'" and none: "snapshot_last_index c = 0" and nl: "node_log g c'"
  shows "played M c c'"
proof -
  from a obtain d where d: "apply_entries S (ae_entries req) c = Some d"
    and c': "c' = d \<or> (\<exists>rs. apply_committed_entries S M (d\<lparr>commit_index := min (leader_commit req) (last_log_index d)\<rparr>) = Some (rs, c'))"
    by (auto simp: accept_entries_def bind_eq_Some_conv split: if_split_asm)
  have f: "d = c\<lparr>storage := storage d, rlog := rlog d\<rparr>" using apply_entries_frame [OF d] by (simp add: log_write_def)
  have s: "state_machine d = state_machine c" "last_applied d = last_applied c" "snapshot_last_index d = 0"
    using none by (subst f, simp)+
  from c' show ?thesis
  proof (elim disjE exE)
    fix rs let ?d = "d\<lparr>commit_index := min (leader_commit req) (last_log_index d)\<rparr>"
    assume p: "apply_committed_entries S M ?d = Some (rs, c')"
    note z = node_log_ok [OF nl]
    have "rlog c' = rlog d" using apply_committed_none [OF p z(2)] s(3) by (simp add: same_entries_def)
    then have "log_ok ?d" using z s(3) by (simp add: log_ok_def)
    then have "played M ?d c'" using s(3) z(2) by (intro apply_committed_played [OF p]) simp_all
    then show ?thesis using s by (simp add: played_def)
  qed (use s played_same in simp)
qed

lemma handle_append_entries_played:
  assumes h: "handle_append_entries S M now req c = Some (out, c')"
    and none: "snapshot_last_index c = 0" and nl: "node_log g c'"
  shows "played M c c'"
proof -
  from h obtain d where d: "observe_term S (ae_term req) c = Some d"
    and r: "if ae_term req < current_term d then c' = d
       else \<exists>ok ct ci. check_and_append S M req
              (d\<lparr>role := Follower, current_leader := Some (ae_leader_id req), last_heartbeat := now\<rparr>) = Some (ok, ct, ci, c')"
    unfolding handle_append_entries_unfold by (auto split: if_split_asm)
  let ?e = "d\<lparr>role := Follower, current_leader := Some (ae_leader_id req), last_heartbeat := now\<rparr>"
  have sl: "same_log c d" using d by (rule observe_term_same_log)
  show ?thesis
  proof (cases "ae_term req < current_term d")
    case True
    with r sl show ?thesis by (simp add: same_log_played)
  next
    case False
    with r obtain ok ct ci where k: "check_and_append S M req ?e = Some (ok, ct, ci, c')" by auto
    have "played M ?e c'"
    proof (cases "prev_matches req ?e")
      case True
      with check_and_append_Some [OF k] have "accept_entries S M req ?e = Some c'" by simp
      then show ?thesis by (rule accept_entries_played [OF _ _ nl]) (use sl none in \<open>simp add: same_log_def\<close>)
    next
      case False
      with check_and_append_Some [OF k] show ?thesis by (simp add: played_same)
    qed
    with sl show ?thesis by (simp add: played_def same_log_def)
  qed
qed

lemma handle_append_entries_result_played:
  assumes h: "handle_append_entries_result S M p i r c = Some (out, c')" and nl: "node_log g c"
    and none: "snapshot_last_index c' = 0"
  shows "played M c c'"
  using h
proof (rule handle_append_entries_result_cases)
  fix d e assume d: "observe_term S (aer_term r) c = Some d"
    and e: "e = (if role d \<noteq> Leader then d else if aer_success r then note_success p i d else note_rejection p r d)"
    and c': "c' = e \<and> out = (None, []) \<or>
      (\<exists>rs x. role d = Leader \<and> 0 < i \<and> get_log_entry e i = Some x \<and> le_term x = current_term e \<and>
         majority e \<le> replicated_count i e \<and> commit_index e < i \<and> out = (Some i, rs) \<and>
         apply_committed_entries S M (e\<lparr>commit_index := i\<rparr>) = Some (rs, c'))"
  have "same_log d e" using note_same_log [where c = d] by (simp add: e same_log_def)
  with observe_term_same_log [OF d] have sl: "same_log c e" by (rule same_log_trans)
  have ok: "log_ok e" "snapshot_last_index e = 0" using node_log_ok [OF nl] sl by (simp_all add: log_ok_def same_log_def)
  from c' show ?thesis
  proof (elim disjE exE conjE)
    fix rs x assume x: "get_log_entry e i = Some x" and a: "apply_committed_entries S M (e\<lparr>commit_index := i\<rparr>) = Some (rs, c')"
    have "i \<le> last_log_index e" using get_log_entry_iff [OF ok(1), of i] x by simp
    then have "played M (e\<lparr>commit_index := i\<rparr>) c'" using ok none by (intro apply_committed_played [OF a]) simp_all
    then show ?thesis using sl by (simp add: played_def same_log_def)
  qed (use sl same_log_played in simp)
qed

lemma internal_played:
  assumes ev: "is_internal ev" "core_step S M ev c = Some c'" and none: "snapshot_last_index c' = 0"
    and nl: "node_log g c" and ci: "commit_index c \<le> last_log_index c"
  shows "played M c c'"
proof (cases ev)
  case (InstallSnapshotReq now args)
  with ev none node_log_ok [OF nl] show ?thesis by (auto dest: install_snapshot_none intro: same_log_played)
next
  case ApplyCommitted
  with ev none node_log_ok [OF nl] ci show ?thesis by (auto intro: apply_committed_played)
next
  case TakeSnapshot
  with ev show ?thesis by (auto intro: played_same simp: take_snapshot_keeps)
qed (use ev(1) in simp_all)

text \<open>An event other than a restart.\<close>

fun is_restart :: "'m log_event \<Rightarrow> bool" where
  "is_restart (Election (Restart p now m)) = True"
| "is_restart _ = False"

lemma election_played:
  assumes inv: "commit_inv U lc h" and p: "cluster_actor ev \<in> U" and s: "log_step S M (Election ev) lc = Some lc'"
    and nr: "\<not> is_restart (Election ev)"
  shows "played M (node lc (cluster_actor ev)) (node lc' (cluster_actor ev))"
proof -
  note g = log_stepD(1) [OF s] and none = log_stepD(3) [OF s]
  obtain cl' where cl: "cluster_step S M ev (elections lc) = Some cl'" and n: "elections lc' = cl'"
    using cluster_stepD [OF s] by simp
  show ?thesis
  proof (cases ev)
    case (Elect q now)
    with cl obtain c where "start_election S now (node lc q) = Some c" "nodes cl' q = c"
      by (auto simp: bind_eq_Some_conv put_node_def split: if_split_asm)
    with Elect n show ?thesis by (auto simp: start_election_Some intro: played_same)
  next
    case (Ask q)
    with cl n show ?thesis by (auto intro: played_same)
  next
    case (Answer q req)
    with cl obtain res c where "handle_request_vote S req (node lc q) = Some (res, c)" "nodes cl' q = c"
      by (auto simp: bind_eq_Some_conv put_node_def Let_def split: if_split_asm)
    with Answer n show ?thesis by (auto dest: handle_request_vote_same intro: same_log_played)
  next
    case (Count q now v r)
    with cl obtain won c where c: "handle_request_vote_result S now v r (node lc q) = Some (won, c)" "nodes cl' q = c"
      by (auto simp: bind_eq_Some_conv put_node_def split: if_split_asm)
    from c(1) obtain d where d: "observe_term S (rvr_term r) (node lc q) = Some d"
      and k: "c = d \<or> c = count_vote v r d \<or> become_leader S now (count_vote v r d) = Some c"
      by (auto simp: handle_request_vote_result_Some split: if_split_asm)
    have "state_machine c = state_machine d \<and> last_applied c = last_applied d"
      using k by (auto simp: become_leader_Some count_vote_def split: if_split_asm)
    then show ?thesis
      using Count c(2) n observe_term_same_log [OF d] by (auto simp: same_log_def intro: played_same)
  next
    case (Local q e)
    with cl obtain c where c: "core_step S M e (node lc q) = Some c" "nodes cl' q = c"
      by (auto simp: bind_eq_Some_conv put_node_def split: if_split_asm)
    have q: "q \<in> U" using p Local by simp
    have nl: "node_log (made lc) (node lc q)" using log_invD(3) [OF commit_invD(1) [OF inv] q] .
    have "commit_index (node lc q) \<le> last_log_index (node lc q)"
      using node_okD(5) [OF commit_invD(5) [OF inv q]] unat_last_log_index [OF node_log_ok(1) [OF nl]] node_log_ok(2) [OF nl]
      by (simp add: commit_ok_def word_le_nat_alt)
    from internal_played [OF _ c(1) _ nl this] g none c(2) n Local show ?thesis by simp
  next
    case (AdoptTerm q t)
    with cl have "nodes cl' q = adopt_term_in_memory t (node lc q)" by (auto simp: put_node_def split: if_split_asm)
    with AdoptTerm n show ?thesis by (simp add: played_same adopt_term_in_memory_def)
  next
    case (Restart q now m)
    with nr show ?thesis by simp
  qed
qed

lemma step_played:
  assumes inv: "commit_inv U lc h" and p: "log_actor ev \<in> U" and s: "log_step S M ev lc = Some lc'"
    and nr: "\<not> is_restart ev"
  shows "played M (node lc (log_actor ev)) (node lc' (log_actor ev))"
proof (cases ev)
  case (Election x)
  with election_played [OF inv _ s [unfolded Election]] p nr show ?thesis by simp
next
  case (Submit q cmd)
  with log_stepD(2) [OF s] obtain res c where "append_log_entry S cmd (node lc q) = Some (res, c)" "node lc' q = c"
    by (auto simp: bind_eq_Some_conv set_node_def put_node_def)
  with Submit show ?thesis by (auto simp: append_log_entry_Some Let_def intro: played_same split: if_split_asm)
next
  case (Deliver q now i req)
  with log_stepD(2) [OF s] obtain out c where c: "handle_append_entries S M now req (node lc q) = Some (out, c)" "node lc' q = c"
    by (auto simp: bind_eq_Some_conv Let_def set_node_def put_node_def split: option.split_asm)
  have q: "q \<in> U" using p Deliver by simp
  have "log_inv U lc'" using log_step_inv [OF commit_invD(1) [OF inv] p s] .
  from log_invD(3) [OF this q] c(2) handle_append_entries_played [OF c(1) node_no_snapshot(1) [OF inv q]]
  show ?thesis using Deliver by simp
next
  case (Acknowledge q i req r)
  with log_stepD(2) [OF s] obtain out c where
    c: "handle_append_entries_result S M q i r (node lc (ae_leader_id req)) = Some (out, c)" "node lc' (ae_leader_id req) = c"
    by (auto simp: bind_eq_Some_conv set_node_def put_node_def)
  have "node_log (made lc) (node lc (ae_leader_id req))"
    using log_invD(3) [OF commit_invD(1) [OF inv]] p Acknowledge by simp
  from handle_append_entries_result_played [OF c(1) this] log_stepD(3) [OF s] c(2) Acknowledge show ?thesis by simp
qed (use log_stepD(2) [OF s] in \<open>auto simp: send_append_def intro: played_same split: option.split_asm node_request.split_asm\<close>)

section \<open>All machines play the same log\<close>

lemma committed_prefix:
  assumes r: "safe_reachable S M U lc h" and evs: "\<forall>ev \<in> set evs. log_actor ev \<in> U"
    and run: "safe_run S M evs lc h = Some (lc', h')" and pq: "p \<in> U" "q \<in> U"
    and n: "n \<le> commit_index (node lc p)" "n \<le> commit_index (node lc' q)"
  shows "take (unat n) (rlog (node lc p)) = take (unat n) (rlog (node lc' q))"
proof -
  note run' = safe_run_reachable [OF r evs run]
  have inv: "commit_inv U lc h" "commit_inv U lc' h'" using safe_reachable_inv r run' by blast+
  have nl: "node_log (made lc) (node lc p)" "node_log (made lc') (node lc' q)"
    using log_invD(3) [OF commit_invD(1)] inv pq by blast+
  have len: "unat n \<le> length (rlog (node lc p))" "unat n \<le> length (rlog (node lc' q))"
    using node_okD(5) [OF commit_invD(5) [OF inv(1) pq(1)]] node_okD(5) [OF commit_invD(5) [OF inv(2) pq(2)]] n
    by (simp_all add: commit_ok_def word_le_nat_alt)
  have "rlog (node lc p) ! k = rlog (node lc' q) ! k" if k: "k < unat n" for k
  proof -
    have i: "unat (of_nat (Suc k) :: u64) = Suc k"
    proof -
      have "unat n < 2 ^ 64" using unsigned_less [where ?'a = nat, of n] by simp
      then have "Suc k < 2 ^ 64" using k by simp
      then show ?thesis by (simp add: unat_of_nat take_bit_nat_eq_self del: of_nat_Suc)
    qed
    then have pos: "0 < (of_nat (Suc k) :: u64)" and le: "(of_nat (Suc k) :: u64) \<le> n"
      using k by (simp_all add: word_less_nat_alt word_le_nat_alt del: of_nat_Suc)
    from committed_agree [OF r evs run pq pos order_trans [OF le n(1)] order_trans [OF le n(2)]]
    obtain e where "get_log_entry (node lc p) (of_nat (Suc k)) = Some e" "get_log_entry (node lc' q) (of_nat (Suc k)) = Some e"
      by blast
    then show ?thesis
      using node_log_entry [OF nl(1), of "of_nat (Suc k)"] node_log_entry [OF nl(2), of "of_nat (Suc k)"] i
      by (simp del: of_nat_Suc split: if_split_asm)
  qed
  then show ?thesis using len by (intro nth_equalityI) simp_all
qed

fun restarts_with :: "'m \<Rightarrow> 'm log_event \<Rightarrow> bool" where
  "restarts_with m0 (Election (Restart p now m)) = (m = m0)"
| "restarts_with m0 _ = True"

lemma cluster_step_node:
  "cluster_step S M ev cl = Some cl' \<Longrightarrow> p \<noteq> cluster_actor ev \<Longrightarrow> nodes cl' p = nodes cl p"
  by (cases ev) (auto simp: bind_eq_Some_conv Let_def put_node_def split: if_split_asm)

lemma log_step_node:
  assumes "log_step S M ev lc = Some lc'" "p \<noteq> log_actor ev"
  shows "node lc' p = node lc p"
  using log_stepD(2) [OF assms(1)] assms(2)
proof (cases ev)
  case (Election x)
  with cluster_step_node [OF cluster_stepD [OF assms(1) [unfolded Election]]] assms(2) show ?thesis by simp
qed (auto simp: bind_eq_Some_conv Let_def set_node_def put_node_def send_append_def
      split: option.split_asm node_request.split_asm)

lemma applied_committed: "commit_inv U lc h \<Longrightarrow> p \<in> U \<Longrightarrow> last_applied (node lc p) \<le> commit_index (node lc p)"
  by (rule node_no_snapshot(4))

lemma step_replayed:
  assumes r: "safe_reachable S M U lc h" and a: "log_actor ev \<in> U" and g: "safe_guard S ev lc"
    and s: "log_step S M ev lc = Some lc'" and m0: "restarts_with m0 ev"
    and old: "\<forall>p \<in> U. replayed M m0 (node lc p)"
  shows "\<forall>p \<in> U. replayed M m0 (node lc' p)"
proof
  fix p assume p: "p \<in> U"
  let ?a = "log_actor ev"
  have inv: "commit_inv U lc h" using r by (rule safe_reachable_inv)
  show "replayed M m0 (node lc' p)"
  proof (cases "p = ?a")
    case False
    then have "node lc' p = node lc p" using log_step_node [OF s] by simp
    with old p show ?thesis by simp
  next
    case same: True
    show ?thesis
    proof (cases "is_restart ev")
      case False
      note pl = step_played [OF inv a s False]
      have le: "last_applied (node lc ?a) \<le> last_applied (node lc' ?a)" using pl by (simp add: played_def)
      have inv': "commit_inv U lc' (observe ?a (node lc ?a) (node lc' ?a) h)" by (rule safe_step_inv [OF inv a g s])
      have run: "safe_run S M [ev] lc h = Some (lc', observe ?a (node lc ?a) (node lc' ?a) h)" using g s by simp
      have "take (unat (last_applied (node lc ?a))) (rlog (node lc ?a)) = take (unat (last_applied (node lc ?a))) (rlog (node lc' ?a))"
        using committed_prefix [OF r _ run a a] a applied_committed [OF inv a] order_trans [OF le applied_committed [OF inv' a]]
        by simp
      with played_replayed [OF _ pl] old a same show ?thesis by simp
    next
      case True
      then obtain now m where ev: "ev = Election (Restart p now m)" using same by (cases ev rule: is_restart.cases) auto
      obtain cl where cl: "cluster_step S M (Restart p now m) (elections lc) = Some cl" and n: "elections lc' = cl"
        using cluster_stepD [OF s [unfolded ev]] by simp
      from cl obtain d where
        d: "raft_core_new S M now (node_id (node lc p)) (peers (node lc p)) (storage (node lc p)) m = Some d" "nodes cl p = d"
        by (auto simp: Let_def bind_eq_Some_conv put_node_def split: if_split_asm)
      have "last_applied d = 0 \<and> state_machine d = m"
        using d(1) g ev by (auto simp: raft_core_new_def bind_eq_Some_conv)
      with d(2) n m0 ev show ?thesis by (simp add: replayed_def)
    qed
  qed
qed

lemma run_replayed:
  assumes "safe_reachable S M U lc h" "\<forall>ev \<in> set evs. log_actor ev \<in> U" "\<forall>ev \<in> set evs. restarts_with m0 ev"
    and "safe_run S M evs lc h = Some (lc', h')" "\<forall>p \<in> U. replayed M m0 (node lc p)"
  shows "\<forall>p \<in> U. replayed M m0 (node lc' p)"
  using assms
proof (induction evs arbitrary: lc h)
  case (Cons ev evs)
  from Cons.prems(4) obtain lc1 where g: "safe_guard S ev lc" and s: "log_step S M ev lc = Some lc1"
    and r: "safe_run S M evs lc1 (observe (log_actor ev) (node lc (log_actor ev)) (node lc1 (log_actor ev)) h) = Some (lc', h')"
    by (auto simp: bind_eq_Some_conv split: if_split_asm)
  have a: "log_actor ev \<in> U" "restarts_with m0 ev" using Cons.prems(2,3) by simp_all
  have "safe_reachable S M U lc1 (observe (log_actor ev) (node lc (log_actor ev)) (node lc1 (log_actor ev)) h)"
    using Cons.prems(1) a(1) g s by (rule safe_step)
  moreover have "\<forall>p \<in> U. replayed M m0 (node lc1 p)"
    using Cons.prems(1) a(1) g s a(2) Cons.prems(5) by (rule step_replayed)
  ultimately show ?case using Cons.IH r Cons.prems(2,3) by (meson list.set_intros(2))
qed simp

theorem machines_agree:
  assumes fresh: "\<forall>p \<in> U. fresh_node U p (f p) \<and> state_machine (f p) = m0"
    and evs: "\<forall>ev \<in> set (evs @ evs'). log_actor ev \<in> U \<and> restarts_with m0 ev"
    and one: "safe_run S M evs (initial_log_cluster f) \<lparr>ballots = [], stored = []\<rparr> = Some (lc, h)"
    and two: "safe_run S M evs' lc h = Some (lc', h')" and pq: "p \<in> U" "q \<in> U"
    and la: "last_applied (node lc p) = last_applied (node lc' q)"
  shows "state_machine (node lc p) = state_machine (node lc' q)"
proof -
  have r0: "safe_reachable S M U (initial_log_cluster f) \<lparr>ballots = [], stored = []\<rparr>" using fresh by (auto intro: safe_init)
  have r: "safe_reachable S M U lc h" using safe_run_reachable [OF r0 _ one] evs by auto
  then have r': "safe_reachable S M U lc' h'" using safe_run_reachable [OF _ _ two] evs by auto
  have "\<forall>p \<in> U. replayed M m0 (node (initial_log_cluster f) p)"
    using fresh by (simp add: replayed_def initial_log_cluster_def initial_cluster_def fresh_node_def)
  then have "\<forall>p \<in> U. replayed M m0 (node lc p)" using run_replayed [OF r0 _ _ one] evs by auto
  moreover from this have "\<forall>p \<in> U. replayed M m0 (node lc' p)" using run_replayed [OF r _ _ two] evs by auto
  moreover have "take (unat (last_applied (node lc p))) (rlog (node lc p)) = take (unat (last_applied (node lc p))) (rlog (node lc' q))"
  proof (rule committed_prefix [OF r _ two pq])
    show "last_applied (node lc p) \<le> commit_index (node lc p)"
      using safe_reachable_inv [OF r] pq(1) by (rule applied_committed)
    show "last_applied (node lc p) \<le> commit_index (node lc' q)"
      using safe_reachable_inv [OF r'] pq(2) la applied_committed by metis
  qed (use evs in auto)
  ultimately show ?thesis using pq la by (simp add: replayed_def)
qed

end
