(* ===== verification/Replication_Properties.thy ===== *)
theory Replication_Properties
  imports Log_Cluster Scenarios
begin

text \<open>
  The properties of the replicated log of a whole cluster: log matching, and two ways in which nodes come
  to apply different commands at the same index, each as a general theorem with a run of three nodes that
  gets there.
\<close>

section \<open>Runs of three nodes\<close>

text \<open>
  For evaluation: a run that reduces the functions on nodes to tables after every step. It is the run
  itself.
\<close>

definition tabulate :: "u64 list \<Rightarrow> (u64 \<Rightarrow> 'a) \<Rightarrow> u64 \<Rightarrow> 'a" where
  "tabulate ps f = (let xs = map (\<lambda>p. (p, f p)) ps in (\<lambda>q. case map_of xs q of Some c \<Rightarrow> c | None \<Rightarrow> f q))"

lemma tabulate_id [simp]: "tabulate ps f = f"
  by (auto simp: tabulate_def Let_def map_of_map_restrict restrict_map_def split: option.split)

definition settle :: "('s, 'm) log_cluster \<Rightarrow> ('s, 'm) log_cluster" where
  "settle lc = lc\<lparr>elections := (elections lc)\<lparr>nodes := tabulate [1, 2, 3] (nodes (elections lc)),
      asked := tabulate [1, 2, 3] (asked (elections lc)), vote_replies := tabulate [1, 2, 3] (vote_replies (elections lc))\<rparr>\<rparr>"

lemma settle_id [simp]: "settle lc = lc" by (simp add: settle_def)

fun table_run ::
  "'s storage_ops \<Rightarrow> 'm sm_ops \<Rightarrow> 'm log_event list \<Rightarrow> ('s, 'm) log_cluster \<Rightarrow> ('s, 'm) log_cluster option" where
  "table_run S M [] lc = Some lc"
| "table_run S M (ev # evs) lc = do { lc \<leftarrow> log_step S M ev lc; table_run S M evs (settle lc) }"

lemma table_run: "table_run S M evs lc = log_run S M evs lc"
  by (induction evs arbitrary: lc) auto

lemma three_nodes_fresh: "\<forall>p \<in> {1, 2, 3}. fresh_node {1, 2, 3} p (three_nodes p)"
  by (simp add: fresh_node_def configured_def three_nodes_def new_node_def raft_core_new_def mem_new_def mem_defs) auto

lemma run_reachable:
  assumes "log_run mem_ops test_ops evs (initial_log_cluster three_nodes) = Some lc"
    and "list_all (\<lambda>ev. log_actor ev \<in> {1, 2, 3}) evs"
  shows "reachable mem_ops test_ops {1, 2, 3} lc"
  using reachable_run [OF reachable_init [OF three_nodes_fresh] _ assms(1)] assms(2) by (simp add: list_all_iff)

text \<open>What two nodes did: their logs, and the commands they applied.\<close>

definition outcome :: "test_core \<Rightarrow> raft_state \<times> (u64 \<times> string) list \<times> string list" where
  "outcome c = (role c, map (\<lambda>e. (le_term e, le_command e)) (rlog c), applied (state_machine c))"

lemma run_obtain:
  assumes "map_option f (table_run mem_ops test_ops evs (initial_log_cluster three_nodes)) = Some a"
    and "list_all (\<lambda>ev. log_actor ev \<in> {1, 2, 3}) evs"
  obtains lc where "reachable mem_ops test_ops {1, 2, 3} lc" "f lc = a"
proof -
  from assms(1) obtain lc where lc: "log_run mem_ops test_ops evs (initial_log_cluster three_nodes) = Some lc" "f lc = a"
    by (auto simp: table_run)
  with run_reachable [OF lc(1) assms(2)] that show thesis by blast
qed

section \<open>Log matching\<close>

text \<open>
  C5: log matching. In every state that a cluster reaches without any snapshot being taken or installed, if
  two logs have an entry with the same index and term, then the two logs are equal up to that index.
  Messages may be lost, delayed, duplicated and reordered, and nodes may crash and restart while their storage
  holds their term, vote and log; a reply reaches a leader in the term of its request, and no log
  reaches the end of the index range.
\<close>

theorem log_matching:
  assumes "reachable S M U lc" "p \<in> U" "q \<in> U"
    and "get_log_entry (node lc p) i = Some e" "get_log_entry (node lc q) i = Some e'" "le_term e = le_term e'"
    and "j \<le> i"
  shows "get_log_entry (node lc p) j = get_log_entry (node lc q) j"
  using log_inv_matching [OF reachable_log_inv [OF assms(1)] assms(2-7)] .

text \<open>
  Node 2 leads term 1 and replicates its no-op to all; its entry \<open>b\<close> stays on itself alone. Node 1
  then leads term 2, and its no-op at index 2 is stored by node 3.
\<close>

definition stale_suffix_events :: "test_sm log_event list" where
  "stale_suffix_events =
     [Election (Elect 2 0), Election (Ask 2), Election (Answer 1 (vote_msg 1 2 0 0)), Election (Count 2 1 1 (vote_yes 1)),
      Heartbeat 2 1, Deliver 1 2 (Some 1) (append_msg 1 2 0 0 [entry 1 1 ''NOOP''] 0),
      Heartbeat 2 3, Deliver 3 2 (Some 1) (append_msg 1 2 0 0 [entry 1 1 ''NOOP''] 0),
      Submit 2 ''b'',
      Election (Elect 1 5), Election (Ask 1), Election (Answer 3 (vote_msg 2 1 1 1)), Election (Count 1 6 3 (vote_yes 2)),
      Heartbeat 1 3, Deliver 3 7 (Some 2) (append_msg 2 1 1 1 [entry 2 2 ''NOOP''] 0),
      Acknowledge 3 2 (append_msg 2 1 1 1 [entry 2 2 ''NOOP''] 0) (append_yes 2)]"

definition confirm_events :: "test_sm log_event list" where
  "confirm_events = [Confirm 1 2, Deliver 2 8 None (append_msg 2 1 1 1 [] 2)]"

theorem log_matching_witness:
  "\<exists>lc. reachable mem_ops test_ops {1, 2, 3} lc \<and>
     get_log_entry (node lc 1) 2 = Some (entry 2 2 ''NOOP'') \<and> get_log_entry (node lc 3) 2 = Some (entry 2 2 ''NOOP'') \<and>
     get_log_entry (node lc 1) 1 = get_log_entry (node lc 3) 1"
proof -
  let ?f = "\<lambda>lc :: (memory_storage, test_sm) log_cluster.
    (rlog (node lc 1), snapshot_last_index (node lc 1), rlog (node lc 3), snapshot_last_index (node lc 3))"
  have run: "map_option ?f (table_run mem_ops test_ops stale_suffix_events (initial_log_cluster three_nodes))
      = Some ([entry 1 1 ''NOOP'', entry 2 2 ''NOOP''], 0, [entry 1 1 ''NOOP'', entry 2 2 ''NOOP''], 0)"
    by code_simp
  have actors: "list_all (\<lambda>ev. log_actor ev \<in> {1, 2, 3}) stale_suffix_events" by code_simp
  obtain lc where lc: "reachable mem_ops test_ops {1, 2, 3} lc"
    "?f lc = ([entry 1 1 ''NOOP'', entry 2 2 ''NOOP''], 0, [entry 1 1 ''NOOP'', entry 2 2 ''NOOP''], 0)"
    by (rule run_obtain [OF run actors])
  then have e: "get_log_entry (node lc 1) 2 = Some (entry 2 2 ''NOOP'')" "get_log_entry (node lc 3) 2 = Some (entry 2 2 ''NOOP'')"
    by (simp_all add: get_log_entry_def)
  then have "get_log_entry (node lc 1) 1 = get_log_entry (node lc 3) 1"
    by (intro log_matching [OF lc(1) _ _ e]) (simp_all add: word_le_nat_alt)
  with lc(1) e show ?thesis by blast
qed

section \<open>A read that makes a follower apply what was never committed\<close>

lemma applied_member:
  assumes "core_wf c" "get_log_entry c i = Some e" "last_applied c < i" "i \<le> commit_index c"
  shows "e \<in> set (pending c)"
proof -
  note w = core_wfD [OF assms(1)]
  let ?s = "unat (snapshot_last_index c)" and ?a = "unat (last_applied c)"
  have le: "?s \<le> ?a" "?a < unat i" "unat i \<le> unat (commit_index c)" "unat i \<le> unat (last_log_index c)"
    using w(3,5) assms(3,4) by (auto simp: word_le_nat_alt word_less_nat_alt)
  then have "get_log_entry c i = Some (rlog c ! (unat i - ?s - 1))" "unat i \<le> ?s + length (rlog c)"
    using unat_last_log_index [OF w(1)] by (simp_all add: get_log_entry_Some [OF w(1)])
  then have x: "e = rlog c ! (unat i - ?s - 1)" and len: "unat i \<le> ?s + length (rlog c)" using assms(2) by simp_all
  have "pending c = take (unat (commit_index c) - ?a) (drop (?a - ?s) (rlog c))" by (simp add: pending_def)
  moreover have "?a - ?s + (unat i - ?a - 1) = unat i - ?s - 1" using le by arith
  moreover have "unat i - ?a - 1 < unat (commit_index c) - ?a" using le by arith
  moreover have "?a - ?s \<le> length (rlog c)" "unat i - ?a - 1 < length (rlog c) - (?a - ?s)" using le len by arith+
  ultimately have "pending c ! (unat i - ?a - 1) = e" "unat i - ?a - 1 < length (pending c)"
    using x by simp_all
  then show ?thesis using nth_mem by blast
qed

text \<open>An accepted message without entries commits and applies up to the follower's own last index.\<close>

lemma empty_append_applies:
  assumes wf: "core_wf c" and st: "storage_total S" and req: "ae_entries req = []"
    and ok: "current_term c \<le> ae_term req" "prev_matches req c" and lc: "commit_index c < leader_commit req"
    and e: "get_log_entry c i = Some e" "commit_index c < i" "i \<le> leader_commit req"
  shows "\<exists>out c' es. handle_append_entries S M now req c = Some (out, c') \<and> aer_success (hae_result out) \<and>
    i \<le> last_applied c' \<and> state_machine c' = fst (apply_all M es (state_machine c)) \<and> e \<in> set es"
proof -
  obtain d where d: "observe_term S (ae_term req) c = Some d" using observe_term_total [OF st] by blast
  let ?d = "d\<lparr>role := Follower, current_leader := Some (ae_leader_id req), last_heartbeat := now\<rparr>"
  let ?k = "min (leader_commit req) (last_log_index c)"
  let ?e = "?d\<lparr>commit_index := ?k\<rparr>"
  have sl: "same_log c ?d" using observe_term_same_log [OF d] by (simp add: same_log_def)
  note w = core_wfD [OF wf] and f = same_log_facts [OF sl]
  have pm: "prev_matches req ?d" using sl f ok(2) by (auto simp: prev_matches_def same_log_def)
  have nl: "\<not> ae_term req < current_term d" using observe_term_max [OF d] ok(1) by (simp add: max_def)
  have i: "snapshot_last_index c < i" "i \<le> last_log_index c"
    using get_log_entry_iff [OF w(1), of i] e(1) by blast+
  then have ik: "i \<le> ?k" using e(3) by simp
  have lt: "commit_index c < ?k" by (rule less_le_trans [OF e(2) ik])
  have "snapshot_last_index c < ?k" by (rule less_le_trans [OF i(1) ik])
  then obtain x where x: "get_log_entry ?d ?k = Some x"
    using get_log_entry_iff [OF w(1), of ?k] f(4) by auto
  have we: "core_wf ?e"
    by (rule commit_to_wf [OF _ _ x]) (use f(1) wf lt sl in \<open>simp_all add: same_log_def\<close>)
  have "get_log_entry ?e i = get_log_entry ?d i" by (simp add: get_log_entry_def Let_def)
  then have "get_log_entry ?e i = Some e" using f(4) [of i] e(1) by simp
  moreover have "last_applied ?e < i" using w(4) e(2) sl by (simp add: same_log_def)
  ultimately have mem: "e \<in> set (pending ?e)" using ik by (intro applied_member [OF we, of i]) simp_all
  obtain c' where c': "apply_committed_entries S M ?e = Some (snd (apply_all M (pending ?e) (state_machine ?e)), c')"
    "last_applied c' = ?k" "state_machine c' = fst (apply_all M (pending ?e) (state_machine ?e))"
    by (rule apply_committed_wf [OF we st, of M]) simp
  have acc: "accept_entries S M req ?d = Some c'"
    using c'(1) req lc sl f(2) by (simp add: accept_entries_def same_log_def)
  have "state_machine ?e = state_machine c" using sl by (simp add: same_log_def)
  with handle_append_entries_live [OF d nl check_and_append_accept [OF pm acc]] c'(2,3) ik mem
  show ?thesis by auto
qed

text \<open>
  C35: a read makes a follower apply an entry that was never committed. The request of \<open>confirm_leadership\<close> carries
  no entries but the leader's commit index, and tests the entry before the peer's next index only. A
  follower that has that entry and, behind it, a stale entry \<open>e\<close> at an index which the leader has committed with
  another entry \<open>x\<close>, answers success and commits and applies \<open>e\<close>.
\<close>

theorem stale_suffix_applied:
  assumes "storage_total S"
    and leader: "role l = Leader" "get_log_entry l i = Some x" "i \<le> commit_index l"
    and follower: "core_wf f" "current_term f \<le> current_term l" "prev_matches (confirm_request l p) f"
    and stale: "get_log_entry f i = Some e" "le_term e \<noteq> le_term x" "commit_index f < i"
  shows "\<exists>out f' es. handle_append_entries S M now (confirm_request l p) f = Some (out, f') \<and>
    aer_success (hae_result out) \<and> i \<le> last_applied f' \<and>
    state_machine f' = fst (apply_all M es (state_machine f)) \<and> e \<in> set es \<and> e \<noteq> x"
proof -
  have req: "ae_entries (confirm_request l p) = []" "ae_term (confirm_request l p) = current_term l"
    "leader_commit (confirm_request l p) = commit_index l"
    by (simp_all add: confirm_request_def append_request_def)
  have lt: "commit_index f < commit_index l" by (rule less_le_trans [OF stale(3) leader(3)])
  have "\<exists>out f' es. handle_append_entries S M now (confirm_request l p) f = Some (out, f') \<and>
    aer_success (hae_result out) \<and> i \<le> last_applied f' \<and>
    state_machine f' = fst (apply_all M es (state_machine f)) \<and> e \<in> set es"
    by (rule empty_append_applies [OF follower(1) assms(1) req(1) _ follower(3) _ stale(1,3)])
      (simp_all only: req(2,3) follower(2) leader(3) lt)
  moreover have "e \<noteq> x" using stale(2) by blast
  ultimately show ?thesis by blast
qed

text \<open>In a run of three nodes: node 2 applies its stale \<open>b\<close> where node 1 has committed its no-op.\<close>

theorem stale_suffix_applied_witness:
  "\<exists>lc out f' es. reachable mem_ops test_ops {1, 2, 3} lc \<and>
     handle_append_entries mem_ops test_ops 8 (confirm_request (node lc 1) 2) (node lc 2) = Some (out, f') \<and>
     aer_success (hae_result out) \<and> 2 \<le> last_applied f' \<and>
     state_machine f' = fst (apply_all test_ops es (state_machine (node lc 2))) \<and> entry 1 2 ''b'' \<in> set es"
proof -
  let ?l = "\<lambda>lc :: (memory_storage, test_sm) log_cluster. (role (node lc 1), get_log_entry (node lc 1) 2, commit_index (node lc 1),
    current_term (node lc 1), prev_matches (confirm_request (node lc 1) 2) (node lc 2))"
  let ?f = "\<lambda>lc :: (memory_storage, test_sm) log_cluster. (rlog (node lc 2), snapshot_last_index (node lc 2),
    commit_index (node lc 2), last_applied (node lc 2), current_term (node lc 2))"
  have run: "map_option (\<lambda>lc. (?l lc, ?f lc)) (table_run mem_ops test_ops stale_suffix_events (initial_log_cluster three_nodes))
      = Some ((Leader, Some (entry 2 2 ''NOOP''), 2, 2, True), ([entry 1 1 ''NOOP'', entry 1 2 ''b''], 0, 0, 0, 1))"
    by code_simp
  have actors: "list_all (\<lambda>ev. log_actor ev \<in> {1, 2, 3}) stale_suffix_events" by code_simp
  obtain lc where reach: "reachable mem_ops test_ops {1, 2, 3} lc"
    and "(?l lc, ?f lc) = ((Leader, Some (entry 2 2 ''NOOP''), 2, 2, True), ([entry 1 1 ''NOOP'', entry 1 2 ''b''], 0, 0, 0, 1))"
    by (rule run_obtain [OF run actors])
  then have l: "role (node lc 1) = Leader" "get_log_entry (node lc 1) 2 = Some (entry 2 2 ''NOOP'')"
    "commit_index (node lc 1) = 2" "current_term (node lc 1) = 2" "prev_matches (confirm_request (node lc 1) 2) (node lc 2)"
    and f: "rlog (node lc 2) = [entry 1 1 ''NOOP'', entry 1 2 ''b'']" "snapshot_last_index (node lc 2) = 0"
    "commit_index (node lc 2) = 0" "last_applied (node lc 2) = 0" "current_term (node lc 2) = 1" by simp_all
  have wf: "core_wf (node lc 2)" by (rule core_wf_by_fields) (simp_all add: f entry_def u64_bound_gt)
  have e: "get_log_entry (node lc 2) 2 = Some (entry 1 2 ''b'')" using f by (simp add: get_log_entry_def)
  have t: "2 \<le> commit_index (node lc 1)" "current_term (node lc 2) \<le> current_term (node lc 1)"
    "le_term (entry 1 2 ''b'') \<noteq> le_term (entry 2 2 ''NOOP'')" "commit_index (node lc 2) < 2"
    using l f by (simp_all add: entry_def word_le_nat_alt)
  show ?thesis
    using stale_suffix_applied [OF mem_storage_total l(1,2) t(1) wf t(2) l(5) e t(3,4)] reach by blast
qed

text \<open>The whole run, with the message sent and delivered: what both nodes have applied at the end.\<close>

theorem stale_suffix_run:
  "\<exists>lc. reachable mem_ops test_ops {1, 2, 3} lc \<and>
     outcome (node lc 1) = (Leader, [(1, ''NOOP''), (2, ''NOOP'')], [''NOOP'', ''NOOP'']) \<and>
     outcome (node lc 2) = (Follower, [(1, ''NOOP''), (1, ''b'')], [''NOOP'', ''b''])"
  by (rule run_obtain [of "\<lambda>lc. (outcome (node lc 1), outcome (node lc 2))" "stale_suffix_events @ confirm_events"])
    (code_simp, code_simp, blast)

section \<open>A deposed leader that overwrites a committed entry\<close>

lemma append_accepted:
  assumes "handle_append_entries S M now req c = Some (out, c')" "current_term c \<le> ae_term req" "prev_matches req c"
  shows "aer_success (hae_result out)"
proof -
  from assms(1) obtain d where d: "observe_term S (ae_term req) c = Some d"
    and r: "if ae_term req < current_term d
         then c' = d \<and> \<not> aer_success (hae_result out)
         else \<exists>ok ct ci. check_and_append S M req
                 (d\<lparr>role := Follower, current_leader := Some (ae_leader_id req), last_heartbeat := now\<rparr>)
                 = Some (ok, ct, ci, c') \<and> aer_success (hae_result out) = ok"
    unfolding handle_append_entries_unfold by (auto split: if_split_asm)
  let ?e = "d\<lparr>role := Follower, current_leader := Some (ae_leader_id req), last_heartbeat := now\<rparr>"
  have "\<not> ae_term req < current_term d" using observe_term_max [OF d] assms(2) by (simp add: max_def)
  with r obtain ok ct ci where k: "check_and_append S M req ?e = Some (ok, ct, ci, c')"
    and ok: "aer_success (hae_result out) = ok" by auto
  have "prev_matches req ?e = prev_matches req c"
    using observe_term_same_log [OF d] by (intro same_entries_prev_matches) (simp add: same_entries_def same_log_def)
  with check_and_append_Some [OF k] assms(3) ok show ?thesis by simp
qed

text \<open>A follower without a snapshot that accepts entries has each of them at its index, by its term.\<close>

lemma accepted_entry_stored:
  assumes g: "node_log g c" "carries g req" and h: "handle_append_entries S M now req c = Some (out, c')"
    and s: "snapshot_last_index c' = 0" and ok: "current_term c \<le> ae_term req" "prev_matches req c"
    and e: "e \<in> set (ae_entries req)"
  shows "\<exists>y. get_log_entry c' (le_index e) = Some y \<and> le_term y = le_term e"
proof -
  have c: "snapshot_last_index c = 0" "log_from 0 (rlog c)" "length (rlog c) + 1 < u64_bound"
    using g(1) by (simp_all add: node_log_def)
  have m: "rlog c' = merge_log 0 (rlog c) (ae_entries req)"
    using handle_append_entries_none [OF h s c(1)] append_accepted [OF h ok] by blast
  have le: "unat (prev_log_index req) \<le> length (rlog c)"
    using prev_matches_le [OF ok(2)] unat_last_log_index [of c] c by (simp add: word_le_nat_alt log_ok_def)
  have "prev_log_index req \<noteq> -1"
  proof
    assume "prev_log_index req = -1"
    then have "unat (prev_log_index req) + 1 = u64_bound" by (simp add: u64_bound_def unsigned_minus_1_eq_mask mask_eq_exp_minus_1)
    with le c(3) show False by simp
  qed
  then have es: "log_from (prev_log_index req) (ae_entries req)" using g(2) e by (auto simp: carries_def)
  obtain k where k: "k < length (ae_entries req)" "e = ae_entries req ! k" using e by (auto simp: in_set_conv_nth)
  have pos: "unat (le_index e) = unat (prev_log_index req) + 1 + k" using log_from_nth [OF es k(1)] k(2) by simp
  then have gt: "0 < le_index e" by (simp add: word_less_nat_alt)
  have "unat (le_index e) - 1 < length (rlog c') \<and> le_term (rlog c' ! (unat (le_index e) - 1)) = le_term e"
    using merge_log_contains [OF c(2) es _ e] le gt m by simp
  moreover have "node_log g c'" by (rule carries_merge [OF g ok(2) m s])
  ultimately show ?thesis using node_log_entry [of g c' "le_index e"] gt pos by simp
qed

text \<open>
  C36: a deposed leader overwrites a committed entry. \<open>replicate_to_peers\<close> takes the lock anew after \<open>handle_submit\<close>
  released it, and does not look at the role again. In any reachable state of a cluster, let \<open>p\<close> be a node
  that does not lead, send its old entries to \<open>q\<close> in this way, and let the message be delivered. If the term of
  \<open>q\<close> is not above that of \<open>p\<close> and the tested entry matches, then \<open>q\<close> answers success and replaces an entry
  \<open>x\<close> with which an entry of the message conflicts, although a leader \<open>l\<close> has committed \<open>x\<close> and still has it.
\<close>

theorem deposed_leader_overwrites_committed:
  assumes lc: "reachable S M U lc" "p \<in> U" "q \<in> U"
    and deposed: "role (node lc p) \<noteq> Leader"
    and sent: "req = replicate_request i (node lc p) q" "log_step S M (Replicate p i q) lc = Some lc1"
    and delivered: "log_step S M (Deliver q now (Some i) req) lc1 = Some lc2"
    and accepted: "current_term (node lc q) \<le> current_term (node lc p)" "prev_matches req (node lc q)"
    and conflict: "e \<in> set (ae_entries req)" "get_log_entry (node lc q) (le_index e) = Some x" "le_term x \<noteq> le_term e"
    and committed: "l \<noteq> q" "role (node lc l) = Leader" "get_log_entry (node lc l) (le_index e) = Some x"
      "le_index e \<le> commit_index (node lc l)"
  shows "reachable S M U lc2 \<and>
    (\<exists>out. (q, i, req, out) \<in> set (append_replies lc2) \<and> aer_success out) \<and>
    (\<exists>y. get_log_entry (node lc2 q) (le_index e) = Some y \<and> y \<noteq> x \<and> le_term y = le_term e) \<and>
    role (node lc2 l) = Leader \<and> get_log_entry (node lc2 l) (le_index e) = Some x \<and>
    le_index e \<le> commit_index (node lc2 l)"
proof -
  have r1: "reachable S M U lc1" using reachable_step [OF lc(1) _ sent(2)] lc(2) by simp
  have r2: "reachable S M U lc2" using reachable_step [OF r1 _ delivered] lc(3) by simp
  note inv = reachable_log_inv [OF lc(1)]
  have lc1: "lc1 = send_append q (Some i) req lc"
    using sent by (auto simp: log_step_def split: if_split_asm)
  then have n1: "node lc1 q = node lc q" by (simp add: send_append_def)
  obtain out c where h: "handle_append_entries S M now req (node lc q) = Some (out, c)"
    and lc2: "lc2 = (set_node q c lc1)\<lparr>append_replies := (q, i, req, hae_result out) # append_replies (set_node q c lc1)\<rparr>"
    and s: "snapshot_last_index (node lc2 q) = 0"
    using delivered n1 by (auto simp: log_step_def bind_eq_Some_conv Let_def split: if_split_asm)
  have n2: "node lc2 q = c" "node lc2 l = node lc l"
    using lc2 lc1 committed(1) by (simp_all add: set_node_def put_node_def send_append_def)
  have tm: "current_term (node lc q) \<le> ae_term req"
    using accepted(1) sent(1) by (simp add: replicate_request_def append_request_def Let_def)
  have car: "carries (made lc) req" unfolding sent(1) by (rule replicate_carries [OF log_invD(3) [OF inv lc(2)]])
  obtain y where "get_log_entry c (le_index e) = Some y" "le_term y = le_term e"
    using accepted_entry_stored [OF log_invD(3) [OF inv lc(3)] car h _ tm accepted(2) conflict(1)] s n2(1) by auto
  moreover have "aer_success (hae_result out)" by (rule append_accepted [OF h tm accepted(2)])
  ultimately show ?thesis using r2 n2 lc2 committed(2-4) conflict(3) by auto
qed

text \<open>
  Node 1 leads term 1 and takes the command \<open>a\<close>; before it sends it, the vote request of node 2 makes
  it a follower of term 2. Node 2 leads term 2 and commits the command \<open>b\<close> on nodes 2 and 3.
\<close>

definition deposed_events :: "test_sm log_event list" where
  "deposed_events =
     [Election (Elect 1 0), Election (Ask 1), Election (Answer 2 (vote_msg 1 1 0 0)), Election (Count 1 1 2 (vote_yes 1)),
      Heartbeat 1 2, Deliver 2 2 (Some 1) (append_msg 1 1 0 0 [entry 1 1 ''NOOP''] 0),
      Heartbeat 1 3, Deliver 3 2 (Some 1) (append_msg 1 1 0 0 [entry 1 1 ''NOOP''] 0),
      Acknowledge 2 1 (append_msg 1 1 0 0 [entry 1 1 ''NOOP''] 0) (append_yes 1),
      Acknowledge 3 1 (append_msg 1 1 0 0 [entry 1 1 ''NOOP''] 0) (append_yes 1),
      Submit 1 ''a'',
      Election (Elect 2 5), Election (Ask 2), Election (Answer 1 (vote_msg 2 2 1 1)),
      Election (Answer 3 (vote_msg 2 2 1 1)), Election (Count 2 6 3 (vote_yes 2)),
      Submit 2 ''b'', Replicate 2 3 3,
      Deliver 3 7 (Some 3) (append_msg 2 2 1 1 [entry 2 2 ''NOOP'', entry 2 3 ''b''] 0),
      Acknowledge 3 3 (append_msg 2 2 1 1 [entry 2 2 ''NOOP'', entry 2 3 ''b''] 0) (append_yes 2)]"

text \<open>The replication of \<open>a\<close> goes on, and node 1 is elected once more.\<close>

definition usurping_events :: "test_sm log_event list" where
  "usurping_events =
     [Replicate 1 2 3, Deliver 3 9 (Some 2) (append_msg 2 1 1 1 [entry 1 2 ''a''] 1),
      Election (Elect 1 10), Election (Ask 1), Election (Answer 3 (vote_msg 3 1 2 1)), Election (Count 1 11 3 (vote_yes 3)),
      Heartbeat 1 3, Deliver 3 12 (Some 3) (append_msg 3 1 2 1 [entry 3 3 ''NOOP''] 1),
      Acknowledge 3 3 (append_msg 3 1 2 1 [entry 3 3 ''NOOP''] 1) (append_yes 3)]"

lemma log_run_append:
  "log_run S M (evs @ evs') lc = do { lc \<leftarrow> log_run S M evs lc; log_run S M evs' lc }"
proof (induction evs arbitrary: lc)
  case (Cons ev evs)
  then show ?case by (cases "log_step S M ev lc") simp_all
qed simp

definition stale_replication :: append_entries_args where
  "stale_replication = append_msg 2 1 1 1 [entry 1 2 ''a''] 1"

text \<open>Node 1, deposed, sends its entry \<open>a\<close>; node 3 replaces by it the no-op that node 2 has committed.\<close>

theorem deposed_leader_overwrites_committed_witness:
  "\<exists>lc lc1 lc2 y. reachable mem_ops test_ops {1, 2, 3} lc \<and> role (node lc 1) = Follower \<and>
     log_step mem_ops test_ops (Replicate 1 2 3) lc = Some lc1 \<and>
     log_step mem_ops test_ops (Deliver 3 9 (Some 2) stale_replication) lc1 = Some lc2 \<and>
     get_log_entry (node lc 3) 2 = Some (entry 2 2 ''NOOP'') \<and> get_log_entry (node lc2 3) 2 = Some y \<and> le_term y = 1 \<and>
     get_log_entry (node lc2 2) 2 = Some (entry 2 2 ''NOOP'') \<and> 2 \<le> commit_index (node lc2 2)"
proof -
  let ?steps = "[Replicate 1 2 3, Deliver 3 9 (Some 2) stale_replication]"
  let ?f = "\<lambda>lc :: (memory_storage, test_sm) log_cluster. (role (node lc 1), current_term (node lc 1), current_term (node lc 3),
    replicate_request 2 (node lc 1) 3, prev_matches stale_replication (node lc 3), get_log_entry (node lc 3) 2)"
  let ?g = "\<lambda>lc :: (memory_storage, test_sm) log_cluster.
    (role (node lc 2), get_log_entry (node lc 2) 2, commit_index (node lc 2))"
  let ?init = "initial_log_cluster three_nodes"
  have one: "map_option (\<lambda>lc. (?f lc, ?g lc)) (table_run mem_ops test_ops deposed_events ?init)
      = Some ((Follower, 2, 2, stale_replication, True, Some (entry 2 2 ''NOOP'')), (Leader, Some (entry 2 2 ''NOOP''), 3))"
    by code_simp
  have "map_option (\<lambda>lc. role (node lc 2)) (table_run mem_ops test_ops (deposed_events @ ?steps) ?init) = Some Leader"
    by code_simp
  then obtain lc2 where "log_run mem_ops test_ops (deposed_events @ ?steps) ?init = Some lc2" by (auto simp: table_run)
  then obtain lc where run: "log_run mem_ops test_ops deposed_events ?init = Some lc"
    "log_run mem_ops test_ops ?steps lc = Some lc2"
    by (auto simp: log_run_append bind_eq_Some_conv simp del: log_run.simps)
  then obtain lc1 where steps: "log_step mem_ops test_ops (Replicate 1 2 3) lc = Some lc1"
    "log_step mem_ops test_ops (Deliver 3 9 (Some 2) stale_replication) lc1 = Some lc2"
    by (auto simp: bind_eq_Some_conv)
  have "list_all (\<lambda>ev. log_actor ev \<in> {1, 2, 3}) deposed_events" by code_simp
  then have reach: "reachable mem_ops test_ops {1, 2, 3} lc" using run_reachable [OF run(1)] by blast
  have f: "role (node lc 1) = Follower" "current_term (node lc 1) = 2" "current_term (node lc 3) = 2"
    "stale_replication = replicate_request 2 (node lc 1) 3" "prev_matches stale_replication (node lc 3)"
    "get_log_entry (node lc 3) 2 = Some (entry 2 2 ''NOOP'')"
    and l: "role (node lc 2) = Leader" "get_log_entry (node lc 2) 2 = Some (entry 2 2 ''NOOP'')" "commit_index (node lc 2) = 3"
    using one run(1) by (simp_all add: table_run)
  have e: "entry 1 2 ''a'' \<in> set (ae_entries stale_replication)" "le_index (entry 1 2 ''a'') = 2"
    "le_term (entry 1 2 ''a'') = 1" "le_term (entry 2 2 ''NOOP'') \<noteq> le_term (entry 1 2 ''a'')"
    by (simp_all add: stale_replication_def append_msg_def entry_def)
  have "get_log_entry (node lc2 2) 2 = Some (entry 2 2 ''NOOP'') \<and> 2 \<le> commit_index (node lc2 2) \<and>
      (\<exists>y. get_log_entry (node lc2 3) 2 = Some y \<and> le_term y = 1)"
    using deposed_leader_overwrites_committed [OF reach _ _ _ f(4) steps _ f(5) e(1) _ e(4), of 2] f l e by auto
  with reach f(1,6) steps show ?thesis by blast
qed

text \<open>
  The run goes on: node 1 is elected once more. The command \<open>b\<close>, committed and applied by node 2, is lost, and
  nodes 1 and 2 have applied different commands at index 2 and at index 3.
\<close>

theorem deposed_leader_run:
  "\<exists>lc. reachable mem_ops test_ops {1, 2, 3} lc \<and>
     outcome (node lc 1) = (Leader, [(1, ''NOOP''), (1, ''a''), (3, ''NOOP'')], [''NOOP'', ''a'', ''NOOP'']) \<and>
     outcome (node lc 2) = (Leader, [(1, ''NOOP''), (2, ''NOOP''), (2, ''b'')], [''NOOP'', ''NOOP'', ''b''])"
  by (rule run_obtain [of "\<lambda>lc. (outcome (node lc 1), outcome (node lc 2))" "deposed_events @ usurping_events"])
    (code_simp, code_simp, blast)

end
