(* ===== verification/Safety_Properties.thy ===== *)
theory Safety_Properties
  imports Commit_Machine Replication_Properties
begin

text \<open>
  State machine safety, leader completeness and the agreement of the replicas, for the runs of \<open>Commit_Safety\<close>.
\<close>

section \<open>Runs of three nodes with their history\<close>

fun table_safe_run ::
  "'s storage_ops \<Rightarrow> 'm sm_ops \<Rightarrow> 'm log_event list \<Rightarrow> ('s, 'm) log_cluster \<Rightarrow> past \<Rightarrow>
   (('s, 'm) log_cluster \<times> past) option" where
  "table_safe_run S M [] lc h = Some (lc, h)"
| "table_safe_run S M (ev # evs) lc h =
     (if safe_guard S ev lc
      then do {
        lc' \<leftarrow> log_step S M ev lc;
        table_safe_run S M evs (settle lc') (observe (log_actor ev) (node lc (log_actor ev)) (node lc' (log_actor ev)) h)
      }
      else None)"

lemma table_safe_run: "table_safe_run S M evs lc h = safe_run S M evs lc h"
  by (induction evs arbitrary: lc h) auto

lemma safe_run_append:
  "safe_run S M (evs @ evs') lc h = do { (lc, h) \<leftarrow> safe_run S M evs lc h; safe_run S M evs' lc h }"
proof (induction evs arbitrary: lc h)
  case (Cons ev evs)
  then show ?case by (cases "log_step S M ev lc") simp_all
qed simp

abbreviation no_past :: past where
  "no_past \<equiv> \<lparr>ballots = [], stored = []\<rparr>"

lemma safe_run_obtain:
  assumes one: "map_option (\<lambda>(lc, h). f lc) (table_safe_run mem_ops test_ops evs (initial_log_cluster three_nodes) no_past) = Some a"
    and two: "map_option (\<lambda>(lc, h). f lc) (table_safe_run mem_ops test_ops (evs @ evs') (initial_log_cluster three_nodes) no_past) = Some b"
    and actors: "list_all (\<lambda>ev. log_actor ev \<in> {1, 2, 3}) (evs @ evs')"
  obtains lc h lc' h' where "safe_reachable mem_ops test_ops {1, 2, 3} lc h"
    "safe_run mem_ops test_ops evs (initial_log_cluster three_nodes) no_past = Some (lc, h)"
    "safe_run mem_ops test_ops evs' lc h = Some (lc', h')" "\<forall>ev \<in> set evs'. log_actor ev \<in> {1, 2, 3}" "f lc = a" "f lc' = b"
proof -
  from one obtain lc h where lc: "safe_run mem_ops test_ops evs (initial_log_cluster three_nodes) no_past = Some (lc, h)" "f lc = a"
    by (auto simp: table_safe_run)
  with two obtain lc' h' where lc': "safe_run mem_ops test_ops evs' lc h = Some (lc', h')" "f lc' = b"
    by (auto simp: table_safe_run safe_run_append)
  have acts: "\<forall>ev \<in> set evs. log_actor ev \<in> {1, 2, 3}" "\<forall>ev \<in> set evs'. log_actor ev \<in> {1, 2, 3}"
    using actors by (auto simp: list_all_iff)
  have "safe_reachable mem_ops test_ops {1, 2, 3} lc h"
    using safe_run_reachable [OF safe_init [OF three_nodes_fresh] acts(1) lc(1)] by blast
  with lc lc' acts(2) that show thesis by blast
qed

text \<open>
  Node 1 is elected and commits its no-op and the command \<open>x\<close> with node 2. Then node 3 hears of it, is
  elected in its turn by node 2, and leads term 2.
\<close>

definition committing_events :: "test_sm log_event list" where
  "committing_events =
     [Election (Elect 1 0), Election (Ask 1), Election (Answer 2 (vote_msg 1 1 0 0)), Election (Count 1 1 2 (vote_yes 1)),
      Submit 1 ''x'', Replicate 1 2 2,
      Deliver 2 2 (Some 2) (append_msg 1 1 0 0 [entry 1 1 ''NOOP'', entry 1 2 ''x''] 0),
      Acknowledge 2 2 (append_msg 1 1 0 0 [entry 1 1 ''NOOP'', entry 1 2 ''x''] 0) (append_yes 1)]"

definition succession_events :: "test_sm log_event list" where
  "succession_events =
     [Heartbeat 1 3, Deliver 3 3 (Some 2) (append_msg 1 1 0 0 [entry 1 1 ''NOOP'', entry 1 2 ''x''] 2),
      Election (Elect 3 9), Election (Ask 3), Election (Answer 2 (vote_msg 2 3 2 1)), Election (Count 3 10 2 (vote_yes 2))]"

text \<open>Of a node: what it is, how far it has committed, its term.\<close>

definition standing :: "test_core \<Rightarrow> raft_state \<times> u64 \<times> u64" where
  "standing c = (role c, commit_index c, current_term c)"

lemma succession_runs:
  "map_option (\<lambda>(lc, h). (standing (node lc 1), standing (node lc 3)))
     (table_safe_run mem_ops test_ops committing_events (initial_log_cluster three_nodes) no_past)
   = Some ((Leader, 2, 1), (Follower, 0, 0))"
  "map_option (\<lambda>(lc, h). (standing (node lc 1), standing (node lc 3)))
     (table_safe_run mem_ops test_ops (committing_events @ succession_events) (initial_log_cluster three_nodes) no_past)
   = Some ((Leader, 2, 1), (Leader, 2, 2))"
  by code_simp+

lemma succession_applied:
  "map_option (\<lambda>(lc, h). (last_applied (node lc 1), last_applied (node lc 3)))
     (table_safe_run mem_ops test_ops committing_events (initial_log_cluster three_nodes) no_past) = Some (2, 0)"
  "map_option (\<lambda>(lc, h). (last_applied (node lc 1), last_applied (node lc 3)))
     (table_safe_run mem_ops test_ops (committing_events @ succession_events) (initial_log_cluster three_nodes) no_past)
   = Some (2, 2)"
  by code_simp+

lemma succession_actors: "list_all (\<lambda>ev. log_actor ev \<in> {1, 2, 3}) (committing_events @ succession_events)"
  by code_simp

section \<open>The properties\<close>

text \<open>
  C2: state machine safety under the conditions of a safe run. If node \<open>p\<close> has committed index \<open>i\<close> in a state
  reached by a safe run, and node \<open>q\<close> has committed it in the same or in any later state of the run, then both
  have the same entry at \<open>i\<close>. A run is safe (\<open>safe_guard\<close>, \<open>log_guard\<close>, \<open>log_step\<close>) when a node sends AppendEntries only
  while it is the leader; a message, also that of \<open>confirm_leadership\<close>, carries no commit index behind
  the entries it covers; no node takes or installs a snapshot; a restart finds the term, the vote and
  the log of the node in its storage and no snapshot; a reply reaches a leader in the term of its request, from
  one of its peers; and no log comes near the end of the index range. The code does not ensure the
  first two; the theory \<open>Replication_Properties\<close> shows what happens without them.
\<close>

theorem state_machine_safety:
  assumes "safe_reachable S M U lc h" "\<forall>ev \<in> set evs. log_actor ev \<in> U" "safe_run S M evs lc h = Some (lc', h')"
    and "p \<in> U" "q \<in> U" "0 < i" "i \<le> commit_index (node lc p)" "i \<le> commit_index (node lc' q)"
  shows "\<exists>e. get_log_entry (node lc p) i = Some e \<and> get_log_entry (node lc' q) i = Some e"
  using committed_agree [OF assms] .

theorem state_machine_safety_witness:
  "\<exists>lc h lc' h' e. safe_reachable mem_ops test_ops {1, 2, 3} lc h \<and>
     safe_run mem_ops test_ops succession_events lc h = Some (lc', h') \<and>
     get_log_entry (node lc 1) 2 = Some e \<and> get_log_entry (node lc' 3) 2 = Some e"
proof -
  obtain lc h lc' h' where r: "safe_reachable mem_ops test_ops {1, 2, 3} lc h"
    "safe_run mem_ops test_ops committing_events (initial_log_cluster three_nodes) no_past = Some (lc, h)"
    "safe_run mem_ops test_ops succession_events lc h = Some (lc', h')"
    "\<forall>ev \<in> set succession_events. log_actor ev \<in> {1, 2, 3}"
    "(standing (node lc 1), standing (node lc 3)) = ((Leader, 2, 1), (Follower, 0, 0))"
    "(standing (node lc' 1), standing (node lc' 3)) = ((Leader, 2, 1), (Leader, 2, 2))"
    by (rule safe_run_obtain [OF succession_runs succession_actors])
  have "\<exists>e. get_log_entry (node lc 1) 2 = Some e \<and> get_log_entry (node lc' 3) 2 = Some e"
    by (rule state_machine_safety [OF r(1,4,3)]) (use r(5,6) in \<open>simp_all add: standing_def\<close>)
  with r(1,3) show ?thesis by blast
qed

text \<open>
  C3: leader completeness under the conditions of a safe run, those of state machine safety. An entry that a
  node has committed in a state of a safe run is in the log of every leader of the same or a higher term in
  that or a later state of the run.
\<close>

theorem leader_completeness:
  assumes "safe_reachable S M U lc h" "\<forall>ev \<in> set evs. log_actor ev \<in> U" "safe_run S M evs lc h = Some (lc', h')"
    and "p \<in> U" "q \<in> U" "0 < i" "i \<le> commit_index (node lc q)"
    and "role (node lc' p) = Leader" "current_term (node lc q) \<le> current_term (node lc' p)"
  shows "\<exists>e. get_log_entry (node lc q) i = Some e \<and> get_log_entry (node lc' p) i = Some e"
  using committed_in_leader [OF assms] .

theorem leader_completeness_witness:
  "\<exists>lc h lc' h' e. safe_reachable mem_ops test_ops {1, 2, 3} lc h \<and>
     safe_run mem_ops test_ops succession_events lc h = Some (lc', h') \<and> role (node lc' 3) = Leader \<and>
     get_log_entry (node lc 1) 1 = Some e \<and> get_log_entry (node lc' 3) 1 = Some e"
proof -
  obtain lc h lc' h' where r: "safe_reachable mem_ops test_ops {1, 2, 3} lc h"
    "safe_run mem_ops test_ops committing_events (initial_log_cluster three_nodes) no_past = Some (lc, h)"
    "safe_run mem_ops test_ops succession_events lc h = Some (lc', h')"
    "\<forall>ev \<in> set succession_events. log_actor ev \<in> {1, 2, 3}"
    "(standing (node lc 1), standing (node lc 3)) = ((Leader, 2, 1), (Follower, 0, 0))"
    "(standing (node lc' 1), standing (node lc' 3)) = ((Leader, 2, 1), (Leader, 2, 2))"
    by (rule safe_run_obtain [OF succession_runs succession_actors])
  have "\<exists>e. get_log_entry (node lc 1) 1 = Some e \<and> get_log_entry (node lc' 3) 1 = Some e"
    by (rule leader_completeness [OF r(1,4,3)]) (use r(5,6) in \<open>simp_all add: standing_def word_le_nat_alt\<close>)
  with r show ?thesis by (auto simp: standing_def)
qed

text \<open>
  C4: the replicas agree under the conditions of a safe run, those of state machine safety, when the run starts
  from new nodes with equal state machines and every restart comes with that machine again: if node \<open>p\<close> has
  applied as many entries at some time as node \<open>q\<close> has then or later, the two state machines are equal.
\<close>

theorem replicas_agree:
  assumes "\<forall>p \<in> U. fresh_node U p (f p) \<and> state_machine (f p) = m0"
    and "\<forall>ev \<in> set (evs @ evs'). log_actor ev \<in> U \<and> restarts_with m0 ev"
    and "safe_run S M evs (initial_log_cluster f) \<lparr>ballots = [], stored = []\<rparr> = Some (lc, h)"
    and "safe_run S M evs' lc h = Some (lc', h')" "p \<in> U" "q \<in> U"
    and "last_applied (node lc p) = last_applied (node lc' q)"
  shows "state_machine (node lc p) = state_machine (node lc' q)"
  using machines_agree [OF assms] .

theorem replicas_agree_witness:
  "\<exists>lc h lc' h'.
     safe_run mem_ops test_ops committing_events (initial_log_cluster three_nodes) no_past = Some (lc, h) \<and>
     safe_run mem_ops test_ops succession_events lc h = Some (lc', h') \<and>
     last_applied (node lc 1) = 2 \<and> state_machine (node lc 1) = state_machine (node lc' 3)"
proof -
  obtain lc h lc' h' where r: "safe_reachable mem_ops test_ops {1, 2, 3} lc h"
    "safe_run mem_ops test_ops committing_events (initial_log_cluster three_nodes) no_past = Some (lc, h)"
    "safe_run mem_ops test_ops succession_events lc h = Some (lc', h')"
    "\<forall>ev \<in> set succession_events. log_actor ev \<in> {1, 2, 3}"
    "(last_applied (node lc 1), last_applied (node lc 3)) = (2, 0)"
    "(last_applied (node lc' 1), last_applied (node lc' 3)) = (2, 2)"
    by (rule safe_run_obtain [OF succession_applied succession_actors])
  have m: "\<forall>p \<in> {1, 2, 3}. fresh_node {1, 2, 3} p (three_nodes p) \<and> state_machine (three_nodes p) = tsm_new"
    using three_nodes_fresh by (auto simp: three_nodes_def new_node_def raft_core_new_def mem_new_def mem_defs)
  have acts: "list_all (\<lambda>ev. log_actor ev \<in> {1, 2, 3} \<and> restarts_with tsm_new ev) (committing_events @ succession_events)"
    by code_simp
  have "state_machine (node lc 1) = state_machine (node lc' 3)"
    by (rule replicas_agree [OF m _ r(2,3)]) (use r(5,6) acts in \<open>auto simp: list_all_iff\<close>)
  with r(2,3,5) show ?thesis by auto
qed

end
