(* ===== verification/File_Storage.thy ===== *)
theory File_Storage
  imports Storage_Contract Rust_Strings
begin

text \<open>
  The file-based storage, \<open>src/storage/file.rs\<close>. The directory is a map from file names to their
  text; every call to the file system may fail, and where it fails is read off \<open>file_env\<close>, so that
  each \<open>map_err(StorageError::Io)\<close> of the source is a branch here. A write that fails leaves the
  prefix that still fitted on the disk. The operations return the disk also when they fail, because
  that is what the next start of the node finds. The JSON text of an entry and of a snapshot is made
  by serde\_json, which is not part of the repository: it is the parameter \<open>J\<close>.
\<close>

unbundle bit_operations_syntax

section \<open>The checksum\<close>

definition crc_round :: "u32 \<Rightarrow> u32" where
  "crc_round crc = (if crc AND 1 \<noteq> 0 then drop_bit 1 crc XOR 0xEDB88320 else drop_bit 1 crc)"

definition crc_byte :: "char \<Rightarrow> u32 \<Rightarrow> u32" where
  "crc_byte b crc = (crc_round ^^ 8) (crc XOR of_char b)"

definition crc32 :: "string \<Rightarrow> u32" where
  "crc32 data = NOT (fold crc_byte data 0xFFFFFFFF)"

section \<open>The file system\<close>

type_synonym disk = "string \<Rightarrow> string option"

record file_env =
  fs_dir :: string
  dir_error :: "string \<Rightarrow> string option"
  open_error :: "string \<Rightarrow> string option"
  read_error :: "string \<Rightarrow> string option"
  size_limit :: "string \<Rightarrow> (nat \<times> string) option"
  sync_error :: "string \<Rightarrow> string option"
  rename_error :: "string \<Rightarrow> string option"

text \<open>A call that may fail, with the disk after it; \<open>?\<close> continues only after success.\<close>

type_synonym 'a io = "disk \<Rightarrow> ('a, storage_error) result \<times> disk"

definition and_then :: "'a io \<Rightarrow> ('a \<Rightarrow> 'b io) \<Rightarrow> 'b io" where
  "and_then p f d = (case p d of (Ok x, d') \<Rightarrow> f x d' | (Err e, d') \<Rightarrow> (Err e, d'))"

definition io_check :: "string option \<Rightarrow> unit io" where
  "io_check r d = (case r of Some msg \<Rightarrow> (Err (Io msg), d) | None \<Rightarrow> (Ok (), d))"

definition text_of :: "disk \<Rightarrow> string \<Rightarrow> string" where
  "text_of d p = (case d p of Some c \<Rightarrow> c | None \<Rightarrow> '''')"

text \<open>\<open>File::create\<close> truncates; \<open>OpenOptions::create(true).append(true)\<close> keeps the text.\<close>

definition file_create :: "file_env \<Rightarrow> string \<Rightarrow> unit io" where
  "file_create E p = and_then (io_check (open_error E p)) (\<lambda>_ d. (Ok (), d(p \<mapsto> '''')))"

definition open_append :: "file_env \<Rightarrow> string \<Rightarrow> unit io" where
  "open_append E p = and_then (io_check (open_error E p)) (\<lambda>_ d. (Ok (), d(p \<mapsto> text_of d p)))"

definition write_all :: "file_env \<Rightarrow> string \<Rightarrow> string \<Rightarrow> unit io" where
  "write_all E p data d =
     (let old = text_of d p
      in case size_limit E p of
           Some (n, msg) \<Rightarrow>
             if n < length old + length data
             then (Err (Io msg), d(p \<mapsto> old @ take (n - length old) data))
             else (Ok (), d(p \<mapsto> old @ data))
         | None \<Rightarrow> (Ok (), d(p \<mapsto> old @ data)))"

definition sync_all :: "file_env \<Rightarrow> string \<Rightarrow> unit io" where
  "sync_all E p = io_check (sync_error E p)"

definition rename_file :: "file_env \<Rightarrow> string \<Rightarrow> string \<Rightarrow> unit io" where
  "rename_file E from to_path =
     and_then (io_check (rename_error E to_path)) (\<lambda>_ d. (Ok (), d(to_path := d from, from := None)))"

text \<open>\<open>{:?}\<close> of a path of the directory.\<close>

definition debug_path :: "file_env \<Rightarrow> string \<Rightarrow> string" where
  "debug_path E p = [CHR 0x22] @ fs_dir E @ ''/'' @ p @ [CHR 0x22]"

section \<open>FileStorage\<close>

definition term_path :: string where "term_path = ''term''"
definition voted_for_path :: string where "voted_for_path = ''voted_for''"
definition log_path :: string where "log_path = ''log''"
definition snapshot_path :: string where "snapshot_path = ''snapshot''"

lemmas path_defs = term_path_def voted_for_path_def log_path_def snapshot_path_def

definition file_storage_new :: "file_env \<Rightarrow> string \<Rightarrow> (file_env, storage_error) result" where
  "file_storage_new E dir =
     (case dir_error E dir of Some msg \<Rightarrow> Err (Io msg) | None \<Rightarrow> Ok (E\<lparr>fs_dir := dir\<rparr>))"

definition checksum_line :: "string \<Rightarrow> string" where
  "checksum_line data = data @ CHR '' '' # show_hex8 (crc32 data) @ [CHR 0x0A]"

definition write_with_checksum :: "file_env \<Rightarrow> string \<Rightarrow> string \<Rightarrow> unit io" where
  "write_with_checksum E p data =
     and_then (file_create E p) (\<lambda>_.
     and_then (write_all E p (checksum_line data)) (\<lambda>_.
     sync_all E p))"

definition read_with_checksum ::
  "file_env \<Rightarrow> string \<Rightarrow> disk \<Rightarrow> (string option, storage_error) result" where
  "read_with_checksum E p d =
     (case d p of
        None \<Rightarrow> Ok None
      | Some text \<Rightarrow>
     (case read_error E p of
        Some msg \<Rightarrow> Err (Io msg)
      | None \<Rightarrow>
     (if \<not> valid_utf8 text then Err (Io invalid_utf8_error)
      else let content = trim text
      in if content = '''' then Ok None
         else case split_last CHR '' '' content of
                None \<Rightarrow> Err (Corruption (''invalid format in '' @ debug_path E p @ '': missing checksum''))
              | Some (data, checksum_str) \<Rightarrow>
             (case parse_hex32 checksum_str of
                None \<Rightarrow> Err (Corruption (''invalid checksum format in '' @ debug_path E p))
              | Some stored \<Rightarrow>
                  if stored \<noteq> crc32 data
                  then Err (Corruption (''checksum mismatch in '' @ debug_path E p @ '': stored '' @
                         show_hex8 stored @ '', computed '' @ show_hex8 (crc32 data)))
                  else Ok (Some data)))))"

text \<open>\<open>Path::with_extension\<close>, for the file names of the directory.\<close>

definition with_extension :: "string \<Rightarrow> string \<Rightarrow> string" where
  "with_extension p ext = takeWhile (\<lambda>c. c \<noteq> CHR ''.'') p @ ''.'' @ ext"

definition atomic_write :: "file_env \<Rightarrow> string \<Rightarrow> string \<Rightarrow> unit io" where
  "atomic_write E p data =
     (let temp_path = with_extension p ''tmp''
      in and_then (file_create E temp_path) (\<lambda>_.
         and_then (write_all E temp_path data) (\<lambda>_.
         and_then (sync_all E temp_path) (\<lambda>_.
         rename_file E temp_path p))))"

section \<open>impl Storage for FileStorage\<close>

text \<open>serde\_json on strings: \<open>to_string\<close> and \<open>from_str\<close>.\<close>

record 'a json_text =
  to_string :: "'a \<Rightarrow> (string, string) result"
  from_str :: "string \<Rightarrow> ('a, string) result"

record file_json =
  entry_json :: "log_entry json_text"
  snapshot_json :: "snapshot json_text"

definition file_load_term :: "file_env \<Rightarrow> disk \<Rightarrow> (u64, storage_error) result" where
  "file_load_term E d =
     (case read_with_checksum E term_path d of
        Err e \<Rightarrow> Err e
      | Ok None \<Rightarrow> Ok 0
      | Ok (Some data) \<Rightarrow>
          (case parse_u64 data of Ok t \<Rightarrow> Ok t | Err e \<Rightarrow> Err (Corruption (''invalid term: '' @ e))))"

definition file_save_term :: "file_env \<Rightarrow> u64 \<Rightarrow> unit io" where
  "file_save_term E t = write_with_checksum E term_path (show_u64 t)"

definition file_load_voted_for :: "file_env \<Rightarrow> disk \<Rightarrow> (u64 option, storage_error) result" where
  "file_load_voted_for E d =
     (case read_with_checksum E voted_for_path d of
        Err e \<Rightarrow> Err e
      | Ok None \<Rightarrow> Ok None
      | Ok (Some data) \<Rightarrow>
          if data = ''none'' then Ok None
          else case parse_u64 data of
                 Ok i \<Rightarrow> Ok (Some i) | Err e \<Rightarrow> Err (Corruption (''invalid voted_for: '' @ e)))"

definition vote_text :: "u64 option \<Rightarrow> string" where
  "vote_text v = (case v of Some i \<Rightarrow> show_u64 i | None \<Rightarrow> ''none'')"

definition file_save_voted_for :: "file_env \<Rightarrow> u64 option \<Rightarrow> unit io" where
  "file_save_voted_for E v = write_with_checksum E voted_for_path (vote_text v)"

definition parse_log_line :: "file_json \<Rightarrow> nat \<Rightarrow> string \<Rightarrow> (log_entry, storage_error) result" where
  "parse_log_line J num line =
     (case split_last CHR '' '' line of
        None \<Rightarrow> Err (Corruption (''invalid log format at line '' @ show_nat num @ '': missing checksum''))
      | Some (json, checksum_str) \<Rightarrow>
     (case parse_hex32 checksum_str of
        None \<Rightarrow> Err (Corruption (''invalid checksum format at line '' @ show_nat num))
      | Some stored \<Rightarrow>
          if stored \<noteq> crc32 json
          then Err (Corruption (''checksum mismatch at line '' @ show_nat num @ '': stored '' @
                 show_hex8 stored @ '', computed '' @ show_hex8 (crc32 json)))
          else case from_str (entry_json J) json of
                 Ok entry \<Rightarrow> Ok entry
               | Err e \<Rightarrow> Err (Corruption (''invalid log entry at line '' @ show_nat num @ '': '' @ e))))"

fun load_log_lines :: "file_json \<Rightarrow> nat \<Rightarrow> string list \<Rightarrow> (log_entry list, storage_error) result" where
  "load_log_lines J num [] = Ok []"
| "load_log_lines J num (line # rest) =
     (if \<not> valid_utf8 line then Err (Io invalid_utf8_error)
      else if trim line = '''' then load_log_lines J (num + 1) rest
      else case parse_log_line J (num + 1) line of
             Err e \<Rightarrow> Err e
           | Ok entry \<Rightarrow>
               (case load_log_lines J (num + 1) rest of
                  Err e \<Rightarrow> Err e
                | Ok entries \<Rightarrow> Ok (entry # entries)))"

definition file_load_log :: "file_json \<Rightarrow> file_env \<Rightarrow> disk \<Rightarrow> (log_entry list, storage_error) result" where
  "file_load_log J E d =
     (case d log_path of
        None \<Rightarrow> Ok []
      | Some text \<Rightarrow>
          (case read_error E log_path of
             Some msg \<Rightarrow> Err (Io msg)
           | None \<Rightarrow> load_log_lines J 0 (lines text)))"

fun append_rows :: "file_json \<Rightarrow> file_env \<Rightarrow> log_entry list \<Rightarrow> unit io" where
  "append_rows J E [] d = (Ok (), d)"
| "append_rows J E (e # es) d =
     (case to_string (entry_json J) e of
        Err m \<Rightarrow> (Err (Io (''serialization error: '' @ m)), d)
      | Ok json \<Rightarrow> and_then (write_all E log_path (checksum_line json)) (\<lambda>_. append_rows J E es) d)"

definition file_append_log_entries :: "file_json \<Rightarrow> file_env \<Rightarrow> log_entry list \<Rightarrow> unit io" where
  "file_append_log_entries J E es =
     and_then (open_append E log_path) (\<lambda>_.
     and_then (append_rows J E es) (\<lambda>_.
     sync_all E log_path))"

fun log_text :: "file_json \<Rightarrow> log_entry list \<Rightarrow> (string, storage_error) result" where
  "log_text J [] = Ok ''''"
| "log_text J (e # es) =
     (case to_string (entry_json J) e of
        Err m \<Rightarrow> Err (Io (''serialization error: '' @ m))
      | Ok json \<Rightarrow>
          (case log_text J es of Err m \<Rightarrow> Err m | Ok text \<Rightarrow> Ok (checksum_line json @ text)))"

text \<open>\<open>truncate_log\<close> and \<open>compact_log\<close>: filter the entries, write the file anew.\<close>

definition rewrite_log :: "file_json \<Rightarrow> file_env \<Rightarrow> log_entry list \<Rightarrow> unit io" where
  "rewrite_log J E keep d =
     (case log_text J keep of Err e \<Rightarrow> (Err e, d) | Ok content \<Rightarrow> atomic_write E log_path content d)"

definition file_truncate_log :: "file_json \<Rightarrow> file_env \<Rightarrow> u64 \<Rightarrow> unit io" where
  "file_truncate_log J E from_index d =
     (case file_load_log J E d of
        Err e \<Rightarrow> (Err e, d)
      | Ok entries \<Rightarrow> rewrite_log J E (filter (\<lambda>e. le_index e < from_index) entries) d)"

definition file_compact_log :: "file_json \<Rightarrow> file_env \<Rightarrow> u64 \<Rightarrow> unit io" where
  "file_compact_log J E before_index d =
     (case file_load_log J E d of
        Err e \<Rightarrow> (Err e, d)
      | Ok entries \<Rightarrow> rewrite_log J E (filter (\<lambda>e. before_index \<le> le_index e) entries) d)"

definition file_load_snapshot ::
  "file_json \<Rightarrow> file_env \<Rightarrow> disk \<Rightarrow> (snapshot option, storage_error) result" where
  "file_load_snapshot J E d =
     (case read_with_checksum E snapshot_path d of
        Err e \<Rightarrow> Err e
      | Ok None \<Rightarrow> Ok None
      | Ok (Some json) \<Rightarrow>
          (case from_str (snapshot_json J) json of
             Ok sn \<Rightarrow> Ok (Some sn)
           | Err e \<Rightarrow> Err (Corruption (''invalid snapshot: '' @ e))))"

definition file_save_snapshot :: "file_json \<Rightarrow> file_env \<Rightarrow> snapshot \<Rightarrow> unit io" where
  "file_save_snapshot J E sn d =
     (case to_string (snapshot_json J) sn of
        Err e \<Rightarrow> (Err (Io (''snapshot serialization error: '' @ e)), d)
      | Ok json \<Rightarrow> write_with_checksum E snapshot_path json d)"

text \<open>The method table. A failed call returns its error with the disk it left.\<close>

definition disk_after :: "(unit, storage_error) result \<times> disk \<Rightarrow> disk stored" where
  "disk_after r = (case r of (Ok _, d) \<Rightarrow> Ok d | (Err e, d) \<Rightarrow> Err (e, d))"

definition file_ops :: "file_json \<Rightarrow> file_env \<Rightarrow> disk storage_ops" where
  "file_ops J E =
     \<lparr>load_term = file_load_term E,
      save_term = (\<lambda>d t. disk_after (file_save_term E t d)),
      load_voted_for = file_load_voted_for E,
      save_voted_for = (\<lambda>d v. disk_after (file_save_voted_for E v d)),
      load_log = file_load_log J E,
      append_log_entries = (\<lambda>d es. disk_after (file_append_log_entries J E es d)),
      truncate_log = (\<lambda>d i. disk_after (file_truncate_log J E i d)),
      compact_log = (\<lambda>d i. disk_after (file_compact_log J E i d)),
      st_load_snapshot = file_load_snapshot J E,
      save_snapshot = (\<lambda>d sn. disk_after (file_save_snapshot J E sn d))\<rparr>"

section \<open>What a successful call leaves on the disk\<close>

lemma and_then_Ok:
  "and_then p f d = (Ok y, d'') \<longleftrightarrow> (\<exists>x d'. p d = (Ok x, d') \<and> f x d' = (Ok y, d''))"
  by (auto simp: and_then_def split: prod.splits sum.splits)

lemma io_check_Ok [simp]: "io_check r d = (Ok u, d') \<longleftrightarrow> r = None \<and> d' = d"
  by (auto simp: io_check_def split: option.splits)

lemma disk_after_Ok: "disk_after r = Ok d' \<longleftrightarrow> (\<exists>u. r = (Ok u, d'))"
  by (auto simp: disk_after_def split: prod.splits sum.splits)

lemma disk_after_Err: "disk_after r = Err (e, d') \<longleftrightarrow> r = (Err e, d')"
  by (auto simp: disk_after_def split: prod.splits sum.splits)

lemma file_create_Ok: "file_create E p d = (Ok u, d') \<Longrightarrow> d' = d(p \<mapsto> '''')"
  by (auto simp: file_create_def and_then_Ok)

lemma open_append_Ok: "open_append E p d = (Ok u, d') \<Longrightarrow> d' = d(p \<mapsto> text_of d p)"
  by (auto simp: open_append_def and_then_Ok)

lemma write_all_Ok: "write_all E p data d = (Ok u, d') \<Longrightarrow> d' = d(p \<mapsto> text_of d p @ data)"
  by (auto simp: write_all_def Let_def split: option.splits if_splits)

lemma text_of_upd [simp]: "text_of (d(p \<mapsto> c)) p = c"
  by (simp add: text_of_def)

lemma write_with_checksum_Ok:
  "write_with_checksum E p data d = (Ok u, d') \<Longrightarrow> d' = d(p \<mapsto> checksum_line data)"
  by (auto simp: write_with_checksum_def and_then_Ok sync_all_def dest!: file_create_Ok write_all_Ok)

lemma log_tmp: "with_extension log_path ''tmp'' = ''log.tmp''"
  by (simp add: with_extension_def log_path_def)

lemma atomic_write_Ok:
  assumes "atomic_write E log_path data d = (Ok u, d')"
  shows "d' = d(log_path \<mapsto> data, ''log.tmp'' := None)"
  using assms
  by (auto simp: atomic_write_def Let_def and_then_Ok sync_all_def rename_file_def log_tmp
           dest!: file_create_Ok write_all_Ok)

lemma rewrite_log_Ok:
  assumes "rewrite_log J E keep d = (Ok u, d')"
  obtains content where "log_text J keep = Ok content" "d' = d(log_path \<mapsto> content, ''log.tmp'' := None)"
  using assms by (auto simp: rewrite_log_def split: sum.splits dest: atomic_write_Ok)

lemma append_rows_Ok:
  assumes "append_rows J E es d = (Ok u, d')"
  obtains rows where "log_text J es = Ok rows"
    "text_of d' log_path = text_of d log_path @ rows" "\<And>p. p \<noteq> log_path \<Longrightarrow> d' p = d p"
    "d log_path \<noteq> None \<Longrightarrow> d' log_path \<noteq> None"
  using assms
proof (induction es arbitrary: d thesis)
  case Nil
  then show ?case by auto
next
  case (Cons e es)
  from Cons.prems(2) obtain json d1 where j: "to_string (entry_json J) e = Ok json"
    and w: "write_all E log_path (checksum_line json) d = (Ok (), d1)" and a: "append_rows J E es d1 = (Ok u, d')"
    by (auto simp: and_then_Ok split: sum.splits)
  note d1 = write_all_Ok [OF w]
  obtain rows where "log_text J es = Ok rows"
    "text_of d' log_path = text_of d1 log_path @ rows" "\<And>p. p \<noteq> log_path \<Longrightarrow> d' p = d1 p"
    "d1 log_path \<noteq> None \<Longrightarrow> d' log_path \<noteq> None"
    using Cons.IH [OF _ a] by metis
  then show ?case using j d1 by (intro Cons.prems(1) [of "checksum_line json @ rows"]) auto
qed

lemma file_append_Ok:
  assumes "file_append_log_entries J E es d = (Ok u, d')"
  obtains rows where "log_text J es = Ok rows" "d' log_path = Some (text_of d log_path @ rows)"
    "\<And>p. p \<noteq> log_path \<Longrightarrow> d' p = d p"
proof -
  from assms obtain d1 d2 u1 u2 where o: "open_append E log_path d = (Ok u1, d1)"
    and a: "append_rows J E es d1 = (Ok u2, d2)" and d': "d' = d2"
    by (auto simp: file_append_log_entries_def and_then_Ok sync_all_def)
  note d1 = open_append_Ok [OF o]
  show thesis
    by (rule append_rows_Ok [OF a], rule that) (use d1 d' in \<open>auto simp: text_of_def split: option.splits\<close>)
qed

section \<open>Reading back\<close>

lemma plain_hex: "d < 16 \<Longrightarrow> plain_char (hex_char d)"
proof -
  assume d: "d < 16"
  then have "hex_val (hex_char d) \<noteq> None" by (simp add: hex_val_char)
  then have "\<not> is_space (hex_char d)" by (auto simp: is_space_def hex_val_def)
  with d show "plain_char (hex_char d)" by (simp add: plain_char_def is_ascii_hex)
qed

lemma plain_hex_digits: "c \<in> set (hex_digits k n) \<Longrightarrow> plain_char c"
  by (induction k arbitrary: n) (auto simp: plain_hex)

lemma show_hex8_ascii: "valid_utf8 (show_hex8 c)"
  by (rule ascii_valid_utf8) (auto simp: show_hex8_def hex_digits_ascii)

lemma valid_checksum_text: "valid_utf8 (data @ CHR '' '' # show_hex8 c @ rest) \<longleftrightarrow> valid_utf8 (data @ rest)" if "valid_utf8 data"
  using that by (simp add: valid_utf8_append valid_utf8_Cons is_ascii_def show_hex8_ascii)

lemma valid_checksum_line: "valid_utf8 data \<Longrightarrow> valid_utf8 (checksum_line data)"
  by (simp add: checksum_line_def valid_utf8_append [of data] valid_utf8_append [OF show_hex8_ascii]
      valid_utf8_Cons is_ascii_def)

text \<open>What follows the data does not change whether the text is valid UTF-8, for valid and invalid data.\<close>

lemma utf8_lead_ranges: "utf8_lead n = Some ps \<Longrightarrow> p \<in> set ps \<Longrightarrow> 0x80 \<le> fst p"
  by (auto simp: utf8_lead_def split: if_split_asm)

lemma utf8_from_ascii_tail:
  "\<forall>c \<in> set t. is_ascii c \<Longrightarrow> \<forall>p \<in> set ps. 0x80 \<le> fst p \<Longrightarrow> utf8_from ps (s @ t) \<longleftrightarrow> utf8_from ps s"
proof (induction ps s rule: utf8_from.induct)
  case 1
  then show ?case using ascii_valid_utf8 by (simp add: valid_utf8_def)
next
  case (2 p ps)
  then show ?case by (cases t) (auto simp: is_ascii_def)
next
  case (4 c cs)
  then show ?case using utf8_lead_ranges by (auto split: option.splits)
qed auto

lemma valid_utf8_line: "valid_utf8 (data @ CHR '' '' # show_hex8 c @ [CHR 0x0A]) \<longleftrightarrow> valid_utf8 data"
proof -
  have "\<forall>x \<in> set (CHR '' '' # show_hex8 c @ [CHR 0x0A]). is_ascii x"
    using hex_digits_ascii by (auto simp: show_hex8_def) (simp_all add: is_ascii_def)
  then show ?thesis unfolding valid_utf8_def by (rule utf8_from_ascii_tail) simp
qed

lemma show_hex8_ends: "show_hex8 c \<noteq> ''''" "plain_char (last (show_hex8 c))" "CHR '' '' \<notin> set (show_hex8 c)"
proof -
  have e: "show_hex8 c = hex_digits 7 (unat c div 16) @ [hex_char (unat c mod 16)]"
    using hex_digits.simps(2) [of 7 "unat c"] by (simp add: show_hex8_def del: hex_digits.simps)
  then show "show_hex8 c \<noteq> ''''" by simp
  show "CHR '' '' \<notin> set (show_hex8 c)" using hex_digits_no by (auto simp: show_hex8_def)
  show "plain_char (last (show_hex8 c))" using e by (simp add: plain_hex)
qed

lemma read_with_checksum_line:
  assumes "d p = Some (checksum_line data)" "read_error E p = None" "data \<noteq> ''''" "plain_char (hd data)"
    and "valid_utf8 data"
  shows "read_with_checksum E p d = Ok (Some data)"
proof -
  let ?h = "show_hex8 (crc32 data)" and ?l = "data @ CHR '' '' # show_hex8 (crc32 data)"
  have "trim (checksum_line data) = ?l"
    using trim_line(1) [of ?l] assms(3,4) show_hex8_ends [of "crc32 data"] by (simp add: checksum_line_def)
  then show ?thesis
    using assms(1,2) valid_checksum_line [OF assms(5)] split_last_append [OF show_hex8_ends(3)]
    by (simp add: read_with_checksum_def parse_show_hex8)
qed

lemma read_with_checksum_cong: "d' p = d p \<Longrightarrow> read_with_checksum E p d' = read_with_checksum E p d"
  by (simp add: read_with_checksum_def)

lemma plain_digit: "x \<le> 9 \<Longrightarrow> plain_char (digit_char x)"
  using digit_val_char [of x] by (auto simp: plain_char_def is_ascii_digit is_space_def digit_val_def)

lemma plain_show_u64: "c \<in> set (show_u64 x) \<Longrightarrow> plain_char c"
  using show_nat_digits [of "unat x"] plain_digit by (fastforce simp: show_u64_def)

lemma plain_valid_utf8: "\<forall>c \<in> set s. plain_char c \<Longrightarrow> valid_utf8 s"
  by (rule ascii_valid_utf8) (simp add: plain_char_def)

lemma show_u64_hd: "show_u64 x \<noteq> ''''" "plain_char (hd (show_u64 x))" "show_u64 x \<noteq> ''none''"
  "valid_utf8 (show_u64 x)"
proof -
  show ne: "show_u64 x \<noteq> ''''" by (simp add: show_u64_def)
  have "hd (show_u64 x) \<in> set (show_u64 x)" using ne by (rule hd_in_set)
  then have d: "hd (show_u64 x) \<in> digit_char ` {0..9}" using show_nat_digits [of "unat x"] by (auto simp: show_u64_def)
  then show "plain_char (hd (show_u64 x))" using plain_digit by auto
  from d show "show_u64 x \<noteq> ''none''" using digit_char_neq(4) by (metis atLeastAtMost_iff imageE list.sel(1))
  show "valid_utf8 (show_u64 x)" by (rule plain_valid_utf8) (simp add: plain_show_u64)
qed

lemma file_save_term_Ok:
  assumes "file_save_term E t d = (Ok u, d')" "read_error R term_path = None"
  shows "file_load_term R d' = Ok t"
proof -
  have d': "d' = d(term_path \<mapsto> checksum_line (show_u64 t))"
    using assms(1) unfolding file_save_term_def by (rule write_with_checksum_Ok)
  have "read_with_checksum R term_path d' = Ok (Some (show_u64 t))"
    using d' assms(2) show_u64_hd(1,2,4) by (intro read_with_checksum_line) simp_all
  then show ?thesis by (simp add: file_load_term_def parse_show_u64)
qed

lemma file_save_voted_for_Ok:
  assumes "file_save_voted_for E v d = (Ok u, d')" "read_error R voted_for_path = None"
  shows "file_load_voted_for R d' = Ok v"
proof -
  have d': "d' = d(voted_for_path \<mapsto> checksum_line (vote_text v))"
    using assms(1) unfolding file_save_voted_for_def by (rule write_with_checksum_Ok)
  have "vote_text v \<noteq> '''' \<and> plain_char (hd (vote_text v)) \<and> valid_utf8 (vote_text v)"
    using show_u64_hd
    by (cases v) (simp_all add: vote_text_def plain_char_def is_ascii_def is_space_def valid_utf8_Cons)
  then have "read_with_checksum R voted_for_path d' = Ok (Some (vote_text v))"
    using d' assms(2) by (intro read_with_checksum_line) simp_all
  then show ?thesis
    using show_u64_hd(3) by (cases v) (simp_all add: file_load_voted_for_def vote_text_def parse_show_u64)
qed

section \<open>The log file\<close>

text \<open>What the storage relies on of serde\_json: the text of a value is a \<open>String\<close> (UTF-8), reads back as the
  value, stays on one line and starts with an ASCII character other than white space (the brace).\<close>

definition json_text_ok :: "'a json_text \<Rightarrow> bool" where
  "json_text_ok C \<longleftrightarrow>
     (\<forall>x s. to_string C x = Ok s \<longrightarrow>
        from_str C s = Ok x \<and> valid_utf8 s \<and> CHR 0x0A \<notin> set s \<and> s \<noteq> '''' \<and> plain_char (hd s))"

definition file_json_ok :: "file_json \<Rightarrow> bool" where
  "file_json_ok J \<longleftrightarrow> json_text_ok (entry_json J) \<and> json_text_ok (snapshot_json J)"

lemma json_text_okD:
  "json_text_ok C \<Longrightarrow> to_string C x = Ok s \<Longrightarrow>
     from_str C s = Ok x \<and> valid_utf8 s \<and> CHR 0x0A \<notin> set s \<and> s \<noteq> '''' \<and> plain_char (hd s)"
  by (simp add: json_text_ok_def)

definition complete_lines :: "string \<Rightarrow> bool" where
  "complete_lines t \<longleftrightarrow> t = '''' \<or> last t = CHR 0x0A"

definition log_clean :: "disk \<Rightarrow> bool" where
  "log_clean d \<longleftrightarrow> complete_lines (text_of d log_path)"

lemma lines_from_append:
  "lines_from cur (a @ CHR 0x0A # b) = lines_from cur (a @ [CHR 0x0A]) @ lines b"
  by (induction a arbitrary: cur) (simp_all add: lines_def)

lemma lines_append: "complete_lines a \<Longrightarrow> lines (a @ b) = lines a @ lines b"
proof (cases a rule: rev_cases)
  case Nil
  then show ?thesis by (simp add: lines_def)
next
  case (snoc xs x)
  moreover assume "complete_lines a"
  ultimately show ?thesis using lines_from_append [of "[]" xs b] by (simp add: complete_lines_def lines_def)
qed

lemma load_log_lines_append:
  "load_log_lines J n (xs @ ys) =
     (case load_log_lines J n xs of
        Err e \<Rightarrow> Err e
      | Ok as \<Rightarrow> (case load_log_lines J (n + length xs) ys of Err e \<Rightarrow> Err e | Ok bs \<Rightarrow> Ok (as @ bs)))"
  by (induction J n xs rule: load_log_lines.induct) (auto split: sum.splits)

lemma checksum_line_lines:
  assumes "data \<noteq> ''''" "plain_char (hd data)" "CHR 0x0A \<notin> set data"
  shows "lines (checksum_line data @ rest) = (data @ CHR '' '' # show_hex8 (crc32 data)) # lines rest"
    "trim (data @ CHR '' '' # show_hex8 (crc32 data)) \<noteq> ''''"
proof -
  let ?l = "data @ CHR '' '' # show_hex8 (crc32 data)"
  note h = show_hex8_ends [of "crc32 data"]
  have last: "plain_char (last ?l)" using h by simp
  then have "last ?l \<noteq> CHR 0x0D" by (auto simp: plain_char_def is_space_def)
  then have cr: "strip_cr ?l = ?l" by (simp add: strip_cr_def)
  have "CHR 0x0A \<notin> set ?l" using assms(3) hex_digits_no by (auto simp: show_hex8_def)
  from lines_cons [OF this, of rest] show "lines (checksum_line data @ rest) = ?l # lines rest"
    unfolding cr by (simp add: checksum_line_def)
  show "trim ?l \<noteq> ''''" using trim_line(2) [of ?l] last assms(1,2) by simp
qed

lemma load_log_text:
  assumes J: "json_text_ok (entry_json J)"
  shows "log_text J es = Ok content \<Longrightarrow> load_log_lines J n (lines content) = Ok es"
proof (induction es arbitrary: n content)
  case Nil
  then show ?case by (simp add: lines_def)
next
  case (Cons e es)
  from Cons.prems obtain json rest where j: "to_string (entry_json J) e = Ok json"
    and r: "log_text J es = Ok rest" and content: "content = checksum_line json @ rest"
    by (auto split: sum.splits)
  note c = json_text_okD [OF J j]
  have "parse_log_line J (n + 1) (json @ CHR '' '' # show_hex8 (crc32 json)) = Ok e"
    using c by (simp add: parse_log_line_def split_last_append [OF show_hex8_ends(3)] parse_show_hex8)
  moreover have "valid_utf8 (json @ CHR '' '' # show_hex8 (crc32 json))"
    using c valid_checksum_text [of json "crc32 json" "[]"] by simp
  ultimately show ?case
    using checksum_line_lines c Cons.IH [OF r, of "n + 1"] by (simp add: content)
qed

lemma log_text_complete: "log_text J es = Ok content \<Longrightarrow> complete_lines content"
proof (induction es arbitrary: content)
  case (Cons e es)
  then show ?case by (auto simp: complete_lines_def checksum_line_def split: sum.splits if_splits)
qed (simp add: complete_lines_def)

lemma file_append_load:
  assumes J: "json_text_ok (entry_json J)" and clean: "log_clean d" and l: "file_load_log J E d = Ok l"
    and reads: "read_error E log_path = None" and app: "file_append_log_entries J E es d = (Ok u, d')"
  shows "file_load_log J E d' = Ok (l @ es)" "log_clean d'"
proof -
  obtain rows where rows: "log_text J es = Ok rows" and d': "d' log_path = Some (text_of d log_path @ rows)"
    using app by (rule file_append_Ok)
  have "load_log_lines J 0 (lines (text_of d log_path)) = Ok l"
    using l reads by (auto simp: file_load_log_def text_of_def lines_def split: option.splits)
  then show "file_load_log J E d' = Ok (l @ es)"
    using clean load_log_text [OF J rows] d' reads
    by (simp add: file_load_log_def log_clean_def lines_append load_log_lines_append)
  show "log_clean d'"
    using clean log_text_complete [OF rows] d' by (cases "rows = ''''") (auto simp: log_clean_def text_of_def complete_lines_def last_append)
qed

lemma rewrite_log_load:
  assumes J: "json_text_ok (entry_json J)" and reads: "read_error E log_path = None"
    and re: "rewrite_log J E keep d = (Ok u, d')"
  shows "file_load_log J E d' = Ok keep" "log_clean d'"
proof -
  obtain content where c: "log_text J keep = Ok content" "d' = d(log_path \<mapsto> content, ''log.tmp'' := None)"
    using re by (rule rewrite_log_Ok)
  then have d': "d' log_path = Some content" by (simp add: log_path_def)
  show "file_load_log J E d' = Ok keep"
    using load_log_text [OF J c(1)] reads d' by (simp add: file_load_log_def)
  show "log_clean d'" using log_text_complete [OF c(1)] d' by (simp add: log_clean_def text_of_def)
qed

lemma file_truncate_Ok:
  assumes "file_truncate_log J E i d = (Ok u, d')"
  obtains l where "file_load_log J E d = Ok l" "rewrite_log J E (filter (\<lambda>e. le_index e < i) l) d = (Ok u, d')"
  using assms by (auto simp: file_truncate_log_def split: sum.splits)

lemma file_compact_Ok:
  assumes "file_compact_log J E i d = (Ok u, d')"
  obtains l where "file_load_log J E d = Ok l" "rewrite_log J E (filter (\<lambda>e. i \<le> le_index e) l) d = (Ok u, d')"
  using assms by (auto simp: file_compact_log_def split: sum.splits)

lemma file_save_snapshot_Ok:
  assumes "file_save_snapshot J E sn d = (Ok u, d')"
  obtains json where "to_string (snapshot_json J) sn = Ok json" "d' = d(snapshot_path \<mapsto> checksum_line json)"
  using assms by (auto simp: file_save_snapshot_def split: sum.splits dest: write_with_checksum_Ok)

section \<open>Each operation touches its own file\<close>

definition own_file :: "string \<Rightarrow> disk \<Rightarrow> disk \<Rightarrow> bool" where
  "own_file p d d' \<longleftrightarrow> (\<forall>q. q \<noteq> p \<longrightarrow> q \<noteq> ''log.tmp'' \<longrightarrow> d' q = d q)"

lemma file_ops_own:
  "file_save_term E t d = (Ok u, d') \<Longrightarrow> own_file term_path d d'"
  "file_save_voted_for E v d = (Ok u, d') \<Longrightarrow> own_file voted_for_path d d'"
  "file_append_log_entries J E es d = (Ok u, d') \<Longrightarrow> own_file log_path d d'"
  "rewrite_log J E es d = (Ok u, d') \<Longrightarrow> own_file log_path d d'"
  "file_truncate_log J E i d = (Ok u, d') \<Longrightarrow> own_file log_path d d'"
  "file_compact_log J E i d = (Ok u, d') \<Longrightarrow> own_file log_path d d'"
  "file_save_snapshot J E sn d = (Ok u, d') \<Longrightarrow> own_file snapshot_path d d'"
proof -
  show rw: "own_file log_path d d'" if "rewrite_log J E es d = (Ok u, d')" for es u
    using that by (rule rewrite_log_Ok) (simp add: own_file_def)
  show "own_file log_path d d'" if "file_truncate_log J E i d = (Ok u, d')"
    using that rw by (elim file_truncate_Ok)
  show "own_file log_path d d'" if "file_compact_log J E i d = (Ok u, d')"
    using that rw by (elim file_compact_Ok)
qed (auto simp: own_file_def file_save_term_def file_save_voted_for_def
       elim: file_append_Ok file_save_snapshot_Ok dest!: write_with_checksum_Ok)

lemma rewrite_log_Err:
  assumes "rewrite_log J E keep d = (Err e, d')"
  shows "p \<noteq> ''log.tmp'' \<Longrightarrow> d' p = d p"
  using assms
  by (auto simp: rewrite_log_def atomic_write_def Let_def and_then_def file_create_def write_all_def sync_all_def
      rename_file_def io_check_def with_extension_def log_path_def split: option.splits prod.splits sum.splits if_splits)

text \<open>What a failed \<open>write_with_checksum\<close> can leave: the old text, or a prefix of the new one.\<close>

lemma write_with_checksum_Err:
  assumes "write_with_checksum E p data d = (Err e, d')"
  shows "d' = d \<or> (\<exists>k. d' = d(p \<mapsto> take k (checksum_line data)))"
  using assms
  by (auto simp: write_with_checksum_def and_then_def file_create_def write_all_def sync_all_def io_check_def
      text_of_def split: option.splits prod.splits sum.splits if_splits)
    (metis order_refl take_all take0)+

text \<open>A failed rewrite leaves every file of the node as it was, a failed snapshot all but the snapshot.\<close>

lemma failed_rewrite_same:
  assumes "file_truncate_log J E i d = (Err e, d') \<or> file_compact_log J E i d = (Err e, d')" "p \<noteq> ''log.tmp''"
  shows "d' p = d p"
proof -
  consider "d' = d" | keep where "rewrite_log J E keep d = (Err e, d')"
    using assms(1) by (auto simp: file_truncate_log_def file_compact_log_def split: sum.splits)
  then show ?thesis using rewrite_log_Err assms(2) by cases auto
qed

lemma failed_ops_own:
  "file_compact_log J E i d = (Err e, d') \<Longrightarrow> own_file ''log.tmp'' d d'"
  "file_save_snapshot J E sn d = (Err e, d') \<Longrightarrow> own_file snapshot_path d d'"
proof -
  show "own_file ''log.tmp'' d d'" if "file_compact_log J E i d = (Err e, d')"
    using failed_rewrite_same [OF disjI2 [OF that]] by (simp add: own_file_def)
  show "own_file snapshot_path d d'" if "file_save_snapshot J E sn d = (Err e, d')"
    using that by (auto simp: own_file_def file_save_snapshot_def split: sum.splits dest!: write_with_checksum_Err)
qed

lemma own_file_loads:
  "own_file p d d' \<Longrightarrow> p \<noteq> term_path \<Longrightarrow> file_load_term E d' = file_load_term E d"
  "own_file p d d' \<Longrightarrow> p \<noteq> voted_for_path \<Longrightarrow> file_load_voted_for E d' = file_load_voted_for E d"
  "own_file p d d' \<Longrightarrow> p \<noteq> snapshot_path \<Longrightarrow> file_load_snapshot J E d' = file_load_snapshot J E d"
  "own_file p d d' \<Longrightarrow> p \<noteq> log_path \<Longrightarrow> file_load_log J E d' = file_load_log J E d"
  "own_file p d d' \<Longrightarrow> p \<noteq> log_path \<Longrightarrow> log_clean d' = log_clean d"
  by (simp_all add: own_file_def path_defs file_load_term_def file_load_voted_for_def file_load_snapshot_def
      file_load_log_def log_clean_def text_of_def
      read_with_checksum_cong [of d' "''term''" d] read_with_checksum_cong [of d' "''voted_for''" d]
      read_with_checksum_cong [of d' "''snapshot''" d])

section \<open>The contract of the trait\<close>

abbreviation readable :: "file_env \<Rightarrow> file_env" where
  "readable E \<equiv> E\<lparr>read_error := \<lambda>_. None\<rparr>"

lemma file_ops_sel [simp]:
  "load_term (file_ops J E) = file_load_term E"
  "save_term (file_ops J E) d t = disk_after (file_save_term E t d)"
  "load_voted_for (file_ops J E) = file_load_voted_for E"
  "save_voted_for (file_ops J E) d v = disk_after (file_save_voted_for E v d)"
  "load_log (file_ops J E) = file_load_log J E"
  "append_log_entries (file_ops J E) d es = disk_after (file_append_log_entries J E es d)"
  "truncate_log (file_ops J E) d i = disk_after (file_truncate_log J E i d)"
  "compact_log (file_ops J E) d i = disk_after (file_compact_log J E i d)"
  "st_load_snapshot (file_ops J E) = file_load_snapshot J E"
  "save_snapshot (file_ops J E) d sn = disk_after (file_save_snapshot J E sn d)"
  by (simp_all add: file_ops_def)

lemma path_distinct [simp]:
  "term_path \<noteq> voted_for_path" "term_path \<noteq> log_path" "term_path \<noteq> snapshot_path"
  "voted_for_path \<noteq> term_path" "voted_for_path \<noteq> log_path" "voted_for_path \<noteq> snapshot_path"
  "log_path \<noteq> term_path" "log_path \<noteq> voted_for_path" "log_path \<noteq> snapshot_path"
  "snapshot_path \<noteq> term_path" "snapshot_path \<noteq> voted_for_path" "snapshot_path \<noteq> log_path"
  by (simp_all add: path_defs)

lemma log_tmp_distinct [simp]:
  "''log.tmp'' \<noteq> term_path" "''log.tmp'' \<noteq> voted_for_path" "''log.tmp'' \<noteq> log_path" "''log.tmp'' \<noteq> snapshot_path"
  by (simp_all add: path_defs)

lemmas file_frames = file_ops_own [THEN own_file_loads(1)] file_ops_own [THEN own_file_loads(2)]
  file_ops_own [THEN own_file_loads(3)] file_ops_own [THEN own_file_loads(4)]
  file_ops_own [THEN own_file_loads(5)]

lemmas failed_frames = failed_ops_own [THEN own_file_loads(1)] failed_ops_own [THEN own_file_loads(2)]
  failed_ops_own [THEN own_file_loads(3)] failed_ops_own [THEN own_file_loads(4)]
  failed_ops_own [THEN own_file_loads(5)]

text \<open>A saved term or vote is the one loaded next, whatever write errors the disk has.\<close>

interpretation file_vote: vote_storage "file_ops J (readable E)"
  by unfold_locales
    (auto simp: disk_after_Ok disk_after_Err file_save_term_Ok file_save_voted_for_Ok file_frames failed_frames)

lemma file_save_snapshot_load:
  assumes "json_text_ok (snapshot_json J)" "file_save_snapshot J E sn d = (Ok u, d')"
    "read_error E snapshot_path = None"
  shows "file_load_snapshot J E d' = Ok (Some sn)"
proof -
  obtain json where j: "to_string (snapshot_json J) sn = Ok json" and d': "d' = d(snapshot_path \<mapsto> checksum_line json)"
    using assms(2) by (rule file_save_snapshot_Ok)
  note c = json_text_okD [OF assms(1) j]
  have "read_with_checksum E snapshot_path d' = Ok (Some json)"
    using d' c assms(3) by (intro read_with_checksum_line) simp_all
  then show ?thesis using c by (simp add: file_load_snapshot_def)
qed

lemma file_truncate_load:
  assumes "json_text_ok (entry_json J)" "read_error E log_path = None"
    "file_load_log J E d = Ok l" "file_truncate_log J E i d = (Ok u, d')"
  shows "file_load_log J E d' = Ok (filter (\<lambda>e. le_index e < i) l)"
  using assms(4) by (rule file_truncate_Ok) (use assms rewrite_log_load(1) in auto)

lemma file_compact_load:
  assumes "json_text_ok (entry_json J)" "read_error E log_path = None"
    "file_load_log J E d = Ok l" "file_compact_log J E i d = (Ok u, d')"
  shows "file_load_log J E d' = Ok (filter (\<lambda>e. i \<le> le_index e) l)"
  using assms(4) by (rule file_compact_Ok) (use assms rewrite_log_load(1) in auto)

lemma append_keeps_clean:
  assumes "file_append_log_entries J E es d = (Ok u, d')" "log_clean d"
  shows "log_clean d'"
  using assms(1)
proof (rule file_append_Ok)
  fix rows
  assume "log_text J es = Ok rows" "d' log_path = Some (text_of d log_path @ rows)"
  then show ?thesis
    using assms(2) log_text_complete [of J es rows]
    by (cases "rows = ''''") (auto simp: log_clean_def text_of_def complete_lines_def last_append)
qed

lemma rewrite_clean:
  assumes "rewrite_log J E keep d = (Ok u, d')"
  shows "log_clean d'"
  using assms by (rule rewrite_log_Ok) (auto simp: log_clean_def text_of_def log_path_def dest: log_text_complete)

lemma truncate_clean: "file_truncate_log J E i d = (Ok u, d') \<Longrightarrow> log_clean d'"
  by (erule file_truncate_Ok) (rule rewrite_clean)

lemma compact_clean: "file_compact_log J E i d = (Ok u, d') \<Longrightarrow> log_clean d'"
  by (erule file_compact_Ok) (rule rewrite_clean)

lemma file_log_contract:
  assumes J: "file_json_ok J"
  shows "log_storage (file_ops J (readable E)) log_clean"
proof -
  have j: "json_text_ok (entry_json J)" "json_text_ok (snapshot_json J)" using J by (simp_all add: file_json_ok_def)
  have r: "read_error (readable E) p = None" for p by simp
  show ?thesis
  proof (unfold_locales, goal_cases)
    case (3 s es s')
    then show ?case using append_keeps_clean by (auto simp: disk_after_Ok)
  next
    case (4 s i s')
    then show ?case using truncate_clean by (auto simp: disk_after_Ok)
  next
    case (5 s i s')
    then show ?case using compact_clean by (auto simp: disk_after_Ok)
  next
    case (9 s l es s')
    then show ?case using file_append_load(1) [OF j(1) _ _ r] by (auto simp: disk_after_Ok)
  next
    case (10 s l i s')
    then show ?case using file_truncate_load [OF j(1) r] by (auto simp: disk_after_Ok)
  next
    case (11 s l i s')
    then show ?case using file_compact_load [OF j(1) r] by (auto simp: disk_after_Ok)
  next
    case (13 s sn s')
    then show ?case using file_save_snapshot_load [OF j(2) _ r] by (auto simp: disk_after_Ok)
  qed (auto simp: disk_after_Ok disk_after_Err file_frames failed_frames)
qed

section \<open>The checksum detects a changed byte\<close>

text \<open>A check value of the IEEE polynomial.\<close>

lemma crc32_check: "crc32 ''a'' = 0xE8B7BE43"
  by code_simp

lemma crc_round_top: "bit (crc_round a) 31 \<longleftrightarrow> odd a"
proof -
  have d: "\<not> bit (drop_bit 1 a) 31" by (auto simp: bit_drop_bit_eq dest: bit_imp_le_length)
  have p: "bit (0xEDB88320 :: u32) 31" by simp
  show ?thesis using d p by (simp add: crc_round_def bit_xor_iff and_one_eq odd_iff_mod_2_eq_one)
qed

lemma inj_crc_round: "inj crc_round"
proof (rule injI)
  fix a b :: u32
  assume eq: "crc_round a = crc_round b"
  then have p: "odd a \<longleftrightarrow> odd b" using crc_round_top by metis
  have "drop_bit 1 a = drop_bit 1 b"
  proof (cases "odd a")
    case True
    then have "drop_bit 1 a XOR (0xEDB88320 :: u32) = drop_bit 1 b XOR 0xEDB88320"
      using eq p by (simp add: crc_round_def and_one_eq odd_iff_mod_2_eq_one)
    then have "(drop_bit 1 a XOR (0xEDB88320 :: u32)) XOR 0xEDB88320 = (drop_bit 1 b XOR 0xEDB88320) XOR 0xEDB88320"
      by (rule arg_cong)
    then show ?thesis by (simp only: xor.assoc xor_self_eq xor.right_neutral)
  next
    case False
    then show ?thesis using eq p by (simp add: crc_round_def and_one_eq even_iff_mod_2_eq_zero)
  qed
  then have s: "bit a (Suc n) = bit b (Suc n)" for n
    by (metis bit_drop_bit_eq plus_1_eq_Suc comp_apply)
  show "a = b"
  proof (rule bit_eqI)
    fix n
    show "bit a n = bit b n" using p s by (cases n) (simp_all add: bit_0)
  qed
qed

lemma inj_crc_byte: "inj (crc_byte b)"
proof (rule injI)
  fix x y
  assume "crc_byte b x = crc_byte b y"
  then have "x XOR of_char b = y XOR (of_char b :: u32)"
    using inj_fn [OF inj_crc_round, of 8] by (simp add: crc_byte_def inj_eq)
  then have "(x XOR of_char b) XOR of_char b = (y XOR (of_char b :: u32)) XOR of_char b" by (rule arg_cong)
  then show "x = y" by (simp only: xor.assoc xor_self_eq xor.right_neutral)
qed

lemma of_char_u32: "(of_char a :: u32) = of_char b \<Longrightarrow> a = b"
proof -
  assume "(of_char a :: u32) = of_char b"
  then have "unat (of_nat (of_char a) :: u32) = unat (of_nat (of_char b) :: u32)" by (simp only: of_nat_of_char)
  moreover have "unat (of_nat (of_char c) :: u32) = of_char c" for c :: char
  proof -
    have "of_char c < (4294967296 :: nat)" using nat_of_char_less_256 [of c] by linarith
    then show ?thesis by (simp add: unat_of_nat)
  qed
  ultimately show "a = b" using of_char_eq_iff by metis
qed

lemma crc_byte_char: "crc_byte a x = crc_byte b x \<Longrightarrow> a = b"
proof -
  assume "crc_byte a x = crc_byte b x"
  then have "x XOR of_char a = x XOR (of_char b :: u32)"
    using inj_fn [OF inj_crc_round, of 8] by (simp add: crc_byte_def inj_eq)
  then have "x XOR (x XOR of_char a) = x XOR (x XOR (of_char b :: u32))" by (rule arg_cong)
  then have "(of_char a :: u32) = of_char b" by (simp add: xor.assoc [symmetric])
  then show "a = b" by (rule of_char_u32)
qed

lemma inj_crc_fold: "fold crc_byte ys x = fold crc_byte ys y \<Longrightarrow> x = y"
  by (induction ys arbitrary: x y) (use inj_crc_byte in \<open>auto simp: inj_eq dest: injD\<close>)

lemma crc32_changed_byte: "crc32 (xs @ a # ys) = crc32 (xs @ b # ys) \<longleftrightarrow> a = b"
proof
  assume "crc32 (xs @ a # ys) = crc32 (xs @ b # ys)"
  then have "fold crc_byte ys (crc_byte a (fold crc_byte xs 0xFFFFFFFF))
           = fold crc_byte ys (crc_byte b (fold crc_byte xs 0xFFFFFFFF))"
    by (simp add: crc32_def bit.compl_eq_compl_iff)
  then show "a = b" using inj_crc_fold crc_byte_char by metis
qed simp

section \<open>Torn writes\<close>

lemma take_line_cases:
  assumes "0 < k"
  obtains (inside) "k \<le> length x" | (blank) "take k (x @ c # h @ [e]) = x @ [c]"
    | (digits) j where "0 < j" "j \<le> length h" "take k (x @ c # h @ [e]) = x @ c # take j h"
    | (all) "take k (x @ c # h @ [e]) = x @ c # h @ [e]"
proof (cases "k \<le> length x")
  case True
  then show thesis by (rule inside)
next
  case False
  then obtain j where k: "k = length x + Suc j" by (metis add_Suc_right less_iff_Suc_add not_le)
  consider "j = 0" | "0 < j" "j \<le> length h" | "length h < j" by linarith
  then show thesis
  proof cases
    case 1
    then show thesis using k by (intro blank) simp
  next
    case 2
    then show thesis using k by (intro digits [of j]) simp_all
  next
    case 3
    then show thesis using k by (intro all) simp
  qed
qed

lemma plain_show_hex8: "c \<in> set (show_hex8 w) \<Longrightarrow> plain_char c"
  by (simp add: show_hex8_def plain_hex_digits)

lemma torn_read:
  assumes x: "x \<noteq> ''''" "\<And>c. c \<in> set x \<Longrightarrow> plain_char c" and r: "read_error E p = None"
    and d: "d p = Some (take k (checksum_line x))" and k: "0 < k"
  shows "read_with_checksum E p d = Ok (Some x) \<or> (\<exists>msg. read_with_checksum E p d = Err (Corruption msg))"
proof -
  let ?h = "show_hex8 (crc32 x)"
  have sp: "CHR '' '' \<notin> set x" using x(2) by (auto simp: plain_char_def is_space_def)
  have line: "checksum_line x = x @ CHR '' '' # ?h @ [CHR 0x0A]" by (simp add: checksum_line_def)
  have "\<forall>c \<in> set (checksum_line x). is_ascii c"
    using x(2) plain_show_hex8 by (auto simp: line plain_char_def is_ascii_def)
  then have utf8: "valid_utf8 (take k (checksum_line x))"
    by (intro ascii_valid_utf8) (auto dest: in_set_takeD)
  have no_sum: ?thesis if "trim (take k (checksum_line x)) = y" "y \<noteq> ''''" "CHR '' '' \<notin> set y" for y
    using that d r utf8 by (simp add: read_with_checksum_def split_last_def)
  have sum: ?thesis if "trim (take k (checksum_line x)) = x @ CHR '' '' # y" "CHR '' '' \<notin> set y" for y
    using that d r utf8 split_last_append [OF that(2), of x]
    by (auto simp: read_with_checksum_def split: option.splits)
  from k show ?thesis
  proof (cases rule: take_line_cases [where x = x and c = "CHR '' ''" and h = ?h and e = "CHR 0x0A"])
    case inside
    let ?y = "take k x"
    have y: "?y \<noteq> ''''" using k x(1) by (cases k) (auto simp: take_Cons' neq_Nil_conv)
    moreover have sub: "set ?y \<subseteq> set x" by (rule set_take_subset)
    ultimately have "hd ?y \<in> set x" "last ?y \<in> set x" using hd_in_set last_in_set by blast+
    then have "trim ?y = ?y" using x(2) y by (intro trim_line(2)) auto
    then show ?thesis using inside y sub sp by (intro no_sum [of ?y]) (auto simp: line)
  next
    case blank
    have "trim (x @ [CHR '' '']) = x"
      using x hd_in_set [OF x(1)] last_in_set [OF x(1)] by (intro trim_space(1)) (auto simp: is_space_def)
    then show ?thesis using blank x(1) sp by (intro no_sum [of x]) (simp_all add: line)
  next
    case (digits j)
    let ?y = "take j ?h"
    have y: "?y \<noteq> ''''" "set ?y \<subseteq> set ?h" using digits show_hex8_ends(1) by (auto dest: in_set_takeD)
    then have "plain_char (last ?y)" using plain_show_hex8 last_in_set by blast
    then have "trim (x @ CHR '' '' # ?y) = x @ CHR '' '' # ?y"
      using x hd_in_set [OF x(1)] y by (intro trim_line(2)) auto
    then show ?thesis using digits y show_hex8_ends(3) by (intro sum [of ?y]) (auto simp: line)
  next
    case all
    let ?l = "x @ CHR '' '' # ?h"
    have "trim (?l @ [CHR 0x0A]) = ?l"
      using x hd_in_set [OF x(1)] show_hex8_ends by (intro trim_line(1)) auto
    then show ?thesis using all show_hex8_ends(3) by (intro sum [of ?h]) (auto simp: line)
  qed
qed

section \<open>A serialisation that meets the assumptions\<close>

text \<open>Entries and snapshots as a brace, their numbers, and their bytes in hexadecimal.\<close>

fun hex_text :: "nat list \<Rightarrow> string" where
  "hex_text [] = []"
| "hex_text (n # ns) = hex_char (n div 16) # hex_char (n mod 16) # hex_text ns"

fun unhex_text :: "string \<Rightarrow> nat list option" where
  "unhex_text [] = Some []"
| "unhex_text [c] = None"
| "unhex_text (c # c' # cs) =
     (case (hex_val c, hex_val c', unhex_text cs) of
        (Some a, Some b, Some ns) \<Rightarrow> Some ((16 * a + b) # ns)
      | _ \<Rightarrow> None)"

definition plain_row :: "u64 \<Rightarrow> u64 \<Rightarrow> nat list \<Rightarrow> string" where
  "plain_row a b ns = CHR ''{'' # show_u64 a @ CHR '','' # show_u64 b @ CHR '','' # hex_text ns"

definition read_row :: "string \<Rightarrow> (u64 \<times> u64 \<times> nat list) option" where
  "read_row s =
     (case splitn 3 CHR '','' (tl s) of
        [a, b, h] \<Rightarrow>
          (case (parse_u64 a, parse_u64 b, unhex_text h) of
             (Ok x, Ok y, Some ns) \<Rightarrow> Some (x, y, ns)
           | _ \<Rightarrow> None)
      | _ \<Rightarrow> None)"

definition plain_file_json :: file_json where
  "plain_file_json =
     \<lparr>entry_json =
        \<lparr>to_string = (\<lambda>e. Ok (plain_row (le_term e) (le_index e) (map of_char (le_command e)))),
         from_str = (\<lambda>s. case read_row s of
           Some (t, i, ns) \<Rightarrow> Ok \<lparr>le_term = t, le_index = i, le_command = map char_of ns\<rparr>
         | None \<Rightarrow> Err ''invalid entry'')\<rparr>,
      snapshot_json =
        \<lparr>to_string = (\<lambda>sn. Ok (plain_row (last_included_index (metadata sn)) (last_included_term (metadata sn))
            (map unat (snapshot_data sn)))),
         from_str = (\<lambda>s. case read_row s of
           Some (i, t, ns) \<Rightarrow>
             Ok \<lparr>metadata = \<lparr>last_included_index = i, last_included_term = t\<rparr>, snapshot_data = map of_nat ns\<rparr>
         | None \<Rightarrow> Err ''invalid snapshot'')\<rparr>\<rparr>"

lemma unhex_hex: "\<forall>n \<in> set ns. n < 256 \<Longrightarrow> unhex_text (hex_text ns) = Some ns"
proof (induction ns)
  case (Cons n ns)
  then have "n div 16 < 16" by (simp add: less_mult_imp_div_less)
  then show ?case using Cons by (simp add: hex_val_char)
qed simp

lemma show_u64_no_comma: "CHR '','' \<notin> set (show_u64 x)"
proof -
  have "digit_char d \<noteq> CHR '',''" if "d \<le> 9" for d
    using digit_val_char [of d] that by (auto simp: digit_val_def)
  then show ?thesis using show_nat_digits [of "unat x"] by (fastforce simp: show_u64_def)
qed

lemma read_plain_row: "\<forall>n \<in> set ns. n < 256 \<Longrightarrow> read_row (plain_row a b ns) = Some (a, b, ns)"
  using splitn_sep [OF show_u64_no_comma, where n = 1] splitn_sep [OF show_u64_no_comma, where n = 0]
  by (simp add: read_row_def plain_row_def parse_show_u64 unhex_hex numeral_3_eq_3 numeral_2_eq_2)

lemma hex_text_no_newline: "\<forall>n \<in> set ns. n < 256 \<Longrightarrow> CHR 0x0A \<notin> set (hex_text ns)"
proof (induction ns)
  case (Cons n ns)
  then have "n div 16 < 16" "n mod 16 < 16" by (simp_all add: less_mult_imp_div_less)
  then have "hex_char (n div 16) \<noteq> CHR 0x0A" "hex_char (n mod 16) \<noteq> CHR 0x0A" by (auto intro!: hex_char_neq(3))
  then show ?case using Cons by (metis hex_text.simps(2) list.set_intros(2) set_ConsD)
qed simp

lemma hex_text_ascii: "\<forall>n \<in> set ns. n < 256 \<Longrightarrow> c \<in> set (hex_text ns) \<Longrightarrow> is_ascii c"
proof (induction ns)
  case (Cons n ns)
  then have "n div 16 < 16" "n mod 16 < 16" by (simp_all add: less_mult_imp_div_less)
  then show ?case using Cons is_ascii_hex by auto
qed simp

lemma plain_row_ascii: "\<forall>n \<in> set ns. n < 256 \<Longrightarrow> \<forall>c \<in> set (plain_row a b ns). is_ascii c"
  using show_nat_ascii hex_text_ascii by (auto simp: plain_row_def show_u64_def is_ascii_def)

lemma plain_row_text:
  "\<forall>n \<in> set ns. n < 256 \<Longrightarrow>
     valid_utf8 (plain_row a b ns) \<and> CHR 0x0A \<notin> set (plain_row a b ns) \<and> plain_row a b ns \<noteq> '''' \<and>
     plain_char (hd (plain_row a b ns))"
  using show_nat_no hex_text_no_newline plain_row_ascii
  by (auto simp: plain_row_def show_u64_def is_space_def plain_char_def is_ascii_def ascii_valid_utf8)

lemma plain_file_json_ok: "file_json_ok plain_file_json"
proof -
  have c: "\<forall>n \<in> set (map of_char cs). n < (256 :: nat)" for cs by (simp add: nat_of_char_less_256)
  have b: "\<forall>n \<in> set (map unat bs). n < 256" for bs :: "byte list"
    using unsigned_less [where ?'a = nat and ?'b = 8] by auto
  show ?thesis
    using read_plain_row [OF c] read_plain_row [OF b] plain_row_text [OF c] plain_row_text [OF b]
    by (simp add: file_json_ok_def json_text_ok_def plain_file_json_def o_def)
qed

interpretation file_log: log_storage "file_ops plain_file_json (readable E)" log_clean
  by (rule file_log_contract [OF plain_file_json_ok])

end
