(* ===== verification/Storage_Properties.thy ===== *)
theory Storage_Properties
  imports File_Storage Scenarios
begin

text \<open>
  The properties of the file storage, and what a restart finds on any storage. Calls may fail at any point of
  a run; the loads of the restart itself are assumed to be able to read the files.
\<close>

section \<open>Sample disks\<close>

definition disk_env :: file_env where
  "disk_env = \<lparr>fs_dir = ''/data'', dir_error = \<lambda>_. None, open_error = \<lambda>_. None, read_error = \<lambda>_. None,
     size_limit = \<lambda>_. None, sync_error = \<lambda>_. None, rename_error = \<lambda>_. None\<rparr>"

text \<open>A disk with no room for one of the files.\<close>

definition no_room :: "string \<Rightarrow> file_env" where
  "no_room p = disk_env\<lparr>size_limit := (\<lambda>q. if q = p then Some (0, ''No space left on device'') else None)\<rparr>"

type_synonym disk_core = "(disk, test_sm) raft_core"

abbreviation disk_ops :: "disk storage_ops" where
  "disk_ops \<equiv> file_ops plain_file_json disk_env"

lemma disk_env_readable [simp]: "readable disk_env = disk_env" "read_error disk_env = (\<lambda>_. None)"
  by (simp_all add: disk_env_def)

lemma write_with_checksum_total:
  assumes "open_error E p = None" "size_limit E p = None" "sync_error E p = None"
  shows "write_with_checksum E p data d = (Ok (), d(p \<mapsto> checksum_line data))"
  using assms
  by (simp add: write_with_checksum_def and_then_def file_create_def write_all_def sync_all_def io_check_def text_of_def)

lemma disk_saves [simp]:
  "file_save_term disk_env t d = (Ok (), d(term_path \<mapsto> checksum_line (show_u64 t)))"
  "file_save_voted_for disk_env v d = (Ok (), d(voted_for_path \<mapsto> checksum_line (vote_text v)))"
  by (simp_all add: file_save_term_def file_save_voted_for_def write_with_checksum_total disk_env_def)

lemma disk_after_simps [simp]: "disk_after (Ok u, d) = Ok d" "disk_after (Err e, d) = Err (e, d)"
  by (simp_all add: disk_after_def)

text \<open>What a node finds on a disk whose term and vote files are \<open>t\<close> and \<open>v\<close>, with nothing else on it.\<close>

definition vote_disk :: "u64 \<Rightarrow> u64 option \<Rightarrow> disk" where
  "vote_disk t v = [term_path \<mapsto> checksum_line (show_u64 t), voted_for_path \<mapsto> checksum_line (vote_text v)]"

lemma vote_disk_loads:
  "file_load_term disk_env (vote_disk t v) = Ok t" "file_load_voted_for disk_env (vote_disk t v) = Ok v"
  "file_load_log J disk_env (vote_disk t v) = Ok []" "file_load_snapshot J disk_env (vote_disk t v) = Ok None"
proof -
  have d: "vote_disk t v = snd (file_save_voted_for disk_env v (snd (file_save_term disk_env t Map.empty)))"
    by (simp add: vote_disk_def)
  have "file_load_term disk_env (snd (file_save_term disk_env t Map.empty)) = Ok t"
    by (rule file_save_term_Ok [of disk_env t Map.empty "()"]) (simp_all add: prod_eq_iff)
  then show "file_load_term disk_env (vote_disk t v) = Ok t"
    using file_frames(2) [of disk_env v "snd (file_save_term disk_env t Map.empty)" "()" "vote_disk t v"]
    by (simp add: vote_disk_def)
  show "file_load_voted_for disk_env (vote_disk t v) = Ok v"
    by (rule file_save_voted_for_Ok [of disk_env v "snd (file_save_term disk_env t Map.empty)" "()"])
      (simp_all add: vote_disk_def)
  show "file_load_log J disk_env (vote_disk t v) = Ok []" "file_load_snapshot J disk_env (vote_disk t v) = Ok None"
    by (simp_all add: file_load_log_def file_load_snapshot_def read_with_checksum_def vote_disk_def)
qed

section \<open>Durability\<close>

text \<open>
  C12: the term and the vote survive a crash, on every storage that meets the contract of the trait for them
  (\<open>vote_storage\<close>: a saved value is the one loaded next, and no other operation changes it). After any run of the
  handlers, a node that restarts from its storage has the term and the vote it had.
\<close>

theorem restart_from_disk:
  assumes "vote_storage S"
    and "raft_core_new S M now i ps s m = Some c" "core_run S M evs c = Some c'"
    and "raft_core_new S M now' i' ps' (storage c') m' = Some d"
  shows "current_term d = current_term c' \<and> voted_for d = voted_for c'"
proof -
  note new = vote_storage.raft_core_new_persisted [OF assms(1)]
  have "vote_persisted S c'"
    using vote_storage.core_run_persisted [OF assms(1) new [OF assms(2)] assms(3)] .
  moreover have "storage d = storage c'" using assms(4) by (auto simp: raft_core_new_def bind_eq_Some_conv)
  ultimately show ?thesis using new [OF assms(4)] by (simp add: vote_persisted_def)
qed

theorem restart_from_disk_witness:
  "\<exists>c' d. core_run disk_ops test_ops [ElectionStart 7] (the (raft_core_new disk_ops test_ops 0 2 [1, 3] (vote_disk 5 None) tsm_new))
        = Some c' \<and>
      raft_core_new disk_ops test_ops 9 2 [1, 3] (storage c') tsm_new = Some d \<and>
      current_term d = 6 \<and> voted_for d = Some 2"
proof -
  have S: "vote_storage disk_ops" using file_vote.vote_storage_axioms [of plain_file_json disk_env] by simp
  obtain c where c: "raft_core_new disk_ops test_ops 0 2 [1, 3] (vote_disk 5 None) tsm_new = Some c"
    and f: "current_term c = 5" "storage c = vote_disk 5 None" "node_id c = 2"
    by (simp add: raft_core_new_def vote_disk_loads)
  obtain c' where run: "core_run disk_ops test_ops [ElectionStart 7] c = Some c'"
    and f': "current_term c' = 6" "voted_for c' = Some 2" and s: "storage c' = vote_disk 6 (Some 2)"
    using f by (simp add: start_election_def set_term_def set_voted_for_def vote_disk_def fun_upd_twist)
  obtain d where d: "raft_core_new disk_ops test_ops 9 2 [1, 3] (storage c') tsm_new = Some d"
    using s by (simp add: raft_core_new_def vote_disk_loads)
  from restart_from_disk [OF S c run d] c run d f' show ?thesis by simp
qed

text \<open>The handlers never load the term or the vote: they behave alike with other loads in the table.\<close>

abbreviation with_loads ::
  "('s \<Rightarrow> (u64, storage_error) result) \<Rightarrow> ('s \<Rightarrow> (u64 option, storage_error) result) \<Rightarrow> 's storage_ops \<Rightarrow> 's storage_ops" where
  "with_loads f g S \<equiv> S\<lparr>load_term := f, load_voted_for := g\<rparr>"

lemma with_loads_sel:
  "save_term (with_loads f g S) = save_term S" "save_voted_for (with_loads f g S) = save_voted_for S"
  "append_log_entries (with_loads f g S) = append_log_entries S" "truncate_log (with_loads f g S) = truncate_log S"
  "compact_log (with_loads f g S) = compact_log S" "save_snapshot (with_loads f g S) = save_snapshot S"
  by simp_all

lemma persist_with_loads:
  "set_term (with_loads f g S) t c = set_term S t c" "set_voted_for (with_loads f g S) v c = set_voted_for S v c"
  "update_term (with_loads f g S) t c = update_term S t c"
  "persist_log_entry (with_loads f g S) e c = persist_log_entry S e c"
  "persist_truncate_log (with_loads f g S) i c = persist_truncate_log S i c"
  "take_snapshot (with_loads f g S) M c = take_snapshot S M c"
  unfolding set_term_def set_voted_for_def update_term_def persist_log_entry_def persist_truncate_log_def
    take_snapshot_def with_loads_sel by (rule refl)+

lemma entry_with_loads: "apply_entry (with_loads f g S) e c = apply_entry S e c"
  unfolding apply_entry_def persist_with_loads ..

lemma entries_with_loads: "apply_entries (with_loads f g S) es c = apply_entries S es c"
proof (induction es arbitrary: c)
  case (Cons e es)
  then show ?case unfolding apply_entries.simps entry_with_loads by (cases "apply_entry S e c") simp_all
qed simp

lemma append_with_loads:
  "apply_committed_entries (with_loads f g S) M c = apply_committed_entries S M c"
  "accept_entries (with_loads f g S) M req c = accept_entries S M req c"
  "check_and_append (with_loads f g S) M req c = check_and_append S M req c"
  unfolding apply_committed_entries_def accept_entries_def check_and_append_def persist_with_loads
    entries_with_loads by (rule refl)+

lemma core_step_with_loads: "core_step (with_loads f g S) M ev c = core_step S M ev c"
  by (cases ev; simp only: core_step.simps; unfold handle_request_vote_def handle_append_entries_def
      handle_install_snapshot_def install_snapshot_steps_def start_election_def handle_request_vote_result_def
      process_request_vote_response_def become_leader_def handle_append_entries_result_def
      process_append_entries_response_def append_log_entry_def persist_with_loads append_with_loads with_loads_sel;
      rule refl)

text \<open>A run in which every event meets the errors of its own environment.\<close>

fun disk_run ::
  "file_json \<Rightarrow> 'm sm_ops \<Rightarrow> (file_env \<times> core_event) list \<Rightarrow> (disk, 'm) raft_core \<Rightarrow> (disk, 'm) raft_core option" where
  "disk_run J M [] c = Some c"
| "disk_run J M ((E, ev) # evs) c = do { c \<leftarrow> core_step (file_ops J E) M ev c; disk_run J M evs c }"

text \<open>A table that writes with the errors of \<open>E\<close> and loads without any keeps the contract of the vote.\<close>

lemma faulty_vote_storage:
  "vote_storage (with_loads (file_load_term (readable R)) (file_load_voted_for (readable R)) (file_ops J E))"
  by unfold_locales
    (auto simp: disk_after_Ok disk_after_Err file_save_term_Ok file_save_voted_for_Ok file_frames failed_frames)

lemma disk_run_persisted:
  assumes "vote_persisted (file_ops J (readable R)) c" "disk_run J M evs c = Some c'"
  shows "vote_persisted (file_ops J (readable R)) c'"
  using assms
proof (induction J M evs c rule: disk_run.induct)
  case (2 J M E ev evs c)
  let ?S = "with_loads (file_load_term (readable R)) (file_load_voted_for (readable R)) (file_ops J E)"
  obtain d where d: "core_step ?S M ev c = Some d" and run: "disk_run J M evs d = Some c'"
    using 2(3) unfolding core_step_with_loads by (auto simp: bind_eq_Some_conv)
  have "core_run ?S M [ev] c = Some d" by (simp only: core_run.simps d) simp
  moreover have "vote_persisted ?S c" using 2(2) by (simp add: vote_persisted_def)
  ultimately have "vote_persisted ?S d"
    using vote_storage.core_run_persisted [OF faulty_vote_storage] by blast
  then have "vote_persisted (file_ops J (readable R)) d" by (simp add: vote_persisted_def)
  with 2(1) d run show ?case unfolding core_step_with_loads by blast
qed simp

text \<open>
  C16: the term and the vote survive a crash on the file storage. Every event of the run may meet its own
  errors of the file system, reading or writing; a failed snapshot or compaction goes on with the files it left,
  every other failed call ends the run. After any run that was not ended this way, a node that restarts from
  the files, and can read them, has the term and the vote it had.
\<close>

theorem file_restart_keeps_vote:
  assumes "raft_core_new (file_ops J (readable E)) M now i ps d m = Some c"
    and "disk_run J M evs c = Some c'"
    and "raft_core_new (file_ops J (readable E)) M now' i' ps' (storage c') m' = Some r"
  shows "current_term r = current_term c' \<and> voted_for r = voted_for c'"
proof -
  note new = vote_storage.raft_core_new_persisted [OF file_vote.vote_storage_axioms]
  have "vote_persisted (file_ops J (readable E)) c'" by (rule disk_run_persisted [OF new [OF assms(1)] assms(2)])
  moreover have "storage r = storage c'" using assms(3) by (auto simp: raft_core_new_def bind_eq_Some_conv)
  ultimately show ?thesis using new [OF assms(3)] by (simp add: vote_persisted_def)
qed

text \<open>A node whose disk has no room for the snapshot that a leader sends, and which then starts an election.\<close>

definition full_disk_events :: "(file_env \<times> core_event) list" where
  "full_disk_events =
     [(no_room snapshot_path, InstallSnapshotReq 6 \<lparr>is_term = 5, is_leader_id = 1, is_last_included_index = 3,
         is_last_included_term = 2, is_data = []\<rparr>),
      (disk_env, ElectionStart 7)]"

lemma failed_snapshot_disk:
  "save_snapshot (file_ops plain_file_json (no_room snapshot_path)) (vote_disk t v) sn
     = Err (Io ''No space left on device'', (vote_disk t v)(snapshot_path \<mapsto> ''''))"
  by (simp add: file_save_snapshot_def plain_file_json_def write_with_checksum_def and_then_def file_create_def
      write_all_def io_check_def no_room_def disk_env_def text_of_def checksum_line_def)

theorem file_restart_keeps_vote_witness:
  "\<exists>c c' r. raft_core_new disk_ops test_ops 0 2 [1, 3] (vote_disk 5 None) tsm_new = Some c \<and>
      disk_run plain_file_json test_ops full_disk_events c = Some c' \<and> storage c' snapshot_path = Some '''' \<and>
      raft_core_new disk_ops test_ops 9 2 [1, 3] (storage c') tsm_new = Some r \<and>
      current_term r = 6 \<and> voted_for r = Some 2"
proof -
  let ?ops = "file_ops plain_file_json (readable disk_env)"
  obtain c where c: "raft_core_new ?ops test_ops 0 2 [1, 3] (vote_disk 5 None) tsm_new = Some c"
    and f: "current_term c = 5" "storage c = vote_disk 5 None" "node_id c = 2" "snapshot_last_index c = 0"
    by (simp add: raft_core_new_def vote_disk_loads)
  have "\<exists>d. core_step (file_ops plain_file_json (no_room snapshot_path)) test_ops (snd (hd full_disk_events)) c = Some d \<and>
      storage d = (vote_disk 5 None)(snapshot_path \<mapsto> '''') \<and> current_term d = 5 \<and> node_id d = 2"
    using f by (simp add: full_disk_events_def handle_install_snapshot_def install_snapshot_steps_def Let_def
        failed_snapshot_disk del: file_ops_sel)
  then obtain d where d: "core_step (file_ops plain_file_json (no_room snapshot_path)) test_ops (snd (hd full_disk_events)) c = Some d"
    and g: "storage d = (vote_disk 5 None)(snapshot_path \<mapsto> '''')" "current_term d = 5" "node_id d = 2" by blast
  let ?d = "(vote_disk 6 (Some 2))(snapshot_path \<mapsto> '''')"
  obtain c' where run: "core_step disk_ops test_ops (ElectionStart 7) d = Some c'"
    and f': "current_term c' = 6" "voted_for c' = Some 2" and s: "storage c' = ?d"
    using g by (simp add: start_election_def set_term_def set_voted_for_def vote_disk_def fun_upd_twist)
  have all: "disk_run plain_file_json test_ops full_disk_events c = Some c'"
    using d run by (auto simp: full_disk_events_def)
  have "file_load_term disk_env ?d = Ok 6 \<and> file_load_voted_for disk_env ?d = Ok (Some 2) \<and>
      file_load_log plain_file_json disk_env ?d = Ok [] \<and> file_load_snapshot plain_file_json disk_env ?d = Ok None"
    using vote_disk_loads [where t = 6 and v = "Some 2"]
    by (simp add: file_load_term_def file_load_voted_for_def file_load_log_def file_load_snapshot_def read_with_checksum_def)
  then obtain r where r: "raft_core_new ?ops test_ops 9 2 [1, 3] (storage c') tsm_new = Some r"
    using s by (simp add: raft_core_new_def)
  from file_restart_keeps_vote [OF c all r] c all r f' s show ?thesis by simp
qed

text \<open>
  C15: what the log and snapshot files promise. On a log file of complete lines, appended entries are
  loaded behind the old ones, truncation and compaction keep exactly the entries below and from the
  given index, and a saved snapshot is the one loaded next, whatever the disk held before.
\<close>

theorem file_log_roundtrip:
  assumes "file_json_ok J" "read_error E log_path = None" "read_error E snapshot_path = None"
    and "log_clean d" "file_load_log J E d = Ok l"
  shows "(\<forall>es u d'. file_append_log_entries J E es d = (Ok u, d') \<longrightarrow>
           file_load_log J E d' = Ok (l @ es) \<and> log_clean d') \<and>
    (\<forall>i u d'. file_truncate_log J E i d = (Ok u, d') \<longrightarrow>
           file_load_log J E d' = Ok (filter (\<lambda>e. le_index e < i) l) \<and> log_clean d') \<and>
    (\<forall>i u d'. file_compact_log J E i d = (Ok u, d') \<longrightarrow>
           file_load_log J E d' = Ok (filter (\<lambda>e. i \<le> le_index e) l) \<and> log_clean d') \<and>
    (\<forall>sn u d'. file_save_snapshot J E sn d = (Ok u, d') \<longrightarrow>
           file_load_snapshot J E d' = Ok (Some sn) \<and> file_load_log J E d' = Ok l)"
proof -
  have j: "json_text_ok (entry_json J)" "json_text_ok (snapshot_json J)"
    using assms(1) by (simp_all add: file_json_ok_def)
  note app = file_append_load [OF j(1) assms(4,5,2)]
    and trunc = file_truncate_load [OF j(1) assms(2,5)] truncate_clean
    and comp = file_compact_load [OF j(1) assms(2,5)] compact_clean
    and snap = file_save_snapshot_load [OF j(2) _ assms(3)]
  have snap_log: "file_load_log J E d' = Ok l" if "file_save_snapshot J E sn d = (Ok u, d')" for sn u d'
    using own_file_loads(4) [OF file_ops_own(7) [OF that]] assms(5) by simp
  show ?thesis using assms(5) by (intro conjI allI impI) (auto dest: app trunc comp snap snap_log)
qed

theorem file_log_roundtrip_witness:
  "\<exists>d'. file_append_log_entries plain_file_json disk_env [entry 1 1 ''a'', entry 1 2 ''b''] Map.empty = (Ok (), d') \<and>
     file_load_log plain_file_json disk_env d' = Ok [entry 1 1 ''a'', entry 1 2 ''b'']"
proof -
  let ?es = "[entry 1 1 ''a'', entry 1 2 ''b'']"
  obtain d' where a: "file_append_log_entries plain_file_json disk_env ?es Map.empty = (Ok (), d')"
    by (simp add: file_append_log_entries_def and_then_def open_append_def io_check_def sync_all_def write_all_def
        disk_env_def plain_file_json_def)
  have "log_clean Map.empty" "file_load_log plain_file_json disk_env Map.empty = Ok []"
    by (simp_all add: log_clean_def complete_lines_def text_of_def file_load_log_def)
  from file_log_roundtrip [OF plain_file_json_ok _ _ this] a show ?thesis by simp
qed

section \<open>Corruption\<close>

text \<open>
  C18: a changed byte of the data is detected. If one byte of the data in a checksummed file differs from what
  was written (the data still starting with an ASCII character that is no white space), the file is not read
  as valid: the result is a corruption error, or, when the changed byte makes the text invalid UTF-8, an I/O
  error. Changes of the checksum digits themselves are not covered.
\<close>

theorem changed_byte_detected:
  assumes "d p = Some ((xs @ b # ys) @ CHR '' '' # show_hex8 (crc32 (xs @ a # ys)) @ [CHR 0x0A])"
    and "a \<noteq> b" "plain_char (hd (xs @ b # ys))" "read_error E p = None"
  shows "if valid_utf8 (xs @ b # ys)
    then \<exists>msg. read_with_checksum E p d = Err (Corruption (''checksum mismatch in '' @ msg))
    else read_with_checksum E p d = Err (Io ''stream did not contain valid UTF-8'')"
proof -
  let ?x = "xs @ b # ys" and ?h = "show_hex8 (crc32 (xs @ a # ys))"
  have "trim ((?x @ CHR '' '' # ?h) @ [CHR 0x0A]) = ?x @ CHR '' '' # ?h"
    using assms(3) show_hex8_ends by (intro trim_line(1)) (auto simp: hd_append)
  moreover have "split_last CHR '' '' (?x @ CHR '' '' # ?h) = Some (?x, ?h)"
    by (rule split_last_append) (rule show_hex8_ends(3))
  moreover have "crc32 (xs @ a # ys) \<noteq> crc32 ?x" using assms(2) crc32_changed_byte by blast
  moreover have "valid_utf8 (?x @ CHR '' '' # ?h @ [CHR 0x0A]) \<longleftrightarrow> valid_utf8 ?x"
    by (rule valid_utf8_line)
  ultimately show ?thesis
    using assms(1,4) by (simp add: read_with_checksum_def parse_show_hex8 invalid_utf8_error_def)
qed

theorem changed_byte_detected_witness:
  "(\<exists>msg. read_with_checksum disk_env ''term'' [''term'' \<mapsto> ''6 '' @ show_hex8 (crc32 ''5'') @ [CHR 0x0A]]
     = Err (Corruption (''checksum mismatch in '' @ msg))) \<and>
   read_with_checksum disk_env ''term'' [''term'' \<mapsto> ''1'' @ CHR 0xB5 # '' '' @ show_hex8 (crc32 ''15'') @ [CHR 0x0A]]
     = Err (Io ''stream did not contain valid UTF-8'')"
proof -
  have "valid_utf8 ''6'' \<and> \<not> valid_utf8 [CHR ''1'', CHR 0xB5] \<and> plain_char (CHR ''6'') \<and> plain_char (CHR ''1'')"
    by code_simp
  then show ?thesis
    using changed_byte_detected [where xs = "[]" and ys = "[]" and a = "CHR ''5''" and b = "CHR ''6''"
        and E = disk_env and p = "''term''" and d = "[''term'' \<mapsto> ''6 '' @ show_hex8 (crc32 ''5'') @ [CHR 0x0A]]"]
      changed_byte_detected [where xs = "''1''" and ys = "[]" and a = "CHR ''5''" and b = "CHR 0xB5"
        and E = disk_env and p = "''term''"
        and d = "[''term'' \<mapsto> ''1'' @ CHR 0xB5 # '' '' @ show_hex8 (crc32 ''15'') @ [CHR 0x0A]]"]
    by simp
qed

text \<open>
  C17: everything a failed \<open>save_term\<close> can leave behind: the old disk, or a file that loads as the new term
  or is reported as corrupt, or an empty file, which loads as term 0. The other files are untouched.
\<close>

theorem failed_save_term_outcomes:
  assumes "file_save_term E t d = (Err e, d')" "read_error R term_path = None"
  shows "(d' = d \<or> file_load_term R d' = Ok t \<or> (\<exists>msg. file_load_term R d' = Err (Corruption msg)) \<or>
           d' term_path = Some '''' \<and> file_load_term R d' = Ok 0) \<and>
         (\<forall>p. p \<noteq> term_path \<longrightarrow> d' p = d p)"
proof -
  from write_with_checksum_Err [OF assms(1) [unfolded file_save_term_def]]
  consider "d' = d" | k where "d' = d(term_path \<mapsto> take k (checksum_line (show_u64 t)))" by blast
  then show ?thesis
  proof cases
    case (2 k)
    have ns: "plain_char x" if "x \<in> set (show_u64 t)" for x using that by (rule plain_show_u64)
    show ?thesis
    proof (cases "k = 0")
      case True
      with 2 assms(2) show ?thesis by (simp add: file_load_term_def read_with_checksum_def trim_def)
    next
      case False
      then have "read_with_checksum R term_path d' = Ok (Some (show_u64 t)) \<or>
          (\<exists>msg. read_with_checksum R term_path d' = Err (Corruption msg))"
        using 2 show_u64_hd(1) ns assms(2) by (intro torn_read) simp_all
      with 2 show ?thesis by (auto simp: file_load_term_def parse_show_u64)
    qed
  qed simp
qed

theorem failed_save_term_outcomes_witness:
  "\<exists>msg d'. file_save_term (no_room term_path) 6 (vote_disk 5 (Some 1)) = (Err (Io msg), d') \<and>
     file_load_term disk_env d' = Ok 0 \<and> d' voted_for_path = vote_disk 5 (Some 1) voted_for_path"
proof -
  obtain msg d' where s: "file_save_term (no_room term_path) 6 (vote_disk 5 (Some 1)) = (Err (Io msg), d')"
    and e: "d' term_path = Some ''''"
    by (simp add: file_save_term_def write_with_checksum_def and_then_def file_create_def write_all_def
        io_check_def no_room_def disk_env_def text_of_def checksum_line_def)
  then have "file_load_term disk_env d' = Ok 0"
    by (simp add: file_load_term_def read_with_checksum_def trim_def)
  with failed_save_term_outcomes [OF s, of disk_env] s show ?thesis by simp
qed

text \<open>
  Rewriting the log is atomic. When \<open>truncate_log\<close> or \<open>compact_log\<close> fails, at whatever call, the log
  loads exactly as before; so do the term, the vote and the snapshot.
\<close>

theorem failed_rewrite_keeps_log:
  assumes "file_truncate_log J E i d = (Err e, d') \<or> file_compact_log J E i d = (Err e, d')"
  shows "file_load_log J R d' = file_load_log J R d \<and> file_load_term R d' = file_load_term R d \<and>
    file_load_voted_for R d' = file_load_voted_for R d \<and> file_load_snapshot J R d' = file_load_snapshot J R d"
proof -
  have "d' p = d p" if "p \<noteq> ''log.tmp''" for p
    using failed_rewrite_same [OF assms that] .
  then have "d' term_path = d term_path" "d' voted_for_path = d voted_for_path" "d' log_path = d log_path"
    "d' snapshot_path = d snapshot_path" by (simp_all add: path_defs)
  then show ?thesis
    by (simp add: file_load_log_def file_load_term_def file_load_voted_for_def file_load_snapshot_def
        read_with_checksum_cong [of d' _ d])
qed

theorem failed_rewrite_keeps_log_witness:
  "\<exists>e d'. file_compact_log plain_file_json (disk_env\<lparr>rename_error := \<lambda>_. Some ''denied''\<rparr>) 1 (vote_disk 5 None) = (Err e, d') \<and>
     file_load_term disk_env d' = Ok 5"
proof -
  let ?E = "disk_env\<lparr>rename_error := \<lambda>_. Some ''denied''\<rparr>"
  obtain e d' where c: "file_compact_log plain_file_json ?E 1 (vote_disk 5 None) = (Err e, d')"
    by (simp add: file_compact_log_def file_load_log_def vote_disk_def rewrite_log_def atomic_write_def and_then_def
        file_create_def write_all_def sync_all_def rename_file_def io_check_def disk_env_def Let_def)
  have "file_load_term disk_env d' = Ok 5"
    using failed_rewrite_keeps_log [OF disjI2 [OF c], of disk_env] vote_disk_loads(1) by simp
  with c show ?thesis by blast
qed

text \<open>
  C31: a term file that could not be written forgets the term, and with it the vote. A node that voted for \<open>p\<close>
  in its term stops because the disk is full while it saves a later term; the file was truncated before
  the write, so the node restarts in term 0 and grants a second vote of the old term to another candidate.
\<close>

theorem torn_term_double_vote:
  assumes voted: "vote_persisted (file_ops J E) c" "voted_for c = Some p" "0 < current_term c"
    and disk: "open_error E = (\<lambda>_. None)" "size_limit E = (\<lambda>_. None)" "sync_error E = (\<lambda>_. None)"
      "read_error E = (\<lambda>_. None)"
    and full: "F = E\<lparr>size_limit := (\<lambda>q. if q = term_path then Some (0, msg) else None)\<rparr>"
    and crash: "file_save_term F t (storage c) = (r, d')"
    and restart: "raft_core_new (file_ops J E) M now i ps d' m = Some n"
    and req: "rv_term req = current_term c" "is_log_up_to_date n (rv_last_log_term req) (rv_last_log_index req)"
    and other: "rv_candidate_id req \<noteq> p"
  shows "r = Err (Io msg) \<and> current_term n = 0 \<and>
    (\<exists>reply n'. handle_request_vote (file_ops J E) req n = Some (reply, n') \<and> vote_granted reply \<and>
       current_term n' = current_term c \<and> voted_for n' = Some (rv_candidate_id req) \<and> voted_for n' \<noteq> voted_for c)"
proof -
  have r: "r = Err (Io msg)" "d' term_path = Some ''''"
    using crash full disk
    by (auto simp: file_save_term_def write_with_checksum_def and_then_def file_create_def write_all_def
        io_check_def text_of_def checksum_line_def)
  then have "file_load_term E d' = Ok 0" using disk by (simp add: file_load_term_def read_with_checksum_def trim_def)
  then have n: "current_term n = 0"
    using restart by (auto simp: raft_core_new_def bind_eq_Some_conv)
  have up: "is_log_up_to_date (n\<lparr>current_term := a, voted_for := b, storage := s, role := q\<rparr>) x y = is_log_up_to_date n x y" for a b s q x y
    by (simp add: is_log_up_to_date_def last_log_term_def last_log_index_def Let_def)
  have w: "file_save_term E a d = (Ok (), d(term_path \<mapsto> checksum_line (show_u64 a)))"
    "file_save_voted_for E v d = (Ok (), d(voted_for_path \<mapsto> checksum_line (vote_text v)))" for a v d
    using disk by (simp_all add: file_save_term_def file_save_voted_for_def write_with_checksum_total)
  show ?thesis
    using r n req voted(2,3) other up w
    by (auto simp: handle_request_vote_def update_term_def set_term_def set_voted_for_def)
qed

theorem torn_term_double_vote_witness:
  "\<exists>(c :: disk_core) d' n n' reply. vote_persisted disk_ops c \<and> voted_for c = Some 1 \<and> current_term c = 5 \<and>
     file_save_term (no_room term_path) 6 (storage c) = (Err (Io ''No space left on device''), d') \<and>
     raft_core_new disk_ops test_ops 9 2 [1, 3] d' tsm_new = Some n \<and>
     handle_request_vote disk_ops (vote_msg 5 3 0 0) n = Some (reply, n') \<and> vote_granted reply \<and> voted_for n' = Some 3"
proof -
  obtain c where c: "raft_core_new disk_ops test_ops 0 2 [1, 3] (vote_disk 5 (Some 1)) tsm_new = Some c"
    and f: "voted_for c = Some 1" "current_term c = 5" "storage c = vote_disk 5 (Some 1)"
    by (simp add: raft_core_new_def vote_disk_loads)
  have pers: "vote_persisted disk_ops c"
    using f by (simp add: vote_persisted_def vote_disk_loads)
  obtain r d' where s: "file_save_term (no_room term_path) 6 (storage c) = (r, d')" by (rule prod.exhaust)
  then have d': "d' = (vote_disk 5 (Some 1))(term_path \<mapsto> '''')"
    using f by (auto simp: file_save_term_def write_with_checksum_def and_then_def file_create_def write_all_def
        io_check_def no_room_def disk_env_def text_of_def checksum_line_def)
  have loads: "file_load_term disk_env d' = Ok 0" "file_load_voted_for disk_env d' = Ok (Some 1)"
    "file_load_log plain_file_json disk_env d' = Ok []" "file_load_snapshot plain_file_json disk_env d' = Ok None"
    using d' vote_disk_loads [where t = 5 and v = "Some 1"]
    by (simp_all add: file_load_term_def file_load_voted_for_def file_load_log_def file_load_snapshot_def
        read_with_checksum_def trim_def path_defs)
  obtain n where n: "raft_core_new disk_ops test_ops 9 2 [1, 3] d' tsm_new = Some n"
    and l: "rlog n = []" "snapshot_last_index n = 0" "snapshot_last_term n = 0"
    using loads by (simp add: raft_core_new_def)
  have up: "is_log_up_to_date n (rv_last_log_term (vote_msg 5 3 0 0)) (rv_last_log_index (vote_msg 5 3 0 0))"
    using l by (simp add: is_log_up_to_date_def last_log_term_def last_log_index_def vote_msg_def)
  have "0 < current_term c" "rv_term (vote_msg 5 3 0 0) = current_term c" "rv_candidate_id (vote_msg 5 3 0 0) \<noteq> 1"
    using f by (simp_all add: vote_msg_def)
  moreover have "open_error disk_env = (\<lambda>_. None)" "size_limit disk_env = (\<lambda>_. None)"
    "sync_error disk_env = (\<lambda>_. None)" "read_error disk_env = (\<lambda>_. None)"
    by (simp_all add: disk_env_def)
  ultimately have out: "r = Err (Io ''No space left on device'') \<and> current_term n = 0 \<and>
      (\<exists>reply n'. handle_request_vote disk_ops (vote_msg 5 3 0 0) n = Some (reply, n') \<and> vote_granted reply \<and>
         current_term n' = current_term c \<and> voted_for n' = Some (rv_candidate_id (vote_msg 5 3 0 0)) \<and>
         voted_for n' \<noteq> voted_for c)"
    by (intro torn_term_double_vote [OF pers f(1) _ _ _ _ _ no_room_def s n _ up])
  then obtain reply n' where h: "handle_request_vote disk_ops (vote_msg 5 3 0 0) n = Some (reply, n')"
    "vote_granted reply" and v: "voted_for n' = Some (rv_candidate_id (vote_msg 5 3 0 0))" by blast
  have v': "voted_for n' = Some 3" using v by (simp add: vote_msg_def)
  have s': "file_save_term (no_room term_path) 6 (storage c) = (Err (Io ''No space left on device''), d')"
    using s out by simp
  show ?thesis
    by (rule exI [of _ c], rule exI [of _ d'], rule exI [of _ n], rule exI [of _ n'], rule exI [of _ reply])
      (intro conjI pers f(1,2) s' n h v')
qed

end
