(* ===== verification/Lin_History.thy ===== *)
theory Lin_History
  imports Raft_Prelude "HOL-Library.Multiset"
begin

text \<open>
  The histories of the chaos tests, \<open>chaos-test/src/history.rs\<close>: operations on a register with the
  interval of time between their invocation and their response. The clock is an argument.
\<close>

datatype timestamp = Timestamp (ts_micros: u64)

instantiation timestamp :: linorder
begin

definition less_eq_timestamp :: "timestamp \<Rightarrow> timestamp \<Rightarrow> bool" where
  "less_eq_timestamp a b \<longleftrightarrow> ts_micros a \<le> ts_micros b"

definition less_timestamp :: "timestamp \<Rightarrow> timestamp \<Rightarrow> bool" where
  "less_timestamp a b \<longleftrightarrow> ts_micros a < ts_micros b"

instance
  by standard (auto simp: less_eq_timestamp_def less_timestamp_def timestamp.expand)

end

definition from_micros :: "u64 \<Rightarrow> timestamp" where
  "from_micros micros = Timestamp micros"

definition as_micros :: "timestamp \<Rightarrow> u64" where
  "as_micros t = ts_micros t"

datatype client_id = ClientId u64

datatype op_kind = Read | Write string

datatype op_result = ReadOk "string option" | WriteOk | OpError string

record operation =
  op_id :: u64
  op_client :: client_id
  op_key :: string
  kind :: op_kind
  invoke_ts :: timestamp
  complete_ts :: timestamp
  op_result :: op_result

definition operation_new ::
  "u64 \<Rightarrow> client_id \<Rightarrow> string \<Rightarrow> op_kind \<Rightarrow> timestamp \<Rightarrow> timestamp \<Rightarrow> op_result \<Rightarrow> operation" where
  "operation_new i c k kd iv ct r =
     \<lparr>op_id = i, op_client = c, op_key = k, kind = kd, invoke_ts = iv, complete_ts = ct, op_result = r\<rparr>"

definition is_read :: "operation \<Rightarrow> bool" where
  "is_read op = (case kind op of Read \<Rightarrow> True | Write _ \<Rightarrow> False)"

definition is_write :: "operation \<Rightarrow> bool" where
  "is_write op = (case kind op of Write _ \<Rightarrow> True | Read \<Rightarrow> False)"

definition is_error :: "operation \<Rightarrow> bool" where
  "is_error op = (case op_result op of OpError _ \<Rightarrow> True | _ \<Rightarrow> False)"

definition overlaps :: "operation \<Rightarrow> operation \<Rightarrow> bool" where
  "overlaps a b \<longleftrightarrow>
     ts_micros (invoke_ts a) \<le> ts_micros (complete_ts b) \<and> ts_micros (invoke_ts b) \<le> ts_micros (complete_ts a)"

definition could_linearize_at :: "operation \<Rightarrow> timestamp \<Rightarrow> bool" where
  "could_linearize_at op t \<longleftrightarrow>
     ts_micros (invoke_ts op) \<le> ts_micros t \<and> ts_micros t \<le> ts_micros (complete_ts op)"

record history =
  hist_ops :: "operation list"
  start_time :: nat

text \<open>The clock counts microseconds here; \<open>as u64\<close> keeps the low 64 bits.\<close>

definition history_new :: "nat \<Rightarrow> history" where
  "history_new clock = \<lparr>hist_ops = [], start_time = clock\<rparr>"

definition history_now :: "nat \<Rightarrow> history \<Rightarrow> timestamp" where
  "history_now clock h = Timestamp (of_nat (clock - start_time h))"

definition history_add :: "operation \<Rightarrow> history \<Rightarrow> history" where
  "history_add op h = h\<lparr>hist_ops := hist_ops h @ [op]\<rparr>"

definition history_len :: "history \<Rightarrow> nat" where
  "history_len h = length (hist_ops h)"

definition history_is_empty :: "history \<Rightarrow> bool" where
  "history_is_empty h \<longleftrightarrow> hist_ops h = []"

definition sorted_by_invoke_time :: "history \<Rightarrow> operation list" where
  "sorted_by_invoke_time h = sort_key invoke_ts (hist_ops h)"

definition successful_ops :: "history \<Rightarrow> operation list" where
  "successful_ops h = filter (\<lambda>op. \<not> is_error op) (hist_ops h)"

definition ops_for_key :: "history \<Rightarrow> string \<Rightarrow> operation list" where
  "ops_for_key h k = filter (\<lambda>op. op_key op = k) (hist_ops h)"

definition unique_keys :: "history \<Rightarrow> string set" where
  "unique_keys h = op_key ` set (hist_ops h)"

section \<open>Intervals\<close>

text \<open>An operation responds no earlier than it was invoked; the clock of the tests is monotonic.\<close>

definition interval_ok :: "operation \<Rightarrow> bool" where
  "interval_ok op \<longleftrightarrow> invoke_ts op \<le> complete_ts op"

lemma overlaps_iff: "overlaps a b \<longleftrightarrow> invoke_ts a \<le> complete_ts b \<and> invoke_ts b \<le> complete_ts a"
  by (simp add: overlaps_def less_eq_timestamp_def)

text \<open>Two operations overlap exactly when some instant is a possible linearization point of both.\<close>

lemma overlaps_common_point:
  assumes "interval_ok a" "interval_ok b"
  shows "overlaps a b \<longleftrightarrow> (\<exists>t. could_linearize_at a t \<and> could_linearize_at b t)"
proof
  assume o: "overlaps a b"
  show "\<exists>t. could_linearize_at a t \<and> could_linearize_at b t"
  proof (intro exI conjI)
    let ?t = "max (invoke_ts a) (invoke_ts b)"
    show "could_linearize_at a ?t" "could_linearize_at b ?t"
      using o assms by (auto simp: could_linearize_at_def overlaps_iff interval_ok_def max_def less_eq_timestamp_def)
  qed
next
  assume "\<exists>t. could_linearize_at a t \<and> could_linearize_at b t"
  then show "overlaps a b" by (auto simp: could_linearize_at_def overlaps_def)
qed

lemma sorted_by_invoke_time_sorted:
  "sorted (map invoke_ts (sorted_by_invoke_time h)) \<and> mset (sorted_by_invoke_time h) = mset (hist_ops h)"
  by (simp add: sorted_by_invoke_time_def)

end
