(* ===== verification/Lin_Checker.thy ===== *)
theory Lin_Checker
  imports Lin_History Rust_Strings "HOL-Library.Product_Lexorder"
begin

text \<open>
  The Wing-Gong linearizability checker, \<open>chaos-test/src/checker.rs\<close>, and what it decides. The set of
  keys is a \<open>HashSet\<close>, so the order in which \<open>check\<close> visits the keys is its argument. The recursion of
  \<open>search\<close> goes through its loop over the candidates, which is \<open>first_success\<close>.
\<close>

section \<open>Results and the register\<close>

record check_result =
  is_linearizable :: bool
  linearization :: "u64 list option"
  check_error :: "string option"

definition result_linearizable :: "u64 list \<Rightarrow> check_result" where
  "result_linearizable order = \<lparr>is_linearizable = True, linearization = Some order, check_error = None\<rparr>"

definition result_not_linearizable :: "string \<Rightarrow> check_result" where
  "result_not_linearizable reason = \<lparr>is_linearizable = False, linearization = None, check_error = Some reason\<rparr>"

record register_model =
  reg_value :: "string option"

definition register_new :: register_model where
  "register_new = \<lparr>reg_value = None\<rparr>"

definition apply_write :: "string \<Rightarrow> register_model \<Rightarrow> register_model" where
  "apply_write v m = m\<lparr>reg_value := Some v\<rparr>"

definition check_read :: "string option \<Rightarrow> register_model \<Rightarrow> bool" where
  "check_read expected m \<longleftrightarrow> reg_value m = expected"

definition try_apply :: "operation \<Rightarrow> register_model \<Rightarrow> bool \<times> register_model" where
  "try_apply op m =
     (case (kind op, op_result op) of
        (Write v, WriteOk) \<Rightarrow> (True, apply_write v m)
      | (Read, ReadOk r) \<Rightarrow> if check_read r m then (True, m) else (False, m)
      | _ \<Rightarrow> (False, m))"

section \<open>The search\<close>

definition min_complete_of :: "operation list \<Rightarrow> nat list \<Rightarrow> timestamp" where
  "min_complete_of ops req = Timestamp (foldr (\<lambda>i t. min (ts_micros (complete_ts (ops ! i))) t) req (- 1))"

definition eligible :: "operation list \<Rightarrow> timestamp \<Rightarrow> timestamp \<Rightarrow> nat \<Rightarrow> bool" where
  "eligible ops min_complete frontier i \<longleftrightarrow>
     invoke_ts (ops ! i) \<le> min_complete \<and> frontier \<le> complete_ts (ops ! i)"

definition candidates ::
  "operation list \<Rightarrow> nat list \<Rightarrow> nat list \<Rightarrow> timestamp \<Rightarrow> (nat \<times> bool) list" where
  "candidates ops req opt frontier =
     (let m = min_complete_of ops req
      in map (\<lambda>i. (i, False)) (filter (eligible ops m frontier) req) @
         map (\<lambda>i. (i, True)) (filter (eligible ops m frontier) opt))"

text \<open>A stable sort: earlier invocations first, writes before reads among equals.\<close>

definition sort_candidates :: "operation list \<Rightarrow> (nat \<times> bool) list \<Rightarrow> (nat \<times> bool) list" where
  "sort_candidates ops = sort_key (\<lambda>(i, _). (invoke_ts (ops ! i), \<not> is_write (ops ! i)))"

text \<open>The loop over the candidates: the first attempt that succeeds ends it; \<open>lin\<close> is the vector that
  every attempt pushes to and, when it fails, pops.\<close>

fun first_success ::
  "('c \<Rightarrow> 'l \<Rightarrow> bool \<times> 'l) \<Rightarrow> 'c list \<Rightarrow> 'l \<Rightarrow> bool \<times> 'l" where
  "first_success attempt [] lin = (False, lin)"
| "first_success attempt (c # cs) lin =
     (case attempt c lin of
        (True, lin') \<Rightarrow> (True, lin')
      | (False, lin') \<Rightarrow> first_success attempt cs lin')"

lemma first_success_cong [fundef_cong]:
  assumes "cs = cs'" "lin = lin'" "\<And>c l. c \<in> set cs' \<Longrightarrow> f c l = g c l"
  shows "first_success f cs lin = first_success g cs' lin'"
  unfolding assms(1,2) using assms(3) by (induction cs' arbitrary: lin') (auto split: prod.splits bool.splits)

definition without :: "nat \<Rightarrow> nat list \<Rightarrow> nat list" where
  "without i xs = filter (\<lambda>j. j \<noteq> i) xs"

lemma length_without: "i \<in> set xs \<Longrightarrow> length (without i xs) < length xs"
  unfolding without_def by (rule length_filter_less) auto

lemma set_candidates:
  "(i, b) \<in> set (candidates ops req opt frontier) \<longleftrightarrow>
     i \<in> set (if b then opt else req) \<and> eligible ops (min_complete_of ops req) frontier i"
  by (auto simp: candidates_def Let_def)

lemma set_sort_candidates [simp]: "set (sort_candidates ops cs) = set cs"
  by (simp add: sort_candidates_def)

function search ::
  "operation list \<Rightarrow> nat list \<Rightarrow> nat list \<Rightarrow> register_model \<Rightarrow> timestamp \<Rightarrow> u64 list \<Rightarrow> bool \<times> u64 list" where
  "search ops req opt model frontier lin =
     (if req = [] then (True, lin)
      else let cs = candidates ops req opt frontier
           in if cs = [] then (False, lin)
              else first_success
                (\<lambda>(i, is_optional) lin.
                   let op = ops ! i; (is_valid, new_model) = try_apply op model
                   in if is_valid
                      then let (found, lin') =
                             search ops (if is_optional then req else without i req)
                               (if is_optional then without i opt else opt)
                               new_model (max frontier (invoke_ts op)) (lin @ [op_id op])
                           in if found then (True, lin') else (False, butlast lin')
                      else (False, lin))
                (sort_candidates ops cs) lin)"
  by pat_completeness auto
termination
proof (relation "measure (\<lambda>(ops, req, opt, model, frontier, lin). length req + length opt)", simp)
  fix ops req opt model frontier lin cs c l i is_optional op p is_valid new_model
  assume "cs = candidates ops req opt frontier" "c \<in> set (sort_candidates ops cs)" "(i, is_optional) = c"
  then have "i \<in> set (if is_optional then opt else req)" by (auto simp: set_candidates)
  then show "((ops, if is_optional then req else without i req, if is_optional then without i opt else opt,
      new_model, max frontier (invoke_ts op), l @ [op_id op]), ops, req, opt, model, frontier, lin)
      \<in> measure (\<lambda>(ops, req, opt, model, frontier, lin). length req + length opt)"
    using length_without [of i] by (cases is_optional) auto
qed

declare search.simps [simp del]

section \<open>check\_single\_key and check\<close>

fun written :: "operation list \<Rightarrow> string option list" where
  "written [] = []"
| "written (op # ops) = (case kind op of Write v \<Rightarrow> Some v # written ops | Read \<Rightarrow> written ops)"

fun unwritten_read :: "string option set \<Rightarrow> operation list \<Rightarrow> string option option" where
  "unwritten_read vals [] = None"
| "unwritten_read vals (op # ops) =
     (case (kind op, op_result op) of
        (Read, ReadOk r) \<Rightarrow> if r \<in> vals then unwritten_read vals ops else Some r
      | _ \<Rightarrow> unwritten_read vals ops)"

fun earlier_write :: "operation \<Rightarrow> operation list \<Rightarrow> (string \<times> operation) option" where
  "earlier_write rd [] = None"
| "earlier_write rd (op # ops) =
     (case kind op of
        Write v \<Rightarrow> if complete_ts op < invoke_ts rd then Some (v, op) else earlier_write rd ops
      | Read \<Rightarrow> earlier_write rd ops)"

fun stale_read :: "operation list \<Rightarrow> operation list \<Rightarrow> (operation \<times> string \<times> operation) option" where
  "stale_read ops [] = None"
| "stale_read ops (rd # rds) =
     (case (kind rd, op_result rd) of
        (Read, ReadOk None) \<Rightarrow>
          (case earlier_write rd ops of Some w \<Rightarrow> Some (rd, w) | None \<Rightarrow> stale_read ops rds)
      | _ \<Rightarrow> stale_read ops rds)"

definition max_complete :: "operation list \<Rightarrow> timestamp" where
  "max_complete ops = Timestamp (foldr (\<lambda>op t. max (ts_micros (complete_ts op)) t) ops 0)"

definition extend_write :: "timestamp \<Rightarrow> operation \<Rightarrow> operation" where
  "extend_write t op =
     operation_new (op_id op) (op_client op) (op_key op) (kind op) (invoke_ts op) t WriteOk"

definition check_single_key :: "operation list \<Rightarrow> operation list \<Rightarrow> check_result" where
  "check_single_key ops ind =
     (if ops = [] \<and> ind = [] then result_linearizable []
      else case unwritten_read (insert None (set (written ops @ written ind))) ops of
        Some r \<Rightarrow>
          result_not_linearizable (''Read returned value '' @ debug_option r @ '' which was never written'')
      | None \<Rightarrow>
     (case stale_read ops ops of
        Some (rd, v, w) \<Rightarrow>
          result_not_linearizable (''Stale read: Read started at '' @ show_u64 (as_micros (invoke_ts rd)) @
            '' returned None, but write of '' @ debug_string v @ '' completed at '' @
            show_u64 (as_micros (complete_ts w)))
      | None \<Rightarrow>
     (let all_ops = ops @ map (extend_write (max_complete (ops @ ind))) ind;
          (found, lin) = search all_ops [0..<length ops] [length ops..<length all_ops] register_new (Timestamp 0) []
      in if found then result_linearizable lin
         else result_not_linearizable (''No valid linearization found: operations cannot be ordered to satisfy '' @
                ''register semantics''))))"

definition confirmed_ops :: "operation list \<Rightarrow> operation list" where
  "confirmed_ops ops = filter (\<lambda>op. \<not> is_error op) ops"

definition indeterminate_writes :: "operation list \<Rightarrow> operation list" where
  "indeterminate_writes ops = filter (\<lambda>op. is_write op \<and> is_error op) ops"

fun check_keys :: "history \<Rightarrow> string list \<Rightarrow> u64 list \<Rightarrow> check_result" where
  "check_keys h [] acc = result_linearizable acc"
| "check_keys h (k # ks) acc =
     (let all_key_ops = ops_for_key h k;
          key_ops = confirmed_ops all_key_ops;
          ind = indeterminate_writes all_key_ops
      in if key_ops = [] \<and> ind = [] then check_keys h ks acc
         else let r = check_single_key key_ops ind
              in if \<not> is_linearizable r
                 then result_not_linearizable (''Key '' @ [CHR 0x27] @ k @ [CHR 0x27] @ '': '' @
                        (case check_error r of Some e \<Rightarrow> e | None \<Rightarrow> ''''))
                 else check_keys h ks
                        (acc @ (case linearization r of Some lin \<Rightarrow> lin | None \<Rightarrow> [])))"

definition check :: "string list \<Rightarrow> history \<Rightarrow> check_result" where
  "check keys h = (if keys = [] then result_linearizable [] else check_keys h keys [])"

section \<open>What a linearization is\<close>

text \<open>The values a register may return: \<open>legal v\<close> holds of a sequence of operations on a register that
  holds \<open>v\<close>.\<close>

fun legal :: "string option \<Rightarrow> (op_kind \<times> op_result) list \<Rightarrow> bool" where
  "legal v [] \<longleftrightarrow> True"
| "legal v ((Write x, WriteOk) # evs) \<longleftrightarrow> legal (Some x) evs"
| "legal v ((Read, ReadOk r) # evs) \<longleftrightarrow> r = v \<and> legal v evs"
| "legal v (_ # evs) \<longleftrightarrow> False"

text \<open>
  \<open>placed ops req opt v f w\<close>: the order \<open>w\<close> of positions in \<open>ops\<close> contains every required one and otherwise
  only optional ones, is legal on a register that holds \<open>v\<close>, and respects real time: no operation comes
  after one that was invoked when it had already responded, and none responded before \<open>f\<close>.
\<close>

definition event :: "operation list \<Rightarrow> nat \<Rightarrow> op_kind \<times> op_result" where
  "event ops i = (kind (ops ! i), op_result (ops ! i))"

definition real_time :: "operation list \<Rightarrow> nat list \<Rightarrow> bool" where
  "real_time ops w \<longleftrightarrow> sorted_wrt (\<lambda>i j. invoke_ts (ops ! i) \<le> complete_ts (ops ! j)) w"

definition placed ::
  "operation list \<Rightarrow> nat list \<Rightarrow> nat list \<Rightarrow> string option \<Rightarrow> timestamp \<Rightarrow> nat list \<Rightarrow> bool" where
  "placed ops req opt v f w \<longleftrightarrow>
     distinct w \<and> set req \<subseteq> set w \<and> set w \<subseteq> set req \<union> set opt \<and> legal v (map (event ops) w) \<and>
     real_time ops w \<and> (\<forall>i \<in> set w. f \<le> complete_ts (ops ! i))"

lemma try_apply_legal:
  "fst (try_apply op m) \<and> legal (reg_value (snd (try_apply op m))) evs \<longleftrightarrow>
   legal (reg_value m) ((kind op, op_result op) # evs)"
  by (cases "kind op"; cases "op_result op") (auto simp: try_apply_def apply_write_def check_read_def)

lemma placed_Cons:
  "placed ops req opt v f (i # w) \<longleftrightarrow>
     i \<in> set req \<union> set opt \<and> f \<le> complete_ts (ops ! i) \<and> i \<notin> set w \<and> distinct w \<and>
     set req \<subseteq> insert i (set w) \<and> set w \<subseteq> set req \<union> set opt \<and> legal v (event ops i # map (event ops) w) \<and>
     real_time ops w \<and> (\<forall>j \<in> set w. max f (invoke_ts (ops ! i)) \<le> complete_ts (ops ! j))"
  by (auto simp: placed_def real_time_def)

text \<open>Placing one candidate leaves the same problem on the rest.\<close>

lemma placed_step:
  assumes "set req \<inter> set opt = {}" "i \<in> set (if b then opt else req)"
    and "f \<le> complete_ts (ops ! i)" "fst (try_apply (ops ! i) m)"
  shows "placed ops req opt (reg_value m) f (i # w) \<longleftrightarrow>
    placed ops (if b then req else without i req) (if b then without i opt else opt)
      (reg_value (snd (try_apply (ops ! i) m))) (max f (invoke_ts (ops ! i))) w"
proof -
  have l: "legal (reg_value m) (event ops i # map (event ops) w) \<longleftrightarrow>
      legal (reg_value (snd (try_apply (ops ! i) m))) (map (event ops) w)"
    using try_apply_legal [of "ops ! i" m "map (event ops) w"] assms(4) by (simp add: event_def)
  have s: "set (without i xs) = set xs - {i}" for xs by (auto simp: without_def)
  show ?thesis
    unfolding placed_Cons l using assms(1-3) by (cases b) (auto simp: placed_def s)
qed

section \<open>The search is sound and complete\<close>

lemma first_success_found:
  assumes "first_success f cs lin = (True, lin')"
    and keep: "\<And>c l l'. c \<in> set cs \<Longrightarrow> f c l = (False, l') \<Longrightarrow> l' = l"
  obtains c where "c \<in> set cs" "f c lin = (True, lin')"
  using assms
proof (induction cs arbitrary: thesis)
  case (Cons c cs)
  show thesis
  proof (cases "f c lin")
    case (Pair ok l')
    show thesis
    proof (cases ok)
      case True
      then show thesis using Pair Cons.prems(1,2) by (intro Cons.prems(1) [of c]) simp_all
    next
      case False
      then have "l' = lin" using Pair Cons.prems(3) [of c lin l'] by simp
      with False Pair have rest: "first_success f cs lin = (True, lin')" using Cons.prems(2) by simp
      obtain c' where "c' \<in> set cs" "f c' lin = (True, lin')"
        using Cons.IH [OF _ rest] Cons.prems(3) by (metis list.set_intros(2))
      then show thesis by (intro Cons.prems(1) [of c']) simp_all
    qed
  qed
qed simp

lemma first_success_keeps:
  assumes "first_success f cs lin = (False, lin')"
    and keep: "\<And>c l l'. c \<in> set cs \<Longrightarrow> f c l = (False, l') \<Longrightarrow> l' = l"
  shows "lin' = lin"
  using assms
proof (induction cs arbitrary: lin)
  case (Cons c cs)
  obtain l' where l: "f c lin = (False, l')" and r: "first_success f cs l' = (False, lin')"
    using Cons.prems(1) by (auto split: prod.splits bool.splits)
  have "lin' = l'"
  proof (rule Cons.IH [OF r])
    fix d k k'
    assume "d \<in> set cs" "f d k = (False, k')"
    then show "k' = k" using Cons.prems(2) [of d k k'] by simp
  qed
  then show ?case using Cons.prems(2) [OF _ l] by simp
qed simp

lemma first_success_True:
  assumes "c \<in> set cs" "\<And>l. fst (f c l)"
  shows "fst (first_success f cs lin)"
  using assms(1) 
proof (induction cs arbitrary: lin)
  case (Cons c' cs)
  then show ?case using assms(2) [of lin] by (cases "c = c'") (auto split: prod.splits bool.splits)
qed simp

definition attempt ::
  "operation list \<Rightarrow> nat list \<Rightarrow> nat list \<Rightarrow> register_model \<Rightarrow> timestamp \<Rightarrow> nat \<times> bool \<Rightarrow> u64 list \<Rightarrow> bool \<times> u64 list" where
  "attempt ops req opt m f = (\<lambda>(i, b) lin.
     if fst (try_apply (ops ! i) m)
     then let (found, lin') = search ops (if b then req else without i req) (if b then without i opt else opt)
                (snd (try_apply (ops ! i) m)) (max f (invoke_ts (ops ! i))) (lin @ [op_id (ops ! i)])
          in if found then (True, lin') else (False, butlast lin')
     else (False, lin))"

lemma search_eq:
  "search ops req opt m f lin =
     (if req = [] then (True, lin)
      else first_success (attempt ops req opt m f) (sort_candidates ops (candidates ops req opt f)) lin)"
proof (cases "req = [] \<or> candidates ops req opt f = []")
  case True
  then show ?thesis by (auto simp: search.simps [of ops req opt m f lin] sort_candidates_def)
next
  case False
  have "(\<lambda>(i, is_optional) lin.
           let op = ops ! i; (is_valid, new_model) = try_apply op m
           in if is_valid
              then let (found, lin') = search ops (if is_optional then req else without i req)
                         (if is_optional then without i opt else opt) new_model (max f (invoke_ts op)) (lin @ [op_id op])
                   in if found then (True, lin') else (False, butlast lin')
              else (False, lin)) = attempt ops req opt m f"
    by (auto simp: attempt_def Let_def fun_eq_iff split: prod.splits)
  then show ?thesis using False by (simp add: search.simps [of ops req opt m f lin] Let_def del: split_paired_All)
qed

text \<open>The recursive call of an attempt.\<close>

definition descend ::
  "operation list \<Rightarrow> nat list \<Rightarrow> nat list \<Rightarrow> register_model \<Rightarrow> timestamp \<Rightarrow> nat \<Rightarrow> bool \<Rightarrow> u64 list \<Rightarrow> bool \<times> u64 list" where
  "descend ops req opt m f i b lin =
     search ops (if b then req else without i req) (if b then without i opt else opt)
       (snd (try_apply (ops ! i) m)) (max f (invoke_ts (ops ! i))) (lin @ [op_id (ops ! i)])"

lemma attempt_eq:
  "attempt ops req opt m f (i, b) lin =
     (if fst (try_apply (ops ! i) m)
      then (fst (descend ops req opt m f i b lin),
            if fst (descend ops req opt m f i b lin) then snd (descend ops req opt m f i b lin)
            else butlast (snd (descend ops req opt m f i b lin)))
      else (False, lin))"
  by (auto simp: attempt_def descend_def [symmetric] Let_def split: prod.splits)

text \<open>Induction along the search: the hypothesis is available for every candidate.\<close>

lemma search_induct:
  assumes step: "\<And>req opt m f lin.
      (\<And>i b l. (i, b) \<in> set (candidates ops req opt f) \<Longrightarrow> fst (try_apply (ops ! i) m) \<Longrightarrow>
          P (if b then req else without i req) (if b then without i opt else opt)
            (snd (try_apply (ops ! i) m)) (max f (invoke_ts (ops ! i))) (l @ [op_id (ops ! i)])) \<Longrightarrow>
      P req opt m f lin"
  shows "P req opt m f lin"
proof (induction "length req + length opt" arbitrary: req opt m f lin rule: less_induct)
  case less
  show ?case
  proof (rule step)
    fix i b l
    assume "(i, b) \<in> set (candidates ops req opt f)"
    then have "i \<in> set (if b then opt else req)" by (simp add: set_candidates)
    then show "P (if b then req else without i req) (if b then without i opt else opt)
        (snd (try_apply (ops ! i) m)) (max f (invoke_ts (ops ! i))) (l @ [op_id (ops ! i)])"
      using length_without [of i] by (intro less) (cases b, auto)
  qed
qed

lemma search_keeps: "search ops req opt m f lin = (False, lin') \<Longrightarrow> lin' = lin"
proof (induction req opt m f lin arbitrary: lin' rule: search_induct [of ops])
  case (1 req opt m f lin)
  have keep: "l' = l" if cand: "(i, b) \<in> set (candidates ops req opt f)" and att: "attempt ops req opt m f (i, b) l = (False, l')" for i b l l'
  proof (cases "fst (try_apply (ops ! i) m)")
    case True
    then obtain l2 where d: "descend ops req opt m f i b l = (False, l2)" and l': "l' = butlast l2"
      using att by (cases "descend ops req opt m f i b l") (auto simp: attempt_eq split: if_splits)
    have "l2 = l @ [op_id (ops ! i)]" using 1(1) [OF cand True, of l, folded descend_def] d by blast
    then show ?thesis using l' by simp
  next
    case False
    then show ?thesis using att by (simp add: attempt_eq)
  qed
  show ?case
  proof (cases "req = []")
    case True
    then show ?thesis using 1(2) by (simp add: search_eq)
  next
    case False
    then have fs: "first_success (attempt ops req opt m f) (sort_candidates ops (candidates ops req opt f)) lin = (False, lin')"
      using 1(2) by (simp add: search_eq)
    show ?thesis
    proof (rule first_success_keeps [OF fs])
      fix c l l'
      assume "c \<in> set (sort_candidates ops (candidates ops req opt f))" "attempt ops req opt m f c l = (False, l')"
      moreover obtain i b where "c = (i, b)" by (rule prod.exhaust)
      ultimately show "l' = l" using keep by (metis set_sort_candidates)
    qed
  qed
qed

lemma attempt_keeps: "attempt ops req opt m f c l = (False, l') \<Longrightarrow> l' = l"
proof -
  assume a: "attempt ops req opt m f c l = (False, l')"
  obtain i b where c: "c = (i, b)" by (rule prod.exhaust)
  have "l2 = l @ [op_id (ops ! i)]" if "descend ops req opt m f i b l = (False, l2)" for l2
    using that unfolding descend_def by (rule search_keeps)
  then show ?thesis using a c by (cases "descend ops req opt m f i b l") (auto simp: attempt_eq split: if_splits)
qed

text \<open>Soundness: what the search adds to the vector are the identifiers of a placement.\<close>

lemma search_sound:
  assumes "search ops req opt m f lin = (True, lin')" "set req \<inter> set opt = {}"
  shows "\<exists>w. placed ops req opt (reg_value m) f w \<and> lin' = lin @ map (\<lambda>i. op_id (ops ! i)) w"
  using assms
proof (induction req opt m f lin arbitrary: lin' rule: search_induct [of ops])
  case (1 req opt m f lin)
  show ?case
  proof (cases "req = []")
    case True
    then have "placed ops req opt (reg_value m) f []" by (simp add: placed_def real_time_def)
    then show ?thesis using 1(2) True by (auto simp: search_eq)
  next
    case False
    then have "first_success (attempt ops req opt m f) (sort_candidates ops (candidates ops req opt f)) lin = (True, lin')"
      using 1(2) by (simp add: search_eq)
    then obtain c where "c \<in> set (sort_candidates ops (candidates ops req opt f))"
      and a: "attempt ops req opt m f c lin = (True, lin')"
      by (rule first_success_found) (rule attempt_keeps)
    moreover obtain i b where c: "c = (i, b)" by (rule prod.exhaust)
    ultimately have cand: "(i, b) \<in> set (candidates ops req opt f)" by simp
    from a c have v: "fst (try_apply (ops ! i) m)"
      and s: "search ops (if b then req else without i req) (if b then without i opt else opt)
                (snd (try_apply (ops ! i) m)) (max f (invoke_ts (ops ! i))) (lin @ [op_id (ops ! i)]) = (True, lin')"
      by (auto simp: attempt_def Let_def split: prod.splits if_splits)
    have d: "set (if b then req else without i req) \<inter> set (if b then without i opt else opt) = {}"
      using 1(3) by (auto simp: without_def)
    obtain w where w: "placed ops (if b then req else without i req) (if b then without i opt else opt)
        (reg_value (snd (try_apply (ops ! i) m))) (max f (invoke_ts (ops ! i))) w"
      "lin' = (lin @ [op_id (ops ! i)]) @ map (\<lambda>i. op_id (ops ! i)) w"
      using 1(1) [OF cand v s d] by blast
    have "placed ops req opt (reg_value m) f (i # w)"
      using placed_step [OF 1(3) _ _ v, of b f w] w(1) cand by (simp add: set_candidates eligible_def)
    then show ?thesis using w(2) by (intro exI [of _ "i # w"]) simp
  qed
qed

lemma min_complete_of_le:
  "\<forall>i \<in> set req. t \<le> complete_ts (ops ! i) \<Longrightarrow> t \<le> min_complete_of ops req"
  by (induction req) (simp_all add: min_complete_of_def less_eq_timestamp_def)

text \<open>Completeness: if there is a placement, the search finds one.\<close>

lemma search_complete:
  assumes "placed ops req opt (reg_value m) f w" "set req \<inter> set opt = {}"
    and "\<forall>i \<in> set req. interval_ok (ops ! i)"
  shows "fst (search ops req opt m f lin)"
  using assms
proof (induction req opt m f lin arbitrary: w rule: search_induct [of ops])
  case (1 req opt m f lin)
  show ?case
  proof (cases "req = []")
    case True
    then show ?thesis by (simp add: search_eq)
  next
    case False
    with 1(2) obtain i w' where w: "w = i # w'" by (cases w) (auto simp: placed_def)
    note p = 1(2) [unfolded w placed_Cons]
    define b where "b \<longleftrightarrow> i \<notin> set req"
    have mem: "i \<in> set (if b then opt else req)" using p by (auto simp: b_def)
    have "\<forall>j \<in> set req. invoke_ts (ops ! i) \<le> complete_ts (ops ! j)"
      using p 1(4) by (auto simp: interval_ok_def)
    then have cand: "(i, b) \<in> set (candidates ops req opt f)"
      using p mem by (simp add: set_candidates eligible_def min_complete_of_le)
    have v: "fst (try_apply (ops ! i) m)"
      using p try_apply_legal [of "ops ! i" m "map (event ops) w'"] by (simp add: event_def)
    have pl: "placed ops (if b then req else without i req) (if b then without i opt else opt)
        (reg_value (snd (try_apply (ops ! i) m))) (max f (invoke_ts (ops ! i))) w'"
      using 1(2) placed_step [OF 1(3) mem _ v, of f w'] p w by simp
    have d: "set (if b then req else without i req) \<inter> set (if b then without i opt else opt) = {}"
      "\<forall>j \<in> set (if b then req else without i req). interval_ok (ops ! j)"
      using 1(3,4) by (auto simp: without_def)
    have "fst (attempt ops req opt m f (i, b) l)" for l
      using 1(1) [OF cand v pl d, of l, folded descend_def] v by (simp add: attempt_eq)
    then show ?thesis using cand False by (simp add: search_eq first_success_True)
  qed
qed

section \<open>The verdict of check\_single\_key\<close>

text \<open>
  A linearization of the confirmed operations \<open>ops\<close> with the writes \<open>pend\<close>, of which it is not known
  whether they took effect: every confirmed operation occurs once, a pending write at most once, the
  values are those of a register, and real time is respected, where a pending write may take effect at
  any time after its invocation.
\<close>

definition linearization_of :: "operation list \<Rightarrow> operation list \<Rightarrow> nat list \<Rightarrow> bool" where
  "linearization_of ops pend w \<longleftrightarrow>
     distinct w \<and> {0..<length ops} \<subseteq> set w \<and> set w \<subseteq> {0..<length ops + length pend} \<and>
     legal None (map (\<lambda>i. if i < length ops then event ops i else (kind (pend ! (i - length ops)), WriteOk)) w) \<and>
     sorted_wrt (\<lambda>i j. j < length ops \<longrightarrow> \<not> complete_ts (ops ! j) < invoke_ts ((ops @ pend) ! i)) w"

lemma max_complete_ge: "op \<in> set ops \<Longrightarrow> complete_ts op \<le> max_complete ops"
  by (induction ops) (auto simp: max_complete_def less_eq_timestamp_def max_def)

lemma extend_write_sel [simp]:
  "op_id (extend_write t op) = op_id op" "kind (extend_write t op) = kind op"
  "invoke_ts (extend_write t op) = invoke_ts op" "complete_ts (extend_write t op) = t"
  "op_result (extend_write t op) = WriteOk"
  by (simp_all add: extend_write_def operation_new_def)

lemma sorted_wrt_cong_set:
  "(\<And>x y. x \<in> set xs \<Longrightarrow> y \<in> set xs \<Longrightarrow> P x y \<longleftrightarrow> Q x y) \<Longrightarrow> sorted_wrt P xs \<longleftrightarrow> sorted_wrt Q xs"
  by (induction xs) auto

lemma placed_iff_linearization:
  assumes "\<forall>op \<in> set (ops @ pend). interval_ok op"
  shows "placed (ops @ map (extend_write (max_complete (ops @ pend))) pend) [0..<length ops]
      [length ops..<length ops + length pend] None (Timestamp 0) w \<longleftrightarrow> linearization_of ops pend w"
proof -
  let ?n = "length ops" and ?N = "length ops + length pend"
  let ?all = "ops @ map (extend_write (max_complete (ops @ pend))) pend"
  have sets: "set [0..<?n] \<union> set [?n..<?N] = {0..<?N}" by auto
  have zero: "Timestamp 0 \<le> t" for t by (simp add: less_eq_timestamp_def)
  have ev: "event ?all i = (if i < ?n then event ops i else (kind (pend ! (i - ?n)), WriteOk))" if "i < ?N" for i
    using that by (auto simp: event_def nth_append)
  have inv: "invoke_ts (?all ! i) = invoke_ts ((ops @ pend) ! i)" if "i < ?N" for i
    using that by (auto simp: nth_append)
  have late: "invoke_ts ((ops @ pend) ! i) \<le> max_complete (ops @ pend)" if "i < ?N" for i
  proof -
    have "(ops @ pend) ! i \<in> set (ops @ pend)" using that by (intro nth_mem) simp
    then show ?thesis using assms max_complete_ge by (meson interval_ok_def order_trans)
  qed
  have rel: "invoke_ts (?all ! i) \<le> complete_ts (?all ! j) \<longleftrightarrow>
      (j < ?n \<longrightarrow> \<not> complete_ts (ops ! j) < invoke_ts ((ops @ pend) ! i))" if "i < ?N" "j < ?N" for i j
    using that late inv by (auto simp: nth_append)
  show ?thesis
  proof (cases "set w \<subseteq> {0..<?N}")
    case True
    then have evs: "map (event ?all) w = map (\<lambda>i. if i < ?n then event ops i else (kind (pend ! (i - ?n)), WriteOk)) w"
      by (intro map_cong) (auto simp: ev)
    have rt: "real_time ?all w \<longleftrightarrow>
        sorted_wrt (\<lambda>i j. j < ?n \<longrightarrow> \<not> complete_ts (ops ! j) < invoke_ts ((ops @ pend) ! i)) w"
      unfolding real_time_def using True by (intro sorted_wrt_cong_set rel) auto
    show ?thesis using True zero unfolding placed_def linearization_of_def evs rt by auto
  next
    case False
    then show ?thesis by (auto simp: placed_def linearization_of_def)
  qed
qed

text \<open>The two fast checks only reject histories without a linearization.\<close>

lemma legal_read: "legal v evs \<Longrightarrow> (Read, ReadOk r) \<in> set evs \<Longrightarrow> r = v \<or> (\<exists>x. r = Some x \<and> (Write x, WriteOk) \<in> set evs)"
  by (induction v evs rule: legal.induct) auto

lemma legal_after_write: "legal (Some x) evs \<Longrightarrow> (Read, ReadOk None) \<notin> set evs"
  by (induction "Some x" evs arbitrary: x rule: legal.induct) auto

lemma legal_append_write: "legal v (es @ (Write x, r) # es') \<Longrightarrow> (Read, ReadOk None) \<notin> set es'"
proof (induction v es rule: legal.induct)
  case (1 v)
  then show ?case using legal_after_write by (cases r) auto
qed auto

lemma written_iff: "Some x \<in> set (written ops) \<longleftrightarrow> (\<exists>op \<in> set ops. kind op = Write x)" 
  "None \<notin> set (written ops)"
  by (induction ops) (auto split: op_kind.splits)

lemma unwritten_read_Some:
  "unwritten_read vals ops = Some r \<Longrightarrow> \<exists>op \<in> set ops. kind op = Read \<and> op_result op = ReadOk r \<and> r \<notin> vals"
  by (induction ops) (auto split: op_kind.splits op_result.splits if_splits)

lemma earlier_write_Some:
  "earlier_write rd ops = Some (v, w) \<Longrightarrow> w \<in> set ops \<and> kind w = Write v \<and> complete_ts w < invoke_ts rd"
  by (induction ops) (auto split: op_kind.splits if_splits)

lemma stale_read_Some:
  "stale_read ops rds = Some (rd, v, w) \<Longrightarrow>
     rd \<in> set rds \<and> kind rd = Read \<and> op_result rd = ReadOk None \<and>
     w \<in> set ops \<and> kind w = Write v \<and> complete_ts w < invoke_ts rd"
  by (induction rds) (auto split: op_kind.splits op_result.splits option.splits dest: earlier_write_Some)

lemma linearization_event:
  assumes "linearization_of ops pend w" "op \<in> set ops"
  obtains i where "i < length ops" "ops ! i = op" "i \<in> set w"
  using assms by (auto simp: linearization_of_def in_set_conv_nth subset_iff)

lemma unwritten_read_rejects:
  assumes lin: "linearization_of ops pend w"
  shows "unwritten_read (insert None (set (written ops @ written pend))) ops = None"
proof (rule ccontr)
  let ?ev = "\<lambda>i. if i < length ops then event ops i else (kind (pend ! (i - length ops)), WriteOk)"
  assume "unwritten_read (insert None (set (written ops @ written pend))) ops \<noteq> None"
  then obtain r op where op: "op \<in> set ops" "kind op = Read" "op_result op = ReadOk r"
    and r: "r \<notin> insert None (set (written ops @ written pend))"
    using unwritten_read_Some by fastforce
  obtain i where i: "i < length ops" "ops ! i = op" "i \<in> set w" using lin op(1) by (rule linearization_event)
  then have "(Read, ReadOk r) \<in> set (map ?ev w)" using op by (auto simp: event_def intro!: rev_image_eqI [of i])
  moreover have "legal None (map ?ev w)" using lin by (simp add: linearization_of_def)
  ultimately obtain x where x: "r = Some x" "(Write x, WriteOk) \<in> set (map ?ev w)"
    using legal_read [of None "map ?ev w" r] r by auto
  then obtain j where j: "j \<in> set w" "?ev j = (Write x, WriteOk)" by auto
  then have jn: "j < length ops + length pend" using lin by (auto simp: linearization_of_def subset_iff)
  have "\<exists>op \<in> set (ops @ pend). kind op = Write x"
  proof (cases "j < length ops")
    case True
    then show ?thesis using j(2) by (intro bexI [of _ "ops ! j"]) (simp_all add: event_def)
  next
    case False
    then show ?thesis using j(2) jn by (intro bexI [of _ "pend ! (j - length ops)"]) simp_all
  qed
  then show False using r x(1) written_iff(1) by auto
qed

lemma stale_read_rejects:
  assumes lin: "linearization_of ops pend w"
  shows "stale_read ops ops = None"
proof (rule ccontr)
  let ?ev = "\<lambda>i. if i < length ops then event ops i else (kind (pend ! (i - length ops)), WriteOk)"
  assume "stale_read ops ops \<noteq> None"
  then obtain rd v wr where s: "stale_read ops ops = Some (rd, v, wr)" by auto
  note f = stale_read_Some [OF s]
  obtain i where i: "i < length ops" "ops ! i = wr" "i \<in> set w" by (rule linearization_event [OF lin, of wr]) (use f in auto)
  obtain j where j: "j < length ops" "ops ! j = rd" "j \<in> set w" by (rule linearization_event [OF lin, of rd]) (use f in auto)
  obtain xs ys where w: "w = xs @ i # ys" using i(3) by (auto simp: in_set_conv_decomp)
  have "j \<notin> set xs"
  proof
    assume "j \<in> set xs"
    then have "\<not> complete_ts (ops ! i) < invoke_ts ((ops @ pend) ! j)"
      using lin i(1) by (auto simp: linearization_of_def w sorted_wrt_append)
    then show False using f i j by (simp add: nth_append)
  qed
  moreover have "i \<noteq> j" using f i(2) j(2) by auto
  ultimately have "j \<in> set ys" using j(3) w by auto
  then have "?ev j \<in> set (map ?ev ys)" unfolding set_map by (rule imageI)
  moreover have "?ev j = (Read, ReadOk None)" using j f by (simp add: event_def)
  ultimately have "(Read, ReadOk None) \<in> set (map ?ev ys)" by simp
  moreover have "legal None (map ?ev xs @ (Write v, op_result wr) # map ?ev ys)"
    using lin i f by (simp add: linearization_of_def w event_def)
  ultimately show False using legal_append_write by blast
qed

theorem check_single_key_correct:
  assumes "\<forall>op \<in> set (ops @ pend). interval_ok op"
  shows "is_linearizable (check_single_key ops pend) \<longleftrightarrow> (\<exists>w. linearization_of ops pend w)"
    "is_linearizable (check_single_key ops pend) \<Longrightarrow>
       \<exists>w. linearization_of ops pend w \<and>
         linearization (check_single_key ops pend) = Some (map (\<lambda>i. op_id ((ops @ pend) ! i)) w)"
proof -
  let ?n = "length ops"
  let ?all = "ops @ map (extend_write (max_complete (ops @ pend))) pend"
  let ?s = "search ?all [0..<?n] [?n..<length ?all] register_new (Timestamp 0) []"
  have len: "length ?all = ?n + length pend" by simp
  have dis: "set [0..<?n] \<inter> set [?n..<length ?all] = {}" by auto
  have wf: "\<forall>i \<in> set [0..<?n]. interval_ok (?all ! i)" using assms by (auto simp: nth_append)
  have ids: "op_id (?all ! i) = op_id ((ops @ pend) ! i)" if "i < ?n + length pend" for i
    using that by (auto simp: nth_append)
  have iff: "placed ?all [0..<?n] [?n..<length ?all] (reg_value register_new) (Timestamp 0) w \<longleftrightarrow> linearization_of ops pend w" for w
    using placed_iff_linearization [OF assms, of w] by (simp add: register_new_def)
  have empty: "linearization_of [] [] []" by (simp add: linearization_of_def)
  have found: "fst ?s \<longleftrightarrow> (\<exists>w. linearization_of ops pend w)"
    using search_sound [of ?all "[0..<?n]" "[?n..<length ?all]" register_new "Timestamp 0" "[]" "snd ?s"] dis
      search_complete [of ?all "[0..<?n]" "[?n..<length ?all]" register_new "Timestamp 0" _ "[]"] wf iff
    by (cases ?s) (auto simp del: length_append)
  show iff1: "is_linearizable (check_single_key ops pend) \<longleftrightarrow> (\<exists>w. linearization_of ops pend w)"
    using found unwritten_read_rejects stale_read_rejects empty
    by (cases ?s) (auto simp: check_single_key_def result_linearizable_def result_not_linearizable_def Let_def
        simp del: length_append split: option.splits)
  assume ok: "is_linearizable (check_single_key ops pend)"
  show "\<exists>w. linearization_of ops pend w \<and>
      linearization (check_single_key ops pend) = Some (map (\<lambda>i. op_id ((ops @ pend) ! i)) w)"
  proof (cases "ops = [] \<and> pend = []")
    case True
    then show ?thesis using empty by (intro exI [of _ "[]"]) (simp add: check_single_key_def result_linearizable_def)
  next
    case False
    obtain lin' where s: "?s = (True, lin')" using found ok iff1 by (cases ?s) auto
    obtain w where w: "linearization_of ops pend w" "lin' = map (\<lambda>i. op_id (?all ! i)) w"
      using search_sound [OF s dis] iff by auto
    have "map (\<lambda>i. op_id (?all ! i)) w = map (\<lambda>i. op_id ((ops @ pend) ! i)) w"
      using w(1) ids by (auto simp: linearization_of_def subset_iff)
    then have "linearization (check_single_key ops pend) = Some (map (\<lambda>i. op_id ((ops @ pend) ! i)) w)"
      using False w s unwritten_read_rejects [OF w(1)] stale_read_rejects [OF w(1)]
      by (auto simp: check_single_key_def result_linearizable_def Let_def simp del: length_append)
    then show ?thesis using w(1) by blast
  qed
qed

end
