(* ===== verification/Lin_Properties.thy ===== *)
theory Lin_Properties
  imports Lin_Checker
begin

text \<open>
  The verdict of the linearizability checker on whole histories, and sample histories.
\<close>

text \<open>What the checker should decide: every key has a linearization of its operations.\<close>

definition linearizable :: "history \<Rightarrow> bool" where
  "linearizable h \<longleftrightarrow>
     (\<forall>k \<in> unique_keys h. \<exists>w.
        linearization_of (confirmed_ops (ops_for_key h k)) (indeterminate_writes (ops_for_key h k)) w)"

lemma check_keys_verdict:
  assumes wf: "\<forall>op \<in> set (hist_ops h). interval_ok op"
  shows "is_linearizable (check_keys h ks acc) \<longleftrightarrow>
    (\<forall>k \<in> set ks. \<exists>w. linearization_of (confirmed_ops (ops_for_key h k)) (indeterminate_writes (ops_for_key h k)) w)"
proof (induction ks arbitrary: acc)
  case Nil
  show ?case by (simp add: result_linearizable_def)
next
  case (Cons k ks)
  let ?ops = "confirmed_ops (ops_for_key h k)" and ?pend = "indeterminate_writes (ops_for_key h k)"
  have "\<forall>op \<in> set (?ops @ ?pend). interval_ok op"
    using wf by (auto simp: confirmed_ops_def indeterminate_writes_def ops_for_key_def)
  note one = check_single_key_correct(1) [OF this]
  have empty: "linearization_of [] [] []" by (simp add: linearization_of_def)
  show ?case
    using Cons.IH one empty by (auto simp: Let_def result_not_linearizable_def)
qed

section \<open>Sample histories\<close>

definition sample_op :: "u64 \<Rightarrow> op_kind \<Rightarrow> u64 \<Rightarrow> u64 \<Rightarrow> op_result \<Rightarrow> operation" where
  "sample_op i k a b r = operation_new i (ClientId 1) ''x'' k (Timestamp a) (Timestamp b) r"

text \<open>A read that misses a completed write; and a write that failed, was missed by one read and seen by the next.\<close>

definition stale_history :: history where
  "stale_history = \<lparr>hist_ops = [sample_op 1 (Write ''a'') 1 2 WriteOk, sample_op 2 Read 3 4 (ReadOk None)], start_time = 0\<rparr>"

definition pending_history :: history where
  "pending_history = \<lparr>hist_ops = [sample_op 1 (Write ''a'') 1 2 (OpError ''timeout''), sample_op 2 Read 3 4 (ReadOk None),
     sample_op 3 Read 5 6 (ReadOk (Some ''a''))], start_time = 0\<rparr>"

lemma sample_histories_ok:
  "\<forall>op \<in> set (hist_ops stale_history) \<union> set (hist_ops pending_history). interval_ok op"
  by (simp add: stale_history_def pending_history_def sample_op_def operation_new_def interval_ok_def less_eq_timestamp_def)

section \<open>Properties\<close>

text \<open>
  C13: the checker decides linearizability. In whatever order the keys are visited, a history is accepted
  exactly when every key has an order of its operations that is legal on a register and respects real
  time, in which the writes that failed may be left out or take effect at any time after their start.
\<close>

theorem check_decides_linearizability:
  assumes "set keys = unique_keys h" "\<forall>op \<in> set (hist_ops h). interval_ok op"
  shows "is_linearizable (check keys h) \<longleftrightarrow> linearizable h"
  using check_keys_verdict [OF assms(2), of keys "[]"] assms(1)
  by (cases "keys = []") (auto simp: check_def linearizable_def result_linearizable_def)

theorem check_decides_linearizability_witness:
  "\<not> linearizable stale_history \<and> linearizable pending_history"
proof -
  have "unique_keys stale_history = set [''x'']" "unique_keys pending_history = set [''x'']"
    by (simp_all add: unique_keys_def stale_history_def pending_history_def sample_op_def operation_new_def)
  moreover have "\<not> is_linearizable (check [''x''] stale_history)" "is_linearizable (check [''x''] pending_history)"
    by code_simp+
  ultimately show ?thesis
    using check_decides_linearizability [of "[''x'']"] sample_histories_ok by auto
qed

text \<open>
  The order the checker reports is a linearization. What \<open>check_single_key\<close> returns on success are the
  identifiers of the operations in an order that is legal on a register and respects real time.
\<close>

theorem reported_order_linearizes:
  assumes "\<forall>op \<in> set (ops @ pend). interval_ok op" "is_linearizable (check_single_key ops pend)"
  shows "\<exists>w. linearization_of ops pend w \<and>
    linearization (check_single_key ops pend) = Some (map (\<lambda>i. op_id ((ops @ pend) ! i)) w)"
  using assms by (rule check_single_key_correct(2))

theorem reported_order_linearizes_witness:
  "\<exists>w. linearization_of [sample_op 2 Read 3 4 (ReadOk None), sample_op 3 Read 5 6 (ReadOk (Some ''a''))]
     [sample_op 1 (Write ''a'') 1 2 (OpError ''timeout'')] w"
proof -
  let ?ops = "[sample_op 2 Read 3 4 (ReadOk None), sample_op 3 Read 5 6 (ReadOk (Some ''a''))]"
  let ?pend = "[sample_op 1 (Write ''a'') 1 2 (OpError ''timeout'')]"
  have "\<forall>op \<in> set (?ops @ ?pend). interval_ok op"
    by (simp add: sample_op_def operation_new_def interval_ok_def less_eq_timestamp_def)
  moreover have "is_linearizable (check_single_key ?ops ?pend)" by code_simp
  ultimately show ?thesis using reported_order_linearizes by blast
qed

end
