(* ===== verification/Client_Api.thy ===== *)
theory Client_Api
  imports Raft_Server Key_Value
begin

text \<open>
  The HTTP interface for clients, \<open>src/api/client_http.rs\<close>, and the handle through which it reaches the
  server loop (\<open>RaftHandle\<close> of raft\_server.rs). The router and the extraction of the path and of the
  JSON body are axum's; the handlers get the key as the client meant it and answer with a status and a
  value. The core and the key-value store of a node share one state, as they do in the program.
\<close>

section \<open>RaftHandle\<close>

text \<open>
  The command goes to the loop through one channel and its result comes back through another;
  \<open>delivered\<close> and \<open>replied\<close> say whether the loop still runs at those two moments.
\<close>

definition raft_handle_submit ::
  "'s storage_ops \<Rightarrow> 'm sm_ops \<Rightarrow> ('s, 'm) network \<Rightarrow> bool \<Rightarrow> bool \<Rightarrow> string \<Rightarrow> ('s, 'm) raft_core \<Rightarrow>
   ((string, raft_error) result \<times> ('s, 'm) raft_core) option" where
  "raft_handle_submit S M N delivered replied command c =
     (if \<not> delivered then Some (Err (NotLeader None), c)
      else do {
        (r, c) \<leftarrow> handle_submit S M N command c;
        Some (if replied then r else Err (NotLeader None), c)
      })"

definition raft_handle_read_index ::
  "('s, 'm) network \<Rightarrow> ('s, 'm) others \<Rightarrow> (('s, 'm) others \<times> duration) list \<Rightarrow> bool \<Rightarrow> bool \<Rightarrow>
   ('s, 'm) raft_core \<Rightarrow> (u64, raft_error) result option \<times> ('s, 'm) raft_core" where
  "raft_handle_read_index N env rounds delivered replied c =
     (if \<not> delivered then (Some (Err (NotLeader None)), c)
      else let (r, c) = handle_read_index N env rounds c
           in (case r of None \<Rightarrow> None | Some r \<Rightarrow> Some (if replied then r else Err (NotLeader None)), c))"

section \<open>Requests and responses\<close>

record kv_set_request = set_value :: string
record kv_get_response = get_key :: string  get_value :: "string option"
record kv_mutation_response = mut_key :: string  success :: bool
record submit_request = submit_command :: string
record submit_response = submit_result :: string

record error_response =
  error_text :: string
  leader_hint :: "u64 option"

record leader_response =
  lr_leader_id :: "u64 option"
  lr_node_id :: u64
  is_leader :: bool

record status_response =
  sr_node_id :: u64
  sr_state :: string
  sr_term :: u64
  sr_leader_id :: "u64 option"
  sr_commit_index :: u64
  sr_last_applied :: u64
  log_length :: u64

definition BAD_REQUEST :: nat where "BAD_REQUEST = 400"
definition INTERNAL_SERVER_ERROR :: nat where "INTERNAL_SERVER_ERROR = 500"
definition SERVICE_UNAVAILABLE :: nat where "SERVICE_UNAVAILABLE = 503"

type_synonym 'a answer = "('a, nat \<times> error_response) result"

text \<open>The status of an answer on the wire; axum answers 200 to an \<open>Ok(Json(..))\<close>.\<close>

definition status_of :: "'a answer \<Rightarrow> nat" where
  "status_of a = (case a of Ok _ \<Rightarrow> 200 | Err (s, _) \<Rightarrow> s)"

definition api_error :: "nat \<Rightarrow> string \<Rightarrow> u64 option \<Rightarrow> nat \<times> error_response" where
  "api_error status msg hint = (status, \<lparr>error_text = msg, leader_hint = hint\<rparr>)"

text \<open>The arms for the errors of \<open>submit\<close>, which the three handlers that submit repeat.\<close>

definition submit_error :: "raft_error \<Rightarrow> nat \<times> error_response" where
  "submit_error e =
     (case e of
        NotLeader hint \<Rightarrow> api_error SERVICE_UNAVAILABLE ''Not the leader'' hint
      | NotCommitted \<Rightarrow> api_error SERVICE_UNAVAILABLE ''Entry not committed (couldn't reach majority)'' None
      | InvalidCommand err \<Rightarrow> api_error BAD_REQUEST (''Invalid command: '' @ err) None
      | StateMachineError err \<Rightarrow> api_error BAD_REQUEST (''State machine error: '' @ err) None
      | TransportError _ \<Rightarrow> api_error INTERNAL_SERVER_ERROR ''Transport error'' None
      | ReadTimeout \<Rightarrow> api_error SERVICE_UNAVAILABLE ''Read timeout'' None)"

text \<open>\<open>{:?}\<close> of a \<open>RaftError\<close>.\<close>

definition debug_raft_error :: "raft_error \<Rightarrow> string" where
  "debug_raft_error e =
     (case e of
        NotLeader hint \<Rightarrow> ''NotLeader { leader_hint: '' @ debug_u64_option hint @ '' }''
      | NotCommitted \<Rightarrow> ''NotCommitted''
      | InvalidCommand s \<Rightarrow> ''InvalidCommand('' @ debug_string s @ '')''
      | StateMachineError s \<Rightarrow> ''StateMachine('' @ debug_string s @ '')''
      | TransportError t \<Rightarrow>
          ''Transport('' @ (case t of ConnectionFailed \<Rightarrow> ''ConnectionFailed'' | Timeout \<Rightarrow> ''Timeout''
                                   | NodeNotFound \<Rightarrow> ''NodeNotFound'') @ '')''
      | ReadTimeout \<Rightarrow> ''ReadTimeout'')"

section \<open>Writing\<close>

definition api_submit ::
  "'s storage_ops \<Rightarrow> 'm sm_ops \<Rightarrow> ('s, 'm) network \<Rightarrow> bool \<Rightarrow> bool \<Rightarrow> submit_request \<Rightarrow> ('s, 'm) raft_core \<Rightarrow>
   (submit_response answer \<times> ('s, 'm) raft_core) option" where
  "api_submit S M N delivered replied request c =
     do {
       (r, c) \<leftarrow> raft_handle_submit S M N delivered replied (submit_command request) c;
       Some (case r of
               Ok res \<Rightarrow> Ok \<lparr>submit_result = res\<rparr>
             | Err e \<Rightarrow> Err (submit_error e), c)
     }"

definition set_command :: "string \<Rightarrow> string \<Rightarrow> string" where
  "set_command key v = ''SET '' @ key @ '' '' @ v"

definition delete_command :: "string \<Rightarrow> string" where
  "delete_command key = ''DELETE '' @ key"

definition api_kv_set ::
  "'s storage_ops \<Rightarrow> 'm sm_ops \<Rightarrow> ('s, 'm) network \<Rightarrow> bool \<Rightarrow> bool \<Rightarrow> string \<Rightarrow> kv_set_request \<Rightarrow>
   ('s, 'm) raft_core \<Rightarrow> (kv_mutation_response answer \<times> ('s, 'm) raft_core) option" where
  "api_kv_set S M N delivered replied key request c =
     do {
       (r, c) \<leftarrow> raft_handle_submit S M N delivered replied (set_command key (set_value request)) c;
       Some (case r of
               Ok _ \<Rightarrow> Ok \<lparr>mut_key = key, success = True\<rparr>
             | Err e \<Rightarrow> Err (submit_error e), c)
     }"

definition api_kv_delete ::
  "'s storage_ops \<Rightarrow> 'm sm_ops \<Rightarrow> ('s, 'm) network \<Rightarrow> bool \<Rightarrow> bool \<Rightarrow> string \<Rightarrow>
   ('s, 'm) raft_core \<Rightarrow> (kv_mutation_response answer \<times> ('s, 'm) raft_core) option" where
  "api_kv_delete S M N delivered replied key c =
     do {
       (r, c) \<leftarrow> raft_handle_submit S M N delivered replied (delete_command key) c;
       Some (case r of
               Ok _ \<Rightarrow> Ok \<lparr>mut_key = key, success = True\<rparr>
             | Err e \<Rightarrow> Err (submit_error e), c)
     }"

section \<open>Reading\<close>

text \<open>\<open>env\<close> is what other tasks do between the answer of the read index and the look into the store.\<close>

definition read_error_answer :: "raft_error \<Rightarrow> nat \<times> error_response" where
  "read_error_answer e =
     (case e of
        NotLeader hint \<Rightarrow> api_error SERVICE_UNAVAILABLE ''Not the leader'' hint
      | ReadTimeout \<Rightarrow>
          api_error SERVICE_UNAVAILABLE ''Read timeout (leadership confirmation or apply timeout)'' None
      | _ \<Rightarrow> api_error INTERNAL_SERVER_ERROR (''Unexpected error: '' @ debug_raft_error e) None)"

definition api_kv_get ::
  "('s, kv_store) network \<Rightarrow> ('s, kv_store) others \<Rightarrow> (('s, kv_store) others \<times> duration) list \<Rightarrow> bool \<Rightarrow> bool \<Rightarrow>
   ('s, kv_store) others \<Rightarrow> string \<Rightarrow> ('s, kv_store) raft_core \<Rightarrow>
   kv_get_response answer option \<times> ('s, kv_store) raft_core" where
  "api_kv_get N env rounds delivered replied env' key c =
     (let (r, c) = raft_handle_read_index N env rounds delivered replied c
      in case r of
           None \<Rightarrow> (None, c)
         | Some (Err e) \<Rightarrow> (Some (Err (read_error_answer e)), c)
         | Some (Ok _) \<Rightarrow>
             let c = env' c
             in (Some (Ok \<lparr>get_key = key, get_value = kv_get (state_machine c) key\<rparr>), c))"

section \<open>Leader and status\<close>

definition show_role :: "raft_state \<Rightarrow> string" where
  "show_role s = (case s of Follower \<Rightarrow> ''Follower'' | Candidate \<Rightarrow> ''Candidate'' | Leader \<Rightarrow> ''Leader'')"

definition api_leader_kv :: "('s, 'm) raft_core \<Rightarrow> leader_response" where
  "api_leader_kv c =
     \<lparr>lr_leader_id = current_leader c, lr_node_id = node_id c, is_leader = (role c = Leader)\<rparr>"

definition api_status_kv :: "('s, 'm) raft_core \<Rightarrow> status_response" where
  "api_status_kv c =
     \<lparr>sr_node_id = node_id c, sr_state = show_role (role c), sr_term = current_term c,
      sr_leader_id = current_leader c, sr_commit_index = commit_index c,
      sr_last_applied = last_applied c, log_length = of_nat (length (rlog c))\<rparr>"

definition api_leader :: "('s, 'm) raft_core \<Rightarrow> leader_response" where
  "api_leader c =
     \<lparr>lr_leader_id = current_leader c, lr_node_id = node_id c, is_leader = (role c = Leader)\<rparr>"

definition api_status :: "('s, 'm) raft_core \<Rightarrow> status_response" where
  "api_status c =
     \<lparr>sr_node_id = node_id c, sr_state = show_role (role c), sr_term = current_term c,
      sr_leader_id = current_leader c, sr_commit_index = commit_index c,
      sr_last_applied = last_applied c, log_length = of_nat (length (rlog c))\<rparr>"

definition api_leader_core :: "('s, 'm) raft_core \<Rightarrow> leader_response" where
  "api_leader_core c =
     \<lparr>lr_leader_id = current_leader c, lr_node_id = node_id c, is_leader = (role c = Leader)\<rparr>"

definition api_status_core :: "('s, 'm) raft_core \<Rightarrow> status_response" where
  "api_status_core c =
     \<lparr>sr_node_id = node_id c, sr_state = show_role (role c), sr_term = current_term c,
      sr_leader_id = current_leader c, sr_commit_index = commit_index c,
      sr_last_applied = last_applied c, log_length = of_nat (length (rlog c))\<rparr>"

section \<open>Routes\<close>

datatype http_method = GET | POST | DELETE

datatype endpoint =
    KvGet string | KvSet string | KvDelete string
  | SubmitEndpoint | LeaderEndpoint | StatusEndpoint

text \<open>
  The routing tables. A path parameter is one non-empty segment of the path, handed on by \<open>decode\<close>,
  axum's percent decoding; \<open>None\<close>: no route.
\<close>

definition key_segment :: "(string \<Rightarrow> string) \<Rightarrow> string \<Rightarrow> string option" where
  "key_segment decode path =
     (if take 4 path = ''/kv/'' \<and> drop 4 path \<noteq> '''' \<and> CHR ''/'' \<notin> set (drop 4 path)
      then Some (decode (drop 4 path)) else None)"

definition client_router :: "http_method \<Rightarrow> string \<Rightarrow> endpoint option" where
  "client_router m path =
     (if m = GET \<and> path = ''/client/leader'' then Some LeaderEndpoint
      else if m = GET \<and> path = ''/client/status'' then Some StatusEndpoint
      else None)"

definition client_router_full :: "http_method \<Rightarrow> string \<Rightarrow> endpoint option" where
  "client_router_full m path =
     (if m = POST \<and> path = ''/client/submit'' then Some SubmitEndpoint
      else if m = GET \<and> path = ''/client/leader'' then Some LeaderEndpoint
      else if m = GET \<and> path = ''/client/status'' then Some StatusEndpoint
      else None)"

definition client_router_with_reads :: "(string \<Rightarrow> string) \<Rightarrow> http_method \<Rightarrow> string \<Rightarrow> endpoint option" where
  "client_router_with_reads decode m path =
     (case key_segment decode path of
        Some key \<Rightarrow> Some (case m of GET \<Rightarrow> KvGet key | POST \<Rightarrow> KvSet key | DELETE \<Rightarrow> KvDelete key)
      | None \<Rightarrow>
          if m = GET \<and> path = ''/client/leader'' then Some LeaderEndpoint
          else if m = GET \<and> path = ''/client/status'' then Some StatusEndpoint
          else None)"

section \<open>The answers of the handlers\<close>

lemma api_submit_cases:
  assumes "api_submit S M N delivered replied request c = Some (a, c')"
  obtains (ok) v where "raft_handle_submit S M N delivered replied (submit_command request) c = Some (Ok v, c')"
      "a = Ok \<lparr>submit_result = v\<rparr>"
    | (err) e where "raft_handle_submit S M N delivered replied (submit_command request) c = Some (Err e, c')"
      "a = Err (submit_error e)"
proof -
  from assms obtain r where "raft_handle_submit S M N delivered replied (submit_command request) c = Some (r, c')"
    and "a = (case r of Ok res \<Rightarrow> Ok \<lparr>submit_result = res\<rparr> | Err e \<Rightarrow> Err (submit_error e))"
    by (auto simp: api_submit_def bind_eq_Some_conv)
  then show thesis using that by (cases r) auto
qed

lemma api_kv_set_cases:
  assumes "api_kv_set S M N delivered replied key request c = Some (a, c')"
  obtains (ok) v where "raft_handle_submit S M N delivered replied (set_command key (set_value request)) c = Some (Ok v, c')"
      "a = Ok \<lparr>mut_key = key, success = True\<rparr>"
    | (err) e where "raft_handle_submit S M N delivered replied (set_command key (set_value request)) c = Some (Err e, c')"
      "a = Err (submit_error e)"
proof -
  from assms obtain r
    where "raft_handle_submit S M N delivered replied (set_command key (set_value request)) c = Some (r, c')"
    and "a = (case r of Ok _ \<Rightarrow> Ok \<lparr>mut_key = key, success = True\<rparr> | Err e \<Rightarrow> Err (submit_error e))"
    by (auto simp: api_kv_set_def bind_eq_Some_conv)
  then show thesis using that by (cases r) auto
qed

lemma api_kv_delete_cases:
  assumes "api_kv_delete S M N delivered replied key c = Some (a, c')"
  obtains (ok) v where "raft_handle_submit S M N delivered replied (delete_command key) c = Some (Ok v, c')"
      "a = Ok \<lparr>mut_key = key, success = True\<rparr>"
    | (err) e where "raft_handle_submit S M N delivered replied (delete_command key) c = Some (Err e, c')"
      "a = Err (submit_error e)"
proof -
  from assms obtain r where "raft_handle_submit S M N delivered replied (delete_command key) c = Some (r, c')"
    and "a = (case r of Ok _ \<Rightarrow> Ok \<lparr>mut_key = key, success = True\<rparr> | Err e \<Rightarrow> Err (submit_error e))"
    by (auto simp: api_kv_delete_def bind_eq_Some_conv)
  then show thesis using that by (cases r) auto
qed

text \<open>The errors that a submitted command and a read can end in.\<close>

lemma raft_handle_submit_errors:
  assumes "raft_handle_submit S M N delivered replied command c = Some (Err e, c')"
  shows "e \<noteq> ReadTimeout \<and> (\<forall>t. e \<noteq> TransportError t)"
proof (cases "delivered \<and> replied")
  case True
  with assms have h: "handle_submit S M N command c = Some (Err e, c')"
    by (auto simp: raft_handle_submit_def bind_eq_Some_conv)
  then obtain r d where s: "submit_entry S M command c = Some (r, d)"
    by (auto simp: handle_submit_def bind_eq_Some_conv)
  show ?thesis
  proof (cases r)
    case (Inl e')
    then have "e = e'" using h s by (simp add: handle_submit_def)
    then show ?thesis
      using s Inl by (auto simp: submit_entry_def bind_eq_Some_conv split: if_splits sum.splits option.splits)
  next
    case (Inr i)
    then obtain res d' where "replicate_to_peers S M N i d = Some (res, d')"
      and r: "(case res of Some (Ok v) \<Rightarrow> Ok v | Some (Err msg) \<Rightarrow> Err (StateMachineError msg) | None \<Rightarrow> Err NotCommitted)
              = (Err e :: (string, raft_error) result)"
      using h s by (auto simp: handle_submit_def bind_eq_Some_conv)
    then show ?thesis by (cases res) (auto split: sum.splits)
  qed
next
  case False
  with assms show ?thesis by (auto simp: raft_handle_submit_def bind_eq_Some_conv split: if_splits)
qed

lemma wait_applied_errors:
  "wait_applied i rounds c = (Some (Err e), c') \<Longrightarrow> (\<exists>hint. e = NotLeader hint) \<or> e = ReadTimeout"
  by (induction i rounds c rule: wait_applied.induct) (auto simp: Let_def split: if_splits)

lemma raft_handle_read_index_errors:
  assumes "raft_handle_read_index N env rounds delivered replied c = (Some (Err e), c')"
  shows "(\<exists>hint. e = NotLeader hint) \<or> e = ReadTimeout"
proof (cases "delivered \<and> replied")
  case True
  then have "handle_read_index N env rounds c = (Some (Err e), c')"
    using assms by (auto simp: raft_handle_read_index_def Let_def split: prod.splits option.splits)
  then show ?thesis by (auto simp: handle_read_index_def Let_def split: if_splits prod.splits option.splits
      dest: wait_applied_errors)
next
  case False
  with assms show ?thesis
    by (auto simp: raft_handle_read_index_def Let_def split: if_splits prod.splits option.splits)
qed

lemma status_of_simps [simp]: "status_of (Ok x) = 200" "status_of (Err p) = fst p"
  by (simp_all add: status_of_def split: prod.split)

lemma submit_error_status:
  "\<forall>t. e \<noteq> TransportError t \<Longrightarrow> fst (submit_error e) = 400 \<or> fst (submit_error e) = 503"
  "fst (submit_error e) = 400 \<longleftrightarrow> (\<exists>msg. e = InvalidCommand msg \<or> e = StateMachineError msg)"
  by (cases e; simp add: submit_error_def api_error_def BAD_REQUEST_def SERVICE_UNAVAILABLE_def
      INTERNAL_SERVER_ERROR_def)+

lemma raft_handle_submit_status:
  "raft_handle_submit S M N delivered replied command c = Some (Err e, c') \<Longrightarrow>
     fst (submit_error e) = 400 \<or> fst (submit_error e) = 503"
  using raft_handle_submit_errors submit_error_status(1) by blast

end
