(* ===== verification/Server_Main.thy ===== *)
theory Server_Main
  imports Raft_Server File_Storage Key_Value Client_Api
begin

text \<open>
  The server binary, \<open>src/bin/server.rs\<close>: its command line, and the node it starts. Listening on the two
  ports and console output are not modelled. Also the parts of \<open>src/testing.rs\<close> that are not socket I/O:
  the nodes of a test cluster and the search for a node in a given role.
\<close>

section \<open>The command line\<close>

record server_args =
  arg_id :: "u64 option"
  arg_transport_port :: "16 word option"
  arg_api_port :: "16 word option"
  arg_data_dir :: "string option"
  arg_peers :: "(u64, string) hashmap"
  arg_snapshot_threshold :: u64

definition default_args :: server_args where
  "default_args = \<lparr>arg_id = None, arg_transport_port = None, arg_api_port = None, arg_data_dir = None,
     arg_peers = [], arg_snapshot_threshold = 1000\<rparr>"

fun parse_peers :: "string list \<Rightarrow> (u64, string) hashmap \<Rightarrow> (u64, string) hashmap option" where
  "parse_peers [] ps = Some ps"
| "parse_peers (spec # specs) ps =
     (case split_on CHR ''='' spec of
        [i, addr] \<Rightarrow> do { peer_id \<leftarrow> expect (parse_u64 i); parse_peers specs (hm_insert peer_id addr ps) }
      | _ \<Rightarrow> parse_peers specs ps)"

text \<open>The options take the argument after them, which is an index out of bounds when there is none.\<close>

fun parse_loop :: "string list \<Rightarrow> server_args \<Rightarrow> server_args option" where
  "parse_loop [] p = Some p"
| "parse_loop (arg # rest) p =
     (if arg \<in> {''--id'', ''--transport-port'', ''--api-port'', ''--data-dir'', ''--peers'', ''--snapshot-threshold''}
      then case rest of
        [] \<Rightarrow> None
      | v # rest' \<Rightarrow>
          do {
            p' \<leftarrow> (if arg = ''--id'' then map_option (\<lambda>x. p\<lparr>arg_id := Some x\<rparr>) (expect (parse_u64 v))
                   else if arg = ''--transport-port''
                   then map_option (\<lambda>x. p\<lparr>arg_transport_port := Some x\<rparr>) (expect (parse_u16 v))
                   else if arg = ''--api-port''
                   then map_option (\<lambda>x. p\<lparr>arg_api_port := Some x\<rparr>) (expect (parse_u16 v))
                   else if arg = ''--data-dir'' then Some (p\<lparr>arg_data_dir := Some v\<rparr>)
                   else if arg = ''--peers''
                   then map_option (\<lambda>ps. p\<lparr>arg_peers := ps\<rparr>) (parse_peers (split_on CHR '','' v) (arg_peers p))
                   else map_option (\<lambda>x. p\<lparr>arg_snapshot_threshold := x\<rparr>) (expect (parse_u64 v)));
            parse_loop rest' p'
          }
      else parse_loop rest p)"

definition parse_args ::
  "string list \<Rightarrow> (u64 \<times> 16 word \<times> 16 word \<times> string \<times> (u64, string) hashmap \<times> u64) option" where
  "parse_args args =
     do {
       p \<leftarrow> parse_loop (tl args) default_args;
       i \<leftarrow> arg_id p;
       transport_port \<leftarrow> arg_transport_port p;
       api_port \<leftarrow> arg_api_port p;
       data_dir \<leftarrow> arg_data_dir p;
       Some (i, transport_port, api_port, data_dir, arg_peers p, arg_snapshot_threshold p)
     }"

text \<open>The node that \<open>main\<close> builds on the files of its data directory.\<close>

definition start_node ::
  "file_json \<Rightarrow> file_env \<Rightarrow> (string, string) hashmap json \<Rightarrow> instant \<Rightarrow> disk \<Rightarrow> string list \<Rightarrow>
   (disk, kv_store) raft_core option" where
  "start_node J E K now d args =
     do {
       (i, transport_port, api_port, data_dir, peers, threshold) \<leftarrow> parse_args args;
       E \<leftarrow> expect (file_storage_new E data_dir);
       c \<leftarrow> raft_core_new (file_ops J E) (kv_ops K) now i (map fst peers) d kv_new;
       Some (set_snapshot_threshold threshold c)
     }"

section \<open>testing.rs\<close>

definition test_config :: raft_config where
  "test_config = with_election_timeout 150 300 (with_heartbeat_interval 50 default_config)"

text \<open>The nodes of a test cluster: each one has every other node as its peer.\<close>

definition test_cluster_node ::
  "'s storage_ops \<Rightarrow> 's \<Rightarrow> (string, string) hashmap json \<Rightarrow> instant \<Rightarrow> nat \<Rightarrow> u64 \<Rightarrow> ('s, kv_store) raft_core option" where
  "test_cluster_node S s K now count i =
     raft_core_new S (kv_ops K) now i (filter (\<lambda>p. p \<noteq> i) (map of_nat [1..<Suc count])) s kv_new"

text \<open>\<open>find_leader\<close> and \<open>find_follower\<close>, on the statuses the nodes answer; \<open>None\<close>: no answer.\<close>

fun find_in_state :: "string \<Rightarrow> ('a \<times> status_response option) list \<Rightarrow> 'a option" where
  "find_in_state st [] = None"
| "find_in_state st ((addr, status) # nodes) =
     (case status of
        Some s \<Rightarrow> if sr_state s = st then Some addr else find_in_state st nodes
      | None \<Rightarrow> find_in_state st nodes)"

definition find_leader :: "('a \<times> status_response option) list \<Rightarrow> 'a option" where
  "find_leader nodes = find_in_state ''Leader'' nodes"

definition find_follower :: "('a \<times> status_response option) list \<Rightarrow> 'a option" where
  "find_follower nodes = find_in_state ''Follower'' nodes"

section \<open>Round trip of the command line\<close>

definition show_peer :: "u64 \<times> string \<Rightarrow> string" where
  "show_peer p = show_u64 (fst p) @ ''='' @ snd p"

text \<open>The command line that the usage text describes, for a configuration.\<close>

definition command_line ::
  "string \<Rightarrow> u64 \<Rightarrow> 16 word \<Rightarrow> 16 word \<Rightarrow> string \<Rightarrow> (u64, string) hashmap \<Rightarrow> u64 \<Rightarrow> string list" where
  "command_line prog i tp ap dir ps n =
     [prog, ''--id'', show_u64 i, ''--transport-port'', show_u16 tp, ''--api-port'', show_u16 ap,
      ''--data-dir'', dir, ''--peers'', join_with CHR '','' (map show_peer ps), ''--snapshot-threshold'', show_u64 n]"

lemma show_u64_no_sep: "CHR ''='' \<notin> set (show_u64 x)" "CHR '','' \<notin> set (show_u64 x)"
proof -
  have "digit_val CHR ''='' = None" "digit_val CHR '','' = None" by (simp_all add: digit_val_def)
  moreover have "digit_val c \<noteq> None" if "c \<in> set (show_u64 x)" for c
    using that show_nat_digits [of "unat x"] digit_val_char by (fastforce simp: show_u64_def)
  ultimately show "CHR ''='' \<notin> set (show_u64 x)" "CHR '','' \<notin> set (show_u64 x)" by blast+
qed

definition peers_ok :: "(u64, string) hashmap \<Rightarrow> bool" where
  "peers_ok ps \<longleftrightarrow> ps \<noteq> [] \<and> distinct (map fst ps) \<and> (\<forall>(i, a) \<in> set ps. CHR ''='' \<notin> set a \<and> CHR '','' \<notin> set a)"

lemma update_new: "i \<notin> fst ` set m \<Longrightarrow> hm_insert i a m = m @ [(i, a)]"
  by (induction m) auto

lemma parse_show_peers:
  assumes "distinct (map fst (qs @ ps))" "\<forall>(i, a) \<in> set ps. CHR ''='' \<notin> set a"
  shows "parse_peers (map show_peer ps) qs = Some (qs @ ps)"
  using assms
proof (induction ps arbitrary: qs)
  case (Cons p ps)
  obtain i a where p: "p = (i, a)" by (rule prod.exhaust)
  have "split_on CHR ''='' (show_peer p) = [show_u64 i, a]"
    using split_on_join [of "[show_u64 i, a]" "CHR ''=''"] show_u64_no_sep(1) Cons.prems(2) p
    by (simp add: show_peer_def)
  moreover have "hm_insert i a qs = qs @ [(i, a)]" using Cons.prems(1) p by (intro update_new) auto
  ultimately show ?case
    using Cons.IH [of "qs @ [(i, a)]"] Cons.prems p by (simp add: parse_show_u64)
qed simp

lemma parse_command_line:
  assumes "peers_ok ps"
  shows "parse_args (command_line prog i tp ap dir ps n) = Some (i, tp, ap, dir, ps, n)"
proof -
  have "split_on CHR '','' (join_with CHR '','' (map show_peer ps)) = map show_peer ps"
    using assms show_u64_no_sep(2) by (intro split_on_join) (auto simp: peers_ok_def show_peer_def)
  moreover have "parse_peers (map show_peer ps) [] = Some ps"
    using parse_show_peers [of "[]" ps] assms by (auto simp: peers_ok_def)
  ultimately show ?thesis
    by (simp add: parse_args_def command_line_def default_args_def parse_show_u64 parse_show_u16)
qed

lemma find_in_state_Some:
  "find_in_state st nodes = Some a \<Longrightarrow> \<exists>s. (a, Some s) \<in> set nodes \<and> sr_state s = st"
  by (induction st nodes rule: find_in_state.induct) (auto split: option.splits if_splits)

end
