(* ===== verification/Transports.thy ===== *)
theory Transports
  imports Raft_Vote Rust_Strings
begin

text \<open>
  The two transports, \<open>src/transport/inmemory.rs\<close> and \<open>src/transport/http.rs\<close>: the client side turns
  what happens to a request into a result or a \<open>transport_error\<close>, the server side hands the request to
  the handler of the core. Channels, sockets and the time they take are outside of the program; a call
  is given its fate. \<open>None\<close> as the result of a call: it waits forever.
\<close>

section \<open>inmemory.rs: the calling side\<close>

datatype request =
    Req_RequestVote request_vote_args
  | Req_AppendEntries append_entries_args
  | Req_InstallSnapshot install_snapshot_args

datatype response =
    Rsp_RequestVote request_vote_result
  | Rsp_AppendEntries append_entries_result
  | Rsp_InstallSnapshot install_snapshot_result

text \<open>The channels are named by the node that receives from them.\<close>

record inmem_transport =
  senders :: "(u64, u64) hashmap"
  timeout :: "duration option"

definition inmem_new :: "(u64, u64) hashmap \<Rightarrow> inmem_transport" where
  "inmem_new ss = \<lparr>senders = ss, timeout = None\<rparr>"

definition inmem_with_timeout :: "(u64, u64) hashmap \<Rightarrow> duration \<Rightarrow> inmem_transport" where
  "inmem_with_timeout ss t = \<lparr>senders = ss, timeout = Some t\<rparr>"

text \<open>
  The fate of a call: the channel is full and never drained, or closed; or the request is delivered and
  after some time the reply, or the loss of the reply channel, arrives; or nothing ever does.
\<close>

datatype 'r fate = Send_blocks | Send_fails | Reply_after duration "'r option" | No_reply

definition reply_result :: "'r option \<Rightarrow> ('r, transport_error) result" where
  "reply_result r = (case r of Some x \<Rightarrow> Ok x | None \<Rightarrow> Err ConnectionFailed)"

definition inmem_call ::
  "inmem_transport \<Rightarrow> u64 \<Rightarrow> 'r fate \<Rightarrow> ('r, transport_error) result option" where
  "inmem_call T target fate =
     (case hm_get (senders T) target of
        None \<Rightarrow> Some (Err NodeNotFound)
      | Some _ \<Rightarrow>
          (case fate of
             Send_blocks \<Rightarrow> None
           | Send_fails \<Rightarrow> Some (Err ConnectionFailed)
           | Reply_after d r \<Rightarrow>
               (case timeout T of
                  Some t \<Rightarrow> if t < d then Some (Err Timeout) else Some (reply_result r)
                | None \<Rightarrow> Some (reply_result r))
           | No_reply \<Rightarrow> (case timeout T of Some t \<Rightarrow> Some (Err Timeout) | None \<Rightarrow> None)))"

definition inmem_request_vote ::
  "inmem_transport \<Rightarrow> u64 \<Rightarrow> request_vote_result fate \<Rightarrow> (request_vote_result, transport_error) result option" where
  "inmem_request_vote T target fate = inmem_call T target fate"

definition inmem_append_entries ::
  "inmem_transport \<Rightarrow> u64 \<Rightarrow> append_entries_result fate \<Rightarrow> (append_entries_result, transport_error) result option" where
  "inmem_append_entries T target fate = inmem_call T target fate"

definition inmem_install_snapshot ::
  "inmem_transport \<Rightarrow> u64 \<Rightarrow> install_snapshot_result fate \<Rightarrow> (install_snapshot_result, transport_error) result option" where
  "inmem_install_snapshot T target fate = inmem_call T target fate"

section \<open>inmemory.rs: the receiving side\<close>

text \<open>The requests that wait in the channel of a node; an empty list is a channel whose senders are gone.\<close>

record node_handle =
  receiver :: "request list"

definition node_handle_request ::
  "'s storage_ops \<Rightarrow> 'm sm_ops \<Rightarrow> instant \<Rightarrow> request \<Rightarrow> ('s, 'm) raft_core \<Rightarrow>
   (response \<times> ('s, 'm) raft_core) option" where
  "node_handle_request S M now req c =
     (case req of
        Req_RequestVote args \<Rightarrow>
          do { (res, c) \<leftarrow> handle_request_vote S args c; Some (Rsp_RequestVote res, c) }
      | Req_AppendEntries args \<Rightarrow>
          do { (out, c) \<leftarrow> handle_append_entries S M now args c; Some (Rsp_AppendEntries (hae_result out), c) }
      | Req_InstallSnapshot args \<Rightarrow>
          do { (res, c) \<leftarrow> handle_install_snapshot S M now args c; Some (Rsp_InstallSnapshot res, c) })"

definition process_one ::
  "'s storage_ops \<Rightarrow> 'm sm_ops \<Rightarrow> instant \<Rightarrow> node_handle \<Rightarrow> ('s, 'm) raft_core \<Rightarrow>
   (bool \<times> response option \<times> node_handle \<times> ('s, 'm) raft_core) option" where
  "process_one S M now h c =
     (case receiver h of
        req # rest \<Rightarrow>
          do { (rsp, c) \<leftarrow> node_handle_request S M now req c; Some (True, Some rsp, h\<lparr>receiver := rest\<rparr>, c) }
      | [] \<Rightarrow> Some (False, None, h, c))"

text \<open>\<open>process_one_shared\<close> takes the lock only after a request has arrived: \<open>env\<close> may change the core until then.\<close>

definition process_one_shared ::
  "'s storage_ops \<Rightarrow> 'm sm_ops \<Rightarrow> instant \<Rightarrow> (('s, 'm) raft_core \<Rightarrow> ('s, 'm) raft_core) \<Rightarrow> node_handle \<Rightarrow>
   ('s, 'm) raft_core \<Rightarrow> (bool \<times> response option \<times> node_handle \<times> ('s, 'm) raft_core) option" where
  "process_one_shared S M now env h c =
     (case receiver h of
        req # rest \<Rightarrow>
          do { (rsp, c) \<leftarrow> node_handle_request S M now req (env c); Some (True, Some rsp, h\<lparr>receiver := rest\<rparr>, c) }
      | [] \<Rightarrow> Some (False, None, h, c))"

definition drain_pending :: "node_handle \<Rightarrow> node_handle" where
  "drain_pending h = h\<lparr>receiver := []\<rparr>"

definition create_cluster_with_timeout ::
  "u64 list \<Rightarrow> duration option \<Rightarrow> (u64, inmem_transport) hashmap \<times> (u64, node_handle) hashmap" where
  "create_cluster_with_timeout node_ids tmo =
     (let ss = fold (\<lambda>i. hm_insert i i) node_ids [];
          handles = fold (\<lambda>i. hm_insert i \<lparr>receiver = []\<rparr>) node_ids [];
          transports = fold (\<lambda>i. let others = filter (\<lambda>(k, v). k \<noteq> i) ss
                                 in hm_insert i (case tmo of Some t \<Rightarrow> inmem_with_timeout others t
                                                           | None \<Rightarrow> inmem_new others)) node_ids []
      in (transports, handles))"

definition create_cluster :: "u64 list \<Rightarrow> (u64, inmem_transport) hashmap \<times> (u64, node_handle) hashmap" where
  "create_cluster node_ids = create_cluster_with_timeout node_ids None"

section \<open>http.rs\<close>

record http_transport =
  http_peers :: "(u64, string) hashmap"
  http_timeout :: duration

definition http_new :: "(u64, string) hashmap \<Rightarrow> duration \<Rightarrow> http_transport" where
  "http_new ps t = \<lparr>http_peers = ps, http_timeout = t\<rparr>"

text \<open>What reqwest reports of a request to a URL: an error, which may be a timeout, or a body.\<close>

datatype http_fate = Http_error bool | Http_body string

definition rpc_url :: "string \<Rightarrow> string \<Rightarrow> string" where
  "rpc_url addr route = ''http://'' @ addr @ ''/raft/'' @ route"

definition http_call ::
  "http_transport \<Rightarrow> string \<Rightarrow> (string \<Rightarrow> ('r, string) result) \<Rightarrow> (string \<Rightarrow> http_fate) \<Rightarrow> u64 \<Rightarrow>
   ('r, transport_error) result" where
  "http_call T route decode net target =
     (case hm_get (http_peers T) target of
        None \<Rightarrow> Err NodeNotFound
      | Some addr \<Rightarrow>
          (case net (rpc_url addr route) of
             Http_error is_timeout \<Rightarrow> Err (if is_timeout then Timeout else ConnectionFailed)
           | Http_body body \<Rightarrow> (case decode body of Ok r \<Rightarrow> Ok r | Err _ \<Rightarrow> Err ConnectionFailed)))"

definition http_request_vote ::
  "http_transport \<Rightarrow> (string \<Rightarrow> (request_vote_result, string) result) \<Rightarrow> (string \<Rightarrow> http_fate) \<Rightarrow> u64 \<Rightarrow>
   (request_vote_result, transport_error) result" where
  "http_request_vote T = http_call T ''request_vote''"

definition http_append_entries ::
  "http_transport \<Rightarrow> (string \<Rightarrow> (append_entries_result, string) result) \<Rightarrow> (string \<Rightarrow> http_fate) \<Rightarrow> u64 \<Rightarrow>
   (append_entries_result, transport_error) result" where
  "http_append_entries T = http_call T ''append_entries''"

definition http_install_snapshot ::
  "http_transport \<Rightarrow> (string \<Rightarrow> (install_snapshot_result, string) result) \<Rightarrow> (string \<Rightarrow> http_fate) \<Rightarrow> u64 \<Rightarrow>
   (install_snapshot_result, transport_error) result" where
  "http_install_snapshot T = http_call T ''install_snapshot''"

text \<open>The handlers of the router: the status of the answer, its JSON value, and the core.\<close>

definition rpc_request_vote ::
  "'s storage_ops \<Rightarrow> request_vote_args \<Rightarrow> ('s, 'm) raft_core \<Rightarrow>
   (nat \<times> request_vote_result \<times> ('s, 'm) raft_core) option" where
  "rpc_request_vote S args c = do { (res, c) \<leftarrow> handle_request_vote S args c; Some (200, res, c) }"

definition rpc_append_entries ::
  "'s storage_ops \<Rightarrow> 'm sm_ops \<Rightarrow> instant \<Rightarrow> append_entries_args \<Rightarrow> ('s, 'm) raft_core \<Rightarrow>
   (nat \<times> append_entries_result \<times> ('s, 'm) raft_core) option" where
  "rpc_append_entries S M now args c =
     do { (out, c) \<leftarrow> handle_append_entries S M now args c; Some (200, hae_result out, c) }"

definition rpc_install_snapshot ::
  "'s storage_ops \<Rightarrow> 'm sm_ops \<Rightarrow> instant \<Rightarrow> install_snapshot_args \<Rightarrow> ('s, 'm) raft_core \<Rightarrow>
   (nat \<times> install_snapshot_result \<times> ('s, 'm) raft_core) option" where
  "rpc_install_snapshot S M now args c =
     do { (res, c) \<leftarrow> handle_install_snapshot S M now args c; Some (200, res, c) }"

section \<open>Calls\<close>

text \<open>A call over the in-memory transport with a timeout returns, unless the channel itself blocks it.\<close>

lemma inmem_call_returns:
  "timeout T \<noteq> None \<Longrightarrow> fate \<noteq> Send_blocks \<Longrightarrow> inmem_call T target fate \<noteq> None"
  by (auto simp: inmem_call_def split: option.splits fate.splits)

text \<open>A success is the reply of the target, never anything else.\<close>

lemma inmem_call_Ok:
  "inmem_call T target fate = Some (Ok r) \<longleftrightarrow>
     hm_get (senders T) target \<noteq> None \<and>
     (\<exists>d. fate = Reply_after d (Some r) \<and> (\<forall>t. timeout T = Some t \<longrightarrow> d \<le> t))"
  by (auto simp: inmem_call_def reply_result_def split: option.splits fate.splits)

lemma fold_insert_get:
  "hm_get (fold (\<lambda>i. hm_insert i (f i)) is m) k = (if k \<in> set is then Some (f k) else hm_get m k)"
  by (induction "is" arbitrary: m) (auto simp: update_conv')

lemma filter_key_get: "hm_get (filter (\<lambda>(k, v). k \<noteq> i) m) j = (if j = i then None else hm_get m j)"
  by (induction m) auto

text \<open>Every node of a new cluster can reach every other one, and not itself.\<close>

lemma create_cluster_senders:
  assumes "hm_get (fst (create_cluster_with_timeout node_ids tmo)) i = Some T"
  shows "i \<in> set node_ids \<and> timeout T = tmo \<and>
    (\<forall>j. hm_get (senders T) j = (if j \<in> set node_ids \<and> j \<noteq> i then Some j else None))"
proof -
  have "i \<in> set node_ids"
    and "T = (let others = filter (\<lambda>(k, v). k \<noteq> i) (fold (\<lambda>i. hm_insert i i) node_ids [])
              in case tmo of Some t \<Rightarrow> inmem_with_timeout others t | None \<Rightarrow> inmem_new others)"
    using assms by (auto simp: create_cluster_with_timeout_def Let_def fold_insert_get split: if_splits)
  then show ?thesis
    by (auto simp: Let_def inmem_new_def inmem_with_timeout_def filter_key_get fold_insert_get split: option.splits)
qed

section \<open>Processing requests is running the core\<close>

definition request_event :: "instant \<Rightarrow> request \<Rightarrow> core_event" where
  "request_event now req =
     (case req of
        Req_RequestVote args \<Rightarrow> RequestVoteReq args
      | Req_AppendEntries args \<Rightarrow> AppendEntriesReq now args
      | Req_InstallSnapshot args \<Rightarrow> InstallSnapshotReq now args)"

lemma node_handle_request_step:
  "map_option snd (node_handle_request S M now req c) = core_step S M (request_event now req) c"
  by (cases req) (auto simp: node_handle_request_def request_event_def split: Option.bind_splits)

text \<open>The loop that serves a node: one request after the other, at the given times.\<close>

fun serve ::
  "'s storage_ops \<Rightarrow> 'm sm_ops \<Rightarrow> instant list \<Rightarrow> node_handle \<Rightarrow> ('s, 'm) raft_core \<Rightarrow>
   (node_handle \<times> ('s, 'm) raft_core) option" where
  "serve S M [] h c = Some (h, c)"
| "serve S M (now # nows) h c =
     do { (more, _, h, c) \<leftarrow> process_one S M now h c; if more then serve S M nows h c else Some (h, c) }"

lemma serve_run:
  assumes "length nows = length (receiver h)"
  shows "map_option snd (serve S M nows h c) = core_run S M (map2 request_event nows (receiver h)) c"
  using assms
proof (induction nows arbitrary: h c)
  case (Cons now nows)
  then obtain req rest where r: "receiver h = req # rest" "length nows = length rest"
    by (cases "receiver h") auto
  show ?case
  proof (cases "node_handle_request S M now req c")
    case None
    then have "core_step S M (request_event now req) c = None"
      using node_handle_request_step [of S M now req c] by simp
    with None r show ?thesis by (simp add: process_one_def)
  next
    case (Some x)
    obtain rsp c' where x: "x = (rsp, c')" by (rule prod.exhaust)
    then have "core_step S M (request_event now req) c = Some c'"
      using node_handle_request_step [of S M now req c] Some by simp
    then show ?thesis
      using Some x r Cons.IH [of "h\<lparr>receiver := rest\<rparr>" c'] by (simp add: process_one_def)
  qed
qed simp

end
