(* ===== verification/Test_Client.thy ===== *)
theory Test_Client
  imports Lin_History Rust_Strings
begin

text \<open>
  The clients of the chaos tests: the HTTP client that retries and records its operations
  (\<open>chaos-test/src/client.rs\<close>) and the workload each of them runs (\<open>chaos-test/src/runner.rs\<close>). What a
  request meets on the network, and the JSON decoding of a body, are parameters.
\<close>

section \<open>client.rs\<close>

datatype client_error =
    ClientNotLeader "u64 option"
  | ClientTimeout
  | NetworkError string

text \<open>\<open>{:?}\<close> of a \<open>ClientError\<close>, which becomes the text of a failed operation.\<close>

definition debug_client_error :: "client_error \<Rightarrow> string" where
  "debug_client_error e =
     (case e of
        ClientNotLeader hint \<Rightarrow> ''NotLeader { leader_hint: '' @ debug_u64_option hint @ '' }''
      | ClientTimeout \<Rightarrow> ''Timeout''
      | NetworkError msg \<Rightarrow> ''NetworkError('' @ debug_string msg @ '')'')"

record test_client =
  client_id :: client_id
  targets :: "string list"
  max_retries :: nat

definition test_client_new :: "client_id \<Rightarrow> string list \<Rightarrow> test_client" where
  "test_client_new i ts = \<lparr>client_id = i, targets = ts, max_retries = 10\<rparr>"

text \<open>What one request meets: a response with a status and a body, or an error of the HTTP client.\<close>

datatype http_outcome = Response nat string | Send_error bool string

text \<open>
  The library calls: the outcome of the \<open>n\<close>-th request, to a URL; the decoding of a body; the text of a
  status code. \<open>parse_hint\<close> is the leader hint of an error body.
\<close>

record 'a http_world =
  outcome :: "nat \<Rightarrow> string \<Rightarrow> http_outcome"
  parse_ok :: "string \<Rightarrow> ('a, string) result"
  parse_hint :: "string \<Rightarrow> (u64 option, string) result"
  status_text :: "nat \<Rightarrow> string"

definition is_success :: "nat \<Rightarrow> bool" where
  "is_success status \<longleftrightarrow> 200 \<le> status \<and> status < 300"

definition kv_url :: "string \<Rightarrow> string \<Rightarrow> string" where
  "kv_url target key = ''http://'' @ target @ ''/kv/'' @ key"

text \<open>
  The retry loop, which \<open>do_read\<close> and \<open>do_write\<close> have in common; they differ in the method, the body and
  what they take of a success. \<open>retries\<close> is also the number of the request. \<open>None\<close>: no target to index.
\<close>

function request_loop ::
  "test_client \<Rightarrow> 'a http_world \<Rightarrow> string \<Rightarrow> nat \<Rightarrow> nat \<Rightarrow> ('a, client_error) result option" where
  "request_loop T W key idx retries =
     (if length (targets T) \<le> idx then None
      else case outcome W retries (kv_url (targets T ! idx) key) of
        Response status body \<Rightarrow>
          if is_success status
          then Some (case parse_ok W body of Ok v \<Rightarrow> Ok v | Err msg \<Rightarrow> Err (NetworkError msg))
          else if status = 503
          then (case parse_hint W body of
                  Err msg \<Rightarrow> Some (Err (NetworkError msg))
                | Ok hint \<Rightarrow>
                    if max_retries T \<le> retries + 1 then Some (Err (ClientNotLeader hint))
                    else request_loop T W key ((idx + 1) mod length (targets T)) (retries + 1))
          else Some (Err (NetworkError (''Unexpected status: '' @ status_text W status)))
      | Send_error is_timeout msg \<Rightarrow>
          if is_timeout then Some (Err ClientTimeout)
          else if max_retries T \<le> retries + 1 then Some (Err (NetworkError msg))
          else request_loop T W key ((idx + 1) mod length (targets T)) (retries + 1))"
  by pat_completeness auto
termination
  by (relation "measure (\<lambda>(T, W, key, idx, retries). max_retries T - retries)") auto

declare request_loop.simps [simp del]

definition do_read ::
  "test_client \<Rightarrow> string option http_world \<Rightarrow> string \<Rightarrow> (string option, client_error) result option" where
  "do_read T W key = request_loop T W key 0 0"

definition do_write ::
  "test_client \<Rightarrow> unit http_world \<Rightarrow> string \<Rightarrow> (unit, client_error) result option" where
  "do_write T W key = request_loop T W key 0 0"

text \<open>
  \<open>read\<close> and \<open>write\<close> draw an identifier, time the request and record it. \<open>t0\<close> and \<open>t1\<close> are the readings of the
  clock; other clients may add to the history in between, which only the order of its list shows.
\<close>

definition client_read ::
  "test_client \<Rightarrow> string option http_world \<Rightarrow> nat \<Rightarrow> nat \<Rightarrow> string \<Rightarrow> u64 \<times> history \<Rightarrow>
   ((string option, client_error) result \<times> u64 \<times> history) option" where
  "client_read T W t0 t1 key s =
     (let (next_id, h) = s
      in case do_read T W key of
           None \<Rightarrow> None
         | Some res \<Rightarrow>
             let op_result = (case res of Ok v \<Rightarrow> ReadOk v | Err e \<Rightarrow> OpError (debug_client_error e));
                 op = operation_new next_id (client_id T) key Read (history_now t0 h) (history_now t1 h) op_result
             in Some (res, next_id + 1, history_add op h))"

definition client_write ::
  "test_client \<Rightarrow> unit http_world \<Rightarrow> nat \<Rightarrow> nat \<Rightarrow> string \<Rightarrow> string \<Rightarrow> u64 \<times> history \<Rightarrow>
   ((unit, client_error) result \<times> u64 \<times> history) option" where
  "client_write T W t0 t1 key v s =
     (let (next_id, h) = s
      in case do_write T W key of
           None \<Rightarrow> None
         | Some res \<Rightarrow>
             let op_result = (case res of Ok _ \<Rightarrow> WriteOk | Err e \<Rightarrow> OpError (debug_client_error e));
                 op = operation_new next_id (client_id T) key (Write v) (history_now t0 h) (history_now t1 h) op_result
             in Some (res, next_id + 1, history_add op h))"

section \<open>runner.rs\<close>

text \<open>
  The operations a client issues, on the draws of its random generator: for each one the index of the key
  and whether the number drawn lies below the write ratio. An index out of range, as with no keys, panics.
\<close>

definition write_value :: "u64 \<Rightarrow> u64 \<Rightarrow> string" where
  "write_value client n = ''c'' @ show_u64 client @ ''_v'' @ show_u64 n"

fun run_client_workload ::
  "u64 \<Rightarrow> string list \<Rightarrow> u64 \<Rightarrow> (nat \<times> bool) list \<Rightarrow> (string \<times> op_kind) list option" where
  "run_client_workload client keys value_counter [] = Some []"
| "run_client_workload client keys value_counter ((k, wr) # draws) =
     (if length keys \<le> k then None
      else if wr
      then map_option (\<lambda>ops. (keys ! k, Write (write_value client (value_counter + 1))) # ops)
             (run_client_workload client keys (value_counter + 1) draws)
      else map_option (\<lambda>ops. (keys ! k, Read) # ops) (run_client_workload client keys value_counter draws))"

section \<open>The loop\<close>

lemma request_loop_returns:
  "idx < length (targets T) \<Longrightarrow> \<exists>r. request_loop T W key idx retries = Some r"
proof (induction T W key idx retries rule: request_loop.induct)
  case (1 T W key idx retries)
  have "0 < length (targets T)" using 1(3) by linarith
  then have "(idx + 1) mod length (targets T) < length (targets T)" by (rule mod_less_divisor)
  with 1 show ?case
    by (subst request_loop.simps) (auto split: http_outcome.splits sum.splits)
qed

text \<open>The loop looks only at the requests below \<open>max_retries\<close>, and only at the URLs of the targets.\<close>

definition same_replies :: "test_client \<Rightarrow> string \<Rightarrow> 'a http_world \<Rightarrow> 'a http_world \<Rightarrow> bool" where
  "same_replies T key W W' \<longleftrightarrow>
     parse_ok W = parse_ok W' \<and> parse_hint W = parse_hint W' \<and> status_text W = status_text W' \<and>
     (\<forall>n < max_retries T. \<forall>t \<in> set (targets T). outcome W n (kv_url t key) = outcome W' n (kv_url t key))"

lemma request_loop_same:
  "same_replies T key W W' \<Longrightarrow> retries < max_retries T \<Longrightarrow>
     request_loop T W key idx retries = request_loop T W' key idx retries"
proof (induction T W key idx retries rule: request_loop.induct)
  case (1 T W key idx retries)
  show ?case
  proof (cases "idx < length (targets T)")
    case True
    then have "outcome W retries (kv_url (targets T ! idx) key) = outcome W' retries (kv_url (targets T ! idx) key)"
      using 1(3,4) by (auto simp: same_replies_def)
    with 1 True show ?thesis
      by (subst (1 2) request_loop.simps) (auto simp: same_replies_def split: http_outcome.splits sum.splits)
  next
    case False
    then show ?thesis by (subst (1 2) request_loop.simps) simp
  qed
qed

section \<open>Recorded operations\<close>

lemma history_now_mono:
  assumes "t0 \<le> t1" "t1 - start_time h < u64_bound"
  shows "history_now t0 h \<le> history_now t1 h"
proof -
  have u: "unat (of_nat n :: u64) = n" if "n < u64_bound" for n
    using that by (simp add: unat_of_nat u64_bound_def)
  have le: "t0 - start_time h \<le> t1 - start_time h" using assms(1) by simp
  then show ?thesis
    using u [of "t0 - start_time h"] u [of "t1 - start_time h"] assms(2)
    by (simp add: history_now_def less_eq_timestamp_def word_le_nat_alt del: of_nat_diff)
qed

lemma client_write_records:
  assumes "client_write T W t0 t1 key v (i, h) = Some (res, i', h')"
  shows "i' = i + 1 \<and> start_time h' = start_time h \<and> (\<exists>op. hist_ops h' = hist_ops h @ [op] \<and>
    op_id op = i \<and> op_key op = key \<and> kind op = Write v \<and> invoke_ts op = history_now t0 h \<and>
    complete_ts op = history_now t1 h \<and> (op_result op = WriteOk \<longleftrightarrow> res = Ok ()) \<and> (is_error op \<longleftrightarrow> res \<noteq> Ok ()))"
  using assms
  by (auto simp: client_write_def Let_def history_add_def operation_new_def is_error_def split: option.splits sum.splits)

lemma client_read_records:
  assumes "client_read T W t0 t1 key (i, h) = Some (res, i', h')"
  shows "i' = i + 1 \<and> start_time h' = start_time h \<and> (\<exists>op. hist_ops h' = hist_ops h @ [op] \<and>
    op_id op = i \<and> op_key op = key \<and> kind op = Read \<and> invoke_ts op = history_now t0 h \<and>
    complete_ts op = history_now t1 h \<and> (\<forall>v. op_result op = ReadOk v \<longleftrightarrow> res = Ok v) \<and>
    (is_error op \<longleftrightarrow> (\<exists>e. res = Err e)))"
  using assms
  by (auto simp: client_read_def Let_def history_add_def operation_new_def is_error_def split: option.splits sum.splits)

section \<open>Written values\<close>

text \<open>The values identify the write: the client and its counter can be read off them.\<close>

lemma show_u64_no_underscore: "CHR ''_'' \<notin> set (show_u64 x)"
proof
  assume "CHR ''_'' \<in> set (show_u64 x)"
  then obtain d where "d \<le> 9" "CHR ''_'' = digit_char d" using show_nat_digits [of "unat x"] by (auto simp: show_u64_def)
  then have "digit_val CHR ''_'' = Some d" using digit_val_char [of d] by simp
  then show False by (simp add: digit_val_def)
qed

lemma write_value_inject: "write_value a m = write_value b n \<longleftrightarrow> a = b \<and> m = n"
proof
  assume eq: "write_value a m = write_value b n"
  have s: "splitn 2 CHR ''_'' (tl (write_value x k)) = [show_u64 x, ''v'' @ show_u64 k]" for x k
    using splitn_sep [OF show_u64_no_underscore, of 0 x "''v'' @ show_u64 k"]
    by (simp add: write_value_def numeral_2_eq_2)
  have "show_u64 a = show_u64 b" "show_u64 m = show_u64 n" using s [of a m] s [of b n] eq by simp_all
  then show "a = b \<and> m = n" using parse_show_u64 by (metis Inr_inject)
qed simp

lemma workload_values:
  assumes "run_client_workload client keys n draws = Some ops"
    and "unat n + length draws < u64_bound" "(k, Write v) \<in> set ops"
  shows "\<exists>m. v = write_value client m \<and> unat n < unat m \<and> unat m \<le> unat n + length draws"
  using assms
proof (induction client keys n draws arbitrary: ops rule: run_client_workload.induct)
  case (2 client keys n j wr draws)
  have s: "unat (n + 1) = unat n + 1" using 2(4) by (intro u64_succ) simp
  let ?n = "if wr then n + 1 else n"
  obtain ops' where rest: "run_client_workload client keys ?n draws = Some ops'"
    and ops: "(k, Write v) \<in> set ops' \<or> wr \<and> v = write_value client (n + 1)"
    using 2(3,5) by (auto split: if_splits)
  have b: "unat ?n + length draws < u64_bound" using 2(4) s by simp
  from ops show ?case
  proof
    assume "(k, Write v) \<in> set ops'"
    then obtain m where "v = write_value client m" "unat ?n < unat m" "unat m \<le> unat ?n + length draws"
      using 2(1,2) rest b 2(3) by (cases wr) (fastforce split: if_splits)+
    then show ?thesis using s by (intro exI [of _ m]) (auto split: if_splits)
  next
    assume "wr \<and> v = write_value client (n + 1)"
    then show ?thesis using s by (intro exI [of _ "n + 1"]) simp
  qed
qed simp

lemma workload_distinct:
  assumes "run_client_workload client keys n draws = Some ops" "unat n + length draws < u64_bound"
  shows "distinct [v. (k, Write v) \<leftarrow> ops]"
  using assms
proof (induction client keys n draws arbitrary: ops rule: run_client_workload.induct)
  case (2 client keys n j wr draws)
  have s: "unat (n + 1) = unat n + 1" using 2(4) by (intro u64_succ) simp
  show ?case
  proof (cases wr)
    case True
    then obtain ops' where w: "run_client_workload client keys (n + 1) draws = Some ops'"
      and ops: "ops = (keys ! j, Write (write_value client (n + 1))) # ops'" and j: "\<not> length keys \<le> j"
      using 2(3) by (auto split: if_splits)
    have b: "unat (n + 1) + length draws < u64_bound" using 2(4) s by simp
    have "(k, Write (write_value client (n + 1))) \<notin> set ops'" for k
    proof
      assume "(k, Write (write_value client (n + 1))) \<in> set ops'"
      then obtain m where "write_value client (n + 1) = write_value client m" "unat (n + 1) < unat m"
        using workload_values [OF w b] by blast
      then show False by (simp add: write_value_inject)
    qed
    then show ?thesis using 2(1) [OF j True w b] ops by (auto split: op_kind.splits)
  next
    case False
    then show ?thesis using 2 by (auto split: if_splits)
  qed
qed simp

end
