(* ===== verification/Client_Properties.thy ===== *)
theory Client_Properties
  imports Server_Main Transports Test_Client Scenarios
begin

text \<open>
  The properties of the interface for clients, of the transports, of the command line and of the test
  client, with sample nodes that run the key-value store.
\<close>

section \<open>Sample nodes\<close>

abbreviation store_ops :: "kv_store sm_ops" where
  "store_ops \<equiv> kv_ops plain_map"

text \<open>Node 1 of three with the key-value store, leader of term 1.\<close>

definition kv_leader :: "(memory_storage, kv_store) raft_core" where
  "kv_leader = the (do {
     c \<leftarrow> raft_core_new mem_ops store_ops 0 1 [2, 3] mem_new kv_new;
     core_run mem_ops store_ops [ElectionStart 10, RequestVoteRes 11 2 (vote_yes 1)] c})"

text \<open>Its network: peer 2 runs the handler of a new node, peer 3 is unreachable.\<close>

definition kv_network :: "(memory_storage, kv_store) network" where
  "kv_network = \<lparr>vote_reply = \<lambda>p a. Ok (vote_yes (rv_term a)),
     append_reply = \<lambda>p args.
       (if p = 2 then Ok (hae_result (fst (the (handle_append_entries mem_ops test_ops 21 args (new_node 2 [1, 3])))))
        else Err ConnectionFailed),
     snapshot_reply = \<lambda>p a. Err ConnectionFailed, entry_env = \<lambda>c. c,
     arrivals = [(2, \<lambda>c. c)], exit_env = \<lambda>c. c, clock = 20\<rparr>"

lemma kv_network_env:
  "leader_env (entry_env kv_network)" "\<forall>(p, env) \<in> set (arrivals kv_network). leader_env env"
  by (simp_all add: kv_network_def leader_env_def same_log_def)

lemma kv_leader_fields:
  "rlog kv_leader = [entry 1 1 ''NOOP'']" "snapshot_last_index kv_leader = 0" "last_applied kv_leader = 0"
  "commit_index kv_leader = 0" "last_log_index kv_leader = 1"
  by code_simp+

lemma kv_leader_wf: "core_wf kv_leader" "unat (last_log_index kv_leader) + 2 < u64_bound"
  by (rule core_wf_by_fields; simp add: kv_leader_fields entry_def u64_bound_gt) (simp add: kv_leader_fields u64_bound_gt)

section \<open>The HTTP interface\<close>

lemma submit_Ok:
  assumes "core_wf c" "storage_total S" "unat (last_log_index c) + 2 < u64_bound"
    and "leader_env (entry_env N)" "\<forall>(p, env) \<in> set (arrivals N). leader_env env"
    and "raft_handle_submit S M N delivered replied command c = Some (Ok v, c')"
  shows "\<exists>m. sm_apply M m command = (state_machine c', Ok v)"
proof -
  have "handle_submit S M N command c = Some (Ok v, c')"
    using assms(6) by (auto simp: raft_handle_submit_def bind_eq_Some_conv split: if_splits)
  from handle_submit_answered [OF assms(1-5) this, of v "Ok v" undefined] show ?thesis
    by (auto simp: answered_def)
qed

text \<open>
  C14: for a key without a space, an acknowledged write has taken effect. When POST answers success, the value is
  the one the leader's store holds for the key at that moment; when DELETE does, the key is gone. The leader
  is well-formed, its storage does not fail, its log has room, and what its other tasks do while
  the request waits changes its log only when it also ends its leadership (\<open>leader_env\<close>). For a key with a space the POST
  answers success and writes another key (\<open>spaced_key_writes_another\<close>).
\<close>

theorem acknowledged_write_took_effect:
  assumes "core_wf c" "storage_total S" "unat (last_log_index c) + 2 < u64_bound"
    and "leader_env (entry_env N)" "\<forall>(p, env) \<in> set (arrivals N). leader_env env"
    and "CHR '' '' \<notin> set key"
  shows "(\<forall>delivered replied request resp c'.
        api_kv_set S (kv_ops J) N delivered replied key request c = Some (Ok resp, c') \<longrightarrow>
        mut_key resp = key \<and> success resp \<and> kv_get (state_machine c') key = Some (set_value request)) \<and>
    (\<forall>delivered replied resp c'.
        api_kv_delete S (kv_ops J) N delivered replied key c = Some (Ok resp, c') \<longrightarrow>
        mut_key resp = key \<and> success resp \<and> kv_get (state_machine c') key = None)"
proof (intro conjI allI impI)
  fix delivered replied request resp c'
  assume "api_kv_set S (kv_ops J) N delivered replied key request c = Some (Ok resp, c')"
  then obtain v where s: "raft_handle_submit S (kv_ops J) N delivered replied (set_command key (set_value request)) c = Some (Ok v, c')"
    and r: "resp = \<lparr>mut_key = key, success = True\<rparr>"
    by (rule api_kv_set_cases) auto
  obtain m where "kv_apply m (set_command key (set_value request)) = (state_machine c', Ok v)"
    using submit_Ok [OF assms(1-5) s] by (auto simp: kv_ops_def)
  then have "state_machine c' = m\<lparr>kv_data := hm_insert key (set_value request) (kv_data m)\<rparr>"
    using kv_apply_set [OF assms(6)] by (simp add: set_command_def)
  then show "mut_key resp = key" "success resp" "kv_get (state_machine c') key = Some (set_value request)"
    using r by (simp_all add: kv_get_after)
next
  fix delivered replied resp c'
  assume "api_kv_delete S (kv_ops J) N delivered replied key c = Some (Ok resp, c')"
  then obtain v where s: "raft_handle_submit S (kv_ops J) N delivered replied (delete_command key) c = Some (Ok v, c')"
    and r: "resp = \<lparr>mut_key = key, success = True\<rparr>"
    by (rule api_kv_delete_cases) auto
  obtain m where "kv_apply m (delete_command key) = (state_machine c', Ok v)"
    using submit_Ok [OF assms(1-5) s] by (auto simp: kv_ops_def)
  then have "state_machine c' = m\<lparr>kv_data := hm_remove key (kv_data m)\<rparr>"
    using kv_apply_delete [OF assms(6)] by (simp add: delete_command_def)
  then show "mut_key resp = key" "success resp" "kv_get (state_machine c') key = None"
    using r by (simp_all add: kv_get_after)
qed

theorem acknowledged_write_took_effect_witness:
  "\<exists>resp c'. api_kv_set mem_ops store_ops kv_network True True ''x'' \<lparr>set_value = ''1''\<rparr> kv_leader = Some (Ok resp, c') \<and>
     kv_get (state_machine c') ''x'' = Some ''1''"
proof -
  let ?r = "api_kv_set mem_ops store_ops kv_network True True ''x'' \<lparr>set_value = ''1''\<rparr> kv_leader"
  have "map_option fst ?r = Some (Ok \<lparr>mut_key = ''x'', success = True\<rparr>)" by code_simp
  then obtain resp c' where r: "?r = Some (Ok resp, c')" by auto
  have "CHR '' '' \<notin> set ''x''" by simp
  from acknowledged_write_took_effect [OF kv_leader_wf(1) mem_storage_total kv_leader_wf(2) kv_network_env this] r
  show ?thesis by fastforce
qed

text \<open>
  A key with a space is not the key that is written. POST answers success for the key \<open>k1 k2\<close>, but the
  command it submits is split at the space, so the store then holds \<open>k2 v\<close> under the key \<open>k1\<close>. DELETE of such
  a key never succeeds.
\<close>

theorem spaced_key_writes_another:
  assumes "core_wf c" "storage_total S" "unat (last_log_index c) + 2 < u64_bound"
    and "leader_env (entry_env N)" "\<forall>(p, env) \<in> set (arrivals N). leader_env env"
    and "CHR '' '' \<notin> set k1" "key = k1 @ '' '' @ k2"
  shows "(\<forall>delivered replied request resp c'.
        api_kv_set S (kv_ops J) N delivered replied key request c = Some (Ok resp, c') \<longrightarrow>
        mut_key resp = key \<and> kv_get (state_machine c') k1 = Some (k2 @ '' '' @ set_value request)) \<and>
    (\<forall>m. \<not> isl (kv_validate m (set_command key v)) \<and> isl (kv_validate m (delete_command key)))"
proof (intro conjI allI impI)
  fix delivered replied request resp c'
  assume "api_kv_set S (kv_ops J) N delivered replied key request c = Some (Ok resp, c')"
  then obtain v where s: "raft_handle_submit S (kv_ops J) N delivered replied (set_command key (set_value request)) c = Some (Ok v, c')"
    and r: "resp = \<lparr>mut_key = key, success = True\<rparr>"
    by (rule api_kv_set_cases) auto
  obtain m where "kv_apply m (set_command key (set_value request)) = (state_machine c', Ok v)"
    using submit_Ok [OF assms(1-5) s] by (auto simp: kv_ops_def)
  then have "state_machine c' = m\<lparr>kv_data := hm_insert k1 (k2 @ '' '' @ set_value request) (kv_data m)\<rparr>"
    using kv_apply_set [OF assms(6), of m "k2 @ '' '' @ set_value request"] assms(7) by (simp add: set_command_def)
  then show "mut_key resp = key" "kv_get (state_machine c') k1 = Some (k2 @ '' '' @ set_value request)"
    using r by (simp_all add: kv_get_after)
next
  fix m
  show "\<not> isl (kv_validate m (set_command key v))"
    using kv_split_two(2) [of "''SET''" k1 "k2 @ '' '' @ v"] assms(6,7)
    by (simp add: kv_validate_def set_command_def NOOP_COMMAND_def)
  show "isl (kv_validate m (delete_command key))"
    using kv_split_two(2) [of "''DELETE''" k1 k2] assms(6,7)
    by (simp add: kv_validate_def delete_command_def NOOP_COMMAND_def)
qed

theorem spaced_key_writes_another_witness:
  "\<exists>resp c'. api_kv_set mem_ops store_ops kv_network True True ''a b'' \<lparr>set_value = ''1''\<rparr> kv_leader = Some (Ok resp, c') \<and>
     mut_key resp = ''a b'' \<and> kv_get (state_machine c') ''a'' = Some ''b 1''"
proof -
  let ?r = "api_kv_set mem_ops store_ops kv_network True True ''a b'' \<lparr>set_value = ''1''\<rparr> kv_leader"
  have "map_option fst ?r = Some (Ok \<lparr>mut_key = ''a b'', success = True\<rparr>)" by code_simp
  then obtain resp c' where r: "?r = Some (Ok resp, c')" by auto
  have "CHR '' '' \<notin> set ''a''" "''a b'' = ''a'' @ '' '' @ ''b''" by simp_all
  from spaced_key_writes_another [OF kv_leader_wf(1) mem_storage_total kv_leader_wf(2) kv_network_env this] r
  show ?thesis by fastforce
qed

text \<open>
  The status codes. A submitted command is answered with 200, 400 or 503, and with 400 exactly when the
  command was refused, by the validation or by the store; a read with 200 or 503. No request is answered
  with 500, and only an answer of the node that is not the leader carries a hint.
\<close>

theorem api_status_codes:
  "(\<forall>a c'. api_kv_set S M N delivered replied key request c = Some (a, c') \<longrightarrow> status_of a \<in> {200, 400, 503}) \<and>
   (\<forall>a c'. api_kv_delete S M N delivered replied key c = Some (a, c') \<longrightarrow> status_of a \<in> {200, 400, 503}) \<and>
   (\<forall>a c'. api_submit S M N delivered replied cmd c = Some (a, c') \<longrightarrow> status_of a \<in> {200, 400, 503} \<and>
      (status_of a = 400 \<longleftrightarrow> (\<exists>e msg. raft_handle_submit S M N delivered replied (submit_command cmd) c = Some (Err e, c') \<and>
         (e = InvalidCommand msg \<or> e = StateMachineError msg)))) \<and>
   (\<forall>a d'. api_kv_get N' env rounds delivered replied env' key d = (Some a, d') \<longrightarrow> status_of a \<in> {200, 503})"
proof (intro conjI allI impI)
  show "status_of a \<in> {200, 400, 503}" if "api_kv_set S M N delivered replied key request c = Some (a, c')" for a c'
    using that by (rule api_kv_set_cases) (auto dest: raft_handle_submit_status)
  show "status_of a \<in> {200, 400, 503}" if "api_kv_delete S M N delivered replied key c = Some (a, c')" for a c'
    using that by (rule api_kv_delete_cases) (auto dest: raft_handle_submit_status)
  show "status_of a \<in> {200, 400, 503}" if "api_submit S M N delivered replied cmd c = Some (a, c')" for a c'
    using that by (rule api_submit_cases) (auto dest: raft_handle_submit_status)
  show "status_of a = 400 \<longleftrightarrow> (\<exists>e msg. raft_handle_submit S M N delivered replied (submit_command cmd) c = Some (Err e, c') \<and>
         (e = InvalidCommand msg \<or> e = StateMachineError msg))"
    if "api_submit S M N delivered replied cmd c = Some (a, c')" for a c'
    using that by (rule api_submit_cases) (auto simp: submit_error_status(2))
  show "status_of a \<in> {200, 503}" if "api_kv_get N' env rounds delivered replied env' key d = (Some a, d')" for a d'
  proof -
    obtain r d1 where r: "raft_handle_read_index N' env rounds delivered replied d = (r, d1)" by (rule prod.exhaust)
    show ?thesis
    proof (cases "\<exists>e. r = Some (Err e)")
      case True
      then obtain e where e: "r = Some (Err e)" by blast
      then have "(\<exists>hint. e = NotLeader hint) \<or> e = ReadTimeout"
        using raft_handle_read_index_errors r by blast
      then show ?thesis
        using that r e by (auto simp: api_kv_get_def read_error_answer_def api_error_def SERVICE_UNAVAILABLE_def)
    next
      case False
      then show ?thesis
        using that r by (auto simp: api_kv_get_def Let_def split: option.splits sum.splits)
    qed
  qed
qed

theorem api_status_codes_witness:
  "\<exists>a c'. api_kv_delete mem_ops store_ops kv_network True True ''x'' kv_leader = Some (a, c') \<and>
     isl a \<and> status_of a \<in> {200, 400, 503}"
proof -
  let ?r = "api_kv_delete mem_ops store_ops kv_network True True ''x'' kv_leader"
  have "map_option (\<lambda>(a, c). isl a) ?r = Some True" by code_simp
  then obtain a c' where r: "?r = Some (a, c')" and a: "isl a" by auto
  have "status_of a \<in> {200, 400, 503}"
    using api_status_codes [THEN conjunct2, THEN conjunct1, rule_format, OF r] .
  with r a show ?thesis by blast
qed

section \<open>The transports\<close>

text \<open>
  Serving the channel of a node is running its core. Processing the waiting requests one by one, at the
  given times, panics or leaves the core exactly as the run of the corresponding events does, so what is
  proved of runs of the handlers holds behind the transport.
\<close>

theorem serve_refines_core_run:
  assumes "length nows = length reqs"
  shows "map_option snd (serve S M nows \<lparr>receiver = reqs\<rparr> c) = core_run S M (map2 request_event nows reqs) c"
  using serve_run [of nows "\<lparr>receiver = reqs\<rparr>" S M c] assms by simp

theorem serve_refines_core_run_witness:
  "map_option (voted_for \<circ> snd) (serve mem_ops test_ops [7] \<lparr>receiver = [Req_RequestVote (vote_msg 2 3 1 1)]\<rparr> (new_node 2 [1, 3]))
     = Some (Some 3)"
proof -
  have "map_option voted_for (core_run mem_ops test_ops [RequestVoteReq (vote_msg 2 3 1 1)] (new_node 2 [1, 3])) = Some (Some 3)"
    by code_simp
  moreover have "map2 request_event [7] [Req_RequestVote (vote_msg 2 3 1 1)] = [RequestVoteReq (vote_msg 2 3 1 1)]"
    by (simp add: request_event_def)
  moreover have "length [7 :: instant] = length [Req_RequestVote (vote_msg 2 3 1 1)]" by simp
  note serve_refines_core_run [OF this, of mem_ops test_ops "new_node 2 [1, 3]"]
  ultimately show ?thesis by (metis option.map_comp)
qed

section \<open>The test client\<close>

text \<open>
  C28: the retry loop of the test client ends. With a target to talk to, a write has a result, and the result
  depends on at most \<open>max_retries\<close> requests to the URLs of the targets.
\<close>

theorem client_retries_bounded:
  assumes "targets T \<noteq> []" "0 < max_retries T" "same_replies T key W W'"
  shows "(\<exists>r. do_write T W key = Some r) \<and> do_write T W key = do_write T W' key"
  using request_loop_returns [of 0 T W key 0] request_loop_same [OF assms(3,2)] assms(1)
  by (simp add: do_write_def)

definition refusing_world :: "unit http_world" where
  "refusing_world = \<lparr>outcome = \<lambda>n url. (if n < 10 then Response 503 ''no'' else Response 200 ''yes''),
     parse_ok = \<lambda>body. Ok (), parse_hint = \<lambda>body. Ok (Some 2), status_text = show_nat\<rparr>"

theorem client_retries_bounded_witness:
  "do_write (test_client_new (ClientId 1) [''a:1'', ''b:2'']) refusing_world ''x'' = Some (Err (ClientNotLeader (Some 2)))"
proof -
  let ?T = "test_client_new (ClientId 1) [''a:1'', ''b:2'']"
  let ?W = "refusing_world\<lparr>outcome := \<lambda>n url. Response 503 ''no''\<rparr>"
  have "targets ?T \<noteq> []" "0 < max_retries ?T" "same_replies ?T ''x'' refusing_world ?W"
    by (simp_all add: test_client_new_def same_replies_def refusing_world_def)
  from client_retries_bounded [OF this] have "do_write ?T refusing_world ''x'' = do_write ?T ?W ''x''" by blast
  also have "\<dots> = Some (Err (ClientNotLeader (Some 2)))" by code_simp
  finally show ?thesis .
qed

section \<open>The command line\<close>

text \<open>
  C29: the command line is read as it is documented. The arguments of the usage text, for any identifier,
  ports, data directory and threshold and any peers without \<open>=\<close> and comma in their addresses, are parsed
  to exactly this configuration.
\<close>

theorem command_line_roundtrip:
  assumes "peers_ok ps"
  shows "parse_args (command_line prog i tp ap dir ps n) = Some (i, tp, ap, dir, ps, n)"
  using assms by (rule parse_command_line)

theorem command_line_roundtrip_witness:
  "parse_args [''raft-server'', ''--id'', ''1'', ''--transport-port'', ''8001'', ''--api-port'', ''9001'', ''--data-dir'',
     ''/tmp/raft1'', ''--peers'', ''2=h:8002,3=h:8003'', ''--snapshot-threshold'', ''0'']
   = Some (1, 8001, 9001, ''/tmp/raft1'', [(2, ''h:8002''), (3, ''h:8003'')], 0)"
proof -
  have c: "command_line ''raft-server'' 1 8001 9001 ''/tmp/raft1'' [(2, ''h:8002''), (3, ''h:8003'')] 0 =
    [''raft-server'', ''--id'', ''1'', ''--transport-port'', ''8001'', ''--api-port'', ''9001'', ''--data-dir'',
     ''/tmp/raft1'', ''--peers'', ''2=h:8002,3=h:8003'', ''--snapshot-threshold'', ''0'']"
    by (simp add: command_line_def show_peer_def show_u64_def show_u16_def show_nat.simps digit_char_def char_of_def bit_0)
  have "parse_args (command_line ''raft-server'' 1 8001 9001 ''/tmp/raft1'' [(2, ''h:8002''), (3, ''h:8003'')] 0)
      = Some (1, 8001, 9001, ''/tmp/raft1'', [(2, ''h:8002''), (3, ''h:8003'')], 0)"
    by (rule command_line_roundtrip) (simp add: peers_ok_def)
  then show ?thesis unfolding c .
qed

text \<open>
  No two writes of a test run write the same value. The values of one client are distinct, and a value
  tells the client and the position of its write, so a read value identifies the write it saw.
\<close>

theorem workload_values_distinct:
  assumes "run_client_workload client keys 0 draws = Some ops" "length draws < u64_bound"
  shows "distinct [v. (k, Write v) \<leftarrow> ops] \<and>
    (\<forall>k v. (k, Write v) \<in> set ops \<longrightarrow> (\<exists>m. v = write_value client m)) \<and>
    (\<forall>a m b n. write_value a m = write_value b n \<longrightarrow> a = b \<and> m = n)"
  using workload_distinct [OF assms(1)] workload_values [OF assms(1)] assms(2)
  by (auto simp: write_value_inject)

theorem workload_values_distinct_witness:
  "run_client_workload 3 [''x'', ''y''] 0 [(0, True), (1, False), (1, True)] =
     Some [(''x'', Write ''c3_v1''), (''y'', Read), (''y'', Write ''c3_v2'')] \<and> write_value 3 1 \<noteq> write_value 3 2"
proof -
  have r: "run_client_workload 3 [''x'', ''y''] 0 [(0, True), (1, False), (1, True)] =
     Some [(''x'', Write ''c3_v1''), (''y'', Read), (''y'', Write ''c3_v2'')]" by code_simp
  from workload_values_distinct [OF r] have "\<forall>a m b n. write_value a m = write_value b n \<longrightarrow> a = b \<and> m = n"
    by (simp add: u64_bound_gt)
  then have "write_value 3 1 = write_value 3 2 \<longrightarrow> (1 :: u64) = 2" by blast
  with r show ?thesis by simp
qed

end
