(* ===== verification/Docker_Cluster.thy ===== *)
theory Docker_Cluster
  imports Raft_Prelude Rust_Strings "HOL-Library.Multiset"
begin

text \<open>
  The cluster in Docker containers that the tester disturbs, chaos-test/src/docker.rs. The processes it
  spawns and the HTTP requests it sends are parameters: \<open>sh\<close> runs a command line on the world of type
  \<open>'w\<close>, \<open>http\<close> fetches the status of a node. An operation returns the new world, or \<open>None\<close> where the code
  panics. Console output is left out.
\<close>

section \<open>Processes and requests\<close>

text \<open>The process could not be spawned; or it ended, with success or not, and this standard output.\<close>

datatype cmd_output = Spawn_error | Exited bool string

type_synonym 'w shell = "string list \<Rightarrow> 'w \<Rightarrow> cmd_output \<times> 'w"

record node_status =
  ns_node_id :: u64
  ns_state :: string
  ns_commit_index :: u64
  ns_last_applied :: u64

text \<open>A GET request; \<open>None\<close> when the request fails or the body is no status.\<close>

type_synonym 'w status_get = "string \<Rightarrow> 'w \<Rightarrow> node_status option \<times> 'w"

text \<open>\<open>Command::new(..).output().await.expect(..)\<close>.\<close>

definition expect_output :: "'w shell \<Rightarrow> string list \<Rightarrow> 'w \<Rightarrow> ((bool \<times> string) \<times> 'w) option" where
  "expect_output sh args w =
     (case sh args w of (Exited ok out, w) \<Rightarrow> Some ((ok, out), w) | (Spawn_error, _) \<Rightarrow> None)"

text \<open>The same where a failure of the command is only reported.\<close>

definition run_reported :: "'w shell \<Rightarrow> string list \<Rightarrow> 'w \<Rightarrow> 'w option" where
  "run_reported sh args w = map_option snd (expect_output sh args w)"

text \<open>\<open>let _ = Command::new(..).output().await\<close>.\<close>

definition run_ignored :: "'w shell \<Rightarrow> string list \<Rightarrow> 'w \<Rightarrow> 'w" where
  "run_ignored sh args w = snd (sh args w)"

section \<open>The cluster\<close>

record docker_cluster =
  compose_file :: string
  node_count :: u64
  project_name :: string

definition container :: "u64 \<Rightarrow> string" where
  "container i = ''raft-node-'' @ show_u64 i"

definition compose_down :: "string \<Rightarrow> string list" where
  "compose_down f = [''docker'', ''compose'', ''-f'', f, ''down'', ''-v'']"

text \<open>
  \<open>json_name\<close> parses the output of \<open>docker compose config\<close>: \<open>None\<close> when it is no JSON, \<open>Some None\<close> when
  its field \<open>name\<close> is missing or no string.
\<close>

definition docker_start ::
  "'w shell \<Rightarrow> (string \<Rightarrow> string option option) \<Rightarrow> string \<Rightarrow> u64 \<Rightarrow> 'w \<Rightarrow> (docker_cluster \<times> 'w) option" where
  "docker_start sh json_name f n w = do {
     ((ok, out), w) \<leftarrow> expect_output sh [''docker'', ''compose'', ''-f'', f, ''config'', ''--format'', ''json''] w;
     let project = (if ok
                    then case json_name out of
                           Some name \<Rightarrow> (case name of Some x \<Rightarrow> x | None \<Rightarrow> ''raft_vibe'')
                         | None \<Rightarrow> ''raft_vibe''
                    else ''raft_vibe'');
     let w = run_ignored sh (compose_down f) w;
     ((ok, _), w) \<leftarrow> expect_output sh [''docker'', ''compose'', ''-f'', f, ''up'', ''-d'', ''--build''] w;
     if ok then Some (\<lparr>compose_file = f, node_count = n, project_name = project\<rparr>, w) else None
   }"

definition docker_stop :: "'w shell \<Rightarrow> docker_cluster \<Rightarrow> 'w \<Rightarrow> 'w option" where
  "docker_stop sh D w = run_reported sh (compose_down (compose_file D)) w"

definition docker_drop :: "'w shell \<Rightarrow> docker_cluster \<Rightarrow> 'w \<Rightarrow> 'w" where
  "docker_drop sh D w = run_ignored sh (compose_down (compose_file D)) w"

section \<open>Leaders\<close>

definition node_api_addr :: "u64 \<Rightarrow> string" where
  "node_api_addr i = ''127.0.0.1:'' @ show_u64 (9100 + i)"

definition status_url :: "u64 \<Rightarrow> string" where
  "status_url i = ''http://'' @ node_api_addr i @ ''/client/status''"

definition get_node_status :: "'w status_get \<Rightarrow> u64 \<Rightarrow> 'w \<Rightarrow> node_status option \<times> 'w" where
  "get_node_status http i w = http (status_url i) w"

text \<open>One pass over the nodes: the first that says that it is the leader.\<close>

fun poll_leader :: "'w status_get \<Rightarrow> u64 list \<Rightarrow> 'w \<Rightarrow> u64 option \<times> 'w" where
  "poll_leader http [] w = (None, w)"
| "poll_leader http (i # is) w =
     (case http (status_url i) w of
        (Some st, w) \<Rightarrow> if ns_state st = ''Leader'' then (Some (ns_node_id st), w) else poll_leader http is w
      | (None, w) \<Rightarrow> poll_leader http is w)"

definition all_nodes :: "docker_cluster \<Rightarrow> u64 list" where
  "all_nodes D = map of_nat [1..<Suc (unat (node_count D))]"

definition docker_find_leader :: "'w status_get \<Rightarrow> docker_cluster \<Rightarrow> 'w \<Rightarrow> u64 option \<times> 'w" where
  "docker_find_leader http D w = poll_leader http (all_nodes D) w"

text \<open>
  The loop of \<open>wait_for_leader\<close>, on the readings of the clock at its head. The outer \<open>None\<close>: the readings
  are over and the loop is still waiting.
\<close>

fun wait_until ::
  "'w status_get \<Rightarrow> docker_cluster \<Rightarrow> instant \<Rightarrow> instant list \<Rightarrow> 'w \<Rightarrow> u64 option option \<times> 'w" where
  "wait_until http D deadline [] w = (None, w)"
| "wait_until http D deadline (now # nows) w =
     (if now < deadline
      then case poll_leader http (all_nodes D) w of
             (Some l, w) \<Rightarrow> (Some (Some l), w)
           | (None, w) \<Rightarrow> wait_until http D deadline nows w
      else (Some None, w))"

definition wait_for_leader ::
  "'w status_get \<Rightarrow> docker_cluster \<Rightarrow> duration \<Rightarrow> instant \<Rightarrow> instant list \<Rightarrow> 'w \<Rightarrow> u64 option option \<times> 'w" where
  "wait_for_leader http D timeout now nows w = wait_until http D (now + timeout) nows w"

section \<open>Crashes\<close>

definition kill_node :: "'w shell \<Rightarrow> u64 \<Rightarrow> 'w \<Rightarrow> 'w option" where
  "kill_node sh i w = run_reported sh [''docker'', ''kill'', container i] w"

definition docker_start_node :: "'w shell \<Rightarrow> u64 \<Rightarrow> 'w \<Rightarrow> 'w option" where
  "docker_start_node sh i w = run_reported sh [''docker'', ''start'', container i] w"

definition wipe_node_storage :: "'w shell \<Rightarrow> docker_cluster \<Rightarrow> u64 \<Rightarrow> 'w \<Rightarrow> 'w option" where
  "wipe_node_storage sh D i w =
     (let w = run_ignored sh [''docker'', ''kill'', container i] w;
          w = run_ignored sh [''docker'', ''rm'', ''-f'', container i] w
      in run_reported sh [''docker'', ''compose'', ''-f'', compose_file D, ''create'', container i] w)"

definition kill_leader :: "'w shell \<Rightarrow> 'w status_get \<Rightarrow> docker_cluster \<Rightarrow> 'w \<Rightarrow> (u64 option \<times> 'w) option" where
  "kill_leader sh http D w =
     (case docker_find_leader http D w of
        (Some l, w) \<Rightarrow> map_option (\<lambda>w. (Some l, w)) (kill_node sh l w)
      | (None, w) \<Rightarrow> Some (None, w))"

section \<open>Partitions\<close>

definition network_name :: "docker_cluster \<Rightarrow> string" where
  "network_name D = project_name D @ ''_raft-chaos-net''"

definition isolate_node :: "'w shell \<Rightarrow> docker_cluster \<Rightarrow> u64 \<Rightarrow> 'w \<Rightarrow> 'w option" where
  "isolate_node sh D i w =
     run_reported sh [''docker'', ''network'', ''disconnect'', network_name D, container i] w"

definition rejoin_node :: "'w shell \<Rightarrow> docker_cluster \<Rightarrow> u64 \<Rightarrow> 'w \<Rightarrow> 'w option" where
  "rejoin_node sh D i w =
     run_reported sh [''docker'', ''network'', ''connect'', network_name D, container i] w"

definition inspect_ip :: "u64 \<Rightarrow> string list" where
  "inspect_ip i =
     [''docker'', ''inspect'', ''-f'', ''{{range .NetworkSettings.Networks}}{{.IPAddress}}{{end}}'', container i]"

definition get_container_ip :: "'w shell \<Rightarrow> u64 \<Rightarrow> 'w \<Rightarrow> (string option \<times> 'w) option" where
  "get_container_ip sh i w = do {
     ((ok, out), w) \<leftarrow> expect_output sh (inspect_ip i) w;
     Some (if ok then (let ip = trim out in if ip = [] then None else Some ip) else None, w)
   }"

text \<open>\<open>unwrap_or_else\<close> with a panic.\<close>

definition ip_or_panic :: "'w shell \<Rightarrow> u64 \<Rightarrow> 'w \<Rightarrow> (string \<times> 'w) option" where
  "ip_or_panic sh i w = do { (ip, w) \<leftarrow> get_container_ip sh i w; ip \<leftarrow> ip; Some (ip, w) }"

definition iptables :: "u64 \<Rightarrow> string \<Rightarrow> string list \<Rightarrow> string list" where
  "iptables i action rule = [''docker'', ''exec'', container i, ''iptables'', action] @ rule"

definition input_rule :: "string \<Rightarrow> string list" where
  "input_rule ip = [''INPUT'', ''-s'', ip, ''-j'', ''DROP'']"

definition output_rule :: "string \<Rightarrow> string list" where
  "output_rule ip = [''OUTPUT'', ''-d'', ip, ''-j'', ''DROP'']"

definition iptables_rule :: "'w shell \<Rightarrow> u64 \<Rightarrow> string \<Rightarrow> string \<Rightarrow> 'w \<Rightarrow> 'w option" where
  "iptables_rule sh i action peer_ip w = do {
     w \<leftarrow> run_reported sh (iptables i action (input_rule peer_ip)) w;
     run_reported sh (iptables i action (output_rule peer_ip)) w
   }"

definition partition_one_way :: "'w shell \<Rightarrow> u64 \<Rightarrow> u64 \<Rightarrow> 'w \<Rightarrow> 'w option" where
  "partition_one_way sh src dst w = do {
     (ip_to, w) \<leftarrow> ip_or_panic sh dst w;
     iptables_rule sh src ''-A'' ip_to w
   }"

definition heal_partition_one_way :: "'w shell \<Rightarrow> u64 \<Rightarrow> u64 \<Rightarrow> 'w \<Rightarrow> 'w option" where
  "heal_partition_one_way sh src dst w = do {
     (ip_to, w) \<leftarrow> ip_or_panic sh dst w;
     iptables_rule sh src ''-D'' ip_to w
   }"

definition partition_nodes :: "'w shell \<Rightarrow> u64 \<Rightarrow> u64 \<Rightarrow> 'w \<Rightarrow> 'w option" where
  "partition_nodes sh a b w = do {
     (ip_a, w) \<leftarrow> ip_or_panic sh a w;
     (ip_b, w) \<leftarrow> ip_or_panic sh b w;
     w \<leftarrow> iptables_rule sh a ''-A'' ip_b w;
     iptables_rule sh b ''-A'' ip_a w
   }"

definition heal_partition :: "'w shell \<Rightarrow> u64 \<Rightarrow> u64 \<Rightarrow> 'w \<Rightarrow> 'w option" where
  "heal_partition sh a b w = do {
     (ip_a, w) \<leftarrow> ip_or_panic sh a w;
     (ip_b, w) \<leftarrow> ip_or_panic sh b w;
     w \<leftarrow> iptables_rule sh a ''-D'' ip_b w;
     iptables_rule sh b ''-D'' ip_a w
   }"

section \<open>Slow networks\<close>

definition netem :: "u64 \<Rightarrow> string list \<Rightarrow> string list" where
  "netem i args = [''docker'', ''exec'', container i, ''tc'', ''qdisc''] @ args"

definition add_latency :: "'w shell \<Rightarrow> u64 \<Rightarrow> u64 \<Rightarrow> 'w \<Rightarrow> 'w option" where
  "add_latency sh i delay_ms w =
     run_reported sh (netem i [''add'', ''dev'', ''eth0'', ''root'', ''netem'', ''delay'', show_u64 delay_ms @ ''ms'']) w"

definition add_packet_loss :: "'w shell \<Rightarrow> u64 \<Rightarrow> u32 \<Rightarrow> 'w \<Rightarrow> 'w option" where
  "add_packet_loss sh i percent w =
     run_reported sh (netem i [''add'', ''dev'', ''eth0'', ''root'', ''netem'', ''loss'', show_nat (unat percent) @ ''%'']) w"

definition clear_netem :: "'w shell \<Rightarrow> u64 \<Rightarrow> 'w \<Rightarrow> 'w option" where
  "clear_netem sh i w = run_reported sh (netem i [''del'', ''dev'', ''eth0'', ''root'']) w"

section \<open>Leaders found\<close>

text \<open>A leader that is found said so itself, at the address of one of the nodes.\<close>

lemma poll_leader_said:
  assumes "poll_leader http is w = (Some l, w')"
  shows "\<exists>i \<in> set is. \<exists>v st. fst (http (status_url i) v) = Some st \<and> ns_state st = ''Leader'' \<and> ns_node_id st = l"
  using assms
proof (induction http "is" w rule: poll_leader.induct)
  case (2 http i "is" w)
  obtain r v where h: "http (status_url i) w = (r, v)" by (rule prod.exhaust)
  show ?case
  proof (cases "\<exists>st. r = Some st \<and> ns_state st = ''Leader''")
    case True
    then obtain st where st: "r = Some st" "ns_state st = ''Leader''" by blast
    then have "ns_node_id st = l" using 2(3) h by simp
    then show ?thesis using st h by (intro bexI [of _ i] exI [of _ w] exI [of _ st]) simp_all
  next
    case False
    then have "poll_leader http is v = (Some l, w')" using 2(3) h by (cases r) auto
    then have "\<exists>j \<in> set is. \<exists>v st. fst (http (status_url j) v) = Some st \<and> ns_state st = ''Leader'' \<and> ns_node_id st = l"
      using 2(1) [OF h [symmetric]] 2(2) [OF h [symmetric]] False by (cases r) auto
    then show ?thesis by auto
  qed
qed simp

text \<open>The wait ends, at the latest at the first reading of the clock that is not before the deadline.\<close>

lemma wait_until_terminates:
  assumes "\<exists>now \<in> set nows. deadline \<le> now"
  shows "fst (wait_until http D deadline nows w) \<noteq> None"
  using assms
proof (induction http D deadline nows w rule: wait_until.induct)
  case (2 http D deadline now nows w)
  obtain l v where l: "poll_leader http (all_nodes D) w = (l, v)" by (rule prod.exhaust)
  show ?case
  proof (cases "now < deadline \<and> l = None")
    case True
    then have "\<exists>now \<in> set nows. deadline \<le> now" using 2(2) by auto
    then show ?thesis using 2(1) True l by simp
  qed (use l in auto)
qed simp

section \<open>Filters\<close>

text \<open>
  What the partitions see of the world: whether the container of a node runs, attached to the network of the
  cluster and with the capability \<open>NET_ADMIN\<close>; its address there; the filter rules in it, each with the
  name of its chain, in the order of its chain.
\<close>

record docker_view =
  running :: "u64 \<Rightarrow> bool"
  address :: "u64 \<Rightarrow> string"
  rules :: "u64 \<Rightarrow> string list list"

definition drop_rules :: "docker_view \<Rightarrow> u64 \<Rightarrow> string list set" where
  "drop_rules v j = {input_rule (address v j), output_rule (address v j)}"

text \<open>
  What Docker and iptables document for the containers of the nodes in \<open>N\<close>, while they run and nothing else
  disturbs them: \<open>docker inspect\<close> prints the address of a container, \<open>iptables -A\<close> appends a rule to its chain and
  \<open>iptables -D\<close> deletes the first rule that is equal to the given one. Required of the rules that drop what comes
  from or goes to one of these addresses only; nothing is required of a container that does not run.
\<close>

definition documented_shell :: "u64 set \<Rightarrow> 'w shell \<Rightarrow> ('w \<Rightarrow> docker_view) \<Rightarrow> bool" where
  "documented_shell N sh view \<longleftrightarrow>
     (\<forall>i \<in> N. \<forall>w. running (view w) i \<longrightarrow> (\<exists>out w'. sh (inspect_ip i) w = (Exited True out, w') \<and>
        trim out = address (view w) i \<and> address (view w) i \<noteq> [] \<and> view w' = view w)) \<and>
     (\<forall>i \<in> N. \<forall>j \<in> N. \<forall>w. \<forall>r \<in> drop_rules (view w) j. running (view w) i \<longrightarrow>
        (\<exists>out w'. sh (iptables i ''-A'' r) w = (Exited True out, w') \<and>
          view w' = (view w)\<lparr>rules := (rules (view w))(i := rules (view w) i @ [r])\<rparr>)) \<and>
     (\<forall>i \<in> N. \<forall>j \<in> N. \<forall>w. \<forall>r \<in> drop_rules (view w) j. running (view w) i \<and> r \<in> set (rules (view w) i) \<longrightarrow>
        (\<exists>out w'. sh (iptables i ''-D'' r) w = (Exited True out, w') \<and>
          view w' = (view w)\<lparr>rules := (rules (view w))(i := remove1 r (rules (view w) i))\<rparr>))"

text \<open>
  A filter decides a packet by the first rule of the chain that matches it, else by the policy of the chain.
  What a rule says of a packet of type \<open>'p\<close> is a parameter: \<open>None\<close> when it does not match or does not decide,
  else whether the packet is accepted.
\<close>

type_synonym 'p verdict = "string list \<Rightarrow> 'p \<Rightarrow> bool option"

fun decide :: "'p verdict \<Rightarrow> bool \<Rightarrow> string list list \<Rightarrow> 'p \<Rightarrow> bool" where
  "decide verdict policy [] p = policy"
| "decide verdict policy (r # rs) p =
     (case verdict r p of Some ok \<Rightarrow> ok | None \<Rightarrow> decide verdict policy rs p)"

definition chain :: "string \<Rightarrow> string list list \<Rightarrow> string list list" where
  "chain c rs = filter (\<lambda>r. take 1 r = [c]) rs"

text \<open>A packet passes from one node to another when both filters accept it.\<close>

definition passes :: "'p verdict \<Rightarrow> bool \<Rightarrow> docker_view \<Rightarrow> u64 \<Rightarrow> u64 \<Rightarrow> 'p \<Rightarrow> bool" where
  "passes verdict policy v a b p \<longleftrightarrow>
     decide verdict policy (chain ''OUTPUT'' (rules v a)) p \<and> decide verdict policy (chain ''INPUT'' (rules v b)) p"

text \<open>What iptables documents of the two rules that the tester adds, on packets with these addresses.\<close>

definition documented_verdict :: "'p verdict \<Rightarrow> ('p \<Rightarrow> string) \<Rightarrow> ('p \<Rightarrow> string) \<Rightarrow> bool" where
  "documented_verdict verdict src dst \<longleftrightarrow>
     (\<forall>x p. verdict (input_rule x) p = (if src p = x then Some False else None) \<and>
        verdict (output_rule x) p = (if dst p = x then Some False else None))"

text \<open>No rule of the node accepts a packet before a later rule is asked.\<close>

definition only_drops :: "'p verdict \<Rightarrow> string list list \<Rightarrow> bool" where
  "only_drops verdict rs \<longleftrightarrow> (\<forall>r \<in> set rs. \<forall>p. verdict r p \<noteq> Some True)"

lemma rules_differ [simp]: "input_rule x \<noteq> output_rule y" "output_rule x \<noteq> input_rule y"
  by (simp_all add: input_rule_def output_rule_def)

lemma rule_chains [simp]: "take (Suc 0) (input_rule x) = [''INPUT'']" "take (Suc 0) (output_rule x) = [''OUTPUT'']"
  by (simp_all add: input_rule_def output_rule_def)

lemma decide_only_drops:
  "only_drops verdict rs \<Longrightarrow> decide verdict policy rs p \<longleftrightarrow> policy \<and> (\<forall>r \<in> set rs. verdict r p = None)"
  by (induction rs) (auto simp: only_drops_def split: option.splits)

text \<open>Among rules that only drop the order does not matter.\<close>

lemma decide_chain_only_drops:
  assumes "only_drops verdict rs"
  shows "decide verdict policy (chain c rs) p \<longleftrightarrow> policy \<and> (\<forall>r \<in> set rs. take 1 r = [c] \<longrightarrow> verdict r p = None)"
proof -
  have "only_drops verdict (chain c rs)" using assms by (simp add: only_drops_def chain_def)
  then show ?thesis by (auto simp: decide_only_drops chain_def)
qed

lemma decide_chain_added:
  assumes "only_drops verdict rs" "documented_verdict verdict src dst"
  shows "decide verdict policy (chain ''INPUT'' (rs @ [input_rule x, output_rule x])) p \<longleftrightarrow>
      decide verdict policy (chain ''INPUT'' rs) p \<and> src p \<noteq> x"
    "decide verdict policy (chain ''OUTPUT'' (rs @ [input_rule x, output_rule x])) p \<longleftrightarrow>
      decide verdict policy (chain ''OUTPUT'' rs) p \<and> dst p \<noteq> x"
proof -
  have "only_drops verdict (rs @ [input_rule x, output_rule x])"
    using assms by (auto simp: only_drops_def documented_verdict_def)
  note e = decide_chain_only_drops [OF this] decide_chain_only_drops [OF assms(1)]
  have v: "verdict (input_rule x) p = (if src p = x then Some False else None)"
    "verdict (output_rule x) p = (if dst p = x then Some False else None)"
    using assms(2) by (simp_all add: documented_verdict_def)
  show "decide verdict policy (chain ''INPUT'' (rs @ [input_rule x, output_rule x])) p \<longleftrightarrow>
      decide verdict policy (chain ''INPUT'' rs) p \<and> src p \<noteq> x"
    "decide verdict policy (chain ''OUTPUT'' (rs @ [input_rule x, output_rule x])) p \<longleftrightarrow>
      decide verdict policy (chain ''OUTPUT'' rs) p \<and> dst p \<noteq> x"
    unfolding e by (auto simp: v)
qed

lemma decide_chain_same_rules:
  assumes "only_drops verdict rs" "mset rs' = mset rs"
  shows "decide verdict policy (chain c rs') p = decide verdict policy (chain c rs) p"
proof -
  have "set rs' = set rs" using assms(2) by (rule mset_eq_setD)
  moreover from this have "only_drops verdict rs'" using assms(1) by (simp add: only_drops_def)
  ultimately show ?thesis using assms(1) by (simp add: decide_chain_only_drops)
qed

lemma documented_ip:
  assumes "documented_shell N sh view" "i \<in> N" "running (view w) i"
  obtains w' where "ip_or_panic sh i w = Some (address (view w) i, w')" "view w' = view w"
proof -
  have "\<exists>out w'. sh (inspect_ip i) w = (Exited True out, w') \<and>
      trim out = address (view w) i \<and> address (view w) i \<noteq> [] \<and> view w' = view w"
    using assms by (simp add: documented_shell_def)
  then obtain out w' where "sh (inspect_ip i) w = (Exited True out, w')" "trim out = address (view w) i"
    "address (view w) i \<noteq> []" "view w' = view w" by blast
  then show thesis by (intro that [of w']) (simp_all add: ip_or_panic_def get_container_ip_def expect_output_def)
qed

lemma documented_append:
  assumes "documented_shell N sh view" "i \<in> N" "j \<in> N" "running (view w) i"
  obtains w' where "iptables_rule sh i ''-A'' (address (view w) j) w = Some w'"
    "view w' = (view w)\<lparr>rules := (rules (view w))
       (i := rules (view w) i @ [input_rule (address (view w) j), output_rule (address (view w) j)])\<rparr>"
proof -
  let ?x = "address (view w) j"
  have step: "r \<in> drop_rules (view v) j \<Longrightarrow> running (view v) i \<Longrightarrow>
      \<exists>out w'. sh (iptables i ''-A'' r) v = (Exited True out, w') \<and>
        view w' = (view v)\<lparr>rules := (rules (view v))(i := rules (view v) i @ [r])\<rparr>" for r v
    using assms(1,2,3) by (simp add: documented_shell_def)
  obtain o1 v where v: "sh (iptables i ''-A'' (input_rule ?x)) w = (Exited True o1, v)"
    "view v = (view w)\<lparr>rules := (rules (view w))(i := rules (view w) i @ [input_rule ?x])\<rparr>"
    using step [of "input_rule ?x" w] assms(4) by (auto simp: drop_rules_def)
  obtain o2 u where u: "sh (iptables i ''-A'' (output_rule ?x)) v = (Exited True o2, u)"
    "view u = (view v)\<lparr>rules := (rules (view v))(i := rules (view v) i @ [output_rule ?x])\<rparr>"
    using step [of "output_rule ?x" v] assms(4) v(2) by (auto simp: drop_rules_def)
  show thesis
    using that [of u] v u by (simp add: iptables_rule_def run_reported_def expect_output_def)
qed

lemma documented_delete:
  assumes "documented_shell N sh view" "i \<in> N" "j \<in> N" "running (view w) i"
    "drop_rules (view w) j \<subseteq> set (rules (view w) i)"
  obtains w' where "iptables_rule sh i ''-D'' (address (view w) j) w = Some w'"
    "view w' = (view w)\<lparr>rules := (rules (view w))
       (i := remove1 (output_rule (address (view w) j)) (remove1 (input_rule (address (view w) j)) (rules (view w) i)))\<rparr>"
proof -
  let ?x = "address (view w) j"
  have step: "r \<in> drop_rules (view v) j \<Longrightarrow> running (view v) i \<Longrightarrow> r \<in> set (rules (view v) i) \<Longrightarrow>
      \<exists>out w'. sh (iptables i ''-D'' r) v = (Exited True out, w') \<and>
        view w' = (view v)\<lparr>rules := (rules (view v))(i := remove1 r (rules (view v) i))\<rparr>" for r v
    using assms(1,2,3) by (simp add: documented_shell_def)
  obtain o1 v where v: "sh (iptables i ''-D'' (input_rule ?x)) w = (Exited True o1, v)"
    "view v = (view w)\<lparr>rules := (rules (view w))(i := remove1 (input_rule ?x) (rules (view w) i))\<rparr>"
    using step [of "input_rule ?x" w] assms(4,5) by (auto simp: drop_rules_def)
  obtain o2 u where u: "sh (iptables i ''-D'' (output_rule ?x)) v = (Exited True o2, u)"
    "view u = (view v)\<lparr>rules := (rules (view v))(i := remove1 (output_rule ?x) (rules (view v) i))\<rparr>"
    using step [of "output_rule ?x" v] assms(4,5) v(2) by (auto simp: drop_rules_def in_set_remove1)
  show thesis
    using that [of u] v u by (simp add: iptables_rule_def run_reported_def expect_output_def)
qed

section \<open>A shell\<close>

text \<open>
  A shell that does what is documented, for two nodes: its world says which containers run and has their
  rules. In a container that does not run every command fails.
\<close>

type_synonym two_world = "(u64 \<Rightarrow> bool) \<times> (u64 \<Rightarrow> string list list)"

definition two_ips :: "u64 \<Rightarrow> string" where
  "two_ips i = (if i = 1 then ''10.0.0.1'' else ''10.0.0.2'')"

definition two_view :: "two_world \<Rightarrow> docker_view" where
  "two_view w = \<lparr>running = fst w, address = two_ips, rules = snd w\<rparr>"

definition two_shell :: "two_world shell" where
  "two_shell args w =
     (case args of
        _ # _ # c # _ # action # rule \<Rightarrow>
          (let i = (if args = inspect_ip 1 \<or> c = container 1 then 1 else 2)
           in if \<not> fst w i then (Exited False [], w)
              else if args = inspect_ip i then (Exited True (two_ips i @ [CHR 0x0A]), w)
              else if action = ''-A'' then (Exited True [], (fst w, (snd w)(i := snd w i @ [rule])))
              else if rule \<in> set (snd w i) then (Exited True [], (fst w, (snd w)(i := remove1 rule (snd w i))))
              else (Exited False [], w))
      | _ \<Rightarrow> (Spawn_error, w))"

text \<open>Packets with two addresses, and rules that drop by one of them.\<close>

definition address_verdict :: "(string \<times> string) verdict" where
  "address_verdict r p =
     (if r = input_rule (fst p) \<or> r = output_rule (snd p) then Some False else None)"

end
