(* ===== verification/Docker_Properties.thy ===== *)
theory Docker_Properties
  imports Docker_Cluster
begin

text \<open>
  The properties of the partitions that the tester makes, over shells and filters that do what is documented, in
  containers that run, attached to the network, and have no rule that accepts a packet before the added ones are
  asked.
\<close>

text \<open>
  C30: in two running containers whose rules only drop, over a shell and filters that do what is documented, a
  partition between the two nodes blocks exactly the packets that one of them sends to the address of the
  other or receives from it, in both directions; healing it afterwards leaves every container with the rules it
  had before, up to their order, and lets every packet through that passed before. Neither panics.
\<close>

theorem heal_undoes_partition:
  assumes doc: "documented_shell N sh view" "documented_verdict verdict src dst"
    and nodes: "a \<in> N" "b \<in> N" "a \<noteq> b" and up: "running (view w) a" "running (view w) b"
    and old: "\<forall>i. only_drops verdict (rules (view w) i)"
  shows "\<exists>w1 w2. partition_nodes sh a b w = Some w1 \<and> heal_partition sh a b w1 = Some w2 \<and>
    (\<forall>x y p. passes verdict policy (view w1) x y p \<longleftrightarrow> passes verdict policy (view w) x y p \<and>
       \<not> (x = a \<and> dst p = address (view w) b) \<and> \<not> (y = a \<and> src p = address (view w) b) \<and>
       \<not> (x = b \<and> dst p = address (view w) a) \<and> \<not> (y = b \<and> src p = address (view w) a)) \<and>
    (\<forall>i. mset (rules (view w2) i) = mset (rules (view w) i)) \<and>
    (\<forall>x y p. passes verdict policy (view w2) x y p = passes verdict policy (view w) x y p)"
proof -
  let ?a = "address (view w) a" and ?b = "address (view w) b" and ?r = "rules (view w)"
  obtain wa where wa: "ip_or_panic sh a w = Some (?a, wa)" "view wa = view w"
    by (rule documented_ip [OF doc(1) nodes(1) up(1)])
  obtain wb where wb: "ip_or_panic sh b wa = Some (?b, wb)" "view wb = view w"
    by (rule documented_ip [OF doc(1) nodes(2), of wa]) (simp_all add: wa up)
  obtain v where v: "iptables_rule sh a ''-A'' ?b wb = Some v"
    "view v = (view w)\<lparr>rules := ?r(a := ?r a @ [input_rule ?b, output_rule ?b])\<rparr>"
    by (rule documented_append [OF doc(1) nodes(1,2), of wb]) (simp_all add: wb up)
  obtain w1 where w1: "iptables_rule sh b ''-A'' ?a v = Some w1"
    "view w1 = (view w)\<lparr>rules := ?r(a := ?r a @ [input_rule ?b, output_rule ?b], b := ?r b @ [input_rule ?a, output_rule ?a])\<rparr>"
    by (rule documented_append [OF doc(1) nodes(2,1), of v]) (use nodes(3) in \<open>simp_all add: v(2) up\<close>)
  obtain ua where ua: "ip_or_panic sh a w1 = Some (?a, ua)" "view ua = view w1"
    by (rule documented_ip [OF doc(1) nodes(1), of w1]) (simp_all add: w1(2) up)
  obtain ub where ub: "ip_or_panic sh b ua = Some (?b, ub)" "view ub = view w1"
    by (rule documented_ip [OF doc(1) nodes(2), of ua]) (simp_all add: ua(2) w1(2) up)
  obtain u where u: "iptables_rule sh a ''-D'' ?b ub = Some u"
    "view u = (view w1)\<lparr>rules := (rules (view w1))
       (a := remove1 (output_rule ?b) (remove1 (input_rule ?b) (rules (view w1) a)))\<rparr>"
    by (rule documented_delete [OF doc(1) nodes(1,2), of ub])
      (use nodes(3) in \<open>simp_all add: ub(2) w1(2) up drop_rules_def\<close>)
  obtain w2 where w2: "iptables_rule sh b ''-D'' ?a u = Some w2"
    "view w2 = (view u)\<lparr>rules := (rules (view u))
       (b := remove1 (output_rule ?a) (remove1 (input_rule ?a) (rules (view u) b)))\<rparr>"
    by (rule documented_delete [OF doc(1) nodes(2,1), of u])
      (use nodes(3) in \<open>simp_all add: u(2) w1(2) up drop_rules_def\<close>)
  have "partition_nodes sh a b w = Some w1" using wa(1) wb(1) v(1) w1(1) by (simp add: partition_nodes_def)
  moreover have "heal_partition sh a b w1 = Some w2" using ua(1) ub(1) u(1) w2(1) by (simp add: heal_partition_def)
  moreover have same: "mset (rules (view w2) i) = mset (rules (view w) i)" for i
    using nodes(3) by (simp add: w2(2) u(2) w1(2))
  moreover have "passes verdict policy (view w2) x y p = passes verdict policy (view w) x y p" for x y p
    by (simp add: passes_def decide_chain_same_rules [OF old [THEN spec] same])
  moreover have "passes verdict policy (view w1) x y p \<longleftrightarrow> passes verdict policy (view w) x y p \<and>
      \<not> (x = a \<and> dst p = ?b) \<and> \<not> (y = a \<and> src p = ?b) \<and> \<not> (x = b \<and> dst p = ?a) \<and> \<not> (y = b \<and> src p = ?a)" for x y p
    using nodes(3) old by (auto simp: passes_def w1(2) decide_chain_added [OF _ doc(2)])
  ultimately show ?thesis by blast
qed

lemma two_shell_documented: "documented_shell {1, 2} two_shell two_view"
proof -
  have c: "container 1 = ''raft-node-1''" "container 2 = ''raft-node-2''" by code_simp+
  have t: "trim (two_ips 1 @ [CHR 0x0A]) = two_ips 1" "trim (two_ips 2 @ [CHR 0x0A]) = two_ips 2" "two_ips i \<noteq> []" for i
    by code_simp+ (simp add: two_ips_def)
  show ?thesis
    unfolding documented_shell_def
    by (auto simp: two_shell_def two_view_def inspect_ip_def iptables_def c t Let_def)
qed

lemma address_verdict_documented: "documented_verdict address_verdict fst snd"
  by (auto simp: documented_verdict_def address_verdict_def input_rule_def output_rule_def)

text \<open>Both nodes already drop what comes from a third address.\<close>

definition two_start :: two_world where
  "two_start = ((\<lambda>i. True), (\<lambda>i. [input_rule ''10.0.0.9'']))"

lemma two_start_facts:
  "running (two_view two_start) i" "address (two_view two_start) = two_ips"
  "only_drops address_verdict (rules (two_view two_start) i)"
  by (simp_all add: two_start_def two_view_def only_drops_def address_verdict_def)

theorem heal_undoes_partition_witness:
  "\<exists>w1 w2. partition_nodes two_shell 1 2 two_start = Some w1 \<and> heal_partition two_shell 1 2 w1 = Some w2 \<and>
    passes address_verdict True (two_view two_start) 1 2 (''10.0.0.1'', ''10.0.0.2'') \<and>
    \<not> passes address_verdict True (two_view w1) 1 2 (''10.0.0.1'', ''10.0.0.2'') \<and>
    \<not> passes address_verdict True (two_view w1) 2 1 (''10.0.0.2'', ''10.0.0.1'') \<and>
    passes address_verdict True (two_view w2) 1 2 (''10.0.0.1'', ''10.0.0.2'')"
proof -
  have start: "passes address_verdict True (two_view two_start) 1 2 (''10.0.0.1'', ''10.0.0.2'')" by code_simp
  moreover have "two_ips 1 = ''10.0.0.1''" "two_ips 2 = ''10.0.0.2''" by (simp_all add: two_ips_def)
  moreover obtain w1 w2 where part: "partition_nodes two_shell 1 2 two_start = Some w1" "heal_partition two_shell 1 2 w1 = Some w2"
    and "\<forall>x y p. passes address_verdict True (two_view w1) x y p \<longleftrightarrow> passes address_verdict True (two_view two_start) x y p \<and>
       \<not> (x = 1 \<and> snd p = two_ips 2) \<and> \<not> (y = 1 \<and> fst p = two_ips 2) \<and>
       \<not> (x = 2 \<and> snd p = two_ips 1) \<and> \<not> (y = 2 \<and> fst p = two_ips 1)"
    "\<forall>x y p. passes address_verdict True (two_view w2) x y p = passes address_verdict True (two_view two_start) x y p"
    using heal_undoes_partition [OF two_shell_documented address_verdict_documented, of 1 2 two_start True]
    by (auto simp: two_start_facts)
  ultimately have "\<not> passes address_verdict True (two_view w1) 1 2 (''10.0.0.1'', ''10.0.0.2'')"
    "\<not> passes address_verdict True (two_view w1) 2 1 (''10.0.0.2'', ''10.0.0.1'')"
    "passes address_verdict True (two_view w2) 1 2 (''10.0.0.1'', ''10.0.0.2'')" by simp_all
  with start part show ?thesis by blast
qed

text \<open>
  C37: the one-way partition is none. Its comment says that the node \<open>src\<close> cannot send to \<open>dst\<close> but that
  \<open>dst\<close> can still send to \<open>src\<close>; it adds a rule for the input of \<open>src\<close> as well. In running containers, over a
  shell and filters that do what is documented, where no rule of the node accepts a packet before, no
  packet passes in either direction. The test of an asymmetric partition tests a symmetric one.
\<close>

theorem one_way_partition_blocks_both:
  assumes doc: "documented_shell N sh view" "documented_verdict verdict src dst"
    and nodes: "s \<in> N" "d \<in> N" and up: "running (view w) s" "running (view w) d"
    and old: "only_drops verdict (rules (view w) s)"
  shows "\<exists>w'. partition_one_way sh s d w = Some w' \<and>
    (\<forall>p. dst p = address (view w) d \<longrightarrow> \<not> passes verdict policy (view w') s d p) \<and>
    (\<forall>p. src p = address (view w) d \<longrightarrow> \<not> passes verdict policy (view w') d s p)"
proof -
  obtain v where v: "ip_or_panic sh d w = Some (address (view w) d, v)" "view v = view w"
    by (rule documented_ip [OF doc(1) nodes(2) up(2)])
  obtain w' where "iptables_rule sh s ''-A'' (address (view w) d) v = Some w'"
    "rules (view w') s = rules (view w) s @ [input_rule (address (view w) d), output_rule (address (view w) d)]"
    by (rule documented_append [OF doc(1) nodes, of v]) (simp_all add: v(2) up)
  then show ?thesis
    using v(1) by (simp add: partition_one_way_def passes_def decide_chain_added [OF old doc(2)])
qed

theorem one_way_partition_blocks_both_witness:
  "\<exists>w'. partition_one_way two_shell 1 2 two_start = Some w' \<and>
    passes address_verdict True (two_view two_start) 2 1 (''10.0.0.2'', ''10.0.0.1'') \<and>
    \<not> passes address_verdict True (two_view w') 1 2 (''10.0.0.1'', ''10.0.0.2'') \<and>
    \<not> passes address_verdict True (two_view w') 2 1 (''10.0.0.2'', ''10.0.0.1'')"
proof -
  have "passes address_verdict True (two_view two_start) 2 1 (''10.0.0.2'', ''10.0.0.1'')" by code_simp
  then show ?thesis
    using one_way_partition_blocks_both [OF two_shell_documented address_verdict_documented, of 1 2 two_start True]
    by (auto simp: two_start_facts two_ips_def)
qed

end
