(* ===== verification/Test_Means.thy ===== *)
theory Test_Means
  imports Raft_Prelude Rust_Strings
begin

text \<open>
  What the theories \<open>*_Tests\<close> share. They hold the unit tests of the program, run on the model. A test is
  a value of \<open>unit option\<close>: \<open>None\<close> where the code would panic, in an operation, in an \<open>unwrap\<close> or in an
  assertion.
\<close>

definition ensure :: "bool \<Rightarrow> unit option" where
  "ensure b = (if b then Some () else None)"

text \<open>\<open>unwrap\<close>, on a result that must be an error, and \<open>str::contains\<close>.\<close>

definition must :: "('a, 'e) result \<Rightarrow> 'a option" where
  "must r = (case r of Ok x \<Rightarrow> Some x | Err _ \<Rightarrow> None)"

definition contains :: "string \<Rightarrow> string \<Rightarrow> bool" where
  "contains s t = list_ex (\<lambda>k. take (length t) (drop k s) = t) [0..<Suc (length s)]"

definition fails_with :: "string \<Rightarrow> ('a, string) result \<Rightarrow> bool" where
  "fails_with t r = (case r of Err e \<Rightarrow> contains e t | Ok _ \<Rightarrow> False)"

text \<open>An equation to evaluate the display of numbers with.\<close>

lemma digit_char_code [code]:
  "digit_char d =
     (if d = 0 then CHR ''0'' else if d = 1 then CHR ''1'' else if d = 2 then CHR ''2'' else if d = 3 then CHR ''3''
      else if d = 4 then CHR ''4'' else if d = 5 then CHR ''5'' else if d = 6 then CHR ''6'' else if d = 7 then CHR ''7''
      else if d = 8 then CHR ''8'' else if d = 9 then CHR ''9'' else char_of (48 + d))"
proof -
  have "map char_of [48..<58] = ''0123456789''" by code_simp
  then show ?thesis by (simp add: digit_char_def upt_rec)
qed

text \<open>A group of tests passes; each test is evaluated on its own.\<close>

definition all_pass :: "unit option list \<Rightarrow> bool" where
  "all_pass ts \<longleftrightarrow> list_all (\<lambda>t. t = Some ()) ts"

lemma all_pass_intros:
  "all_pass []"
  "t = Some () \<Longrightarrow> all_pass ts \<Longrightarrow> all_pass (t # ts)"
  by (simp_all add: all_pass_def)

lemma all_pass_append: "all_pass (ts @ us) \<longleftrightarrow> all_pass ts \<and> all_pass us"
  by (simp add: all_pass_def)

end
