(* ===== verification/Test_Cores.thy ===== *)
theory Test_Cores
  imports Scenarios Test_Means
begin

text \<open>
  What the tests of the core and of the nodes share: the cores they start from, over the in-memory storage,
  and the handlers on them.
\<close>

section \<open>Nodes with the recording state machine\<close>

definition new_test_core :: "u64 \<Rightarrow> u64 list \<Rightarrow> test_core option" where
  "new_test_core i ps = raft_core_new mem_ops test_ops 0 i ps mem_new tsm_new"

abbreviation push :: "log_entry list \<Rightarrow> ('s, 'm) raft_core \<Rightarrow> ('s, 'm) raft_core" where
  "push es c \<equiv> c\<lparr>rlog := rlog c @ es\<rparr>"

abbreviation leading :: "u64 \<Rightarrow> ('s, 'm) raft_core \<Rightarrow> ('s, 'm) raft_core" where
  "leading t c \<equiv> c\<lparr>current_term := t, role := Leader\<rparr>"

abbreviation vote_reply_of :: "u64 \<Rightarrow> bool \<Rightarrow> request_vote_result" where
  "vote_reply_of t ok \<equiv> \<lparr>rvr_term = t, vote_granted = ok\<rparr>"

abbreviation append_reply_of :: "u64 \<Rightarrow> bool \<Rightarrow> append_entries_result" where
  "append_reply_of t ok \<equiv> \<lparr>aer_term = t, aer_success = ok, conflict_term = None, conflict_index = None\<rparr>"

text \<open>The handlers over the in-memory storage, with the clock at 5.\<close>

abbreviation "elect \<equiv> start_election mem_ops 5"
abbreviation "lead \<equiv> become_leader mem_ops 5"
abbreviation "on_vote \<equiv> handle_request_vote mem_ops"
abbreviation "on_append \<equiv> handle_append_entries mem_ops test_ops 5"
abbreviation "vote_result \<equiv> handle_request_vote_result mem_ops 5"
abbreviation "append_result \<equiv> handle_append_entries_result mem_ops test_ops"
abbreviation "client \<equiv> append_log_entry mem_ops"
abbreviation "apply_now \<equiv> apply_committed_entries mem_ops test_ops"

abbreviation succeeded :: "handle_append_entries_output \<Rightarrow> bool" where
  "succeeded out \<equiv> aer_success (hae_result out)"

definition cmd :: "u64 \<Rightarrow> string" where
  "cmd i = ''CMD '' @ show_u64 i"

section \<open>Nodes with a key-value store, and snapshots\<close>

type_synonym kv_core = "(memory_storage, kv_store) raft_core"

definition kv_test_ops :: "kv_store sm_ops" where
  "kv_test_ops = kv_ops plain_map"

definition new_kv_core :: "u64 \<Rightarrow> u64 list \<Rightarrow> memory_storage \<Rightarrow> kv_core option" where
  "new_kv_core i ps s = raft_core_new mem_ops kv_test_ops 0 i ps s kv_new"

abbreviation "apply_kv \<equiv> apply_committed_entries mem_ops kv_test_ops"
abbreviation "install_kv \<equiv> handle_install_snapshot mem_ops kv_test_ops 5"
abbreviation "install \<equiv> handle_install_snapshot mem_ops test_ops 5"

text \<open>\<open>take_snapshot().unwrap()\<close>.\<close>

definition must_snapshot ::
  "'s storage_ops \<Rightarrow> 'm sm_ops \<Rightarrow> ('s, 'm) raft_core \<Rightarrow> ('s, 'm) raft_core option" where
  "must_snapshot S M c = (case take_snapshot S M c of (Ok _, c) \<Rightarrow> Some c | (Err _, _) \<Rightarrow> None)"

definition snapshot_refused :: "string \<Rightarrow> (unit, string) result \<times> ('s, 'm) raft_core \<Rightarrow> bool" where
  "snapshot_refused t r = fails_with t (fst r)"

definition set_cmd :: "u64 \<Rightarrow> string" where
  "set_cmd i = ''SET k'' @ show_u64 i @ '' v'' @ show_u64 i"

fun clients :: "'s storage_ops \<Rightarrow> string list \<Rightarrow> ('s, 'm) raft_core \<Rightarrow> ('s, 'm) raft_core option" where
  "clients S [] c = Some c"
| "clients S (x # xs) c = do { (_, c) \<leftarrow> append_log_entry S x c; clients S xs c }"

definition from_to :: "nat \<Rightarrow> nat \<Rightarrow> u64 list" where
  "from_to a b = map of_nat [a..<Suc b]"

definition snapshot_args :: "u64 \<Rightarrow> u64 \<Rightarrow> u64 \<Rightarrow> byte list \<Rightarrow> install_snapshot_args" where
  "snapshot_args t i it d =
     \<lparr>is_term = t, is_leader_id = 1, is_last_included_index = i, is_last_included_term = it, is_data = d\<rparr>"

end
