(* ===== verification/Core_Tests.thy ===== *)
theory Core_Tests
  imports Test_Cores
begin

text \<open>
  The unit tests of src/core/raft\_core.rs, run on the model: they read the definitions of
  \<open>Raft_Core\<close> against what the authors of the code expect of it.
\<close>

section \<open>Elections and votes\<close>

definition test_new_node :: "unit option" where
  "test_new_node = do {
     c \<leftarrow> new_test_core 1 [2, 3];
     ensure (node_id c = 1 \<and> current_term c = 0 \<and> role c = Follower \<and> rlog c = [])
   }"

definition test_election :: "unit option" where
  "test_election = do {
     c \<leftarrow> new_test_core 1 [2, 3];
     c \<leftarrow> elect c;
     ensure (role c = Candidate \<and> current_term c = 1 \<and> voted_for c = Some 1)
   }"

definition test_request_vote :: "unit option" where
  "test_request_vote = do {
     c \<leftarrow> new_test_core 1 [2, 3];
     (r, c) \<leftarrow> on_vote (vote_msg 1 2 0 0) c;
     ensure (vote_granted r \<and> voted_for c = Some 2)
   }"

definition test_append_entries :: "unit option" where
  "test_append_entries = do {
     c \<leftarrow> new_test_core 1 [2, 3];
     let before = last_heartbeat c;
     (out, c) \<leftarrow> on_append (append_msg 1 2 0 0 [entry 1 1 ''SET x=1''] 0) c;
     ensure (succeeded out \<and> hae_leader_id out = Some 2 \<and> length (rlog c) = 1 \<and> role c = Follower \<and>
       before \<le> last_heartbeat c)
   }"

definition test_append_entries_stale_term_no_reset :: "unit option" where
  "test_append_entries_stale_term_no_reset = do {
     c \<leftarrow> new_test_core 1 [2, 3];
     let c = c\<lparr>current_term := 2\<rparr>;
     let before = last_heartbeat c;
     (out, c) \<leftarrow> on_append (append_msg 1 2 0 0 [] 0) c;
     ensure (\<not> succeeded out \<and> hae_leader_id out = None \<and> last_heartbeat c = before)
   }"

definition test_heartbeat_resets_election_timeout :: "unit option" where
  "test_heartbeat_resets_election_timeout = do {
     c \<leftarrow> new_test_core 1 [2, 3];
     let before = last_heartbeat c;
     (out, c) \<leftarrow> on_append (append_msg 1 2 0 0 [] 0) c;
     ensure (succeeded out \<and> hae_leader_id out = Some 2 \<and> before \<le> last_heartbeat c)
   }"

definition test_vote_denied_candidate_has_lower_term :: "unit option" where
  "test_vote_denied_candidate_has_lower_term = do {
     c \<leftarrow> new_test_core 1 [2, 3];
     (r, c) \<leftarrow> on_vote (vote_msg 3 2 0 0) (c\<lparr>current_term := 5\<rparr>);
     ensure (\<not> vote_granted r \<and> rvr_term r = 5 \<and> voted_for c = None)
   }"

definition test_vote_denied_already_voted_for_another :: "unit option" where
  "test_vote_denied_already_voted_for_another = do {
     c \<leftarrow> new_test_core 1 [2, 3];
     (r, c) \<leftarrow> on_vote (vote_msg 1 3 0 0) (c\<lparr>current_term := 1, voted_for := Some 2\<rparr>);
     ensure (\<not> vote_granted r \<and> voted_for c = Some 2)
   }"

definition test_vote_granted_to_same_candidate_again :: "unit option" where
  "test_vote_granted_to_same_candidate_again = do {
     c \<leftarrow> new_test_core 1 [2, 3];
     (r, c) \<leftarrow> on_vote (vote_msg 1 2 0 0) (c\<lparr>current_term := 1, voted_for := Some 2\<rparr>);
     ensure (vote_granted r \<and> voted_for c = Some 2)
   }"

definition test_vote_denied_candidate_log_has_older_term :: "unit option" where
  "test_vote_denied_candidate_log_has_older_term = do {
     c \<leftarrow> new_test_core 1 [2, 3];
     (r, c) \<leftarrow> on_vote (vote_msg 4 2 1 2) (push [entry 3 1 ''SET x=1''] c);
     ensure (\<not> vote_granted r \<and> current_term c = 4)
   }"

definition test_vote_denied_candidate_log_is_shorter :: "unit option" where
  "test_vote_denied_candidate_log_is_shorter = do {
     c \<leftarrow> new_test_core 1 [2, 3];
     (r, c) \<leftarrow> on_vote (vote_msg 3 2 1 2) (push [entry 2 1 ''SET x=1'', entry 2 2 ''SET y=2''] c);
     ensure (\<not> vote_granted r)
   }"

definition test_vote_granted_candidate_log_has_higher_term :: "unit option" where
  "test_vote_granted_candidate_log_has_higher_term = do {
     c \<leftarrow> new_test_core 1 [2, 3];
     (r, c) \<leftarrow> on_vote (vote_msg 4 2 1 3) (push [entry 2 1 ''SET x=1''] c);
     ensure (vote_granted r \<and> voted_for c = Some 2)
   }"

definition test_leader_steps_down_on_higher_term_in_vote_response :: "unit option" where
  "test_leader_steps_down_on_higher_term_in_vote_response = do {
     c \<leftarrow> new_test_core 1 [2, 3];
     c \<leftarrow> process_request_vote_response mem_ops (vote_reply_of 5 False) (leading 1 c);
     ensure (role c = Follower \<and> current_term c = 5 \<and> voted_for c = None)
   }"

definition test_leader_steps_down_on_higher_term_in_append_response :: "unit option" where
  "test_leader_steps_down_on_higher_term_in_append_response = do {
     c \<leftarrow> new_test_core 1 [2, 3];
     c \<leftarrow> process_append_entries_response mem_ops (append_reply_of 5 False) (leading 1 c);
     ensure (role c = Follower \<and> current_term c = 5 \<and> voted_for c = None)
   }"

definition test_candidate_steps_down_on_append_entries_from_new_leader :: "unit option" where
  "test_candidate_steps_down_on_append_entries_from_new_leader = do {
     c \<leftarrow> new_test_core 1 [2, 3];
     c \<leftarrow> elect c;
     ensure (role c = Candidate);
     (out, c) \<leftarrow> on_append (append_msg 1 2 0 0 [] 0) c;
     ensure (succeeded out \<and> role c = Follower)
   }"

definition test_candidate_steps_down_on_higher_term_request_vote :: "unit option" where
  "test_candidate_steps_down_on_higher_term_request_vote = do {
     c \<leftarrow> new_test_core 1 [2, 3];
     c \<leftarrow> elect c;
     ensure (role c = Candidate \<and> voted_for c = Some 1);
     (r, c) \<leftarrow> on_vote (vote_msg 5 2 0 0) c;
     ensure (vote_granted r \<and> role c = Follower \<and> current_term c = 5 \<and> voted_for c = Some 2)
   }"

definition test_follower_updates_term_on_higher_term_request_vote :: "unit option" where
  "test_follower_updates_term_on_higher_term_request_vote = do {
     c \<leftarrow> new_test_core 1 [2, 3];
     (r, c) \<leftarrow> on_vote (vote_msg 5 2 0 0) (c\<lparr>current_term := 1\<rparr>);
     ensure (vote_granted r \<and> current_term c = 5 \<and> voted_for c = Some 2)
   }"

definition test_follower_updates_term_on_higher_term_append_entries :: "unit option" where
  "test_follower_updates_term_on_higher_term_append_entries = do {
     c \<leftarrow> new_test_core 1 [2, 3];
     (out, c) \<leftarrow> on_append (append_msg 5 2 0 0 [] 0) (c\<lparr>current_term := 1\<rparr>);
     ensure (succeeded out \<and> current_term c = 5 \<and> voted_for c = None)
   }"

definition test_election_needs_majority_in_5_node_cluster :: "unit option" where
  "test_election_needs_majority_in_5_node_cluster = do {
     c \<leftarrow> new_test_core 1 [2, 3, 4, 5];
     c \<leftarrow> elect c;
     ensure (role c = Candidate);
     (won, c) \<leftarrow> vote_result 2 (vote_reply_of 1 True) c;
     ensure (\<not> won \<and> role c = Candidate);
     (won, c) \<leftarrow> vote_result 3 (vote_reply_of 1 False) c;
     ensure (\<not> won \<and> role c = Candidate);
     (won, c) \<leftarrow> vote_result 4 (vote_reply_of 1 True) c;
     ensure (won \<and> role c = Leader)
   }"

definition test_election_lost_all_denied :: "unit option" where
  "test_election_lost_all_denied = do {
     c \<leftarrow> new_test_core 1 [2, 3];
     c \<leftarrow> elect c;
     (won, c) \<leftarrow> vote_result 2 (vote_reply_of 1 False) c;
     ensure (\<not> won);
     (won, c) \<leftarrow> vote_result 3 (vote_reply_of 1 False) c;
     ensure (\<not> won \<and> role c = Candidate)
   }"

definition vote_tests :: "unit option list" where
  "vote_tests =
     [test_new_node, test_election, test_request_vote, test_append_entries, test_append_entries_stale_term_no_reset,
      test_heartbeat_resets_election_timeout, test_vote_denied_candidate_has_lower_term,
      test_vote_denied_already_voted_for_another, test_vote_granted_to_same_candidate_again,
      test_vote_denied_candidate_log_has_older_term, test_vote_denied_candidate_log_is_shorter,
      test_vote_granted_candidate_log_has_higher_term, test_leader_steps_down_on_higher_term_in_vote_response,
      test_leader_steps_down_on_higher_term_in_append_response,
      test_candidate_steps_down_on_append_entries_from_new_leader,
      test_candidate_steps_down_on_higher_term_request_vote, test_follower_updates_term_on_higher_term_request_vote,
      test_follower_updates_term_on_higher_term_append_entries, test_election_needs_majority_in_5_node_cluster,
      test_election_lost_all_denied]"

lemma vote_tests_pass: "all_pass vote_tests"
  unfolding vote_tests_def by (intro all_pass_intros; code_simp)

section \<open>Log consistency and replication\<close>

definition test_append_entries_fails_prev_log_index_too_high :: "unit option" where
  "test_append_entries_fails_prev_log_index_too_high = do {
     c \<leftarrow> new_test_core 1 [2, 3];
     (out, c) \<leftarrow> on_append (append_msg 1 2 1 1 [entry 1 2 ''SET x=1''] 0) c;
     ensure (\<not> succeeded out \<and> rlog c = [])
   }"

definition test_append_entries_fails_prev_log_term_mismatch :: "unit option" where
  "test_append_entries_fails_prev_log_term_mismatch = do {
     c \<leftarrow> new_test_core 1 [2, 3];
     (out, c) \<leftarrow> on_append (append_msg 2 2 1 2 [entry 2 2 ''SET y=2''] 0) (push [entry 1 1 ''SET x=1''] c);
     ensure (\<not> succeeded out \<and> length (rlog c) = 1)
   }"

definition test_append_entries_truncates_conflicting_entries :: "unit option" where
  "test_append_entries_truncates_conflicting_entries = do {
     c \<leftarrow> new_test_core 1 [2, 3];
     (out, c) \<leftarrow> on_append (append_msg 2 2 1 1 [entry 2 2 ''SET y=NEW''] 0)
       (push [entry 1 1 ''SET x=1'', entry 1 2 ''SET y=OLD''] c);
     ensure (succeeded out \<and> length (rlog c) = 2 \<and> le_command (rlog c ! 1) = ''SET y=NEW'' \<and> le_term (rlog c ! 1) = 2)
   }"

definition test_append_entries_idempotent :: "unit option" where
  "test_append_entries_idempotent = do {
     c \<leftarrow> new_test_core 1 [2, 3];
     let args = append_msg 1 2 0 0 [entry 1 1 ''SET x=1''] 0;
     (out, c) \<leftarrow> on_append args c;
     ensure (succeeded out \<and> length (rlog c) = 1);
     (out, c) \<leftarrow> on_append args c;
     ensure (succeeded out \<and> length (rlog c) = 1 \<and> le_command (rlog c ! 0) = ''SET x=1'')
   }"

definition test_commit_index_advances_on_append_entries :: "unit option" where
  "test_commit_index_advances_on_append_entries = do {
     c \<leftarrow> new_test_core 1 [2, 3];
     (out, c) \<leftarrow> on_append (append_msg 1 2 0 0 [entry 1 1 ''SET x=1''] 1) c;
     ensure (succeeded out \<and> commit_index c = 1 \<and> last_applied c = 1)
   }"

definition test_commit_index_limited_by_log_length :: "unit option" where
  "test_commit_index_limited_by_log_length = do {
     c \<leftarrow> new_test_core 1 [2, 3];
     (out, c) \<leftarrow> on_append (append_msg 1 2 0 0 [entry 1 1 ''SET x=1''] 5) c;
     ensure (succeeded out \<and> commit_index c = 1)
   }"

definition test_next_index_decrements_on_failed_append :: "unit option" where
  "test_next_index_decrements_on_failed_append = do {
     c \<leftarrow> new_test_core 1 [2, 3];
     let c = leading 1 c;
     (_, c) \<leftarrow> append_result 2 5 (append_reply_of 1 False) (c\<lparr>next_index := hm_insert 2 5 (next_index c)\<rparr>);
     ensure (hm_get (next_index c) 2 = Some 4)
   }"

definition test_next_index_does_not_go_below_1 :: "unit option" where
  "test_next_index_does_not_go_below_1 = do {
     c \<leftarrow> new_test_core 1 [2, 3];
     let c = leading 1 c;
     (_, c) \<leftarrow> append_result 2 1 (append_reply_of 1 False) (c\<lparr>next_index := hm_insert 2 1 (next_index c)\<rparr>);
     ensure (hm_get (next_index c) 2 = Some 1)
   }"

definition test_match_index_updates_on_successful_append :: "unit option" where
  "test_match_index_updates_on_successful_append = do {
     c \<leftarrow> new_test_core 1 [2, 3];
     let c = push [entry 1 1 ''SET x=1''] (leading 1 c);
     let c = c\<lparr>next_index := hm_insert 2 1 (next_index c), match_index := hm_insert 2 0 (match_index c)\<rparr>;
     (_, c) \<leftarrow> append_result 2 1 (append_reply_of 1 True) c;
     ensure (hm_get (match_index c) 2 = Some 1 \<and> hm_get (next_index c) 2 = Some 2)
   }"

definition test_match_index_does_not_decrease :: "unit option" where
  "test_match_index_does_not_decrease = do {
     c \<leftarrow> new_test_core 1 [2, 3];
     let c = leading 1 c;
     (_, c) \<leftarrow> append_result 2 3 (append_reply_of 1 True) (c\<lparr>match_index := hm_insert 2 5 (match_index c)\<rparr>);
     ensure (hm_get (match_index c) 2 = Some 5)
   }"

definition test_entry_not_committed_without_majority :: "unit option" where
  "test_entry_not_committed_without_majority = do {
     c \<leftarrow> new_test_core 1 [2, 3, 4, 5];
     ((committed, _), c) \<leftarrow> append_result 2 1 (append_reply_of 1 True) (push [entry 1 1 ''SET x=1''] (leading 1 c));
     ensure (committed = None \<and> commit_index c = 0)
   }"

definition test_entry_committed_with_majority :: "unit option" where
  "test_entry_committed_with_majority = do {
     c \<leftarrow> new_test_core 1 [2, 3, 4, 5];
     ((committed, _), c) \<leftarrow> append_result 2 1 (append_reply_of 1 True) (push [entry 1 1 ''SET x=1''] (leading 1 c));
     ensure (committed = None);
     ((committed, _), c) \<leftarrow> append_result 3 1 (append_reply_of 1 True) c;
     ensure (committed = Some 1 \<and> commit_index c = 1)
   }"

definition test_commit_multiple_entries_at_once :: "unit option" where
  "test_commit_multiple_entries_at_once = do {
     c \<leftarrow> new_test_core 1 [2, 3];
     let c = push (map (\<lambda>i. entry 1 i (cmd i)) (from_to 1 3)) (leading 1 c);
     ((committed, _), c) \<leftarrow> append_result 2 3 (append_reply_of 1 True) c;
     ensure (committed = Some 3 \<and> commit_index c = 3 \<and> last_applied c = 3)
   }"

definition test_leader_loses_leadership_on_higher_term_response :: "unit option" where
  "test_leader_loses_leadership_on_higher_term_response = do {
     c \<leftarrow> new_test_core 1 [2, 3];
     ((committed, _), c) \<leftarrow> append_result 2 1 (append_reply_of 5 False) (push [entry 1 1 ''SET x=1''] (leading 1 c));
     ensure (committed = None \<and> role c = Follower \<and> current_term c = 5 \<and> commit_index c = 0)
   }"

definition test_become_leader_initializes_next_index :: "unit option" where
  "test_become_leader_initializes_next_index = do {
     c \<leftarrow> new_test_core 1 [2, 3];
     let c = push [entry 1 1 ''SET x=1'', entry 1 2 ''SET y=2''] c;
     c \<leftarrow> lead (c\<lparr>current_term := 2\<rparr>);
     ensure (hm_get (next_index c) 2 = Some 3 \<and> hm_get (next_index c) 3 = Some 3 \<and>
       hm_get (match_index c) 2 = Some 0 \<and> hm_get (match_index c) 3 = Some 0)
   }"

definition test_leader_cannot_commit_previous_term_entries_directly :: "unit option" where
  "test_leader_cannot_commit_previous_term_entries_directly = do {
     c \<leftarrow> new_test_core 1 [2, 3];
     c \<leftarrow> lead (leading 2 (push [entry 1 1 ''SET x=1''] c));
     ((committed, _), c) \<leftarrow> append_result 2 1 (append_reply_of 2 True) c;
     ensure (committed = None \<and> commit_index c = 0)
   }"

definition test_previous_term_entries_committed_indirectly :: "unit option" where
  "test_previous_term_entries_committed_indirectly = do {
     c \<leftarrow> new_test_core 1 [2, 3];
     c \<leftarrow> lead (leading 2 (push [entry 1 1 ''SET x=1'', entry 2 2 ''SET y=2''] c));
     ((committed, _), c) \<leftarrow> append_result 2 2 (append_reply_of 2 True) c;
     ensure (committed = Some 2 \<and> commit_index c = 2 \<and> last_applied c = 2)
   }"

definition test_follower_catches_up_multiple_entries :: "unit option" where
  "test_follower_catches_up_multiple_entries = do {
     c \<leftarrow> new_test_core 1 [2, 3];
     (out, c) \<leftarrow> on_append (append_msg 1 2 0 0 [entry 1 1 ''CMD 1'', entry 1 2 ''CMD 2'', entry 1 3 ''CMD 3''] 2) c;
     ensure (succeeded out \<and> length (rlog c) = 3 \<and> commit_index c = 2 \<and> last_applied c = 2)
   }"

definition test_follower_catches_up_incrementally :: "unit option" where
  "test_follower_catches_up_incrementally = do {
     c \<leftarrow> new_test_core 1 [2, 3];
     (_, c) \<leftarrow> on_append (append_msg 1 2 0 0 [entry 1 1 ''CMD 1'', entry 1 2 ''CMD 2''] 1) c;
     ensure (length (rlog c) = 2 \<and> commit_index c = 1);
     (out, c) \<leftarrow> on_append (append_msg 1 2 2 1 [entry 1 3 ''CMD 3'', entry 1 4 ''CMD 4''] 3) c;
     ensure (succeeded out \<and> length (rlog c) = 4 \<and> commit_index c = 3)
   }"

definition replication_tests :: "unit option list" where
  "replication_tests =
     [test_append_entries_fails_prev_log_index_too_high, test_append_entries_fails_prev_log_term_mismatch,
      test_append_entries_truncates_conflicting_entries, test_append_entries_idempotent,
      test_commit_index_advances_on_append_entries, test_commit_index_limited_by_log_length,
      test_next_index_decrements_on_failed_append, test_next_index_does_not_go_below_1,
      test_match_index_updates_on_successful_append, test_match_index_does_not_decrease,
      test_entry_not_committed_without_majority, test_entry_committed_with_majority,
      test_commit_multiple_entries_at_once, test_leader_loses_leadership_on_higher_term_response,
      test_become_leader_initializes_next_index, test_leader_cannot_commit_previous_term_entries_directly,
      test_previous_term_entries_committed_indirectly, test_follower_catches_up_multiple_entries,
      test_follower_catches_up_incrementally]"

lemma replication_tests_pass: "all_pass replication_tests"
  unfolding replication_tests_def by (intro all_pass_intros; code_simp)

section \<open>Longer scenarios\<close>

definition test_multiple_elections_term_increases :: "unit option" where
  "test_multiple_elections_term_increases = do {
     c \<leftarrow> new_test_core 1 [2, 3];
     c \<leftarrow> elect c;
     ensure (current_term c = 1 \<and> role c = Candidate);
     c \<leftarrow> elect c;
     ensure (current_term c = 2 \<and> role c = Candidate \<and> voted_for c = Some 1);
     c \<leftarrow> elect c;
     ensure (current_term c = 3)
   }"

definition test_duplicate_vote_from_same_peer_ignored :: "unit option" where
  "test_duplicate_vote_from_same_peer_ignored = do {
     c \<leftarrow> new_test_core 1 [2, 3, 4, 5];
     c \<leftarrow> elect c;
     (won, c) \<leftarrow> vote_result 2 (vote_reply_of 1 True) c;
     ensure (\<not> won);
     (won, c) \<leftarrow> vote_result 2 (vote_reply_of 1 True) c;
     ensure (\<not> won);
     (won, c) \<leftarrow> vote_result 3 (vote_reply_of 1 True) c;
     ensure won
   }"

definition test_single_node_cluster_immediate_leader :: "unit option" where
  "test_single_node_cluster_immediate_leader = do {
     c \<leftarrow> new_test_core 1 [];
     c \<leftarrow> elect c;
     let total_nodes = 1 + length (peers c);
     let majority = total_nodes div 2 + 1;
     ensure (majority = 1 \<and> majority \<le> length (votes_received c));
     c \<leftarrow> lead c;
     ensure (role c = Leader)
   }"

definition test_two_node_cluster_needs_both_votes :: "unit option" where
  "test_two_node_cluster_needs_both_votes = do {
     c \<leftarrow> new_test_core 1 [2];
     c \<leftarrow> elect c;
     (won, c) \<leftarrow> vote_result 2 (vote_reply_of 1 False) c;
     ensure (\<not> won \<and> role c = Candidate)
   }"

definition test_two_node_cluster_becomes_leader_with_peer_vote :: "unit option" where
  "test_two_node_cluster_becomes_leader_with_peer_vote = do {
     c \<leftarrow> new_test_core 1 [2];
     c \<leftarrow> elect c;
     (won, c) \<leftarrow> vote_result 2 (vote_reply_of 1 True) c;
     ensure (won \<and> role c = Leader)
   }"

definition test_four_node_cluster_majority :: "unit option" where
  "test_four_node_cluster_majority = do {
     c \<leftarrow> new_test_core 1 [2, 3, 4];
     c \<leftarrow> elect c;
     (won, c) \<leftarrow> vote_result 2 (vote_reply_of 1 True) c;
     ensure (\<not> won);
     (won, c) \<leftarrow> vote_result 3 (vote_reply_of 1 True) c;
     ensure (won \<and> role c = Leader)
   }"

definition test_follower_with_extra_uncommitted_entries_gets_truncated :: "unit option" where
  "test_follower_with_extra_uncommitted_entries_gets_truncated = do {
     c \<leftarrow> new_test_core 1 [2, 3];
     let c = (push [entry 1 1 ''OLD 1'', entry 1 2 ''OLD 2'', entry 1 3 ''OLD 3''] c)\<lparr>current_term := 1\<rparr>;
     (out, c) \<leftarrow> on_append (append_msg 2 2 1 1 [entry 2 2 ''NEW 2''] 0) c;
     ensure (succeeded out \<and> length (rlog c) = 2 \<and> le_term (rlog c ! 1) = 2 \<and> le_command (rlog c ! 1) = ''NEW 2'' \<and>
       current_term c = 2)
   }"

definition test_follower_with_gap_rejects_append :: "unit option" where
  "test_follower_with_gap_rejects_append = do {
     c \<leftarrow> new_test_core 1 [2, 3];
     (out, c) \<leftarrow> on_append (append_msg 1 2 4 1 [entry 1 5 ''CMD 5''] 0) (push [entry 1 1 ''CMD 1''] c);
     ensure (\<not> succeeded out \<and> length (rlog c) = 1)
   }"

definition test_ignore_stale_vote_response_from_old_term :: "unit option" where
  "test_ignore_stale_vote_response_from_old_term = do {
     c \<leftarrow> new_test_core 1 [2, 3];
     c \<leftarrow> elect c;
     ensure (current_term c = 1);
     (won, c) \<leftarrow> vote_result 2 (vote_reply_of 1 True) (c\<lparr>current_term := 3, role := Follower, voted_for := None\<rparr>);
     ensure (\<not> won \<and> role c = Follower)
   }"

definition test_stale_append_response_does_not_affect_commit :: "unit option" where
  "test_stale_append_response_does_not_affect_commit = do {
     c \<leftarrow> new_test_core 1 [2, 3];
     (_, c) \<leftarrow> append_result 2 1 (append_reply_of 3 True) (push [entry 5 1 ''CMD 1''] (leading 5 c));
     ensure (hm_get (match_index c) 2 = Some 1)
   }"

definition test_leader_appends_multiple_entries_sequentially :: "unit option" where
  "test_leader_appends_multiple_entries_sequentially = do {
     c \<leftarrow> new_test_core 1 [2, 3];
     c \<leftarrow> lead (leading 1 c);
     (e, c) \<leftarrow> client ''CMD 1'' c;
     ensure (map_option le_index e = Some 2);
     (e, c) \<leftarrow> client ''CMD 2'' c;
     ensure (map_option le_index e = Some 3);
     (e, c) \<leftarrow> client ''CMD 3'' c;
     ensure (map_option le_index e = Some 4 \<and> length (rlog c) = 4 \<and> le_command (rlog c ! 0) = NOOP_COMMAND \<and>
       le_command (rlog c ! 1) = ''CMD 1'' \<and> le_command (rlog c ! 3) = ''CMD 3'')
   }"

definition test_non_leader_cannot_append_entries :: "unit option" where
  "test_non_leader_cannot_append_entries = do {
     follower \<leftarrow> new_test_core 1 [2, 3];
     (e, _) \<leftarrow> client ''CMD'' (follower\<lparr>role := Follower\<rparr>);
     ensure (e = None);
     candidate \<leftarrow> new_test_core 2 [1, 3];
     candidate \<leftarrow> elect candidate;
     (e, _) \<leftarrow> client ''CMD'' candidate;
     ensure (e = None)
   }"

definition test_leader_entry_has_current_term :: "unit option" where
  "test_leader_entry_has_current_term = do {
     c \<leftarrow> new_test_core 1 [2, 3];
     (e, _) \<leftarrow> client ''CMD'' (leading 7 c);
     ensure (map_option le_term e = Some 7)
   }"

definition test_vote_request_resets_voted_for_on_new_term :: "unit option" where
  "test_vote_request_resets_voted_for_on_new_term = do {
     c \<leftarrow> new_test_core 1 [2, 3];
     (r, c) \<leftarrow> on_vote (vote_msg 5 3 0 0) (c\<lparr>current_term := 1, voted_for := Some 2\<rparr>);
     ensure (vote_granted r \<and> voted_for c = Some 3 \<and> current_term c = 5)
   }"

definition test_empty_append_entries_still_updates_commit_index :: "unit option" where
  "test_empty_append_entries_still_updates_commit_index = do {
     c \<leftarrow> new_test_core 1 [2, 3];
     let c = (push [entry 1 1 ''CMD 1'', entry 1 2 ''CMD 2''] c)\<lparr>commit_index := 0\<rparr>;
     (out, c) \<leftarrow> on_append (append_msg 1 2 2 1 [] 2) c;
     ensure (succeeded out \<and> commit_index c = 2 \<and> last_applied c = 2)
   }"

definition test_append_entries_with_entries_already_present :: "unit option" where
  "test_append_entries_with_entries_already_present = do {
     c \<leftarrow> new_test_core 1 [2, 3];
     let c = push [entry 1 1 ''CMD 1'', entry 1 2 ''CMD 2'', entry 1 3 ''CMD 3''] c;
     (out, c) \<leftarrow> on_append (append_msg 1 2 1 1 [entry 1 2 ''CMD 2'', entry 1 3 ''CMD 3''] 0) c;
     ensure (succeeded out \<and> length (rlog c) = 3)
   }"

definition test_candidate_resets_votes_on_new_election :: "unit option" where
  "test_candidate_resets_votes_on_new_election = do {
     c \<leftarrow> new_test_core 1 [2, 3, 4, 5];
     c \<leftarrow> elect c;
     (_, c) \<leftarrow> vote_result 2 (vote_reply_of 1 True) c;
     c \<leftarrow> elect c;
     (won, c) \<leftarrow> vote_result 3 (vote_reply_of 2 True) c;
     ensure (\<not> won);
     (won, c) \<leftarrow> vote_result 4 (vote_reply_of 2 True) c;
     ensure won
   }"

definition scenario_tests :: "unit option list" where
  "scenario_tests =
     [test_multiple_elections_term_increases, test_duplicate_vote_from_same_peer_ignored,
      test_single_node_cluster_immediate_leader, test_two_node_cluster_needs_both_votes,
      test_two_node_cluster_becomes_leader_with_peer_vote, test_four_node_cluster_majority,
      test_follower_with_extra_uncommitted_entries_gets_truncated, test_follower_with_gap_rejects_append,
      test_ignore_stale_vote_response_from_old_term, test_stale_append_response_does_not_affect_commit,
      test_leader_appends_multiple_entries_sequentially, test_non_leader_cannot_append_entries,
      test_leader_entry_has_current_term, test_vote_request_resets_voted_for_on_new_term,
      test_empty_append_entries_still_updates_commit_index, test_append_entries_with_entries_already_present,
      test_candidate_resets_votes_on_new_election]"

lemma scenario_tests_pass: "all_pass scenario_tests"
  unfolding scenario_tests_def by (intro all_pass_intros; code_simp)

section \<open>Restarts\<close>

abbreviation restarted :: "memory_storage \<Rightarrow> test_core option" where
  "restarted s \<equiv> raft_core_new mem_ops test_ops 0 1 [2, 3] s tsm_new"

definition test_node_restarts_with_saved_term :: "unit option" where
  "test_node_restarts_with_saved_term = do {
     s \<leftarrow> expect (mem_save_term mem_new 5);
     c \<leftarrow> restarted s;
     ensure (current_term c = 5 \<and> role c = Follower)
   }"

definition test_node_restarts_with_saved_voted_for :: "unit option" where
  "test_node_restarts_with_saved_voted_for = do {
     s \<leftarrow> expect (mem_save_term mem_new 3);
     s \<leftarrow> expect (mem_save_voted_for s (Some 2));
     c \<leftarrow> restarted s;
     ensure (current_term c = 3 \<and> voted_for c = Some 2)
   }"

definition test_node_restarts_with_saved_log :: "unit option" where
  "test_node_restarts_with_saved_log = do {
     s \<leftarrow> expect (mem_save_term mem_new 2);
     s \<leftarrow> expect (mem_append_log_entries s [entry 1 1 ''CMD 1'', entry 2 2 ''CMD 2'']);
     c \<leftarrow> restarted s;
     ensure (length (rlog c) = 2 \<and> le_command (rlog c ! 0) = ''CMD 1'' \<and> le_command (rlog c ! 1) = ''CMD 2'' \<and>
       last_log_index c = 2 \<and> last_log_term c = 2)
   }"

definition test_node_restarts_with_full_state :: "unit option" where
  "test_node_restarts_with_full_state = do {
     s \<leftarrow> expect (mem_save_term mem_new 5);
     s \<leftarrow> expect (mem_save_voted_for s (Some 1));
     s \<leftarrow> expect (mem_append_log_entries s [entry 3 1 ''SET x=1'', entry 4 2 ''SET y=2'', entry 5 3 ''SET z=3'']);
     c \<leftarrow> restarted s;
     ensure (current_term c = 5 \<and> voted_for c = Some 1 \<and> length (rlog c) = 3 \<and>
       commit_index c = 0 \<and> last_applied c = 0 \<and> role c = Follower)
   }"

definition test_restarted_node_can_continue_election :: "unit option" where
  "test_restarted_node_can_continue_election = do {
     s \<leftarrow> expect (mem_save_term mem_new 3);
     s \<leftarrow> expect (mem_save_voted_for s (Some 2));
     c \<leftarrow> restarted s;
     (r, c) \<leftarrow> on_vote (vote_msg 3 3 0 0) c;
     ensure (\<not> vote_granted r);
     (r, c) \<leftarrow> on_vote (vote_msg 3 2 0 0) c;
     ensure (vote_granted r)
   }"

definition test_restarted_node_accepts_append_entries :: "unit option" where
  "test_restarted_node_accepts_append_entries = do {
     s \<leftarrow> expect (mem_save_term mem_new 2);
     s \<leftarrow> expect (mem_append_log_entries s [entry 1 1 ''CMD 1'', entry 2 2 ''CMD 2'']);
     c \<leftarrow> restarted s;
     (out, c) \<leftarrow> on_append (append_msg 2 2 2 2 [entry 2 3 ''CMD 3''] 2) c;
     ensure (succeeded out \<and> length (rlog c) = 3 \<and> commit_index c = 2)
   }"

definition test_restarted_leader_must_reestablish :: "unit option" where
  "test_restarted_leader_must_reestablish = do {
     s \<leftarrow> expect (mem_save_term mem_new 5);
     s \<leftarrow> expect (mem_save_voted_for s (Some 1));
     s \<leftarrow> expect (mem_append_log_entries s [entry 5 1 ''CMD 1'']);
     c \<leftarrow> restarted s;
     ensure (role c = Follower \<and> next_index c = [] \<and> match_index c = [])
   }"

definition test_state_persists_across_operations :: "unit option" where
  "test_state_persists_across_operations = do {
     c \<leftarrow> restarted mem_new;
     c \<leftarrow> elect c;
     c \<leftarrow> lead c;
     (_, c) \<leftarrow> client ''SET x=1'' c;
     ensure (current_term c = 1 \<and> voted_for c = Some 1 \<and> length (rlog c) = 2 \<and>
       le_command (rlog c ! 0) = NOOP_COMMAND \<and> le_command (rlog c ! 1) = ''SET x=1'')
   }"

section \<open>The state machine\<close>

definition test_apply_committed_entries_updates_last_applied :: "unit option" where
  "test_apply_committed_entries_updates_last_applied = do {
     c \<leftarrow> new_test_core 1 [2, 3];
     c \<leftarrow> lead c;
     (_, c) \<leftarrow> client ''CMD 1'' c;
     (_, c) \<leftarrow> client ''CMD 2'' c;
     (_, c) \<leftarrow> client ''CMD 3'' c;
     ensure (last_applied c = 0 \<and> commit_index c = 0);
     (_, c) \<leftarrow> apply_now (c\<lparr>commit_index := 2\<rparr>);
     ensure (last_applied c = 2);
     (_, c) \<leftarrow> apply_now (c\<lparr>commit_index := 3\<rparr>);
     ensure (last_applied c = 3)
   }"

definition test_apply_committed_entries_does_nothing_when_up_to_date :: "unit option" where
  "test_apply_committed_entries_does_nothing_when_up_to_date = do {
     c \<leftarrow> new_test_core 1 [2, 3];
     c \<leftarrow> lead c;
     (_, c) \<leftarrow> client ''CMD 1'' c;
     (_, c) \<leftarrow> apply_now (c\<lparr>commit_index := 1\<rparr>);
     ensure (last_applied c = 1);
     (_, c) \<leftarrow> apply_now c;
     ensure (last_applied c = 1)
   }"

definition test_entries_applied_to_state_machine :: "unit option" where
  "test_entries_applied_to_state_machine = do {
     c \<leftarrow> raft_core_new mem_ops test_ops 0 1 [2, 3] mem_new (tsm_new_shared []);
     c \<leftarrow> lead c;
     (_, c) \<leftarrow> client ''SET x=1'' c;
     (_, c) \<leftarrow> client ''SET y=2'' c;
     (_, c) \<leftarrow> client ''SET z=3'' c;
     ensure (applied (state_machine c) = []);
     (_, c) \<leftarrow> apply_now (c\<lparr>commit_index := 2\<rparr>);
     ensure (applied (state_machine c) = [NOOP_COMMAND, ''SET x=1'']);
     (_, c) \<leftarrow> apply_now (c\<lparr>commit_index := 4\<rparr>);
     ensure (length (applied (state_machine c)) = 4 \<and> applied (state_machine c) ! 2 = ''SET y=2'' \<and>
       applied (state_machine c) ! 3 = ''SET z=3'')
   }"

definition restart_tests :: "unit option list" where
  "restart_tests =
     [test_node_restarts_with_saved_term, test_node_restarts_with_saved_voted_for, test_node_restarts_with_saved_log,
      test_node_restarts_with_full_state, test_restarted_node_can_continue_election,
      test_restarted_node_accepts_append_entries, test_restarted_leader_must_reestablish,
      test_state_persists_across_operations, test_apply_committed_entries_updates_last_applied,
      test_apply_committed_entries_does_nothing_when_up_to_date, test_entries_applied_to_state_machine]"

lemma restart_tests_pass: "all_pass restart_tests"
  unfolding restart_tests_def by (intro all_pass_intros; code_simp)

end
