(* ===== verification/Snapshot_Tests.thy ===== *)
theory Snapshot_Tests
  imports Test_Cores
begin

text \<open>
  The unit tests of src/core/raft\_core.rs about snapshots and about the conflict hints of a rejected
  AppendEntries.
\<close>

section \<open>Snapshots\<close>

definition test_take_snapshot_basic :: "unit option" where
  "test_take_snapshot_basic = do {
     c \<leftarrow> new_kv_core 1 [2, 3] mem_new;
     c \<leftarrow> lead c;
     c \<leftarrow> clients mem_ops [''SET x 1'', ''SET y 2'', ''SET z 3''] c;
     (_, c) \<leftarrow> apply_kv (c\<lparr>commit_index := 3\<rparr>);
     ensure (last_applied c = 3 \<and> length (rlog c) = 4);
     c \<leftarrow> must_snapshot mem_ops kv_test_ops c;
     ensure (snapshot_last_index c = 3 \<and> snapshot_last_term c = 0 \<and> length (rlog c) = 1 \<and>
       le_index (rlog c ! 0) = 4 \<and> last_log_index c = 4)
   }"

definition test_take_snapshot_no_entries_applied :: "unit option" where
  "test_take_snapshot_no_entries_applied = do {
     c \<leftarrow> new_test_core 1 [2, 3];
     c \<leftarrow> lead c;
     c \<leftarrow> clients mem_ops [''SET x=1''] c;
     ensure (snapshot_refused ''No entries applied'' (take_snapshot mem_ops test_ops c))
   }"

definition test_take_snapshot_already_snapshotted :: "unit option" where
  "test_take_snapshot_already_snapshotted = do {
     c \<leftarrow> new_test_core 1 [2, 3];
     c \<leftarrow> lead c;
     c \<leftarrow> clients mem_ops [''SET x=1''] c;
     (_, c) \<leftarrow> apply_now (c\<lparr>commit_index := 2\<rparr>);
     c \<leftarrow> must_snapshot mem_ops test_ops c;
     ensure (snapshot_last_index c = 2 \<and> snapshot_refused ''Already have snapshot'' (take_snapshot mem_ops test_ops c))
   }"

definition test_snapshot_restores_state_machine_on_startup :: "unit option" where
  "test_snapshot_restores_state_machine_on_startup = do {
     c \<leftarrow> new_kv_core 1 [2, 3] mem_new;
     c \<leftarrow> lead c;
     c \<leftarrow> clients mem_ops [''SET key1 value1'', ''SET key2 value2''] c;
     (_, c) \<leftarrow> apply_kv (c\<lparr>commit_index := 3\<rparr>);
     c \<leftarrow> must_snapshot mem_ops kv_test_ops c;
     found \<leftarrow> expect (mem_load_snapshot (storage c));
     sn \<leftarrow> found;
     s \<leftarrow> expect (mem_save_snapshot mem_new sn);
     d \<leftarrow> new_kv_core 2 [1, 3] s;
     ensure (snapshot_last_index d = 3 \<and> snapshot_last_term d = 0 \<and> commit_index d = 3 \<and> last_applied d = 3 \<and>
       kv_get (state_machine d) ''key1'' = Some ''value1'' \<and> kv_get (state_machine d) ''key2'' = Some ''value2'')
   }"

definition test_apply_entries_after_snapshot_restoration :: "unit option" where
  "test_apply_entries_after_snapshot_restoration = do {
     c \<leftarrow> new_kv_core 1 [2, 3] mem_new;
     c \<leftarrow> lead c;
     c \<leftarrow> clients mem_ops [''SET old data''] c;
     (_, c) \<leftarrow> apply_kv (c\<lparr>commit_index := 2\<rparr>);
     c \<leftarrow> must_snapshot mem_ops kv_test_ops c;
     found \<leftarrow> expect (mem_load_snapshot (storage c));
     sn \<leftarrow> found;
     s \<leftarrow> expect (mem_save_snapshot mem_new sn);
     d \<leftarrow> new_kv_core 1 [2, 3] s;
     ensure (last_applied d = 2);
     d \<leftarrow> clients mem_ops [''SET new entry''] (d\<lparr>role := Leader, current_leader := Some (node_id d)\<rparr>);
     (_, d) \<leftarrow> apply_kv (d\<lparr>commit_index := 3\<rparr>);
     ensure (last_applied d = 3 \<and> kv_get (state_machine d) ''old'' = Some ''data'' \<and>
       kv_get (state_machine d) ''new'' = Some ''entry'')
   }"

definition test_last_log_index_with_snapshot :: "unit option" where
  "test_last_log_index_with_snapshot = do {
     c \<leftarrow> new_test_core 1 [2, 3];
     ensure (last_log_index c = 0 \<and> last_log_term c = 0);
     c \<leftarrow> lead c;
     (_, c) \<leftarrow> apply_now (c\<lparr>commit_index := 1\<rparr>);
     c \<leftarrow> must_snapshot mem_ops test_ops c;
     ensure (rlog c = [] \<and> last_log_index c = 1 \<and> last_log_term c = 0);
     c \<leftarrow> clients mem_ops [''CMD''] c;
     ensure (last_log_index c = 2)
   }"

definition test_get_log_entry_with_snapshot :: "unit option" where
  "test_get_log_entry_with_snapshot = do {
     c \<leftarrow> new_test_core 1 [2, 3];
     c \<leftarrow> lead c;
     c \<leftarrow> clients mem_ops [''CMD2'', ''CMD3'', ''CMD4''] c;
     (_, c) \<leftarrow> apply_now (c\<lparr>commit_index := 2\<rparr>);
     c \<leftarrow> must_snapshot mem_ops test_ops c;
     ensure (get_log_entry c 1 = None \<and> get_log_entry c 2 = None \<and>
       map_option le_command (get_log_entry c 3) = Some ''CMD3'' \<and>
       map_option le_command (get_log_entry c 4) = Some ''CMD4'' \<and> get_log_entry c 5 = None)
   }"

definition test_handle_install_snapshot_success :: "unit option" where
  "test_handle_install_snapshot_success = do {
     c \<leftarrow> new_kv_core 2 [1, 3] mem_new;
     let (m, r) = kv_apply kv_new ''SET key1 value1'';
     _ \<leftarrow> expect r;
     let (m, r) = kv_apply m ''SET key2 value2'';
     _ \<leftarrow> expect r;
     d \<leftarrow> expect (kv_snapshot plain_map m);
     (res, c) \<leftarrow> install_kv (snapshot_args 5 10 4 d) c;
     ensure (res = IS_Success 5 \<and> snapshot_last_index c = 10 \<and> snapshot_last_term c = 4 \<and> commit_index c = 10 \<and>
       last_applied c = 10 \<and> kv_get (state_machine c) ''key1'' = Some ''value1'' \<and>
       kv_get (state_machine c) ''key2'' = Some ''value2'')
   }"

definition test_handle_install_snapshot_stale_term :: "unit option" where
  "test_handle_install_snapshot_stale_term = do {
     c \<leftarrow> new_test_core 2 [1, 3];
     (res, c) \<leftarrow> install (snapshot_args 5 10 4 []) (c\<lparr>current_term := 10\<rparr>);
     ensure ((case res of IS_Failed t reason \<Rightarrow> t = 10 \<and> contains reason ''stale term'' | _ \<Rightarrow> False) \<and>
       snapshot_last_index c = 0)
   }"

definition test_handle_install_snapshot_old_snapshot :: "unit option" where
  "test_handle_install_snapshot_old_snapshot = do {
     c \<leftarrow> new_test_core 2 [1, 3];
     (res, c) \<leftarrow> install (snapshot_args 5 10 4 []) (c\<lparr>snapshot_last_index := 20, snapshot_last_term := 5\<rparr>);
     ensure ((case res of IS_Failed t reason \<Rightarrow> contains reason ''too old'' | _ \<Rightarrow> False) \<and> snapshot_last_index c = 20)
   }"

definition test_handle_install_snapshot_discards_old_log_entries :: "unit option" where
  "test_handle_install_snapshot_discards_old_log_entries = do {
     c \<leftarrow> new_kv_core 2 [1, 3] mem_new;
     c \<leftarrow> lead c;
     c \<leftarrow> clients mem_ops [''CMD2'', ''CMD3'', ''CMD4'', ''CMD5''] c;
     ensure (length (rlog c) = 5);
     d \<leftarrow> expect (kv_snapshot plain_map kv_new);
     (_, c) \<leftarrow> install_kv (snapshot_args 1 3 0 d) c;
     ensure (map le_index (rlog c) = [4, 5])
   }"

definition test_handle_install_snapshot_updates_commit_and_applied :: "unit option" where
  "test_handle_install_snapshot_updates_commit_and_applied = do {
     c \<leftarrow> new_kv_core 2 [1, 3] mem_new;
     d \<leftarrow> expect (kv_snapshot plain_map kv_new);
     (_, c) \<leftarrow> install_kv (snapshot_args 1 10 1 d) (c\<lparr>commit_index := 5, last_applied := 5\<rparr>);
     ensure (commit_index c = 10 \<and> last_applied c = 10)
   }"

definition install_tests :: "unit option list" where
  "install_tests =
     [test_take_snapshot_basic, test_take_snapshot_no_entries_applied, test_take_snapshot_already_snapshotted,
      test_snapshot_restores_state_machine_on_startup, test_apply_entries_after_snapshot_restoration,
      test_last_log_index_with_snapshot, test_get_log_entry_with_snapshot, test_handle_install_snapshot_success,
      test_handle_install_snapshot_stale_term, test_handle_install_snapshot_old_snapshot,
      test_handle_install_snapshot_discards_old_log_entries, test_handle_install_snapshot_updates_commit_and_applied]"

lemma install_tests_pass: "all_pass install_tests"
  unfolding install_tests_def by (intro all_pass_intros; code_simp)

section \<open>Automatic snapshots\<close>

definition test_automatic_snapshot_triggering :: "unit option" where
  "test_automatic_snapshot_triggering = do {
     c \<leftarrow> new_kv_core 1 [2, 3] mem_new;
     c \<leftarrow> elect (set_snapshot_threshold 5 c);
     c \<leftarrow> lead c;
     c \<leftarrow> clients mem_ops [''SET k1 v1'', ''SET k2 v2'', ''SET k3 v3''] c;
     (_, c) \<leftarrow> apply_kv (c\<lparr>commit_index := 4\<rparr>);
     ensure (snapshot_last_index c = 0 \<and> length (rlog c) = 4);
     c \<leftarrow> clients mem_ops [''SET k4 v4''] c;
     (_, c) \<leftarrow> apply_kv (c\<lparr>commit_index := 5\<rparr>);
     ensure (snapshot_last_index c = 5 \<and> snapshot_last_term c = 1 \<and> rlog c = []);
     c \<leftarrow> clients mem_ops (map set_cmd (from_to 6 10)) c;
     (_, c) \<leftarrow> apply_kv (c\<lparr>commit_index := 10\<rparr>);
     ensure (snapshot_last_index c = 10 \<and> rlog c = [])
   }"

definition test_automatic_snapshot_on_follower :: "unit option" where
  "test_automatic_snapshot_on_follower = do {
     c \<leftarrow> new_kv_core 2 [1, 3] mem_new;
     let c = set_snapshot_threshold 5 c;
     ensure (role c = Follower);
     let c = push (map (\<lambda>i. entry 1 i (set_cmd i)) (from_to 1 10)) c;
     (_, c) \<leftarrow> apply_kv (c\<lparr>commit_index := 10\<rparr>);
     ensure (snapshot_last_index c = 10 \<and> snapshot_last_term c = 1 \<and> rlog c = [])
   }"

definition test_multiple_snapshots_work :: "unit option" where
  "test_multiple_snapshots_work = do {
     c \<leftarrow> new_kv_core 1 [2, 3] mem_new;
     c \<leftarrow> elect (set_snapshot_threshold 5 c);
     c \<leftarrow> lead c;
     c \<leftarrow> clients mem_ops (map set_cmd (from_to 1 5)) c;
     (_, c) \<leftarrow> apply_kv (c\<lparr>commit_index := last_log_index c\<rparr>);
     let first_snapshot_index = snapshot_last_index c;
     ensure (first_snapshot_index > 0);
     c \<leftarrow> clients mem_ops (map set_cmd (from_to 6 10)) c;
     (_, c) \<leftarrow> apply_kv (c\<lparr>commit_index := last_log_index c\<rparr>);
     ensure (snapshot_last_index c > first_snapshot_index)
   }"

definition test_replication_after_compaction :: "unit option" where
  "test_replication_after_compaction = do {
     c \<leftarrow> new_kv_core 1 [2] mem_new;
     c \<leftarrow> elect c;
     c \<leftarrow> lead c;
     c \<leftarrow> clients mem_ops (map set_cmd (from_to 1 10)) c;
     (_, c) \<leftarrow> apply_kv (c\<lparr>commit_index := last_log_index c\<rparr>);
     c \<leftarrow> must_snapshot mem_ops kv_test_ops c;
     let n = snapshot_last_index c;
     ensure (rlog c = []);
     c \<leftarrow> clients mem_ops (map set_cmd (from_to 1 5)) c;
     ensure (length (rlog c) = 5);
     d \<leftarrow> new_kv_core 2 [1] mem_new;
     let d = d\<lparr>snapshot_last_index := n, snapshot_last_term := 1, last_applied := n, commit_index := n\<rparr>;
     let d = push (map (\<lambda>i. entry 1 (n + i) (set_cmd i)) (from_to 1 3)) d;
     ensure (length (rlog d) = 3);
     let args = append_msg 1 1 (n + 3) 1 [entry 1 (n + 4) ''SET k4 v4'', entry 1 (n + 5) ''SET k5 v5''] (n + 5);
     (out, d) \<leftarrow> handle_append_entries mem_ops kv_test_ops 5 args d;
     ensure (succeeded out \<and> map le_index (rlog d) = [n + 1, n + 2, n + 3, n + 4, n + 5]);
     (out, d) \<leftarrow> handle_append_entries mem_ops kv_test_ops 5 args d;
     ensure (succeeded out \<and> length (rlog d) = 5 \<and> le_index (rlog d ! 4) = n + 5)
   }"

definition automatic_tests :: "unit option list" where
  "automatic_tests =
     [test_automatic_snapshot_triggering, test_automatic_snapshot_on_follower, test_multiple_snapshots_work,
      test_replication_after_compaction]"

lemma automatic_tests_pass: "all_pass automatic_tests"
  unfolding automatic_tests_def by (intro all_pass_intros; code_simp)

section \<open>Conflict hints\<close>

definition test_conflict_hint_log_too_short :: "unit option" where
  "test_conflict_hint_log_too_short = do {
     follower \<leftarrow> new_test_core 1 [2, 3];
     let follower = push [entry 1 1 ''CMD 1'', entry 1 2 ''CMD 2''] (follower\<lparr>current_term := 1\<rparr>);
     (out, _) \<leftarrow> on_append (append_msg 1 2 5 1 [] 0) follower;
     let r = hae_result out;
     ensure (\<not> aer_success r \<and> conflict_term r = None \<and> conflict_index r = Some 3);
     leader \<leftarrow> new_test_core 2 [1, 3];
     let leader = leading 1 leader;
     (_, leader) \<leftarrow> append_result 1 5 r (leader\<lparr>next_index := hm_insert 1 6 (next_index leader)\<rparr>);
     ensure (hm_get (next_index leader) 1 = Some 3)
   }"

definition test_conflict_hint_term_mismatch :: "unit option" where
  "test_conflict_hint_term_mismatch = do {
     follower \<leftarrow> new_test_core 1 [2, 3];
     let follower = push [entry 1 1 ''CMD 1'', entry 2 2 ''CMD 2'', entry 2 3 ''CMD 3'', entry 2 4 ''CMD 4'']
       (follower\<lparr>current_term := 3\<rparr>);
     (out, _) \<leftarrow> on_append (append_msg 3 2 4 3 [] 0) follower;
     let r = hae_result out;
     ensure (\<not> aer_success r \<and> conflict_term r = Some 2 \<and> conflict_index r = Some 2);
     leader \<leftarrow> new_test_core 2 [1, 3];
     let leader = push [entry 1 1 ''CMD 1'', entry 3 2 ''CMD 2'', entry 3 3 ''CMD 3'', entry 3 4 ''CMD 4''] (leading 3 leader);
     (_, leader) \<leftarrow> append_result 1 4 r (leader\<lparr>next_index := hm_insert 1 5 (next_index leader)\<rparr>);
     ensure (hm_get (next_index leader) 1 = Some 2)
   }"

definition test_conflict_hint_term_mismatch_leader_has_term :: "unit option" where
  "test_conflict_hint_term_mismatch_leader_has_term = do {
     follower \<leftarrow> new_test_core 1 [2, 3];
     let follower = push [entry 1 1 ''CMD 1'', entry 2 2 ''CMD 2'', entry 2 3 ''CMD 3''] (follower\<lparr>current_term := 3\<rparr>);
     (out, _) \<leftarrow> on_append (append_msg 3 2 3 3 [] 0) follower;
     let r = hae_result out;
     ensure (\<not> aer_success r \<and> conflict_term r = Some 2 \<and> conflict_index r = Some 2);
     leader \<leftarrow> new_test_core 2 [1, 3];
     let leader = push [entry 1 1 ''CMD 1'', entry 2 2 ''CMD 2'', entry 3 3 ''CMD 3''] (leading 3 leader);
     (_, leader) \<leftarrow> append_result 1 3 r (leader\<lparr>next_index := hm_insert 1 4 (next_index leader)\<rparr>);
     ensure (hm_get (next_index leader) 1 = Some 3)
   }"

definition test_conflict_hint_empty_log :: "unit option" where
  "test_conflict_hint_empty_log = do {
     follower \<leftarrow> new_test_core 1 [2, 3];
     (out, _) \<leftarrow> on_append (append_msg 1 2 100 1 [] 0) (follower\<lparr>current_term := 1\<rparr>);
     let r = hae_result out;
     ensure (\<not> aer_success r \<and> conflict_term r = None \<and> conflict_index r = Some 1);
     leader \<leftarrow> new_test_core 2 [1, 3];
     let leader = leading 1 leader;
     (_, leader) \<leftarrow> append_result 1 100 r (leader\<lparr>next_index := hm_insert 1 101 (next_index leader)\<rparr>);
     ensure (hm_get (next_index leader) 1 = Some 1)
   }"

text \<open>The loop over the heartbeats of the next test: it ends with the first success.\<close>

fun gap_rounds :: "nat \<Rightarrow> u64 \<Rightarrow> test_core \<Rightarrow> test_core \<Rightarrow> unit option" where
  "gap_rounds 0 prev_next follower leader = Some ()"
| "gap_rounds (Suc n) prev_next follower leader = do {
     (out, follower) \<leftarrow> on_append (append_msg 1 2 (hm_get_or (next_index leader) 1 1 - 1) 1 [] 0) follower;
     if succeeded out then Some ()
     else do {
       (_, leader) \<leftarrow> append_result 1 0 (hae_result out) leader;
       let new_next = hm_get_or (next_index leader) 1 1;
       ensure (new_next < prev_next);
       gap_rounds n new_next follower leader
     }
   }"

definition test_conflict_hint_gap_log :: "unit option" where
  "test_conflict_hint_gap_log = do {
     follower \<leftarrow> new_test_core 1 [2, 3];
     let follower = push [entry 1 229 ''CMD 229'', entry 1 230 ''CMD 230''] (follower\<lparr>current_term := 1\<rparr>);
     ensure (last_log_index follower = 230 \<and> get_log_entry follower 229 = None \<and> get_log_entry follower 230 = None);
     (out, follower) \<leftarrow> on_append (append_msg 1 2 229 1 [] 0) follower;
     ensure (\<not> succeeded out \<and> conflict_index (hae_result out) = Some 1);
     leader \<leftarrow> new_test_core 2 [1, 3];
     let leader = push (map (\<lambda>i. entry 1 i (cmd i)) (from_to 1 250)) (leading 1 leader);
     gap_rounds 5 230 follower (leader\<lparr>next_index := hm_insert 1 230 (next_index leader)\<rparr>)
   }"

definition hint_tests :: "unit option list" where
  "hint_tests =
     [test_conflict_hint_log_too_short, test_conflict_hint_term_mismatch,
      test_conflict_hint_term_mismatch_leader_has_term, test_conflict_hint_empty_log, test_conflict_hint_gap_log]"

lemma hint_tests_pass: "all_pass hint_tests"
  unfolding hint_tests_def by (intro all_pass_intros; code_simp)

end
