(* ===== verification/Store_Tests.thy ===== *)
theory Store_Tests
  imports Test_Means Key_Value Memory_Storage
begin

text \<open>
  The unit tests of src/state\_machine/kv.rs and src/storage/memory.rs. The snapshots of the key-value store
  are written with \<open>plain_map\<close>; the text that \<open>test_restore_invalid_data\<close> restores from is no
  JSON, and the bytes here are none of \<open>plain_map\<close>.
\<close>

section \<open>kv.rs\<close>

text \<open>A sequence of commands that must all succeed.\<close>

fun kv_run :: "string list \<Rightarrow> kv_store \<Rightarrow> kv_store option" where
  "kv_run [] kv = Some kv"
| "kv_run (x # xs) kv = (case kv_apply kv x of (kv, Ok _) \<Rightarrow> kv_run xs kv | (kv, Err _) \<Rightarrow> None)"

definition test_set_and_get :: "unit option" where
  "test_set_and_get = do {
     kv \<leftarrow> kv_run [''SET foo bar''] kv_new;
     ensure (kv_get kv ''foo'' = Some ''bar'')
   }"

definition test_get_not_found :: "unit option" where
  "test_get_not_found = ensure (kv_get kv_new ''nonexistent'' = None)"

definition test_delete :: "unit option" where
  "test_delete = do {
     kv \<leftarrow> kv_run [''SET foo bar'', ''DELETE foo''] kv_new;
     ensure (kv_get kv ''foo'' = None)
   }"

definition test_delete_not_found :: "unit option" where
  "test_delete_not_found = ensure (snd (kv_apply kv_new ''DELETE nonexistent'') = Err ''NOT_FOUND'')"

definition test_overwrite :: "unit option" where
  "test_overwrite = do {
     kv \<leftarrow> kv_run [''SET key value1'', ''SET key value2''] kv_new;
     ensure (kv_get kv ''key'' = Some ''value2'')
   }"

definition test_value_with_spaces :: "unit option" where
  "test_value_with_spaces = do {
     kv \<leftarrow> kv_run [''SET greeting hello world''] kv_new;
     ensure (kv_get kv ''greeting'' = Some ''hello world'')
   }"

definition test_unknown_command :: "unit option" where
  "test_unknown_command = ensure (fails_with ''unknown command'' (snd (kv_apply kv_new ''INVALID command'')))"

definition test_snapshot_and_restore :: "unit option" where
  "test_snapshot_and_restore = do {
     kv1 \<leftarrow> kv_run [''SET key1 value1'', ''SET key2 value2'', ''SET key3 value3''] kv_new;
     d \<leftarrow> must (kv_snapshot plain_map kv1);
     kv2 \<leftarrow> must (kv_restore plain_map kv_new d);
     ensure (kv_get kv2 ''key1'' = Some ''value1'' \<and> kv_get kv2 ''key2'' = Some ''value2'' \<and>
       kv_get kv2 ''key3'' = Some ''value3'')
   }"

definition test_snapshot_empty_store :: "unit option" where
  "test_snapshot_empty_store = do {
     d \<leftarrow> must (kv_snapshot plain_map kv_new);
     kv2 \<leftarrow> must (kv_restore plain_map kv_new d);
     ensure (length (kv_all kv2) = 0)
   }"

definition test_restore_overwrites_existing_data :: "unit option" where
  "test_restore_overwrites_existing_data = do {
     kv1 \<leftarrow> kv_run [''SET original data''] kv_new;
     d \<leftarrow> must (kv_snapshot plain_map kv1);
     kv2 \<leftarrow> kv_run [''SET existing something'', ''SET other thing''] kv_new;
     kv2 \<leftarrow> must (kv_restore plain_map kv2 d);
     ensure (kv_get kv2 ''original'' = Some ''data'' \<and> kv_get kv2 ''existing'' = None \<and> kv_get kv2 ''other'' = None)
   }"

definition test_restore_invalid_data :: "unit option" where
  "test_restore_invalid_data = ensure (fails_with ''deserialization failed'' (kv_restore plain_map kv_new (map char_byte ''invalid json data'')))"

definition test_validate_set_command :: "unit option" where
  "test_validate_set_command = ensure (kv_validate kv_new ''SET foo bar'' = Ok () \<and>
     kv_validate kv_new ''SET key value with spaces'' = Ok ())"

definition test_validate_delete_command :: "unit option" where
  "test_validate_delete_command = ensure (kv_validate kv_new ''DELETE foo'' = Ok ())"

definition test_validate_noop_command :: "unit option" where
  "test_validate_noop_command = ensure (kv_validate kv_new NOOP_COMMAND = Ok ())"

definition test_validate_invalid_command :: "unit option" where
  "test_validate_invalid_command = ensure (fails_with ''unknown command'' (kv_validate kv_new ''INVALID foo'') \<and>
     fails_with [] (kv_validate kv_new ''SET foo'') \<and> fails_with [] (kv_validate kv_new []))"

definition kv_tests :: "unit option list" where
  "kv_tests =
     [test_set_and_get,
      test_get_not_found,
      test_delete,
      test_delete_not_found,
      test_overwrite,
      test_value_with_spaces,
      test_unknown_command,
      test_snapshot_and_restore,
      test_snapshot_empty_store,
      test_restore_overwrites_existing_data,
      test_restore_invalid_data,
      test_validate_set_command,
      test_validate_delete_command,
      test_validate_noop_command,
      test_validate_invalid_command]"

lemma kv_tests_pass: "all_pass kv_tests"
  unfolding kv_tests_def by (intro all_pass_intros; code_simp)

section \<open>memory.rs\<close>

definition snapshot_of :: "u64 \<Rightarrow> u64 \<Rightarrow> byte list \<Rightarrow> snapshot" where
  "snapshot_of i t d =
     \<lparr>metadata = \<lparr>last_included_index = i, last_included_term = t\<rparr>, snapshot_data = d\<rparr>"

abbreviation row :: "u64 \<Rightarrow> u64 \<Rightarrow> string \<Rightarrow> log_entry" where
  "row t i x \<equiv> \<lparr>le_term = t, le_index = i, le_command = x\<rparr>"

definition cmd_rows :: "log_entry list" where
  "cmd_rows = [row 1 1 ''CMD 1'', row 1 2 ''CMD 2'', row 1 3 ''CMD 3'', row 2 4 ''CMD 4'']"

definition test_memory_storage_term :: "unit option" where
  "test_memory_storage_term = do {
     ensure (mem_load_term mem_new = Ok 0);
     s \<leftarrow> must (mem_save_term mem_new 5);
     ensure (mem_load_term s = Ok 5);
     s \<leftarrow> must (mem_save_term s 10);
     ensure (mem_load_term s = Ok 10)
   }"

definition test_memory_storage_voted_for :: "unit option" where
  "test_memory_storage_voted_for = do {
     ensure (mem_load_voted_for mem_new = Ok None);
     s \<leftarrow> must (mem_save_voted_for mem_new (Some 3));
     ensure (mem_load_voted_for s = Ok (Some 3));
     s \<leftarrow> must (mem_save_voted_for s None);
     ensure (mem_load_voted_for s = Ok None)
   }"

definition test_memory_storage_log_append :: "unit option" where
  "test_memory_storage_log_append = do {
     l \<leftarrow> must (mem_load_log mem_new);
     ensure (length l = 0);
     s \<leftarrow> must (mem_append_log_entries mem_new [row 1 1 ''CMD 1'', row 1 2 ''CMD 2'']);
     l \<leftarrow> must (mem_load_log s);
     ensure (length l = 2 \<and> le_command (l ! 0) = ''CMD 1'' \<and> le_command (l ! 1) = ''CMD 2'');
     s \<leftarrow> must (mem_append_log_entries s [row 2 3 ''CMD 3'']);
     l \<leftarrow> must (mem_load_log s);
     ensure (length l = 3)
   }"

definition test_memory_storage_log_truncate :: "unit option" where
  "test_memory_storage_log_truncate = do {
     s \<leftarrow> must (mem_append_log_entries mem_new cmd_rows);
     l \<leftarrow> must (mem_load_log s);
     ensure (length l = 4);
     s \<leftarrow> must (mem_truncate_log s 3);
     l \<leftarrow> must (mem_load_log s);
     ensure (length l = 2 \<and> le_index (l ! 0) = 1 \<and> le_index (l ! 1) = 2)
   }"

definition test_memory_storage_truncate_beyond_log :: "unit option" where
  "test_memory_storage_truncate_beyond_log = do {
     s \<leftarrow> must (mem_append_log_entries mem_new [row 1 1 ''CMD 1'']);
     s \<leftarrow> must (mem_truncate_log s 10);
     l \<leftarrow> must (mem_load_log s);
     ensure (length l = 1)
   }"

definition test_memory_storage_truncate_all :: "unit option" where
  "test_memory_storage_truncate_all = do {
     s \<leftarrow> must (mem_append_log_entries mem_new [row 1 1 ''CMD 1'', row 1 2 ''CMD 2'']);
     s \<leftarrow> must (mem_truncate_log s 1);
     l \<leftarrow> must (mem_load_log s);
     ensure (length l = 0)
   }"

definition test_memory_storage_compact_log :: "unit option" where
  "test_memory_storage_compact_log = do {
     s \<leftarrow> must (mem_append_log_entries mem_new cmd_rows);
     l \<leftarrow> must (mem_load_log s);
     ensure (length l = 4);
     s \<leftarrow> must (mem_compact_log s 3);
     l \<leftarrow> must (mem_load_log s);
     ensure (length l = 2 \<and> le_index (l ! 0) = 3 \<and> le_index (l ! 1) = 4)
   }"

definition test_memory_storage_snapshot :: "unit option" where
  "test_memory_storage_snapshot = do {
     ensure (mem_load_snapshot mem_new = Ok None);
     s \<leftarrow> must (mem_save_snapshot mem_new (snapshot_of 10 2 [1, 2, 3, 4]));
     sn \<leftarrow> must (mem_load_snapshot s);
     ensure (sn = Some (snapshot_of 10 2 [1, 2, 3, 4]));
     s \<leftarrow> must (mem_save_snapshot s (snapshot_of 20 3 [5, 6, 7]));
     sn \<leftarrow> must (mem_load_snapshot s);
     ensure (map_option (last_included_index \<circ> metadata) sn = Some 20 \<and>
       map_option (last_included_term \<circ> metadata) sn = Some 3)
   }"

definition memory_tests :: "unit option list" where
  "memory_tests =
     [test_memory_storage_term,
      test_memory_storage_voted_for,
      test_memory_storage_log_append,
      test_memory_storage_log_truncate,
      test_memory_storage_truncate_beyond_log,
      test_memory_storage_truncate_all,
      test_memory_storage_compact_log,
      test_memory_storage_snapshot]"

lemma memory_tests_pass: "all_pass memory_tests"
  unfolding memory_tests_def by (intro all_pass_intros; code_simp)

end
