(* ===== verification/Checker_Tests.thy ===== *)
theory Checker_Tests
  imports Test_Means Lin_Checker
begin

text \<open>
  The unit tests of chaos-test/src/history.rs and chaos-test/src/checker.rs. The checker visits the keys of
  a history in the order of a hash set; the tests with several keys try each order that can decide.
\<close>

section \<open>history.rs\<close>

text \<open>The two operations that the tests of the history build.\<close>

abbreviation write_a :: "u64 \<Rightarrow> u64 \<Rightarrow> u64 \<Rightarrow> operation" where
  "write_a i b e \<equiv> operation_new i (ClientId 1) ''x'' (Write ''a'') (Timestamp b) (Timestamp e) WriteOk"

abbreviation read_by :: "u64 \<Rightarrow> u64 \<Rightarrow> op_result \<Rightarrow> u64 \<Rightarrow> u64 \<Rightarrow> operation" where
  "read_by i c r b e \<equiv> operation_new i (ClientId c) ''x'' Read (Timestamp b) (Timestamp e) r"

definition history_of :: "operation list \<Rightarrow> history" where
  "history_of ops = fold history_add ops (history_new 0)"

definition test_timestamp_ordering :: "unit option" where
  "test_timestamp_ordering = ensure (Timestamp 100 < Timestamp 200 \<and> Timestamp 100 = Timestamp 100)"

definition test_operation_overlap :: "unit option" where
  "test_operation_overlap = do {
     let op1 = write_a 1 100 300;
     let op2 = read_by 2 2 (ReadOk (Some ''a'')) 200 400;
     let op3 = read_by 3 3 (ReadOk (Some ''a'')) 500 600;
     ensure (overlaps op1 op2 \<and> overlaps op2 op1 \<and> \<not> overlaps op1 op3 \<and> \<not> overlaps op3 op1)
   }"

definition test_could_linearize_at :: "unit option" where
  "test_could_linearize_at = do {
     let op1 = write_a 1 100 300;
     ensure (could_linearize_at op1 (Timestamp 100) \<and> could_linearize_at op1 (Timestamp 200) \<and>
       could_linearize_at op1 (Timestamp 300) \<and> \<not> could_linearize_at op1 (Timestamp 99) \<and>
       \<not> could_linearize_at op1 (Timestamp 301))
   }"

definition test_history_add_and_retrieve :: "unit option" where
  "test_history_add_and_retrieve = do {
     let h = history_of [write_a 1 100 200, read_by 2 1 (ReadOk (Some ''a'')) 300 400];
     ensure (history_len h = 2 \<and> \<not> history_is_empty h)
   }"

definition test_history_sorted_by_invoke_time :: "unit option" where
  "test_history_sorted_by_invoke_time = do {
     let s = sorted_by_invoke_time (history_of [read_by 2 1 (ReadOk (Some ''a'')) 300 400, write_a 1 100 200]);
     ensure (op_id (s ! 0) = 1 \<and> op_id (s ! 1) = 2)
   }"

definition test_history_successful_ops :: "unit option" where
  "test_history_successful_ops = do {
     let s = successful_ops (history_of
         [write_a 1 100 200, read_by 2 1 (OpError ''timeout'') 300 400, read_by 3 1 (ReadOk (Some ''a'')) 500 600]);
     ensure (length s = 2 \<and> op_id (s ! 0) = 1 \<and> op_id (s ! 1) = 3)
   }"

definition history_tests :: "unit option list" where
  "history_tests =
     [test_timestamp_ordering,
      test_operation_overlap,
      test_could_linearize_at,
      test_history_add_and_retrieve,
      test_history_sorted_by_invoke_time,
      test_history_successful_ops]"

lemma history_tests_pass: "all_pass history_tests"
  unfolding history_tests_def by (intro all_pass_intros; code_simp)

section \<open>checker.rs: one key\<close>

definition write_op_key :: "u64 \<Rightarrow> string \<Rightarrow> string \<Rightarrow> u64 \<Rightarrow> u64 \<Rightarrow> operation" where
  "write_op_key i k v invoke complete =
     operation_new i (ClientId 1) k (Write v) (Timestamp invoke) (Timestamp complete) WriteOk"

definition write_op :: "u64 \<Rightarrow> string \<Rightarrow> u64 \<Rightarrow> u64 \<Rightarrow> operation" where
  "write_op i v invoke complete = write_op_key i ''x'' v invoke complete"

definition read_op_key :: "u64 \<Rightarrow> string \<Rightarrow> string option \<Rightarrow> u64 \<Rightarrow> u64 \<Rightarrow> operation" where
  "read_op_key i k v invoke complete =
     operation_new i (ClientId 1) k Read (Timestamp invoke) (Timestamp complete) (ReadOk v)"

definition read_op :: "u64 \<Rightarrow> string option \<Rightarrow> u64 \<Rightarrow> u64 \<Rightarrow> operation" where
  "read_op i v invoke complete = read_op_key i ''x'' v invoke complete"

definition error_write_op :: "u64 \<Rightarrow> string \<Rightarrow> u64 \<Rightarrow> u64 \<Rightarrow> operation" where
  "error_write_op i v invoke complete =
     operation_new i (ClientId 1) ''x'' (Write v) (Timestamp invoke) (Timestamp complete) (OpError ''connection lost'')"

text \<open>\<open>LinearizabilityChecker::check\<close> on the operations added in this order.\<close>

definition checked :: "operation list \<Rightarrow> check_result" where
  "checked ops = check [''x''] (history_of ops)"

abbreviation linearizes :: "operation list \<Rightarrow> unit option" where
  "linearizes ops \<equiv> ensure (is_linearizable (checked ops))"

abbreviation refused :: "operation list \<Rightarrow> unit option" where
  "refused ops \<equiv> ensure (\<not> is_linearizable (checked ops))"

definition test_empty_history :: "unit option" where
  "test_empty_history = do {
     let r = check [] (history_new 0);
     ensure (is_linearizable r \<and> linearization r = Some [])
   }"

definition test_sequential_ops_linearizable :: "unit option" where
  "test_sequential_ops_linearizable = do {
     let r = checked [write_op 1 ''a'' 0 100, read_op 2 (Some ''a'') 200 300];
     ensure (is_linearizable r \<and> linearization r = Some [1, 2])
   }"

definition test_concurrent_ops_valid_linearization :: "unit option" where
  "test_concurrent_ops_valid_linearization = do {
     let r = checked [write_op 1 ''a'' 0 200, read_op 2 (Some ''a'') 100 300];
     ensure (is_linearizable r \<and> linearization r = Some [1, 2])
   }"

definition test_read_initial_state :: "unit option" where
  "test_read_initial_state = linearizes
     [read_op 1 None 0 100]"

definition test_stale_read_not_linearizable :: "unit option" where
  "test_stale_read_not_linearizable = do {
     let r = checked [write_op 1 ''a'' 0 100, read_op 2 None 200 300];
     ensure (\<not> is_linearizable r \<and> check_error r \<noteq> None)
   }"

definition test_multiple_writes_overwrite :: "unit option" where
  "test_multiple_writes_overwrite = linearizes
     [write_op 1 ''a'' 0 100, write_op 2 ''b'' 200 300, read_op 3 (Some ''b'') 400 500]"

definition test_concurrent_writes_both_orders_possible :: "unit option" where
  "test_concurrent_writes_both_orders_possible = linearizes
     [write_op 1 ''a'' 0 200, write_op 2 ''b'' 100 300, read_op 3 (Some ''b'') 400 500]"

definition test_concurrent_writes_read_sees_first :: "unit option" where
  "test_concurrent_writes_read_sees_first = linearizes
     [write_op 1 ''a'' 0 200, write_op 2 ''b'' 100 300, read_op 3 (Some ''a'') 400 500]"

definition test_impossible_read_value :: "unit option" where
  "test_impossible_read_value = refused
     [write_op 1 ''a'' 0 100, write_op 2 ''b'' 200 300, read_op 3 (Some ''c'') 400 500]"

definition test_concurrent_read_during_write :: "unit option" where
  "test_concurrent_read_during_write = linearizes
     [write_op 1 ''a'' 0 300, read_op 2 None 100 200]"

definition test_concurrent_read_during_write_sees_new :: "unit option" where
  "test_concurrent_read_during_write_sees_new = linearizes
     [write_op 1 ''a'' 0 300, read_op 2 (Some ''a'') 100 200]"

definition test_complex_concurrent_scenario :: "unit option" where
  "test_complex_concurrent_scenario = linearizes
     [write_op 1 ''a'' 0 200, write_op 2 ''b'' 100 300, read_op 3 (Some ''a'') 150 250,
      read_op 4 (Some ''b'') 350 450]"

definition test_read_between_writes_inconsistent :: "unit option" where
  "test_read_between_writes_inconsistent = refused
     [write_op 1 ''a'' 0 100, read_op 2 (Some ''b'') 200 300, write_op 3 ''b'' 400 500]"

definition test_error_operations_filtered :: "unit option" where
  "test_error_operations_filtered = do {
     let r = checked [write_op 1 ''a'' 0 100, read_by 2 1 (OpError ''timeout'') 200 300, read_op 3 (Some ''a'') 400 500];
     ensure (is_linearizable r);
     lin \<leftarrow> linearization r;
     ensure (length lin = 2 \<and> 1 \<in> set lin \<and> 3 \<in> set lin)
   }"

text \<open>\<open>iter().position(..).unwrap()\<close>.\<close>

fun position_from :: "nat \<Rightarrow> u64 \<Rightarrow> u64 list \<Rightarrow> nat option" where
  "position_from k i [] = None"
| "position_from k i (x # xs) = (if x = i then Some k else position_from (Suc k) i xs)"

definition test_many_concurrent_writes_same_key :: "unit option" where
  "test_many_concurrent_writes_same_key = do {
     let r = checked (map (\<lambda>i. write_op i (CHR ''v'' # show_u64 i) 0 100) [0, 1, 2, 3, 4] @ [read_op 5 (Some ''v3'') 200 300]);
     ensure (is_linearizable r);
     lin \<leftarrow> linearization r;
     w3_pos \<leftarrow> position_from 0 3 lin;
     r5_pos \<leftarrow> position_from 0 5 lin;
     ensure (w3_pos < r5_pos);
     ensure (list_all (\<lambda>i. lin ! i \<ge> 5 \<or> lin ! i = 3) [Suc w3_pos..<r5_pos])
   }"

definition one_key_tests :: "unit option list" where
  "one_key_tests =
     [test_empty_history,
      test_sequential_ops_linearizable,
      test_concurrent_ops_valid_linearization,
      test_read_initial_state,
      test_stale_read_not_linearizable,
      test_multiple_writes_overwrite,
      test_concurrent_writes_both_orders_possible,
      test_concurrent_writes_read_sees_first,
      test_impossible_read_value,
      test_concurrent_read_during_write,
      test_concurrent_read_during_write_sees_new,
      test_complex_concurrent_scenario,
      test_read_between_writes_inconsistent,
      test_error_operations_filtered,
      test_many_concurrent_writes_same_key]"

lemma one_key_tests_pass: "all_pass one_key_tests"
  unfolding one_key_tests_def by (intro all_pass_intros; code_simp)

section \<open>checker.rs: several keys\<close>

definition all_orders :: "string list list \<Rightarrow> operation list \<Rightarrow> (check_result \<Rightarrow> bool) \<Rightarrow> unit option" where
  "all_orders orders ops ok = ensure (list_all (\<lambda>keys. ok (check keys (history_of ops))) orders)"

definition test_multiple_keys_independent :: "unit option" where
  "test_multiple_keys_independent = all_orders [[''a'', ''b''], [''b'', ''a'']]
     [write_op_key 1 ''a'' ''val1'' 0 100, read_op_key 2 ''a'' (Some ''val1'') 200 300,
      write_op_key 3 ''b'' ''val2'' 50 150, read_op_key 4 ''b'' (Some ''val2'') 250 350]
     (\<lambda>r. is_linearizable r \<and> map_option length (linearization r) = Some 4)"

definition error_contains :: "string \<Rightarrow> check_result \<Rightarrow> bool" where
  "error_contains t r = (case check_error r of Some e \<Rightarrow> contains e t | None \<Rightarrow> False)"

definition key_b :: string where
  "key_b = ''Key '' @ [CHR 0x27, CHR ''b'', CHR 0x27]"

definition test_multiple_keys_one_fails :: "unit option" where
  "test_multiple_keys_one_fails = all_orders [[''a'', ''b''], [''b'', ''a'']]
     [write_op_key 1 ''a'' ''val1'' 0 100, read_op_key 2 ''a'' (Some ''val1'') 200 300,
      write_op_key 3 ''b'' ''val2'' 50 150,
      read_op_key 4 ''b'' (Some ''never_written'') 250 350]
     (\<lambda>r. \<not> is_linearizable r \<and> error_contains key_b r)"

definition test_multiple_keys_concurrent :: "unit option" where
  "test_multiple_keys_concurrent = all_orders [[''x'', ''y''], [''y'', ''x'']]
     [write_op_key 1 ''x'' ''a'' 0 200, write_op_key 2 ''y'' ''b'' 50 250,
      read_op_key 3 ''x'' (Some ''a'') 100 300, read_op_key 4 ''y'' (Some ''b'') 150 350]
     (\<lambda>r. is_linearizable r)"

definition test_multiple_keys_stale_read_on_one :: "unit option" where
  "test_multiple_keys_stale_read_on_one = all_orders [[''a'', ''b''], [''b'', ''a'']]
     [write_op_key 1 ''a'' ''val1'' 0 100, read_op_key 2 ''a'' (Some ''val1'') 200 300,
      write_op_key 3 ''b'' ''val2'' 0 100, read_op_key 4 ''b'' None 200 300]
     (\<lambda>r. \<not> is_linearizable r \<and> error_contains key_b r \<and> error_contains ''Stale read'' r)"

definition test_three_keys_all_valid :: "unit option" where
  "test_three_keys_all_valid = all_orders [[''k1'', ''k2'', ''k3''], [''k3'', ''k2'', ''k1'']]
     [write_op_key 1 ''k1'' ''v1'' 0 100, read_op_key 2 ''k1'' (Some ''v1'') 200 300,
      write_op_key 3 ''k2'' ''v2'' 0 100, write_op_key 4 ''k2'' ''v3'' 200 300,
      read_op_key 5 ''k2'' (Some ''v3'') 400 500, read_op_key 6 ''k3'' None 0 100,
      write_op_key 7 ''k3'' ''v4'' 200 300, read_op_key 8 ''k3'' (Some ''v4'') 400 500]
     (\<lambda>r. is_linearizable r \<and> map_option length (linearization r) = Some 8)"

definition several_keys_tests :: "unit option list" where
  "several_keys_tests =
     [test_multiple_keys_independent,
      test_multiple_keys_one_fails,
      test_multiple_keys_concurrent,
      test_multiple_keys_stale_read_on_one,
      test_three_keys_all_valid]"

lemma several_keys_tests_pass: "all_pass several_keys_tests"
  unfolding several_keys_tests_def by (intro all_pass_intros; code_simp)

section \<open>checker.rs: writes whose outcome is unknown\<close>

definition test_indeterminate_write_value_read_later :: "unit option" where
  "test_indeterminate_write_value_read_later = linearizes
     [error_write_op 1 ''a'' 0 100, read_op 2 (Some ''a'') 200 300]"

definition test_indeterminate_write_not_read :: "unit option" where
  "test_indeterminate_write_not_read = linearizes
     [error_write_op 1 ''a'' 0 100, read_op 2 None 200 300]"

definition test_indeterminate_write_then_confirmed_write :: "unit option" where
  "test_indeterminate_write_then_confirmed_write = linearizes
     [error_write_op 1 ''a'' 0 100, write_op 2 ''b'' 200 300,
      read_op 3 (Some ''b'') 400 500]"

definition test_indeterminate_write_overrides_confirmed :: "unit option" where
  "test_indeterminate_write_overrides_confirmed = linearizes
     [write_op 1 ''a'' 0 100, error_write_op 2 ''b'' 200 300,
      read_op 3 (Some ''b'') 400 500]"

definition test_indeterminate_write_does_not_excuse_impossible_read :: "unit option" where
  "test_indeterminate_write_does_not_excuse_impossible_read = refused
     [write_op 1 ''a'' 0 100, error_write_op 2 ''b'' 200 300,
      read_op 3 (Some ''c'') 400 500]"

definition test_multiple_indeterminate_writes :: "unit option" where
  "test_multiple_indeterminate_writes = linearizes
     [error_write_op 1 ''a'' 0 100, error_write_op 2 ''b'' 50 150,
      read_op 3 (Some ''b'') 200 300]"

definition indeterminate_tests :: "unit option list" where
  "indeterminate_tests =
     [test_indeterminate_write_value_read_later,
      test_indeterminate_write_not_read,
      test_indeterminate_write_then_confirmed_write,
      test_indeterminate_write_overrides_confirmed,
      test_indeterminate_write_does_not_excuse_impossible_read,
      test_multiple_indeterminate_writes]"

lemma indeterminate_tests_pass: "all_pass indeterminate_tests"
  unfolding indeterminate_tests_def by (intro all_pass_intros; code_simp)

end
