(* ===== verification/Transport_Tests.thy ===== *)
theory Transport_Tests
  imports Test_Cores Transports
begin

text \<open>
  The unit tests of src/transport/inmemory.rs, and of http.rs those that need no server on a socket. A
  \<open>tokio::join!\<close> of a call and of the node that processes it is the call with the reply of that node; a
  call that no node processes gets no reply.
\<close>

section \<open>Means\<close>

definition transport_of :: "u64 list \<Rightarrow> duration option \<Rightarrow> u64 \<Rightarrow> inmem_transport option" where
  "transport_of ids tmo i = hm_get (fst (create_cluster_with_timeout ids tmo)) i"

text \<open>A node that processes one request from its channel.\<close>

definition processed ::
  "'m sm_ops \<Rightarrow> request \<Rightarrow> (memory_storage, 'm) raft_core \<Rightarrow>
   (response \<times> (memory_storage, 'm) raft_core) option" where
  "processed M req c = do {
     (_, rsp, _, c) \<leftarrow> process_one mem_ops M 5 \<lparr>receiver = [req]\<rparr> c;
     rsp \<leftarrow> rsp;
     Some (rsp, c)
   }"

fun as_vote :: "response \<Rightarrow> request_vote_result option" where
  "as_vote (Rsp_RequestVote r) = Some r"
| "as_vote _ = None"

fun as_append :: "response \<Rightarrow> append_entries_result option" where
  "as_append (Rsp_AppendEntries r) = Some r"
| "as_append _ = None"

fun as_install :: "response \<Rightarrow> install_snapshot_result option" where
  "as_install (Rsp_InstallSnapshot r) = Some r"
| "as_install _ = None"

abbreviation opening_vote :: request_vote_args where
  "opening_vote \<equiv> vote_msg 1 1 0 0"

section \<open>inmemory.rs\<close>

definition inmem_test_request_vote :: "unit option" where
  "inmem_test_request_vote = do {
     t \<leftarrow> transport_of [1, 2, 3] None 1;
     node2 \<leftarrow> new_test_core 2 [1, 3];
     (rsp, node2) \<leftarrow> processed test_ops (Req_RequestVote opening_vote) node2;
     result \<leftarrow> inmem_request_vote t 2 (Reply_after 0 (as_vote rsp));
     r \<leftarrow> must result;
     ensure (vote_granted r \<and> rvr_term r = 1 \<and> voted_for node2 = Some 1)
   }"

definition inmem_test_append_entries :: "unit option" where
  "inmem_test_append_entries = do {
     t \<leftarrow> transport_of [1, 2, 3] None 1;
     node2 \<leftarrow> new_test_core 2 [1, 3];
     (rsp, node2) \<leftarrow> processed test_ops (Req_AppendEntries (append_msg 1 1 0 0 [] 0)) node2;
     result \<leftarrow> inmem_append_entries t 2 (Reply_after 0 (as_append rsp));
     r \<leftarrow> must result;
     ensure (aer_success r \<and> aer_term r = 1)
   }"

definition test_node_not_found :: "unit option" where
  "test_node_not_found = do {
     t \<leftarrow> transport_of [1, 2] None 1;
     result \<leftarrow> inmem_request_vote t 99 No_reply;
     ensure (result = Err NodeNotFound)
   }"

definition test_election_via_transport :: "unit option" where
  "test_election_via_transport = do {
     t \<leftarrow> transport_of [1, 2, 3] None 1;
     node1 \<leftarrow> new_test_core 1 [2, 3];
     node2 \<leftarrow> new_test_core 2 [1, 3];
     node3 \<leftarrow> new_test_core 3 [1, 2];
     node1 \<leftarrow> elect node1;
     let args = vote_msg (current_term node1) (node_id node1) (last_log_index node1) (last_log_term node1);
     (rsp2, node2) \<leftarrow> processed test_ops (Req_RequestVote args) node2;
     (rsp3, node3) \<leftarrow> processed test_ops (Req_RequestVote args) node3;
     result2 \<leftarrow> inmem_request_vote t 2 (Reply_after 0 (as_vote rsp2));
     result3 \<leftarrow> inmem_request_vote t 3 (Reply_after 0 (as_vote rsp3));
     r2 \<leftarrow> must result2;
     (became_leader2, node1) \<leftarrow> vote_result 2 r2 node1;
     r3 \<leftarrow> must result3;
     (became_leader3, node1) \<leftarrow> vote_result 3 r3 node1;
     ensure ((became_leader2 \<or> became_leader3) \<and> role node1 = Leader)
   }"

definition test_request_vote_timeout :: "unit option" where
  "test_request_vote_timeout = do {
     t \<leftarrow> transport_of [1, 2] (Some 100) 1;
     result \<leftarrow> inmem_request_vote t 2 No_reply;
     ensure (result = Err Timeout)
   }"

definition test_append_entries_timeout :: "unit option" where
  "test_append_entries_timeout = do {
     t \<leftarrow> transport_of [1, 2] (Some 100) 1;
     result \<leftarrow> inmem_append_entries t 2 No_reply;
     ensure (result = Err Timeout)
   }"

definition test_mixed_responses_and_timeouts :: "unit option" where
  "test_mixed_responses_and_timeouts = do {
     t \<leftarrow> transport_of [1, 2, 3] (Some 100) 1;
     node2 \<leftarrow> new_test_core 2 [1, 3];
     (rsp2, node2) \<leftarrow> processed test_ops (Req_RequestVote opening_vote) node2;
     result2 \<leftarrow> inmem_request_vote t 2 (Reply_after 0 (as_vote rsp2));
     result3 \<leftarrow> inmem_request_vote t 3 No_reply;
     r2 \<leftarrow> must result2;
     ensure (vote_granted r2 \<and> result3 = Err Timeout)
   }"

definition test_install_snapshot :: "unit option" where
  "test_install_snapshot = do {
     t \<leftarrow> transport_of [1, 2, 3] None 1;
     node2 \<leftarrow> new_kv_core 2 [1, 3] mem_new;
     let kv = fst (kv_apply (fst (kv_apply kv_new ''SET key1 value1'')) ''SET key2 value2'');
     d \<leftarrow> must (kv_snapshot plain_map kv);
     (rsp, node2) \<leftarrow> processed kv_test_ops (Req_InstallSnapshot (snapshot_args 1 5 1 d)) node2;
     result \<leftarrow> inmem_install_snapshot t 2 (Reply_after 0 (as_install rsp));
     ensure (result = Ok (IS_Success 1) \<and> snapshot_last_index node2 = 5 \<and> snapshot_last_term node2 = 1)
   }"

definition inmem_tests :: "unit option list" where
  "inmem_tests =
     [inmem_test_request_vote,
      inmem_test_append_entries,
      test_node_not_found,
      test_election_via_transport,
      test_request_vote_timeout,
      test_append_entries_timeout,
      test_mixed_responses_and_timeouts,
      test_install_snapshot]"

lemma inmem_tests_pass: "all_pass inmem_tests"
  unfolding inmem_tests_def by (intro all_pass_intros; code_simp)

section \<open>http.rs\<close>

text \<open>A request to an address where no server listens fails, as a timeout or not.\<close>

definition test_http_timeout :: "unit option" where
  "test_http_timeout = ensure (list_all (\<lambda>is_timeout.
     http_request_vote (http_new (hm_insert 2 ''127.0.0.1:59999'' []) 100) (\<lambda>body. Err body) (\<lambda>url. Http_error is_timeout) 2
       \<in> {Err ConnectionFailed, Err Timeout}) [False, True])"

definition test_http_node_not_found :: "unit option" where
  "test_http_node_not_found = ensure (http_request_vote (http_new [] 5000) (\<lambda>body. Err body) (\<lambda>url. Http_body []) 2 = Err NodeNotFound)"

definition http_tests :: "unit option list" where
  "http_tests = [test_http_timeout, test_http_node_not_found]"

lemma http_tests_pass: "all_pass http_tests"
  unfolding http_tests_def by (intro all_pass_intros; code_simp)

end
