(* ===== verification/Test_Nodes.thy ===== *)
theory Test_Nodes
  imports Transport_Tests Raft_Server
begin

text \<open>
  Nodes connected by the in-memory transport, for the tests of src/core/raft\_node.rs and
  src/core/raft\_server.rs. A node is its core and the channel of requests that wait for it. In a round one
  node runs an operation while the nodes in \<open>live\<close> process one request each, as in
  \<open>tokio::join!(node1.request_votes(), handle2.process_one_shared(..), ..)\<close>. A request to a node that does not
  take part stays in its channel; the caller gets no reply to it, also when the node processes it later.
\<close>

type_synonym 'm nodes = "(u64, node_handle \<times> (memory_storage, 'm) raft_core) hashmap"

record 'm bench =
  machines :: "u64 \<Rightarrow> 'm sm_ops"
  net_ids :: "u64 list"
  net_timeout :: "duration option"

definition idle :: "(memory_storage, 'm) raft_core \<Rightarrow> node_handle \<times> (memory_storage, 'm) raft_core" where
  "idle c = (\<lparr>receiver = []\<rparr>, c)"

definition core_of :: "'m nodes \<Rightarrow> u64 \<Rightarrow> (memory_storage, 'm) raft_core option" where
  "core_of fs i = map_option snd (hm_get fs i)"

definition node_has :: "'m nodes \<Rightarrow> u64 \<Rightarrow> ((memory_storage, 'm) raft_core \<Rightarrow> bool) \<Rightarrow> bool" where
  "node_has fs i P = (case core_of fs i of Some c \<Rightarrow> P c | None \<Rightarrow> False)"

text \<open>A node acts on its own core, under the lock.\<close>

definition on_node ::
  "u64 \<Rightarrow> ((memory_storage, 'm) raft_core \<Rightarrow> ('r \<times> (memory_storage, 'm) raft_core) option) \<Rightarrow> 'm nodes \<Rightarrow>
   ('r \<times> 'm nodes) option" where
  "on_node i f fs = do {
     (h, c) \<leftarrow> hm_get fs i;
     (r, c) \<leftarrow> f c;
     Some (r, hm_insert i (h, c) fs)
   }"

definition change :: "u64 \<Rightarrow> ((memory_storage, 'm) raft_core \<Rightarrow> (memory_storage, 'm) raft_core option) \<Rightarrow> 'm nodes \<Rightarrow>
   'm nodes option" where
  "change i f fs = map_option snd (on_node i (\<lambda>c. map_option (\<lambda>c. ((), c)) (f c)) fs)"

definition drain :: "u64 \<Rightarrow> 'm nodes \<Rightarrow> 'm nodes option" where
  "drain i fs = do { (h, c) \<leftarrow> hm_get fs i; Some (hm_insert i (drain_pending h, c) fs) }"

section \<open>Rounds\<close>

definition reply_of :: "'m bench \<Rightarrow> u64 list \<Rightarrow> 'm nodes \<Rightarrow> u64 \<Rightarrow> request \<Rightarrow> response option" where
  "reply_of b live fs p req =
     (case hm_get fs p of
        None \<Rightarrow> None
      | Some (h, c) \<Rightarrow>
          if p \<in> set live \<and> receiver h = []
          then (case process_one_shared mem_ops (machines b p) 5 (\<lambda>c. c) (h\<lparr>receiver := [req]\<rparr>) c of
                  Some (_, rsp, _) \<Rightarrow> rsp
                | None \<Rightarrow> None)
          else None)"

definition fate_of :: "(response \<Rightarrow> 'r option) \<Rightarrow> response option \<Rightarrow> 'r fate" where
  "fate_of sel rsp = (case rsp of Some r \<Rightarrow> Reply_after 0 (sel r) | None \<Rightarrow> No_reply)"

definition joined ::
  "'m bench \<Rightarrow> inmem_transport \<Rightarrow> u64 list \<Rightarrow> u64 list \<Rightarrow> 'm nodes \<Rightarrow> (memory_storage, 'm) network" where
  "joined b t ps live fs =
     \<lparr>vote_reply = \<lambda>p args. the (inmem_request_vote t p (fate_of as_vote (reply_of b live fs p (Req_RequestVote args)))),
      append_reply = \<lambda>p args. the (inmem_append_entries t p (fate_of as_append (reply_of b live fs p (Req_AppendEntries args)))),
      snapshot_reply = \<lambda>p args. the (inmem_install_snapshot t p (fate_of as_install (reply_of b live fs p (Req_InstallSnapshot args)))),
      entry_env = \<lambda>c. c, arrivals = map (\<lambda>p. (p, \<lambda>c. c)) ps, exit_env = \<lambda>c. c, clock = 5\<rparr>"

fun delivered :: "'m bench \<Rightarrow> u64 list \<Rightarrow> (u64 \<Rightarrow> request option) \<Rightarrow> 'm nodes \<Rightarrow> 'm nodes option" where
  "delivered b live req [] = Some []"
| "delivered b live req ((p, h, c) # fs) = do {
     h \<leftarrow> Some (case req p of Some r \<Rightarrow> h\<lparr>receiver := receiver h @ [r]\<rparr> | None \<Rightarrow> h);
     x \<leftarrow> (if p \<in> set live
           then map_option (\<lambda>(_, _, h, c). (h, c)) (process_one_shared mem_ops (machines b p) 5 (\<lambda>c. c) h c)
           else Some (h, c));
     fs \<leftarrow> delivered b live req fs;
     Some ((p, x) # fs)
   }"

definition run_round ::
  "'m bench \<Rightarrow> u64 \<Rightarrow> u64 list \<Rightarrow>
   ((memory_storage, 'm) network \<Rightarrow> (memory_storage, 'm) raft_core \<Rightarrow> ('r \<times> (memory_storage, 'm) raft_core) option) \<Rightarrow>
   ((memory_storage, 'm) raft_core \<Rightarrow> u64 \<Rightarrow> request option) \<Rightarrow> 'm nodes \<Rightarrow> ('r \<times> 'm nodes) option" where
  "run_round b i live op req fs = do {
     t \<leftarrow> transport_of (net_ids b) (net_timeout b) i;
     (h, c) \<leftarrow> hm_get fs i;
     (r, c') \<leftarrow> op (joined b t (peers c) live fs) c;
     fs \<leftarrow> delivered b live (\<lambda>p. if p \<in> set (peers c) then req c p else None) fs;
     Some (r, hm_insert i (h, c') fs)
   }"

definition vote_round :: "'m bench \<Rightarrow> u64 \<Rightarrow> u64 list \<Rightarrow> 'm nodes \<Rightarrow> (bool \<times> 'm nodes) option" where
  "vote_round b i live =
     run_round b i live (request_votes mem_ops) (\<lambda>c p. Some (Req_RequestVote (vote_request c)))"

definition replication_round ::
  "'m bench \<Rightarrow> u64 \<Rightarrow> u64 list \<Rightarrow> u64 \<Rightarrow> 'm nodes \<Rightarrow> (apply_result option \<times> 'm nodes) option" where
  "replication_round b i live n =
     run_round b i live (\<lambda>N. replicate_to_peers mem_ops (machines b i) N n)
       (\<lambda>c p. Some (Req_AppendEntries (replicate_request n c p)))"

definition heartbeat_round ::
  "'m bench \<Rightarrow> u64 \<Rightarrow> u64 list \<Rightarrow> 'm nodes \<Rightarrow> ((bool \<times> nat) \<times> 'm nodes) option" where
  "heartbeat_round b i live =
     run_round b i live (send_heartbeat mem_ops (machines b i))
       (\<lambda>c p. map_option
          (\<lambda>req. case req of AppendEntriesRequest args _ \<Rightarrow> Req_AppendEntries args
                          | InstallSnapshotRequest args \<Rightarrow> Req_InstallSnapshot args)
          (heartbeat_request mem_ops c p))"

text \<open>The server loop serves a command or a read of a client.\<close>

definition submit_requests ::
  "'m bench \<Rightarrow> u64 \<Rightarrow> string \<Rightarrow> (memory_storage, 'm) raft_core \<Rightarrow> u64 \<Rightarrow> request option" where
  "submit_requests b i x c p =
     (case submit_entry mem_ops (machines b i) x c of
        Some (Ok n, c) \<Rightarrow> Some (Req_AppendEntries (replicate_request n c p))
      | _ \<Rightarrow> None)"

definition submit_round ::
  "'m bench \<Rightarrow> u64 \<Rightarrow> u64 list \<Rightarrow> string \<Rightarrow> 'm nodes \<Rightarrow> ((string, raft_error) result \<times> 'm nodes) option" where
  "submit_round b i live x =
     run_round b i live (\<lambda>N. handle_submit mem_ops (machines b i) N x)
       (submit_requests b i x)"

definition read_round ::
  "'m bench \<Rightarrow> u64 \<Rightarrow> u64 list \<Rightarrow> 'm nodes \<Rightarrow> ((u64, raft_error) result option \<times> 'm nodes) option" where
  "read_round b i live =
     run_round b i live (\<lambda>N c. Some (handle_read_index N (\<lambda>c. c) [(\<lambda>c. c, 0)] c))
       (\<lambda>c p. if role c = Leader then Some (Req_AppendEntries (confirm_request c p)) else None)"

section \<open>Clusters\<close>

definition three_bench :: "duration option \<Rightarrow> test_sm bench" where
  "three_bench tmo = \<lparr>machines = \<lambda>p. test_ops, net_ids = [1, 2, 3], net_timeout = tmo\<rparr>"

definition kv_bench :: "u64 list \<Rightarrow> duration option \<Rightarrow> kv_store bench" where
  "kv_bench ids tmo = \<lparr>machines = \<lambda>p. kv_test_ops, net_ids = ids, net_timeout = tmo\<rparr>"

definition three_cores :: "test_sm nodes option" where
  "three_cores = do {
     c1 \<leftarrow> new_test_core 1 [2, 3];
     c2 \<leftarrow> new_test_core 2 [1, 3];
     c3 \<leftarrow> new_test_core 3 [1, 2];
     Some [(1, idle c1), (2, idle c2), (3, idle c3)]
   }"

abbreviation "b3 \<equiv> three_bench None"
abbreviation "b3t \<equiv> three_bench (Some 100)"

definition three_kv_cores :: "kv_store nodes option" where
  "three_kv_cores = do {
     c1 \<leftarrow> new_kv_core 1 [2, 3] mem_new;
     c2 \<leftarrow> new_kv_core 2 [1, 3] mem_new;
     c3 \<leftarrow> new_kv_core 3 [1, 2] mem_new;
     Some [(1, idle c1), (2, idle c2), (3, idle c3)]
   }"

text \<open>Node \<open>i\<close> starts an election and the live nodes vote.\<close>

definition win_election :: "'m bench \<Rightarrow> u64 \<Rightarrow> u64 list \<Rightarrow> 'm nodes \<Rightarrow> 'm nodes option" where
  "win_election b i live fs = do {
     fs \<leftarrow> change i elect fs;
     (_, fs) \<leftarrow> vote_round b i live fs;
     ensure (node_has fs i (\<lambda>c. role c = Leader));
     Some fs
   }"

definition append_at :: "u64 \<Rightarrow> string list \<Rightarrow> 'm nodes \<Rightarrow> 'm nodes option" where
  "append_at i xs = change i (clients mem_ops xs)"

text \<open>At most \<open>n\<close> heartbeats, until the condition holds.\<close>

fun heartbeats ::
  "'m bench \<Rightarrow> u64 \<Rightarrow> u64 list \<Rightarrow> ('m nodes \<Rightarrow> bool) \<Rightarrow> nat \<Rightarrow> 'm nodes \<Rightarrow> 'm nodes option" where
  "heartbeats b i live stop 0 fs = Some fs"
| "heartbeats b i live stop (Suc n) fs = do {
     (_, fs) \<leftarrow> heartbeat_round b i live fs;
     if stop fs then Some fs else heartbeats b i live stop n fs
   }"

end
