(* ===== verification/Node_Tests.thy ===== *)
theory Node_Tests
  imports Test_Nodes
begin

text \<open>
  The unit tests of src/core/raft\_node.rs: elections, replication and heartbeats between the nodes of
  \<open>Test_Nodes\<close>.
\<close>

section \<open>Elections, replication, heartbeats\<close>

definition node_test_election :: "unit option" where
  "node_test_election = do {
     fs \<leftarrow> three_cores;
     fs \<leftarrow> change 1 elect fs;
     (became_leader, fs) \<leftarrow> vote_round b3 1 [2, 3] fs;
     ensure (became_leader \<and> node_has fs 1 (\<lambda>c. role c = Leader))
   }"

definition test_replication :: "unit option" where
  "test_replication = do {
     fs \<leftarrow> three_cores;
     fs \<leftarrow> win_election b3 1 [2, 3] fs;
     (e, fs) \<leftarrow> on_node 1 (client ''SET x=1'') fs;
     n \<leftarrow> map_option le_index e;
     (_, fs) \<leftarrow> replication_round b3 1 [2, 3] n fs;
     ensure (node_has fs 1 (\<lambda>c. commit_index c = n));
     ensure (node_has fs 2 (\<lambda>c. length (rlog c) = 2) \<and> node_has fs 3 (\<lambda>c. length (rlog c) = 2))
   }"

definition test_heartbeat :: "unit option" where
  "test_heartbeat = do {
     fs \<leftarrow> three_cores;
     fs \<leftarrow> win_election b3 1 [2, 3] fs;
     ((still_leader, _), fs) \<leftarrow> heartbeat_round b3 1 [2, 3] fs;
     ensure (still_leader \<and> node_has fs 1 (\<lambda>c. role c = Leader));
     ensure (node_has fs 2 (\<lambda>c. role c = Follower \<and> current_term c = 1));
     ensure (node_has fs 3 (\<lambda>c. role c = Follower \<and> current_term c = 1))
   }"

definition test_heartbeat_catches_up_followers :: "unit option" where
  "test_heartbeat_catches_up_followers = do {
     fs \<leftarrow> three_cores;
     fs \<leftarrow> win_election b3 1 [2, 3] fs;
     fs \<leftarrow> append_at 1 [''SET x=1'', ''SET y=2''] fs;
     ensure (node_has fs 2 (\<lambda>c. length (rlog c) = 0) \<and> node_has fs 3 (\<lambda>c. length (rlog c) = 0));
     (_, fs) \<leftarrow> heartbeat_round b3 1 [2, 3] fs;
     ensure (node_has fs 2 (\<lambda>c. length (rlog c) = 3) \<and> node_has fs 3 (\<lambda>c. length (rlog c) = 3));
     ensure (node_has fs 2 (\<lambda>c. map le_command (rlog c) = [NOOP_COMMAND, ''SET x=1'', ''SET y=2'']))
   }"

definition test_multiple_entries_replicated :: "unit option" where
  "test_multiple_entries_replicated = do {
     fs \<leftarrow> three_cores;
     fs \<leftarrow> win_election b3 1 [2, 3] fs;
     fs \<leftarrow> append_at 1 [''CMD 1'', ''CMD 2''] fs;
     (e, fs) \<leftarrow> on_node 1 (client ''CMD 3'') fs;
     n \<leftarrow> map_option le_index e;
     (_, fs) \<leftarrow> replication_round b3 1 [2, 3] n fs;
     ensure (node_has fs 1 (\<lambda>c. commit_index c = n));
     ensure (node_has fs 2 (\<lambda>c. length (rlog c) = 4) \<and> node_has fs 3 (\<lambda>c. length (rlog c) = 4))
   }"

definition test_election_with_one_peer_timeout :: "unit option" where
  "test_election_with_one_peer_timeout = do {
     fs \<leftarrow> three_cores;
     fs \<leftarrow> change 1 elect fs;
     (became_leader, fs) \<leftarrow> vote_round b3t 1 [2] fs;
     ensure (became_leader \<and> node_has fs 1 (\<lambda>c. role c = Leader))
   }"

definition test_replication_with_one_peer_timeout :: "unit option" where
  "test_replication_with_one_peer_timeout = do {
     fs \<leftarrow> three_cores;
     fs \<leftarrow> win_election b3t 1 [2] fs;
     (e, fs) \<leftarrow> on_node 1 (client ''SET x=1'') fs;
     n \<leftarrow> map_option le_index e;
     (_, fs) \<leftarrow> replication_round b3t 1 [2] n fs;
     ensure (node_has fs 1 (\<lambda>c. commit_index c = n));
     ensure (node_has fs 2 (\<lambda>c. length (rlog c) = 2))
   }"

definition test_heartbeat_with_timeout :: "unit option" where
  "test_heartbeat_with_timeout = do {
     fs \<leftarrow> three_cores;
     fs \<leftarrow> win_election b3t 1 [2, 3] fs;
     ((still_leader, _), fs) \<leftarrow> heartbeat_round b3t 1 [2] fs;
     ensure (still_leader \<and> node_has fs 1 (\<lambda>c. role c = Leader))
   }"

definition test_all_peers_timeout_election_fails :: "unit option" where
  "test_all_peers_timeout_election_fails = do {
     fs \<leftarrow> three_cores;
     fs \<leftarrow> change 1 elect fs;
     (became_leader, fs) \<leftarrow> vote_round b3t 1 [] fs;
     ensure (\<not> became_leader \<and> node_has fs 1 (\<lambda>c. role c = Candidate))
   }"

definition node_tests :: "unit option list" where
  "node_tests =
     [node_test_election,
      test_replication,
      test_heartbeat,
      test_heartbeat_catches_up_followers,
      test_multiple_entries_replicated,
      test_election_with_one_peer_timeout,
      test_replication_with_one_peer_timeout,
      test_heartbeat_with_timeout,
      test_all_peers_timeout_election_fails]"

lemma node_tests_pass: "all_pass node_tests"
  unfolding node_tests_def by (intro all_pass_intros; code_simp)

section \<open>Snapshots between nodes\<close>

text \<open>A leader with the commands after its no-op, of which it has applied the first \<open>n\<close> entries and taken a
  snapshot.\<close>

definition snapshot_leader :: "u64 list \<Rightarrow> string list \<Rightarrow> u64 \<Rightarrow> kv_core option" where
  "snapshot_leader ps cmds n = do {
     c \<leftarrow> new_kv_core 1 ps mem_new;
     c \<leftarrow> elect c;
     c \<leftarrow> lead c;
     c \<leftarrow> clients mem_ops cmds c;
     (_, c) \<leftarrow> apply_kv (c\<lparr>commit_index := n\<rparr>);
     must_snapshot mem_ops kv_test_ops c
   }"

definition test_heartbeat_sends_snapshot_to_lagging_follower :: "unit option" where
  "test_heartbeat_sends_snapshot_to_lagging_follower = do {
     c1 \<leftarrow> snapshot_leader [2, 3] [''SET x 1'', ''SET y 2'', ''SET z 3''] 4;
     ensure (snapshot_last_index c1 = 4 \<and> snapshot_last_term c1 = 1 \<and> rlog c1 = []);
     c2 \<leftarrow> new_kv_core 2 [1, 3] mem_new;
     c3 \<leftarrow> new_kv_core 3 [1, 2] mem_new;
     (_, fs) \<leftarrow> heartbeat_round (kv_bench [1, 2, 3] None) 1 [2, 3] [(1, idle c1), (2, idle c2), (3, idle c3)];
     ensure (node_has fs 2 (\<lambda>c. snapshot_last_index c = 4 \<and> snapshot_last_term c = 1 \<and> last_applied c = 4))
   }"

definition test_heartbeat_handles_snapshot_boundary :: "unit option" where
  "test_heartbeat_handles_snapshot_boundary = do {
     c1 \<leftarrow> snapshot_leader [2] [''SET x 1'', ''SET y 2''] 3;
     (_, c1) \<leftarrow> client ''SET z 3'' c1;
     ensure (snapshot_last_index c1 = 3 \<and> length (rlog c1) = 1);
     c2 \<leftarrow> new_kv_core 2 [1] mem_new;
     (_, fs) \<leftarrow> heartbeat_round (kv_bench [1, 2] None) 1 [2] [(1, idle c1), (2, idle c2)];
     ensure (node_has fs 2 (\<lambda>c. snapshot_last_index c = 3));
     (_, fs) \<leftarrow> heartbeat_round (kv_bench [1, 2] None) 1 [2] fs;
     ensure (node_has fs 2 (\<lambda>c. length (rlog c) = 1 \<and> le_index (rlog c ! 0) = 4 \<and> le_command (rlog c ! 0) = ''SET z 3''))
   }"

definition test_follower_catches_up_after_snapshot :: "unit option" where
  "test_follower_catches_up_after_snapshot = do {
     c1 \<leftarrow> snapshot_leader [2]
       (map (\<lambda>i. ''SET key'' @ show_u64 i @ '' value'' @ show_u64 i) (from_to 1 10)) 9;
     (_, c1) \<leftarrow> apply_kv (c1\<lparr>commit_index := 11\<rparr>);
     ensure (snapshot_last_index c1 = 9 \<and> length (rlog c1) = 2);
     c2 \<leftarrow> new_kv_core 2 [1] mem_new;
     (_, fs) \<leftarrow> heartbeat_round (kv_bench [1, 2] None) 1 [2] [(1, idle c1), (2, idle c2)];
     ensure (node_has fs 2 (\<lambda>c. snapshot_last_index c = 9 \<and> last_applied c = 9));
     (_, fs) \<leftarrow> heartbeat_round (kv_bench [1, 2] None) 1 [2] fs;
     ensure (node_has fs 2 (\<lambda>c. length (rlog c) = 2 \<and> le_index (rlog c ! 0) = 10 \<and> le_index (rlog c ! 1) = 11));
     (_, fs) \<leftarrow> heartbeat_round (kv_bench [1, 2] None) 1 [2] fs;
     ensure (node_has fs 2 (\<lambda>c. commit_index c = 11 \<and> last_applied c = 11))
   }"

definition test_mixed_snapshot_and_log_replication :: "unit option" where
  "test_mixed_snapshot_and_log_replication = do {
     c1 \<leftarrow> snapshot_leader [2, 3] (map set_cmd (from_to 1 5)) 3;
     (_, c1) \<leftarrow> apply_kv (c1\<lparr>commit_index := 5\<rparr>);
     loaded \<leftarrow> must (load_snapshot mem_ops c1);
     sn \<leftarrow> loaded;
     c2 \<leftarrow> new_kv_core 2 [1, 3] mem_new;
     (_, c2) \<leftarrow> install_kv (snapshot_args 1 (last_included_index (metadata sn)) (last_included_term (metadata sn))
       (snapshot_data sn)) c2;
     c3 \<leftarrow> new_kv_core 3 [1, 2] mem_new;
     (_, fs) \<leftarrow> heartbeat_round (kv_bench [1, 2, 3] None) 1 [2, 3]
       [(1, idle (c1\<lparr>next_index := hm_insert 2 4 (next_index c1)\<rparr>)), (2, idle c2), (3, idle c3)];
     ensure (node_has fs 2 (\<lambda>c. snapshot_last_index c = 3 \<and> length (rlog c) = 3));
     ensure (node_has fs 2 (\<lambda>c. le_index (rlog c ! 0) = 4 \<and> le_index (rlog c ! 2) = 6));
     ensure (node_has fs 3 (\<lambda>c. snapshot_last_index c = 3 \<and> last_applied c = 3))
   }"

definition test_replicate_to_peers_after_snapshot :: "unit option" where
  "test_replicate_to_peers_after_snapshot = do {
     fs \<leftarrow> three_kv_cores;
     fs \<leftarrow> win_election (kv_bench [1, 2, 3] None) 1 [2, 3] fs;
     fs \<leftarrow> append_at 1 (map set_cmd (from_to 1 9)) fs;
     (_, fs) \<leftarrow> replication_round (kv_bench [1, 2, 3] None) 1 [2, 3] 10 fs;
     ensure (node_has fs 1 (\<lambda>c. commit_index c = 10));
     (_, fs) \<leftarrow> on_node 1 apply_kv fs;
     fs \<leftarrow> change 1 (must_snapshot mem_ops kv_test_ops) fs;
     ensure (node_has fs 1 (\<lambda>c. snapshot_last_index c = 10 \<and> snapshot_last_term c = 1 \<and> rlog c = []));
     (e, fs) \<leftarrow> on_node 1 (client ''SET k10 v10'') fs;
     ensure (map_option le_index e = Some 11);
     (_, fs) \<leftarrow> replication_round (kv_bench [1, 2, 3] None) 1 [2, 3] 11 fs;
     ensure (node_has fs 1 (\<lambda>c. commit_index c = 11));
     ensure (node_has fs 2 (\<lambda>c. last_log_index c = 11) \<and> node_has fs 3 (\<lambda>c. last_log_index c = 11))
   }"

definition node_snapshot_tests :: "unit option list" where
  "node_snapshot_tests =
     [test_heartbeat_sends_snapshot_to_lagging_follower,
      test_heartbeat_handles_snapshot_boundary,
      test_follower_catches_up_after_snapshot,
      test_mixed_snapshot_and_log_replication,
      test_replicate_to_peers_after_snapshot]"

lemma test_heartbeat_sends_snapshot_to_lagging_follower_passes: "test_heartbeat_sends_snapshot_to_lagging_follower = Some ()"
  by code_simp

lemma test_heartbeat_handles_snapshot_boundary_passes: "test_heartbeat_handles_snapshot_boundary = Some ()"
  by code_simp

lemma test_follower_catches_up_after_snapshot_passes: "test_follower_catches_up_after_snapshot = Some ()"
  by code_simp

lemma test_mixed_snapshot_and_log_replication_passes: "test_mixed_snapshot_and_log_replication = Some ()"
  by code_simp

lemma test_replicate_to_peers_after_snapshot_passes: "test_replicate_to_peers_after_snapshot = Some ()"
  by code_simp

lemma node_snapshot_tests_pass: "all_pass node_snapshot_tests"
    by (simp add: node_snapshot_tests_def all_pass_def
      test_heartbeat_sends_snapshot_to_lagging_follower_passes test_heartbeat_handles_snapshot_boundary_passes
      test_follower_catches_up_after_snapshot_passes test_mixed_snapshot_and_log_replication_passes
      test_replicate_to_peers_after_snapshot_passes)

end
