(* ===== verification/Server_Tests.thy ===== *)
theory Server_Tests
  imports Test_Nodes
begin

text \<open>
  The unit tests of src/core/raft\_server.rs. Where a test starts the server loop, the loop serves what the
  test asks of it, in that order; the heartbeats that the test waits for are rounds of their own. The test
  with storage on files is left out.
\<close>

section \<open>Means\<close>

definition is_not_leader :: "('a, raft_error) result \<Rightarrow> bool" where
  "is_not_leader r = (case r of Err (NotLeader _) \<Rightarrow> True | _ \<Rightarrow> False)"

definition is_ok :: "('a, 'e) result \<Rightarrow> bool" where
  "is_ok r = (case r of Ok _ \<Rightarrow> True | Err _ \<Rightarrow> False)"

definition five_cores :: "test_sm nodes option" where
  "five_cores = do {
     c1 \<leftarrow> new_test_core 1 [2, 3, 4, 5];
     c2 \<leftarrow> new_test_core 2 [1, 3, 4, 5];
     c3 \<leftarrow> new_test_core 3 [1, 2, 4, 5];
     c4 \<leftarrow> new_test_core 4 [1, 2, 3, 5];
     c5 \<leftarrow> new_test_core 5 [1, 2, 3, 4];
     Some [(1, idle c1), (2, idle c2), (3, idle c3), (4, idle c4), (5, idle c5)]
   }"

definition five_bench :: "test_sm bench" where
  "five_bench = \<lparr>machines = \<lambda>p. test_ops, net_ids = [1, 2, 3, 4, 5], net_timeout = Some 100\<rparr>"

abbreviation "applied_at c \<equiv> applied (state_machine c)"

section \<open>Elections and commands\<close>

definition test_server_not_leader :: "unit option" where
  "test_server_not_leader = do {
     fs \<leftarrow> three_cores;
     (result, fs) \<leftarrow> submit_round b3 1 [] ''SET x=1'' fs;
     ensure (is_not_leader result)
   }"

definition test_election_via_server :: "unit option" where
  "test_election_via_server = do {
     fs \<leftarrow> three_cores;
     fs \<leftarrow> change 1 elect fs;
     (became_leader, fs) \<leftarrow> vote_round b3 1 [2, 3] fs;
     ensure (became_leader);
     ensure (node_has fs 1 (\<lambda>c. role c = Leader))
   }"

definition test_replication_via_server :: "unit option" where
  "test_replication_via_server = do {
     fs \<leftarrow> three_cores;
     fs \<leftarrow> win_election b3 1 [2, 3] fs;
     (e, fs) \<leftarrow> on_node 1 (client ''SET x=1'') fs;
     n \<leftarrow> map_option le_index e;
     (_, fs) \<leftarrow> replication_round b3 1 [2, 3] n fs;
     ensure (node_has fs 1 (\<lambda>c. commit_index c = n));
     ensure (node_has fs 2 (\<lambda>c. length (rlog c) = 2));
     ensure (node_has fs 3 (\<lambda>c. length (rlog c) = 2))
   }"

text \<open>The timers of the next two tests, for three draws of the timeout.\<close>

definition draws :: "duration option list" where
  "draws = map (\<lambda>rnd. random_election_timeout rnd (with_election_timeout 300 500 default_config)) [0, 77, 200]"

lemma draws_code [code]: "draws = [Some 300, Some 377, Some 500]"
  by (simp add: draws_def random_election_timeout_def with_election_timeout_def u64_bound_def)

text \<open>The branch of the loop at \<open>now\<close>: the peers process one request each, the vote request, and are gone
  when the first heartbeat is sent.\<close>

definition election_branch :: "instant \<Rightarrow> duration \<Rightarrow> test_sm nodes \<Rightarrow> test_core option" where
  "election_branch now tmo fs = do {
     t \<leftarrow> transport_of [1, 2, 3] None 1;
     (_, c) \<leftarrow> hm_get fs 1;
     let N1 = joined b3 t (peers c) [2, 3] fs;
     election_tick mem_ops test_ops tmo (\<lambda>c. c) (\<lambda>c. c) (N1\<lparr>clock := now\<rparr>)
       (N1\<lparr>clock := now, append_reply := \<lambda>p args. Err ConnectionFailed\<rparr>) c
   }"

definition test_election_timeout_triggers_election :: "unit option" where
  "test_election_timeout_triggers_election = do {
     fs \<leftarrow> three_cores;
     ensure (node_has fs 1 (\<lambda>c. role c = Follower \<and> current_term c = 0));
     ensure (list_all (\<lambda>tmo. case Option.bind tmo (\<lambda>t. election_branch 500 t fs) of
       Some c \<Rightarrow> role c = Leader \<and> current_term c \<ge> 1 | None \<Rightarrow> False) draws)
   }"

definition test_no_election_before_timeout :: "unit option" where
  "test_no_election_before_timeout = do {
     fs \<leftarrow> three_cores;
     c \<leftarrow> core_of fs 1;
     ensure (role c = Follower \<and> current_term c = 0);
     ensure (list_all (\<lambda>tmo. case tmo of
       Some t \<Rightarrow> get_election_deadline t c > 200 | None \<Rightarrow> False) draws);
     ensure (list_all (\<lambda>tmo. case Option.bind tmo (\<lambda>t. election_branch 200 t fs) of
       Some c \<Rightarrow> role c = Follower \<and> current_term c = 0 | None \<Rightarrow> False) draws)
   }"

definition test_client_command_flow :: "unit option" where
  "test_client_command_flow = do {
     fs \<leftarrow> three_cores;
     fs \<leftarrow> win_election b3t 1 [2, 3] fs;
     (result, fs) \<leftarrow> submit_round b3t 1 [2, 3] ''SET x=42'' fs;
     ensure (is_ok result);
     ensure (node_has fs 1 (\<lambda>c. length (rlog c) = 2 \<and> le_command (rlog c ! 1) = ''SET x=42''));
     ensure (node_has fs 1 (\<lambda>c. commit_index c = 2 \<and> last_applied c = 2));
     ensure (node_has fs 2 (\<lambda>c. length (rlog c) = 2));
     ensure (node_has fs 3 (\<lambda>c. length (rlog c) = 2))
   }"

definition test_multiple_commands_in_sequence :: "unit option" where
  "test_multiple_commands_in_sequence = do {
     fs \<leftarrow> three_cores;
     fs \<leftarrow> win_election b3t 1 [2, 3] fs;
     (r1, fs) \<leftarrow> submit_round b3t 1 [2, 3] ''SET x=1'' fs;
     (r2, fs) \<leftarrow> submit_round b3t 1 [2, 3] ''SET y=2'' fs;
     (r3, fs) \<leftarrow> submit_round b3t 1 [2, 3] ''SET z=3'' fs;
     ensure (is_ok r1 \<and> is_ok r2 \<and> is_ok r3);
     ensure (node_has fs 1 (\<lambda>c. commit_index c = 4));
     ensure (node_has fs 2 (\<lambda>c. length (rlog c) = 4));
     ensure (node_has fs 3 (\<lambda>c. length (rlog c) = 4))
   }"

definition test_candidate_rejects_commands :: "unit option" where
  "test_candidate_rejects_commands = do {
     fs \<leftarrow> three_cores;
     fs \<leftarrow> change 1 elect fs;
     ensure (node_has fs 1 (\<lambda>c. role c = Candidate));
     (result, fs) \<leftarrow> submit_round b3t 1 [] ''SET x=1'' fs;
     ensure (is_not_leader result)
   }"

definition test_command_fails_when_leader_loses_leadership :: "unit option" where
  "test_command_fails_when_leader_loses_leadership = do {
     fs \<leftarrow> three_cores;
     fs \<leftarrow> change 1 elect fs;
     fs \<leftarrow> change 2 (\<lambda>c. Some (c\<lparr>current_term := 5\<rparr>)) fs;
     (_, fs) \<leftarrow> vote_round b3t 1 [2, 3] fs;
     ensure (node_has fs 1 (\<lambda>c. role c = Follower \<and> current_term c = 5));
     (result, fs) \<leftarrow> submit_round b3t 1 [] ''SET x=1'' fs;
     ensure (is_not_leader result)
   }"

definition test_entry_applied_when_quorum_reached :: "unit option" where
  "test_entry_applied_when_quorum_reached = do {
     fs \<leftarrow> three_cores;
     fs \<leftarrow> win_election b3t 1 [2, 3] fs;
     ensure (node_has fs 1 (\<lambda>c. applied_at c = []));
     (result, fs) \<leftarrow> submit_round b3t 1 [2, 3] ''SET x=42'' fs;
     ensure (is_ok result);
     ensure (node_has fs 1 (\<lambda>c. commit_index c = 2 \<and> last_applied c = 2));
     ensure (node_has fs 1 (\<lambda>c. length (applied_at c) = 2 \<and> applied_at c ! 1 = ''SET x=42''))
   }"

definition test_entry_not_applied_without_quorum :: "unit option" where
  "test_entry_not_applied_without_quorum = do {
     fs \<leftarrow> three_cores;
     fs \<leftarrow> win_election b3t 1 [2, 3] fs;
     fs \<leftarrow> append_at 1 [''CMD during partition''] fs;
     (_, fs) \<leftarrow> replication_round b3t 1 [] 2 fs;
     ensure (node_has fs 1 (\<lambda>c. length (rlog c) = 2 \<and> commit_index c = 0 \<and> last_applied c = 0 \<and> applied_at c = []))
   }"

definition test_follower_applies_entry_on_commit_notification :: "unit option" where
  "test_follower_applies_entry_on_commit_notification = do {
     fs \<leftarrow> three_cores;
     fs \<leftarrow> win_election b3t 1 [2, 3] fs;
     (result, fs) \<leftarrow> submit_round b3t 1 [2, 3] ''SET x=42'' fs;
     ensure (is_ok result);
     ensure (node_has fs 1 (\<lambda>c. commit_index c = 2 \<and> last_applied c = 2));
     ensure (node_has fs 1 (\<lambda>c. length (applied_at c) = 2 \<and> applied_at c ! 1 = ''SET x=42''));
     ensure (node_has fs 2 (\<lambda>c. length (rlog c) = 2));
     ensure (node_has fs 3 (\<lambda>c. length (rlog c) = 2));
     (_, fs) \<leftarrow> heartbeat_round b3t 1 [2, 3] fs;
     ensure (node_has fs 2 (\<lambda>c. commit_index c = 2 \<and> last_applied c = 2));
     ensure (node_has fs 3 (\<lambda>c. commit_index c = 2 \<and> last_applied c = 2));
     ensure (node_has fs 2 (\<lambda>c. length (applied_at c) = 2 \<and> applied_at c ! 1 = ''SET x=42''));
     ensure (node_has fs 3 (\<lambda>c. length (applied_at c) = 2 \<and> applied_at c ! 1 = ''SET x=42''))
   }"

definition server_tests :: "unit option list" where
  "server_tests =
     [test_server_not_leader,
      test_election_via_server,
      test_replication_via_server,
      test_election_timeout_triggers_election,
      test_no_election_before_timeout,
      test_client_command_flow,
      test_multiple_commands_in_sequence,
      test_candidate_rejects_commands,
      test_command_fails_when_leader_loses_leadership,
      test_entry_applied_when_quorum_reached,
      test_entry_not_applied_without_quorum,
      test_follower_applies_entry_on_commit_notification]"

lemma server_tests_pass: "all_pass server_tests"
  unfolding server_tests_def by (intro all_pass_intros; code_simp)

section \<open>Failures of nodes and of the network\<close>

definition test_leader_failover :: "unit option" where
  "test_leader_failover = do {
     fs \<leftarrow> three_cores;
     fs \<leftarrow> win_election b3t 1 [2, 3] fs;
     term1 \<leftarrow> map_option current_term (core_of fs 1);
     fs \<leftarrow> append_at 1 [''CMD from leader 1''] fs;
     (_, fs) \<leftarrow> replication_round b3t 1 [2, 3] 2 fs;
     ensure (node_has fs 1 (\<lambda>c. commit_index c = 2));
     fs \<leftarrow> win_election b3t 2 [3] fs;
     ensure (node_has fs 2 (\<lambda>c. current_term c > term1 \<and> length (rlog c) = 3 \<and> le_command (rlog c ! 1) = ''CMD from leader 1''))
   }"

definition test_leader_isolated_cannot_commit :: "unit option" where
  "test_leader_isolated_cannot_commit = do {
     fs \<leftarrow> three_cores;
     fs \<leftarrow> win_election b3t 1 [2, 3] fs;
     fs \<leftarrow> append_at 1 [''CMD during partition''] fs;
     (_, fs) \<leftarrow> replication_round b3t 1 [] 2 fs;
     ensure (node_has fs 1 (\<lambda>c. length (rlog c) = 2 \<and> commit_index c = 0))
   }"

definition test_split_brain_prevention :: "unit option" where
  "test_split_brain_prevention = do {
     fs \<leftarrow> three_cores;
     fs \<leftarrow> change 1 elect fs;
     fs \<leftarrow> change 2 elect fs;
     (_, fs) \<leftarrow> vote_round b3t 1 [3] fs;
     ensure (node_has fs 1 (\<lambda>c. role c = Leader));
     (_, fs) \<leftarrow> vote_round b3t 2 [] fs;
     ensure (node_has fs 2 (\<lambda>c. role c = Candidate));
     ensure (map_option current_term (core_of fs 1) = map_option current_term (core_of fs 2))
   }"

definition test_partitioned_node_rejoins :: "unit option" where
  "test_partitioned_node_rejoins = do {
     fs \<leftarrow> three_cores;
     fs \<leftarrow> win_election b3t 1 [2, 3] fs;
     fs \<leftarrow> append_at 1 [''CMD 1'', ''CMD 2''] fs;
     (_, fs) \<leftarrow> replication_round b3t 1 [2] 3 fs;
     ensure (node_has fs 1 (\<lambda>c. commit_index c = 3));
     ensure (node_has fs 2 (\<lambda>c. length (rlog c) = 3));
     ensure (node_has fs 3 (\<lambda>c. length (rlog c) = 0));
     (_, fs) \<leftarrow> heartbeat_round b3t 1 [3] fs;
     ensure (node_has fs 3 (\<lambda>c. length (rlog c) = 3 \<and> le_command (rlog c ! 1) = ''CMD 1'' \<and> le_command (rlog c ! 2) = ''CMD 2''))
   }"

definition test_stale_leader_steps_down :: "unit option" where
  "test_stale_leader_steps_down = do {
     fs \<leftarrow> three_cores;
     fs \<leftarrow> win_election b3t 1 [2, 3] fs;
     ensure (node_has fs 1 (\<lambda>c. current_term c = 1));
     fs \<leftarrow> win_election b3t 2 [3] fs;
     ensure (node_has fs 2 (\<lambda>c. current_term c = 2));
     ((still_leader, _), fs) \<leftarrow> heartbeat_round b3t 1 [2] fs;
     ensure (\<not> still_leader);
     ensure (node_has fs 1 (\<lambda>c. role c = Follower \<and> current_term c = 2))
   }"

definition test_state_machine_recovery_after_reelection :: "unit option" where
  "test_state_machine_recovery_after_reelection = do {
     fs \<leftarrow> three_cores;
     fs \<leftarrow> win_election b3t 1 [2, 3] fs;
     fs \<leftarrow> append_at 1 [''SET x=1'', ''SET y=2''] fs;
     (_, fs) \<leftarrow> replication_round b3t 1 [2, 3] 3 fs;
     ensure (node_has fs 1 (\<lambda>c. commit_index c = 3));
     ensure (node_has fs 1 (\<lambda>c. length (applied_at c) = 3 \<and> drop 1 (applied_at c) = [''SET x=1'', ''SET y=2'']));
     ensure (node_has fs 2 (\<lambda>c. length (rlog c) = 3));
     ensure (node_has fs 3 (\<lambda>c. length (rlog c) = 3));
     fs \<leftarrow> win_election b3t 2 [3] fs;
     ensure (node_has fs 2 (\<lambda>c. current_term c > 1 \<and> length (rlog c) = 4 \<and> le_command (rlog c ! 3) = NOOP_COMMAND));
     (_, fs) \<leftarrow> replication_round b3t 2 [3] 4 fs;
     ensure (node_has fs 2 (\<lambda>c. commit_index c = 4));
     ensure (node_has fs 2 (\<lambda>c. applied_at c = [NOOP_COMMAND, ''SET x=1'', ''SET y=2'', NOOP_COMMAND]));
     ensure (node_has fs 3 (\<lambda>c. length (rlog c) = 4))
   }"

definition test_uncommitted_entries_committed_via_noop :: "unit option" where
  "test_uncommitted_entries_committed_via_noop = do {
     fs \<leftarrow> five_cores;
     fs \<leftarrow> win_election five_bench 1 [2, 3, 4, 5] fs;
     fs \<leftarrow> append_at 1 [''SET x=1'', ''SET y=2''] fs;
     (_, fs) \<leftarrow> replication_round five_bench 1 [2] 3 fs;
     ensure (node_has fs 1 (\<lambda>c. commit_index c = 0));
     ensure (node_has fs 2 (\<lambda>c. length (rlog c) = 3));
     ensure (node_has fs 3 (\<lambda>c. length (rlog c) = 0));
     ensure (node_has fs 4 (\<lambda>c. length (rlog c) = 0));
     ensure (node_has fs 5 (\<lambda>c. length (rlog c) = 0));
     ensure (node_has fs 2 (\<lambda>c. applied_at c = []));
     fs \<leftarrow> drain 3 fs;
     fs \<leftarrow> drain 4 fs;
     fs \<leftarrow> drain 5 fs;
     fs \<leftarrow> win_election five_bench 2 [3, 4, 5] fs;
     ensure (node_has fs 2 (\<lambda>c. length (rlog c) = 4));
     fs \<leftarrow> drain 3 fs;
     fs \<leftarrow> drain 4 fs;
     fs \<leftarrow> drain 5 fs;
     fs \<leftarrow> heartbeats five_bench 2 [3, 4] (\<lambda>fs. node_has fs 2 (\<lambda>c. commit_index c \<ge> 4)) 5 fs;
     ensure (node_has fs 2 (\<lambda>c. commit_index c = 4));
     ensure (node_has fs 2 (\<lambda>c. applied_at c = [NOOP_COMMAND, ''SET x=1'', ''SET y=2'', NOOP_COMMAND]));
     ensure (node_has fs 3 (\<lambda>c. map le_command (rlog c) = [NOOP_COMMAND, ''SET x=1'', ''SET y=2'', NOOP_COMMAND]));
     ensure (node_has fs 4 (\<lambda>c. map le_command (rlog c) = [NOOP_COMMAND, ''SET x=1'', ''SET y=2'', NOOP_COMMAND]))
   }"

definition test_fresh_node_catches_up_from_empty :: "unit option" where
  "test_fresh_node_catches_up_from_empty = do {
     fs \<leftarrow> three_cores;
     fs \<leftarrow> win_election b3t 1 [2, 3] fs;
     fs \<leftarrow> append_at 1 [''SET a=1'', ''SET b=2''] fs;
     (_, fs) \<leftarrow> replication_round b3t 1 [2] 3 fs;
     ensure (node_has fs 1 (\<lambda>c. commit_index c = 3));
     ensure (node_has fs 2 (\<lambda>c. length (rlog c) = 3));
     ensure (node_has fs 3 (\<lambda>c. length (rlog c) = 0));
     fs \<leftarrow> drain 3 fs;
     fs \<leftarrow> heartbeats b3t 1 [3] (\<lambda>fs. node_has fs 3 (\<lambda>c. length (rlog c) \<ge> 3)) 5 fs;
     ensure (node_has fs 3 (\<lambda>c. map le_command (rlog c) = [NOOP_COMMAND, ''SET a=1'', ''SET b=2'']));
     ensure (node_has fs 3 (\<lambda>c. applied_at c = [NOOP_COMMAND, ''SET a=1'', ''SET b=2'']))
   }"

definition failure_tests :: "unit option list" where
  "failure_tests =
     [test_leader_failover,
      test_leader_isolated_cannot_commit,
      test_split_brain_prevention,
      test_partitioned_node_rejoins,
      test_stale_leader_steps_down,
      test_state_machine_recovery_after_reelection,
      test_uncommitted_entries_committed_via_noop,
      test_fresh_node_catches_up_from_empty]"

lemma failure_tests_pass: "all_pass failure_tests"
  unfolding failure_tests_def by (intro all_pass_intros; code_simp)

section \<open>Reads\<close>

definition test_read_index_not_leader :: "unit option" where
  "test_read_index_not_leader = do {
     fs \<leftarrow> three_cores;
     (result, fs) \<leftarrow> read_round b3t 1 [] fs;
     r \<leftarrow> result;
     ensure (is_not_leader r)
   }"

definition test_read_index_as_leader :: "unit option" where
  "test_read_index_as_leader = do {
     fs \<leftarrow> three_cores;
     fs \<leftarrow> win_election b3t 1 [2, 3] fs;
     (_, fs) \<leftarrow> heartbeat_round b3t 1 [2, 3] fs;
     (result, fs) \<leftarrow> read_round b3t 1 [2, 3] fs;
     r \<leftarrow> result;
     i \<leftarrow> must r;
     ensure (node_has fs 1 (\<lambda>c. i \<ge> commit_index c))
   }"

definition test_read_index_returns_last_applied :: "unit option" where
  "test_read_index_returns_last_applied = do {
     fs \<leftarrow> three_cores;
     fs \<leftarrow> win_election b3t 1 [2, 3] fs;
     fs \<leftarrow> append_at 1 [''CMD 1''] fs;
     (_, fs) \<leftarrow> replication_round b3t 1 [2, 3] 2 fs;
     (_, fs) \<leftarrow> heartbeat_round b3t 1 [2, 3] fs;
     (result, fs) \<leftarrow> read_round b3t 1 [2, 3] fs;
     r \<leftarrow> result;
     i \<leftarrow> must r;
     ensure (node_has fs 1 (\<lambda>c. i = last_applied c))
   }"

definition test_read_index_timeout_no_majority :: "unit option" where
  "test_read_index_timeout_no_majority = do {
     fs \<leftarrow> three_cores;
     fs \<leftarrow> change 1 lead fs;
     ensure (node_has fs 1 (\<lambda>c. role c = Leader));
     (_, fs) \<leftarrow> heartbeat_round (three_bench (Some 50)) 1 [] fs;
     (result, fs) \<leftarrow> read_round (three_bench (Some 50)) 1 [] fs;
     r \<leftarrow> result;
     ensure (r = Err ReadTimeout)
   }"

definition test_read_index_leader_steps_down :: "unit option" where
  "test_read_index_leader_steps_down = do {
     fs \<leftarrow> three_cores;
     fs \<leftarrow> change 2 (\<lambda>c. Some (c\<lparr>current_term := 5\<rparr>)) fs;
     fs \<leftarrow> change 1 lead fs;
     ensure (node_has fs 1 (\<lambda>c. role c = Leader));
     (_, fs) \<leftarrow> heartbeat_round b3t 1 [2, 3] fs;
     (result, fs) \<leftarrow> read_round b3t 1 [2, 3] fs;
     r \<leftarrow> result;
     ensure (is_not_leader r);
     ensure (node_has fs 1 (\<lambda>c. role c = Follower))
   }"

definition test_read_index_with_pending_entries :: "unit option" where
  "test_read_index_with_pending_entries = do {
     fs \<leftarrow> three_cores;
     fs \<leftarrow> win_election b3t 1 [2, 3] fs;
     fs \<leftarrow> append_at 1 (map cmd (from_to 1 5)) fs;
     (_, fs) \<leftarrow> replication_round b3t 1 [2, 3] 6 fs;
     ensure (node_has fs 1 (\<lambda>c. commit_index c = 6));
     (_, fs) \<leftarrow> heartbeat_round b3t 1 [2, 3] fs;
     (result, fs) \<leftarrow> read_round b3t 1 [2, 3] fs;
     r \<leftarrow> result;
     i \<leftarrow> must r;
     ensure (i \<ge> 6)
   }"

definition read_tests :: "unit option list" where
  "read_tests =
     [test_read_index_not_leader,
      test_read_index_as_leader,
      test_read_index_returns_last_applied,
      test_read_index_timeout_no_majority,
      test_read_index_leader_steps_down,
      test_read_index_with_pending_entries]"

lemma read_tests_pass: "all_pass read_tests"
  unfolding read_tests_def by (intro all_pass_intros; code_simp)

section \<open>Validation of commands\<close>

text \<open>A state machine without state: the state of its carrier type is never touched.\<close>

definition validating_ops :: "'m sm_ops" where
  "validating_ops =
     \<lparr>sm_validate = \<lambda>m x. if take 7 x = ''INVALID'' then Err (''rejected command: '' @ x) else Ok (),
      sm_apply = \<lambda>m x. (m, Ok []),
      sm_snapshot = \<lambda>m. Ok [],
      sm_restore = \<lambda>m d. Ok m\<rparr>"

definition new_validating_core :: "u64 \<Rightarrow> u64 list \<Rightarrow> test_core option" where
  "new_validating_core i ps = raft_core_new mem_ops validating_ops 0 i ps mem_new tsm_new"

definition validating_bench :: "test_sm bench" where
  "validating_bench =
     \<lparr>machines = \<lambda>p. if p = 1 then validating_ops else test_ops, net_ids = [1, 2, 3], net_timeout = Some 100\<rparr>"

definition validating_cores :: "test_sm nodes option" where
  "validating_cores = do {
     c1 \<leftarrow> new_validating_core 1 [2, 3];
     c2 \<leftarrow> new_test_core 2 [1, 3];
     c3 \<leftarrow> new_test_core 3 [1, 2];
     Some [(1, idle c1), (2, idle c2), (3, idle c3)]
   }"

definition test_invalid_command_rejected_before_log_append :: "unit option" where
  "test_invalid_command_rejected_before_log_append = do {
     fs \<leftarrow> validating_cores;
     fs \<leftarrow> win_election validating_bench 1 [2, 3] fs;
     (result, fs) \<leftarrow> submit_round validating_bench 1 [] ''INVALID command'' fs;
     ensure (case result of Err (InvalidCommand msg) \<Rightarrow> contains msg ''INVALID'' | _ \<Rightarrow> False);
     ensure (node_has fs 1 (\<lambda>c. length (rlog c) = 1 \<and> le_command (rlog c ! 0) = NOOP_COMMAND))
   }"

definition test_valid_command_accepted_after_validation :: "unit option" where
  "test_valid_command_accepted_after_validation = do {
     fs \<leftarrow> validating_cores;
     fs \<leftarrow> win_election validating_bench 1 [2, 3] fs;
     (result, fs) \<leftarrow> submit_round validating_bench 1 [2, 3] ''VALID command'' fs;
     ensure (is_ok result);
     ensure (node_has fs 1 (\<lambda>c. length (rlog c) = 2 \<and> le_command (rlog c ! 1) = ''VALID command''))
   }"

definition validation_tests :: "unit option list" where
  "validation_tests =
     [test_invalid_command_rejected_before_log_append,
      test_valid_command_accepted_after_validation]"

lemma validation_tests_pass: "all_pass validation_tests"
  unfolding validation_tests_def by (intro all_pass_intros; code_simp)

end
