(* ===== verification/Server_Snapshot_Tests.thy ===== *)
theory Server_Snapshot_Tests
  imports Test_Nodes
begin

text \<open>
  The unit tests of src/core/raft\_server.rs that replicate across automatic snapshots.
\<close>

section \<open>Means\<close>

abbreviation "bkv \<equiv> kv_bench [1, 2, 3] (Some 100)"

definition with_thresholds :: "u64 \<Rightarrow> u64 \<Rightarrow> kv_store nodes option" where
  "with_thresholds leader others = do {
     fs \<leftarrow> three_kv_cores;
     fs \<leftarrow> change 1 (\<lambda>c. Some (set_snapshot_threshold leader c)) fs;
     fs \<leftarrow> change 2 (\<lambda>c. Some (set_snapshot_threshold others c)) fs;
     change 3 (\<lambda>c. Some (set_snapshot_threshold others c)) fs
   }"

text \<open>One command after the other, each appended and replicated.\<close>

fun one_by_one :: "string list \<Rightarrow> kv_store nodes \<Rightarrow> kv_store nodes option" where
  "one_by_one [] fs = Some fs"
| "one_by_one (x # xs) fs = do {
     fs \<leftarrow> append_at 1 [x] fs;
     n \<leftarrow> map_option last_log_index (core_of fs 1);
     (_, fs) \<leftarrow> replication_round bkv 1 [2, 3] n fs;
     one_by_one xs fs
   }"

definition same_last_log :: "kv_store nodes \<Rightarrow> bool" where
  "same_last_log fs \<longleftrightarrow>
     map_option last_log_index (core_of fs 2) = map_option last_log_index (core_of fs 1) \<and>
     map_option last_log_index (core_of fs 3) = map_option last_log_index (core_of fs 1)"

section \<open>The tests\<close>

definition test_snapshot_with_heartbeat_replication :: "unit option" where
  "test_snapshot_with_heartbeat_replication = do {
     fs \<leftarrow> with_thresholds 5 5;
     fs \<leftarrow> win_election bkv 1 [2, 3] fs;
     fs \<leftarrow> append_at 1 (map set_cmd (from_to 1 10)) fs;
     fs \<leftarrow> heartbeats bkv 1 [2, 3] (\<lambda>fs. node_has fs 1 (\<lambda>c. commit_index c \<ge> 11)) 15 fs;
     ensure (node_has fs 1 (\<lambda>c. snapshot_last_index c > 0 \<and> commit_index c \<ge> 11));
     fs \<leftarrow> append_at 1 (map set_cmd (from_to 11 15)) fs;
     fs \<leftarrow> heartbeats bkv 1 [2, 3] (\<lambda>fs. node_has fs 1 (\<lambda>c. commit_index c \<ge> last_log_index c)) 15 fs;
     ensure (same_last_log fs);
     ensure (node_has fs 1 (\<lambda>c. commit_index c = last_log_index c))
   }"

definition test_leader_snapshots_before_followers :: "unit option" where
  "test_leader_snapshots_before_followers = do {
     fs \<leftarrow> with_thresholds 10 100;
     fs \<leftarrow> win_election bkv 1 [2, 3] fs;
     fs \<leftarrow> append_at 1 (map set_cmd (from_to 1 9)) fs;
     fs \<leftarrow> heartbeats bkv 1 [2, 3] (\<lambda>fs. False) 5 fs;
     ensure (node_has fs 1 (\<lambda>c. snapshot_last_index c \<ge> 10));
     ensure (node_has fs 2 (\<lambda>c. snapshot_last_index c = 0));
     ensure (node_has fs 3 (\<lambda>c. snapshot_last_index c = 0));
     fs \<leftarrow> append_at 1 [''SET k10 v10''] fs;
     (_, fs) \<leftarrow> heartbeat_round bkv 1 [2, 3] fs;
     ensure (node_has fs 1 (\<lambda>c. commit_index c \<ge> 11));
     ensure (node_has fs 2 (\<lambda>c. last_log_index c = 11));
     ensure (node_has fs 3 (\<lambda>c. last_log_index c = 11))
   }"

definition test_followers_snapshot_before_leader :: "unit option" where
  "test_followers_snapshot_before_leader = do {
     fs \<leftarrow> with_thresholds 100 10;
     fs \<leftarrow> win_election bkv 1 [2, 3] fs;
     fs \<leftarrow> append_at 1 (map set_cmd (from_to 1 9)) fs;
     fs \<leftarrow> heartbeats bkv 1 [2, 3] (\<lambda>fs. False) 5 fs;
     ensure (node_has fs 1 (\<lambda>c. snapshot_last_index c = 0));
     ensure (node_has fs 2 (\<lambda>c. snapshot_last_index c \<ge> 10));
     ensure (node_has fs 3 (\<lambda>c. snapshot_last_index c \<ge> 10));
     fs \<leftarrow> append_at 1 [''SET k10 v10''] fs;
     (_, fs) \<leftarrow> heartbeat_round bkv 1 [2, 3] fs;
     ensure (node_has fs 1 (\<lambda>c. commit_index c \<ge> 11));
     ensure (node_has fs 2 (\<lambda>c. last_log_index c = 11));
     ensure (node_has fs 3 (\<lambda>c. last_log_index c = 11))
   }"

definition test_replication_continues_after_snapshot :: "unit option" where
  "test_replication_continues_after_snapshot = do {
     fs \<leftarrow> with_thresholds 5 5;
     fs \<leftarrow> win_election bkv 1 [2, 3] fs;
     fs \<leftarrow> one_by_one (map set_cmd (from_to 1 6)) fs;
     ensure (node_has fs 1 (\<lambda>c. commit_index c \<ge> 5 \<and> snapshot_last_index c > 0));
     fs \<leftarrow> one_by_one (map set_cmd (from_to 7 10)) fs;
     ensure (node_has fs 1 (\<lambda>c. commit_index c \<ge> last_log_index c));
     ensure (same_last_log fs)
   }"

definition server_snapshot_tests :: "unit option list" where
  "server_snapshot_tests =
     [test_snapshot_with_heartbeat_replication,
      test_leader_snapshots_before_followers,
      test_followers_snapshot_before_leader,
      test_replication_continues_after_snapshot]"

lemma test_snapshot_with_heartbeat_replication_passes: "test_snapshot_with_heartbeat_replication = Some ()"
  by code_simp

lemma test_leader_snapshots_before_followers_passes: "test_leader_snapshots_before_followers = Some ()"
  by code_simp

lemma test_followers_snapshot_before_leader_passes: "test_followers_snapshot_before_leader = Some ()"
  by code_simp

lemma test_replication_continues_after_snapshot_passes: "test_replication_continues_after_snapshot = Some ()"
  by code_simp

lemma server_snapshot_tests_pass: "all_pass server_snapshot_tests"
    by (simp add: server_snapshot_tests_def all_pass_def test_snapshot_with_heartbeat_replication_passes
      test_leader_snapshots_before_followers_passes test_followers_snapshot_before_leader_passes
      test_replication_continues_after_snapshot_passes)

end
