(* ===== verification/Api_Tests.thy ===== *)
theory Api_Tests
  imports Test_Nodes Client_Api
begin

text \<open>
  The unit tests of src/api/client\_http.rs: the route of the request, the handler behind it, and the status of
  its answer; the JSON text of the bodies is left to axum and serde.
\<close>

section \<open>Leader and status\<close>

definition test_leader_endpoint_follower :: "unit option" where
  "test_leader_endpoint_follower = do {
     c \<leftarrow> new_test_core 1 [2, 3];
     ensure (client_router GET ''/client/leader'' = Some LeaderEndpoint);
     let result = api_leader_core c;
     ensure (lr_node_id result = 1 \<and> \<not> is_leader result \<and> lr_leader_id result = None)
   }"

definition test_leader_endpoint_leader :: "unit option" where
  "test_leader_endpoint_leader = do {
     c \<leftarrow> new_test_core 1 [2, 3];
     c \<leftarrow> lead c;
     ensure (client_router GET ''/client/leader'' = Some LeaderEndpoint);
     let result = api_leader_core c;
     ensure (lr_node_id result = 1 \<and> is_leader result \<and> lr_leader_id result = Some 1)
   }"

definition test_status_endpoint :: "unit option" where
  "test_status_endpoint = do {
     c \<leftarrow> new_test_core 1 [2, 3];
     let c = c\<lparr>current_term := 5, commit_index := 3, last_applied := 2\<rparr>;
     ensure (client_router GET ''/client/status'' = Some StatusEndpoint);
     let result = api_status_core c;
     ensure (sr_node_id result = 1 \<and> sr_state result = ''Follower'' \<and> sr_term result = 5);
     ensure (sr_commit_index result = 3 \<and> sr_last_applied result = 2)
   }"

section \<open>Submitting\<close>

definition submit_http ::
  "'m bench \<Rightarrow> u64 \<Rightarrow> u64 list \<Rightarrow> string \<Rightarrow> 'm nodes \<Rightarrow> (submit_response answer \<times> 'm nodes) option" where
  "submit_http b i live x =
     run_round b i live (\<lambda>N. api_submit mem_ops (machines b i) N True True \<lparr>submit_command = x\<rparr>)
       (submit_requests b i x)"

definition test_submit_not_leader_full :: "unit option" where
  "test_submit_not_leader_full = do {
     fs \<leftarrow> three_cores;
     ensure (client_router_full POST ''/client/submit'' = Some SubmitEndpoint);
     (answer, fs) \<leftarrow> submit_http b3t 1 [] ''SET x=1'' fs;
     ensure (status_of answer = SERVICE_UNAVAILABLE);
     ensure (case answer of Err (_, e) \<Rightarrow> error_text e = ''Not the leader'' | Ok _ \<Rightarrow> False)
   }"

definition test_submit_as_leader_full :: "unit option" where
  "test_submit_as_leader_full = do {
     fs \<leftarrow> three_cores;
     fs \<leftarrow> win_election b3t 1 [2, 3] fs;
     (answer, fs) \<leftarrow> submit_http b3t 1 [2, 3] ''SET x=42'' fs;
     ensure (status_of answer = 200);
     ensure (case answer of Ok r \<Rightarrow> submit_result r = [] | Err _ \<Rightarrow> False);
     ensure (node_has fs 1 (\<lambda>c. commit_index c = 2 \<and> last_applied c = 2))
   }"

text \<open>The state machine of the last test; the state of its carrier type is never touched.\<close>

definition rejecting_ops :: "'m sm_ops" where
  "rejecting_ops =
     \<lparr>sm_validate = \<lambda>m x. if take 7 x = ''INVALID'' then Err (''rejected: '' @ x) else Ok (),
      sm_apply = \<lambda>m x. (m, Ok []),
      sm_snapshot = \<lambda>m. Ok [],
      sm_restore = \<lambda>m d. Ok m\<rparr>"

definition rejecting_bench :: "test_sm bench" where
  "rejecting_bench = (three_bench (Some 100))\<lparr>machines := \<lambda>p. if p = 1 then rejecting_ops else test_ops\<rparr>"

definition test_submit_invalid_command_returns_bad_request :: "unit option" where
  "test_submit_invalid_command_returns_bad_request = do {
     c1 \<leftarrow> raft_core_new mem_ops rejecting_ops 0 1 [2, 3] mem_new tsm_new;
     c2 \<leftarrow> new_test_core 2 [1, 3];
     c3 \<leftarrow> new_test_core 3 [1, 2];
     fs \<leftarrow> win_election rejecting_bench 1 [2, 3] [(1, idle c1), (2, idle c2), (3, idle c3)];
     (answer, fs) \<leftarrow> submit_http rejecting_bench 1 [] ''INVALID command'' fs;
     ensure (status_of answer = BAD_REQUEST);
     ensure (case answer of
       Err (_, e) \<Rightarrow> contains (error_text e) ''Invalid command'' \<and> contains (error_text e) ''INVALID'' | Ok _ \<Rightarrow> False);
     ensure (node_has fs 1 (\<lambda>c. length (rlog c) = 1))
   }"

definition api_tests :: "unit option list" where
  "api_tests =
     [test_leader_endpoint_follower,
      test_leader_endpoint_leader,
      test_status_endpoint,
      test_submit_not_leader_full,
      test_submit_as_leader_full,
      test_submit_invalid_command_returns_bad_request]"

lemma api_tests_pass: "all_pass api_tests"
  unfolding api_tests_def by (intro all_pass_intros; code_simp)

end
