(* ===== verification/Test_Suite.thy ===== *)
theory Test_Suite
  imports Core_Tests Snapshot_Tests Store_Tests Checker_Tests Node_Tests Server_Tests Server_Snapshot_Tests Api_Tests
begin

text \<open>All unit tests that the theories \<open>*_Tests\<close> hold.\<close>

definition unit_tests :: "unit option list" where
  "unit_tests =
     vote_tests @ replication_tests @ scenario_tests @ restart_tests @
     install_tests @ automatic_tests @ hint_tests @
     kv_tests @ memory_tests @ history_tests @ one_key_tests @ several_keys_tests @ indeterminate_tests @
     inmem_tests @ http_tests @ node_tests @ node_snapshot_tests @
     server_tests @ failure_tests @ read_tests @ validation_tests @ server_snapshot_tests @ api_tests"

lemmas group_defs =
  vote_tests_def replication_tests_def scenario_tests_def restart_tests_def install_tests_def automatic_tests_def
  hint_tests_def kv_tests_def memory_tests_def history_tests_def one_key_tests_def several_keys_tests_def
  indeterminate_tests_def inmem_tests_def http_tests_def node_tests_def node_snapshot_tests_def server_tests_def
  failure_tests_def read_tests_def validation_tests_def server_snapshot_tests_def api_tests_def

lemmas groups_pass =
  vote_tests_pass replication_tests_pass scenario_tests_pass restart_tests_pass install_tests_pass automatic_tests_pass
  hint_tests_pass kv_tests_pass memory_tests_pass history_tests_pass one_key_tests_pass several_keys_tests_pass
  indeterminate_tests_pass inmem_tests_pass http_tests_pass node_tests_pass node_snapshot_tests_pass server_tests_pass
  failure_tests_pass read_tests_pass validation_tests_pass server_snapshot_tests_pass api_tests_pass

text \<open>
  A check of the model, not a property: it passes the unit tests that the authors of the code wrote for the core, the stores, the
  in-memory transport, the nodes, the server, its HTTP interface, the history and the checker: 205 tests, each one
  evaluated in the kernel.
\<close>

theorem unit_tests_pass: "all_pass unit_tests \<and> length unit_tests = 205"
  unfolding unit_tests_def by (simp add: all_pass_append groups_pass) (simp add: group_defs)

end
