(* ===== verification/Spec2Isabelle.thy ===== *)
theory Spec2Isabelle
  imports
    Core_Properties Server_Properties Crash_Properties Safety_Properties Storage_Properties Lin_Properties
    Client_Properties Docker_Properties Test_Suite
begin

text \<open>
  Verification library for the Raft implementation of this repository (\<open>src/\<close>) and its
  linearizability tester (\<open>chaos-test/\<close>).

  The program. A process runs one \<open>RaftNode\<close> (src/core/raft\_node.rs) around one \<open>RaftCore\<close>
  (src/core/raft\_core.rs), the state machine of the consensus algorithm, behind a lock. The core writes
  its term, vote, log and snapshots to a \<open>Storage\<close> (src/storage) and applies committed commands to a
  state machine (src/state\_machine). A server loop (src/core/raft\_server.rs) takes client commands and
  reads, sends heartbeats and starts elections; the RPCs of the other nodes come in beside it through a
  transport (src/transport) and take the same lock. Clients talk HTTP to src/api/client\_http.rs. The
  tester records what its clients saw (chaos-test/src/history.rs, client.rs) and decides whether it is
  linearizable (checker.rs).

  Which theory models what.

  \<^item> \<open>Raft_Prelude\<close>, \<open>Rust_Strings\<close>: machine integers, Rust results, hash maps; the string functions
    of the standard library that the program uses.
  \<^item> \<open>Raft_Types\<close>: log entries, RPC arguments and results, the traits \<open>Storage\<close> and \<open>Snapshotable\<close>
    as tables of operations.
  \<^item> \<open>Raft_Core\<close>: every method of \<open>RaftCore\<close>. \<open>Raft_Vote\<close>, \<open>Raft_Log\<close>, \<open>Raft_Leader\<close> and
    \<open>Raft_Invariant\<close> hold its lemmas: frames, terms and votes; the log against the merge of the Raft
    paper; the leader's bookkeeping and commit rule; well-formedness along runs.
  \<^item> \<open>Raft_Node\<close>, \<open>Raft_Server\<close>: the requests a node builds, how it folds the replies, the server loop.
  \<^item> \<open>Cluster\<close>: several nodes and the vote messages between them. \<open>Log_Cluster\<close>: the same with the
    AppendEntries messages, over a network that loses, delays, duplicates and reorders. \<open>Commit_Logs\<close>,
    \<open>Commit_Safety\<close>, \<open>Commit_Elections\<close> and \<open>Commit_Replication\<close> carry the argument of the Raft paper over
    it: histories of entries, the invariant with the past of a run, leader completeness, and each step.
    \<open>Commit_Machine\<close>: the state machine of every node is the replay of its applied log.
  \<^item> \<open>Storage_Contract\<close>: the laws of the storage as two locales, interpreted in \<open>Memory_Storage\<close>
    (memory.rs) and in \<open>File_Storage\<close> (file.rs, where every call to the file system may fail and a file that is
    no UTF-8 text is not read).
  \<^item> \<open>Key_Value\<close>: the key-value store and the recording state machine of the tests.
  \<^item> \<open>Transports\<close>, \<open>Client_Api\<close>, \<open>Server_Main\<close>, \<open>Test_Client\<close>: the two transports, the HTTP handlers,
    the command line and the nodes of a test cluster, the client of the tester.
  \<^item> \<open>Docker_Cluster\<close>: the containers that the tester kills and partitions, over a shell that is a parameter.
    What the properties of the partitions rely on is \<open>documented_shell\<close> (commands in running containers, for the
    rules that the tester adds, nothing else disturbing them), \<open>documented_verdict\<close> (what these rules say of a
    packet) and \<open>only_drops\<close> (no other rule accepts a packet first).
  \<^item> \<open>Lin_History\<close>, \<open>Lin_Checker\<close>: histories and the Wing-Gong checker.
  \<^item> \<open>Core_Properties\<close>, \<open>Server_Properties\<close>, \<open>Crash_Properties\<close>, \<open>Replication_Properties\<close>, \<open>Safety_Properties\<close>, \<open>Storage_Properties\<close>,
    \<open>Lin_Properties\<close>, \<open>Client_Properties\<close>, \<open>Docker_Properties\<close>: the properties, with their witnesses. \<open>Scenarios\<close>: concrete
    nodes for them.
  \<^item> \<open>Core_Tests\<close>, \<open>Snapshot_Tests\<close>, \<open>Store_Tests\<close>, \<open>Checker_Tests\<close>, \<open>Transport_Tests\<close>, \<open>Node_Tests\<close>,
    \<open>Server_Tests\<close>, \<open>Server_Snapshot_Tests\<close>, \<open>Api_Tests\<close>: the unit tests of the program, run on the model and collected in
    \<open>Test_Suite\<close>, a check of the translation rather than a property. \<open>Test_Means\<close>, \<open>Test_Cores\<close> and \<open>Test_Nodes\<close> hold what they share; \<open>Test_Nodes\<close> composes the
    node, the in-memory transport and the handlers of the core into a cluster with message queues.

  How state and effects are modelled. A struct is a record, and a method with \<open>&mut self\<close> a function
  that returns the new record, in an option where the code can panic (\<open>expect\<close>, \<open>panic!\<close>) and in a
  sum where it returns a \<open>Result\<close>. A failed operation of a storage comes with the storage it leaves behind: the core
  goes on with it after a failed snapshot or compaction, and panics after any other failure. A \<open>u64\<close> is a 64-bit word and wraps around as in the release
  profile. Between two holdings of the lock the other tasks of the process may act: such a gap is a
  function on the core (\<open>others\<close>), over which the properties quantify. An \<open>async\<close> operation gets the
  replies of its peers and the order of their arrival as an argument (\<open>network\<close>). A confirmation of the leadership that
  has neither a majority nor all replies is still waiting (\<open>None\<close>), and the read with it; for the other operations the
  arguments are the replies that arrived.

  What holds under conditions, and why. Several properties carry conditions that the code does not ensure, and
  other properties show what happens without them. Election safety needs that a restart finds the term and
  the vote on disk: it does for every storage that meets the contract, except after \<open>confirm_leadership\<close> took over a
  term in memory only, which ends in two votes in one term. The agreement of committed entries needs that
  AppendEntries comes from leaders only and carries no commit index behind its entries: \<open>replicate_to_peers\<close> and
  \<open>confirm_leadership\<close> can break this, and committed entries are then overwritten or stale ones applied. Log
  matching and the merge need a log without a snapshot or without conflicts behind it: \<open>persist_truncate_log\<close>
  removes from the wrong position there. These theorems on defects are stated over any nodes and messages with
  the named properties, and their witnesses are runs that reach such nodes.

  Bounds and fuel. No definition uses fuel: \<open>apply_loop\<close>, \<open>find_first_index_for_term\<close>, the search of the
  checker and the retry loop of the client terminate by measures; \<open>wait_applied\<close> runs over the rounds it
  is given, and its result \<open>None\<close> means that it is still waiting. Where an index or a term would have to
  exceed 64 bits, the statements exclude it by a hypothesis (\<open>log_room\<close>, \<open>event_ok\<close>).

  Parameters. The JSON encoding of entries, snapshots and bodies is serde's; the reading of the clock,
  the order in which a hash set is visited and what happens to a message on the network are arguments.

  Not modelled: sockets, channels and the spawning of tasks, console output. Of the unit tests those over
  files, over HTTP servers, of the client and the runner of the tester, and two of the core with logs of a
  hundred entries; of the integration tests in tests/, which need running processes, none.
\<close>

end
